(* ===== verification/Prelude.thy ===== *)
theory Prelude
  imports Main "HOL-Library.Multiset" "HOL-Library.Sublist"
begin

text \<open>
  The part of the Go language and of its standard library that the modelled packages
  use, with the lemmas the component theories share.

  \<^item> Integers. \<open>int\<close> and \<open>int64\<close> are the same 64-bit type on the supported platforms.
    A Go integer is an HOL \<^typ>\<open>int\<close>; every operation of the source that can leave the
    64-bit range is written with the wrap-around function \<open>i64\<close>. Division and remainder
    truncate toward zero (\<open>go_quot\<close>, \<open>go_rem\<close>).
  \<^item> Strings. A Go string is a sequence of bytes, here a \<^typ>\<open>string\<close> (a list of
    8-bit characters). \<open>TrimSpace\<close>, \<open>Fields\<close>, \<open>ToLower\<close> and \<open>EqualFold\<close> are given
    on ASCII; bytes of 128 and above are neither space nor letters here.
  \<^item> Sorting. \<open>sort.Slice\<close> promises a permutation ordered by the comparison, and not
    stability. Code that sorts takes the sorting function as a parameter constrained
    by the locale \<open>slice_sort\<close>; the insertion sort that the Go library runs on short
    slices is an instance.
\<close>

section \<open>Proof collections\<close>

named_theorems go_string "equations of the Go string functions"
named_theorems go_arith "equations of the Go integer operations"

section \<open>64-bit integers\<close>

definition i64 :: "int \<Rightarrow> int" where
  "i64 x = (x + 2 ^ 63) mod 2 ^ 64 - 2 ^ 63"

definition in_i64 :: "int \<Rightarrow> bool" where
  "in_i64 x \<longleftrightarrow> - (2 ^ 63) \<le> x \<and> x < 2 ^ 63"

definition clamp64 :: "int \<Rightarrow> int" where
  "clamp64 x = max (- (2 ^ 63)) (min (2 ^ 63 - 1) x)"

definition go_quot :: "int \<Rightarrow> int \<Rightarrow> int" where
  "go_quot a b = sgn a * sgn b * (\<bar>a\<bar> div \<bar>b\<bar>)"

definition go_rem :: "int \<Rightarrow> int \<Rightarrow> int" where
  "go_rem a b = sgn a * (\<bar>a\<bar> mod \<bar>b\<bar>)"

lemma in_i64_i64 [simp]: "in_i64 (i64 x)"
  by (simp add: i64_def in_i64_def)

lemma i64_id [go_arith]: "in_i64 x \<Longrightarrow> i64 x = x"
  by (simp add: i64_def in_i64_def)

lemma clamp64_id [go_arith]: "in_i64 x \<Longrightarrow> clamp64 x = x"
  by (auto simp: clamp64_def in_i64_def)

lemma clamp64_bounds: "in_i64 (clamp64 x)"
  by (auto simp: clamp64_def in_i64_def)

lemma go_quot_nonneg [go_arith]: "0 \<le> a \<Longrightarrow> 0 < b \<Longrightarrow> go_quot a b = a div b"
  by (auto simp: go_quot_def sgn_if)

lemma go_rem_nonneg [go_arith]: "0 \<le> a \<Longrightarrow> go_rem a b = a mod \<bar>b\<bar>"
  by (auto simp: go_rem_def sgn_if)

lemma go_quot_rem: "b \<noteq> 0 \<Longrightarrow> b * go_quot a b + go_rem a b = a"
proof -
  have "\<bar>b\<bar> * (\<bar>a\<bar> div \<bar>b\<bar>) + \<bar>a\<bar> mod \<bar>b\<bar> = \<bar>a\<bar>"
    by simp
  then have "sgn a * (sgn b * b * (\<bar>a\<bar> div \<bar>b\<bar>) + \<bar>a\<bar> mod \<bar>b\<bar>) = sgn a * \<bar>a\<bar>"
    by (simp add: sgn_mult_abs abs_sgn mult.commute)
  then show ?thesis
    using abs_mult_sgn [of a] by (simp add: go_quot_def go_rem_def algebra_simps)
qed

lemma go_rem_bounds: "b > 0 \<Longrightarrow> - b < go_rem a b \<and> go_rem a b < b"
  by (auto simp: go_rem_def sgn_if) (smt (verit) pos_mod_bound pos_mod_sign)+

text \<open>The two-step reduction the schedule code uses (\<open>rem := x % step; if rem < 0 { rem += step }\<close>).\<close>

lemma go_rem_fix:
  assumes "b > 0"
  shows "(if go_rem a b < 0 then go_rem a b + b else go_rem a b) = a mod b"
proof -
  have "a = b * go_quot a b + go_rem a b"
    using go_quot_rem [of b a] assms by simp
  then have "a mod b = go_rem a b mod b"
    by (metis mod_mult_self4 mult.commute)
  moreover have "go_rem a b mod b = (if go_rem a b < 0 then go_rem a b + b else go_rem a b)"
  proof (cases "go_rem a b < 0")
    case True
    then have "(go_rem a b + b) mod b = go_rem a b + b"
      using go_rem_bounds [OF assms, of a] by (intro mod_pos_pos_trivial) auto
    with True show ?thesis by simp
  next
    case False
    then show ?thesis
      using go_rem_bounds [OF assms, of a] by (simp add: mod_pos_pos_trivial)
  qed
  ultimately show ?thesis by simp
qed

section \<open>Strings\<close>

abbreviation has_prefix :: "string \<Rightarrow> string \<Rightarrow> bool" where
  "has_prefix s p \<equiv> prefix p s"

abbreviation has_suffix :: "string \<Rightarrow> string \<Rightarrow> bool" where
  "has_suffix s p \<equiv> suffix p s"

definition trim_suffix :: "string \<Rightarrow> string \<Rightarrow> string" where
  "trim_suffix s p = (if has_suffix s p then take (length s - length p) s else s)"

definition trim_prefix :: "string \<Rightarrow> string \<Rightarrow> string" where
  "trim_prefix s p = (if has_prefix s p then drop (length p) s else s)"

text \<open>\<open>strings.Split\<close> on a one-byte separator, and \<open>strings.SplitN\<close> with \<open>n = 2\<close>.\<close>

fun split_char :: "char \<Rightarrow> string \<Rightarrow> string list" where
  "split_char c [] = [[]]"
| "split_char c (x # xs) =
     (if x = c then [] # split_char c xs
      else (case split_char c xs of [] \<Rightarrow> [[x]] | y # ys \<Rightarrow> (x # y) # ys))"

definition splitn2 :: "char \<Rightarrow> string \<Rightarrow> string list" where
  "splitn2 c s =
     (if c \<in> set s then [takeWhile (\<lambda>x. x \<noteq> c) s, tl (dropWhile (\<lambda>x. x \<noteq> c) s)] else [s])"

fun join :: "string \<Rightarrow> string list \<Rightarrow> string" where
  "join sep [] = []"
| "join sep [x] = x"
| "join sep (x # y # xs) = x @ sep @ join sep (y # xs)"

fun contains :: "string \<Rightarrow> string \<Rightarrow> bool" where
  "contains [] sub = (sub = [])"
| "contains (x # xs) sub = (prefix sub (x # xs) \<or> contains xs sub)"

definition contains_any :: "string \<Rightarrow> string \<Rightarrow> bool" where
  "contains_any s chars = list_ex (\<lambda>c. c \<in> set chars) s"

definition is_space :: "char \<Rightarrow> bool" where
  "is_space c \<longleftrightarrow> c \<in> set [CHR 0x20, CHR 0x09, CHR 0x0A, CHR 0x0B, CHR 0x0C, CHR 0x0D]"

definition trim_space :: "string \<Rightarrow> string" where
  "trim_space s = rev (dropWhile is_space (rev (dropWhile is_space s)))"

definition fields_step :: "char \<Rightarrow> string \<times> string list \<Rightarrow> string \<times> string list" where
  "fields_step c st =
     (case st of (cur, out) \<Rightarrow>
        if is_space c then (if cur = [] then ([], out) else ([], cur # out)) else (c # cur, out))"

text \<open>\<open>strings.Fields\<close>: the maximal runs of non-space characters, left to right.\<close>

definition str_fields :: "string \<Rightarrow> string list" where
  "str_fields s =
     (case foldr fields_step s ([], []) of
        (cur, out) \<Rightarrow> if cur = [] then out else cur # out)"

definition lower_char :: "char \<Rightarrow> char" where
  "lower_char c =
     (if (65::int) \<le> of_char c \<and> of_char c \<le> (90::int) then char_of (of_char c + 32 :: int) else c)"

definition to_lower :: "string \<Rightarrow> string" where
  "to_lower s = map lower_char s"

definition equal_fold :: "string \<Rightarrow> string \<Rightarrow> bool" where
  "equal_fold s t \<longleftrightarrow> to_lower s = to_lower t"

text \<open>\<open>strings.ReplaceAll\<close> of one byte by a string.\<close>

definition replace_char :: "char \<Rightarrow> string \<Rightarrow> string \<Rightarrow> string" where
  "replace_char c by s = concat (map (\<lambda>x. if x = c then by else [x]) s)"

subsection \<open>Decimal numbers\<close>

definition is_digit :: "char \<Rightarrow> bool" where
  "is_digit c \<longleftrightarrow> (48::int) \<le> of_char c \<and> of_char c \<le> (57::int)"

definition digit_val :: "char \<Rightarrow> int" where
  "digit_val c = of_char c - 48"

definition digit_char :: "int \<Rightarrow> char" where
  "digit_char d =
     (if d = 1 then CHR ''1'' else if d = 2 then CHR ''2'' else if d = 3 then CHR ''3''
      else if d = 4 then CHR ''4'' else if d = 5 then CHR ''5'' else if d = 6 then CHR ''6''
      else if d = 7 then CHR ''7'' else if d = 8 then CHR ''8'' else if d = 9 then CHR ''9''
      else CHR ''0'')"

definition digits_val :: "string \<Rightarrow> int" where
  "digits_val s = foldl (\<lambda>n c. 10 * n + digit_val c) 0 s"

text \<open>
  \<open>strconv.Atoi\<close>: an optional sign and at least one digit. The first component is the
  returned value, also given beside an error (0 on a syntax error, the nearest
  representable value on a range error), the second is whether the error is nil.
\<close>

definition atoi_raw :: "string \<Rightarrow> int \<times> bool" where
  "atoi_raw s =
     (let neg = (s \<noteq> [] \<and> hd s = CHR ''-'');
          body = (if s \<noteq> [] \<and> (hd s = CHR ''-'' \<or> hd s = CHR ''+'') then tl s else s)
      in if body = [] \<or> \<not> list_all is_digit body then (0, False)
         else let v = (if neg then - digits_val body else digits_val body)
              in (clamp64 v, in_i64 v))"

definition atoi :: "string \<Rightarrow> int option" where
  "atoi s = (case atoi_raw s of (v, ok) \<Rightarrow> if ok then Some v else None)"

function pos_itoa :: "int \<Rightarrow> string" where
  "pos_itoa n = (if n < 10 then [digit_char n] else pos_itoa (n div 10) @ [digit_char (n mod 10)])"
  by pat_completeness auto
termination
  by (relation "measure nat") auto

declare pos_itoa.simps [simp del]

definition itoa :: "int \<Rightarrow> string" where
  "itoa n = (if n < 0 then CHR ''-'' # pos_itoa (- n) else pos_itoa n)"

text \<open>\<open>fmt.Sprintf("%02d", n)\<close> for a non-negative number, and its \<open>%03d\<close> form.\<close>

definition pad_left :: "nat \<Rightarrow> string \<Rightarrow> string" where
  "pad_left w s = replicate (w - length s) (CHR ''0'') @ s"

section \<open>Lemmas on strings\<close>

lemma split_char_nonempty [simp]: "split_char c s \<noteq> []"
  by (induction s) (auto split: list.splits)

lemma join_split_char: "join [c] (split_char c s) = s"
proof (induction s)
  case Nil
  then show ?case by simp
next
  case (Cons x xs)
  obtain y ys where split: "split_char c xs = y # ys"
    by (cases "split_char c xs") auto
  with Cons show ?case by (cases ys) auto
qed

lemma split_char_notin: "p \<in> set (split_char c s) \<Longrightarrow> c \<notin> set p"
proof (induction s arbitrary: p)
  case Nil
  then show ?case by simp
next
  case (Cons x xs)
  obtain y ys where split: "split_char c xs = y # ys"
    by (cases "split_char c xs") auto
  with Cons.prems Cons.IH [of y] Cons.IH [of p] show ?case
    by (auto split: if_splits)
qed

lemma split_char_single [simp]: "c \<notin> set s \<Longrightarrow> split_char c s = [s]"
  by (induction s) auto

lemma split_char_append:
  "c \<notin> set s \<Longrightarrow> split_char c (s @ c # t) = s # split_char c t"
  by (induction s) auto

lemma split_char_length_le: "p \<in> set (split_char c s) \<Longrightarrow> length p \<le> length s"
proof (induction s arbitrary: p)
  case Nil
  then show ?case by simp
next
  case (Cons x xs)
  obtain y ys where split: "split_char c xs = y # ys"
    by (cases "split_char c xs") auto
  with Cons.prems Cons.IH [of y] Cons.IH [of p] show ?case
    by (auto split: if_splits)
qed

lemma split_char_subset: "p \<in> set (split_char c s) \<Longrightarrow> set p \<subseteq> set s"
  by (induction s arbitrary: p) (fastforce split: if_splits list.splits)+

lemma split_char_shorter:
  assumes "p \<in> set (split_char c s)" and "c \<in> set s"
  shows "length p < length s"
proof -
  have "p \<noteq> s" using split_char_notin [OF assms(1)] assms(2) by auto
  moreover have "length p = length s \<Longrightarrow> p = s"
    using assms(1)
  proof (induction s arbitrary: p)
    case (Cons x xs)
    obtain y ys where split: "split_char c xs = y # ys"
      by (cases "split_char c xs") auto
    with Cons.prems split_char_length_le [of p c xs] Cons.IH [of y] show ?case
      by (auto split: if_splits)
  qed simp
  ultimately show ?thesis
    using split_char_length_le [OF assms(1)] by fastforce
qed

lemma split_char_join:
  "ps \<noteq> [] \<Longrightarrow> \<forall>p \<in> set ps. c \<notin> set p \<Longrightarrow> split_char c (join [c] ps) = ps"
  by (induction "[c]" ps rule: join.induct) (auto simp: split_char_append)

lemma join_mem: "2 \<le> length ps \<Longrightarrow> c \<in> set (join [c] ps)"
  by (cases ps rule: remdups_adj.cases) auto

lemma set_join: "set (join sep ps) \<subseteq> set sep \<union> \<Union> (set ` set ps)"
  by (induction sep ps rule: join.induct) auto

lemma takeWhile_dropWhile_sep:
  "c \<notin> set a \<Longrightarrow> takeWhile (\<lambda>x. x \<noteq> c) (a @ c # b) = a \<and> dropWhile (\<lambda>x. x \<noteq> c) (a @ c # b) = c # b"
  by (induction a) auto

lemma splitn2_sep [go_string]: "c \<notin> set a \<Longrightarrow> splitn2 c (a @ c # b) = [a, b]"
  using takeWhile_dropWhile_sep [of c a b] by (simp add: splitn2_def)

lemma splitn2_split:
  assumes "c \<in> set s"
  obtains a b where "s = a @ c # b" and "c \<notin> set a" and "splitn2 c s = [a, b]"
  using split_list_first [OF assms] splitn2_sep that by metis

lemma trim_suffix_append [simp]: "trim_suffix (s @ p) p = s"
  by (auto simp: trim_suffix_def suffix_def)

lemma trim_prefix_append [simp]: "trim_prefix (p @ s) p = s"
  by (simp add: trim_prefix_def)

lemma trim_suffix_id: "\<not> has_suffix s p \<Longrightarrow> trim_suffix s p = s"
  by (simp add: trim_suffix_def)

lemma trim_space_id:
  assumes "s \<noteq> []" and "\<not> is_space (hd s)" and "\<not> is_space (last s)"
  shows "trim_space s = s"
proof -
  have "dropWhile is_space s = s" using assms(1,2) by (cases s) auto
  moreover have "dropWhile is_space (rev s) = rev s"
    using assms(1,3) by (cases s rule: rev_cases) auto
  ultimately show ?thesis by (simp add: trim_space_def)
qed

lemma replace_char_notin: "c \<notin> set by \<Longrightarrow> c \<notin> set (replace_char c by s)"
  by (auto simp: replace_char_def)

lemma replace_char_other: "d \<notin> set s \<Longrightarrow> d \<notin> set by \<Longrightarrow> d \<notin> set (replace_char c by s)"
  by (auto simp: replace_char_def split: if_splits)

section \<open>Lemmas on lists\<close>

lemma find_SomeD: "find P xs = Some x \<Longrightarrow> x \<in> set xs \<and> P x"
  by (auto simp: find_Some_iff)

lemma distinct_map_eqD:
  "distinct (map f xs) \<Longrightarrow> x \<in> set xs \<Longrightarrow> y \<in> set xs \<Longrightarrow> f x = f y \<Longrightarrow> x = y"
  by (auto simp: distinct_map inj_on_def)

lemma distinct_map_image_iff:
  assumes "distinct (map f xs)" and "x \<in> set xs" and "X \<subseteq> set xs"
  shows "f x \<in> f ` X \<longleftrightarrow> x \<in> X"
  using assms(2,3) distinct_map_eqD [OF assms(1,2)] by (metis (no_types, lifting) imageE imageI subsetD)

lemma distinct_map_filter_eq: "distinct (map f xs) \<Longrightarrow> distinct (map f (filter P xs))"
  by (induction xs) auto

section \<open>Lemmas on decimal numbers\<close>

lemma digit_char_ok [simp]:
  assumes "0 \<le> d" and "d < 10"
  shows "is_digit (digit_char d)" and "digit_val (digit_char d) = d"
proof -
  have "d = 0 \<or> d = 1 \<or> d = 2 \<or> d = 3 \<or> d = 4 \<or> d = 5 \<or> d = 6 \<or> d = 7 \<or> d = 8 \<or> d = 9"
    using assms by presburger
  then show "is_digit (digit_char d)" "digit_val (digit_char d) = d"
    by (auto simp: digit_char_def is_digit_def digit_val_def)
qed

lemma digits_val_append1: "digits_val (s @ [c]) = 10 * digits_val s + digit_val c"
  by (simp add: digits_val_def)

lemma pos_itoa_nonempty [simp]: "pos_itoa n \<noteq> []"
  by (subst pos_itoa.simps) simp

lemma pos_itoa_digits: "0 \<le> n \<Longrightarrow> list_all is_digit (pos_itoa n)"
proof (induction n rule: pos_itoa.induct)
  case (1 n)
  then show ?case by (subst pos_itoa.simps) simp
qed

lemma digits_val_pos_itoa: "0 \<le> n \<Longrightarrow> digits_val (pos_itoa n) = n"
proof (induction n rule: pos_itoa.induct)
  case (1 n)
  show ?case
  proof (cases "n < 10")
    case True
    with 1 show ?thesis by (subst pos_itoa.simps) (simp add: digits_val_def)
  next
    case False
    with 1 have "digits_val (pos_itoa (n div 10)) = n div 10" by simp
    with False show ?thesis
      by (subst pos_itoa.simps) (simp add: digits_val_append1)
  qed
qed

lemma pos_itoa_length: "0 \<le> n \<Longrightarrow> n < 10 ^ w \<Longrightarrow> 0 < w \<Longrightarrow> length (pos_itoa n) \<le> w"
proof (induction w arbitrary: n)
  case (Suc w)
  show ?case
  proof (cases "n < 10")
    case True
    with Suc.prems show ?thesis by (subst pos_itoa.simps) simp
  next
    case False
    have "w \<noteq> 0" using False Suc.prems(2) by (cases w) auto
    moreover have "n div 10 < 10 ^ w" using Suc.prems(2) by (simp add: div_less_iff_less_mult mult.commute)
    ultimately have "length (pos_itoa (n div 10)) \<le> w" using Suc.IH [of "n div 10"] Suc.prems(1) by simp
    with False show ?thesis by (subst pos_itoa.simps) simp
  qed
qed simp

lemma digit_not_sign: "is_digit c \<Longrightarrow> c \<noteq> CHR ''-'' \<and> c \<noteq> CHR ''+''"
  by (auto simp: is_digit_def)

lemma atoi_digits:
  assumes "s \<noteq> []" and "list_all is_digit s" and "in_i64 (digits_val s)"
  shows "atoi s = Some (digits_val s)"
proof -
  have "hd s \<noteq> CHR ''-'' \<and> hd s \<noteq> CHR ''+''"
    using assms(1,2) digit_not_sign by (cases s) auto
  with assms show ?thesis
    by (simp add: atoi_def atoi_raw_def Let_def clamp64_id)
qed

lemma atoi_itoa:
  assumes "in_i64 n"
  shows "atoi (itoa n) = Some n"
proof (cases "n < 0")
  case True
  with assms show ?thesis
    by (simp add: itoa_def atoi_def atoi_raw_def Let_def pos_itoa_digits digits_val_pos_itoa clamp64_id)
next
  case False
  with assms show ?thesis
    using atoi_digits [of "pos_itoa n"] by (simp add: itoa_def pos_itoa_digits digits_val_pos_itoa)
qed

lemma digit_not_space: "is_digit c \<Longrightarrow> \<not> is_space c"
  by (auto simp: is_digit_def is_space_def)

lemma trim_space_digits: "list_all is_digit s \<Longrightarrow> trim_space s = s"
proof (cases "s = []")
  case False
  assume "list_all is_digit s"
  with False have "is_digit (hd s)" "is_digit (last s)" by (simp_all add: list_all_iff)
  with False show ?thesis by (intro trim_space_id digit_not_space)
qed (simp add: trim_space_def)

lemma trim_space_digits_unit:
  "list_all is_digit s \<Longrightarrow> \<not> is_space c \<Longrightarrow> trim_space (s @ [c]) = s @ [c]"
  by (rule trim_space_id) (cases s; auto dest: digit_not_space)+

lemma itoa_digits: "0 \<le> n \<Longrightarrow> list_all is_digit (itoa n)"
  by (simp add: itoa_def pos_itoa_digits)

lemma itoa_nonempty [simp]: "itoa n \<noteq> []"
  by (simp add: itoa_def)

lemma digits_no_char: "list_all is_digit s \<Longrightarrow> \<not> is_digit c \<Longrightarrow> c \<notin> set s"
  by (auto simp: list_all_iff)

lemma atoi_in_i64: "atoi s = Some n \<Longrightarrow> in_i64 n"
  by (auto simp: atoi_def atoi_raw_def Let_def clamp64_id split: if_splits)

section \<open>Sorting a slice\<close>

text \<open>
  What \<open>sort.Slice\<close> promises for a strict weak order \<open>lt\<close>: the elements are permuted,
  and no element precedes one that is smaller than it. Which of two incomparable elements
  comes first is not promised.
\<close>

locale slice_sort =
  fixes lt :: "'a \<Rightarrow> 'a \<Rightarrow> bool"
    and srt :: "'a list \<Rightarrow> 'a list"
  assumes srt_mset: "mset (srt xs) = mset xs"
    and srt_sorted: "sorted_wrt (\<lambda>a b. \<not> lt b a) (srt xs)"
begin

lemma srt_set [simp]: "set (srt xs) = set xs"
  using srt_mset [of xs] by (rule mset_eq_setD)

lemma srt_length [simp]: "length (srt xs) = length xs"
  using srt_mset [of xs] by (rule mset_eq_length)

lemma srt_distinct_map: "distinct (map f (srt xs)) = distinct (map f xs)"
  using srt_mset [of xs] by (metis mset_map mset_eq_imp_distinct_iff)

lemma srt_empty [simp]: "srt xs = [] \<longleftrightarrow> xs = []"
  by (metis srt_length length_0_conv)

lemma srt_filter_length: "length (filter P (srt xs)) = length (filter P xs)"
  using srt_mset [of xs] by (metis mset_filter size_mset)

lemma srt_take_newest:
  assumes "a \<in> set (take n (srt xs))" and "b \<in> set (drop n (srt xs))"
  shows "\<not> lt b a"
  using assms srt_sorted [of xs]
  by (metis append_take_drop_id sorted_wrt_append)

end

text \<open>The insertion sort of the Go library, which \<open>sort.Slice\<close> runs on at most twelve elements.\<close>

fun ins_rev :: "('a \<Rightarrow> 'a \<Rightarrow> bool) \<Rightarrow> 'a \<Rightarrow> 'a list \<Rightarrow> 'a list" where
  "ins_rev lt x [] = [x]"
| "ins_rev lt x (y # ys) = (if lt x y then y # ins_rev lt x ys else x # y # ys)"

definition insertion_sort :: "('a \<Rightarrow> 'a \<Rightarrow> bool) \<Rightarrow> 'a list \<Rightarrow> 'a list" where
  "insertion_sort lt xs = rev (fold (ins_rev lt) xs [])"

lemma mset_ins_rev [simp]: "mset (ins_rev lt x ys) = add_mset x (mset ys)"
  by (induction ys) auto

lemma set_ins_rev [simp]: "set (ins_rev lt x ys) = insert x (set ys)"
  by (metis mset_ins_rev set_mset_add_mset_insert set_mset_mset)

lemma mset_fold_ins_rev: "mset (fold (ins_rev lt) xs ys) = mset xs + mset ys"
  by (induction xs arbitrary: ys) auto

locale strict_weak_order =
  fixes lt :: "'a \<Rightarrow> 'a \<Rightarrow> bool"
  assumes asym: "lt a b \<Longrightarrow> \<not> lt b a"
    and negatively_trans: "\<not> lt a b \<Longrightarrow> \<not> lt b c \<Longrightarrow> \<not> lt a c"
begin

lemma ins_rev_sorted:
  "sorted_wrt (\<lambda>a b. \<not> lt a b) ys \<Longrightarrow> sorted_wrt (\<lambda>a b. \<not> lt a b) (ins_rev lt x ys)"
  by (induction ys) (auto dest: asym negatively_trans)

lemma fold_ins_rev_sorted:
  "sorted_wrt (\<lambda>a b. \<not> lt a b) ys \<Longrightarrow> sorted_wrt (\<lambda>a b. \<not> lt a b) (fold (ins_rev lt) xs ys)"
  by (induction xs arbitrary: ys) (auto intro: ins_rev_sorted)

lemma insertion_sort_sorts: "slice_sort lt (insertion_sort lt)"
proof
  fix xs
  show "mset (insertion_sort lt xs) = mset xs"
    by (simp add: insertion_sort_def mset_fold_ins_rev)
  have "sorted_wrt (\<lambda>a b. \<not> lt a b) (fold (ins_rev lt) xs [])"
    by (simp add: fold_ins_rev_sorted)
  then show "sorted_wrt (\<lambda>a b. \<not> lt b a) (insertion_sort lt xs)"
    by (simp add: insertion_sort_def sorted_wrt_rev)
qed

end

end
