(* ===== verification/GoTime.thy ===== *)
theory GoTime
  imports Prelude
begin

text \<open>
  The part of Go's \<open>time\<close> package that the schedule and retention code uses. A
  \<open>time.Time\<close> is an instant (nanoseconds since the Unix epoch) and a location. A
  location is the function that gives the offset from UTC, in seconds, in force at a
  Unix second, so that daylight-saving changes are represented; a fixed zone is a
  constant function. A \<open>time.Duration\<close> is a number of nanoseconds (an \<open>int64\<close>).
  Calendar dates are those of the proleptic Gregorian calendar, computed by the
  400/100/4/1-year cascade of the Go library. The lemmas show that the cascade inverts
  the day count, that a date decomposes with its fields in range, and what
  \<open>time.Date\<close> does in a fixed zone.
\<close>

type_synonym duration = int
type_synonym location = "int \<Rightarrow> int"

record gotime =
  nanos :: int
  zone :: location

abbreviation (input) ns_second :: int where "ns_second \<equiv> 1000000000"
abbreviation (input) ns_minute :: int where "ns_minute \<equiv> 60000000000"
abbreviation (input) ns_hour :: int where "ns_hour \<equiv> 3600000000000"
abbreviation (input) ns_day :: int where "ns_day \<equiv> 86400000000000"

definition utc :: location where
  "utc = (\<lambda>_. 0)"

definition fixed_zone :: "location \<Rightarrow> bool" where
  "fixed_zone l \<longleftrightarrow> (\<exists>k. l = (\<lambda>_. k))"

text \<open>\<open>time.Time{}\<close> is midnight UTC on 1 January of the year 1.\<close>

definition zero_time :: gotime where
  "zero_time = \<lparr>nanos = - 62135596800 * ns_second, zone = utc\<rparr>"

definition is_zero :: "gotime \<Rightarrow> bool" where
  "is_zero t \<longleftrightarrow> nanos t = nanos zero_time"

definition after :: "gotime \<Rightarrow> gotime \<Rightarrow> bool" where
  "after t u \<longleftrightarrow> nanos t > nanos u"

definition before :: "gotime \<Rightarrow> gotime \<Rightarrow> bool" where
  "before t u \<longleftrightarrow> nanos t < nanos u"

definition add :: "gotime \<Rightarrow> duration \<Rightarrow> gotime" where
  "add t d = t\<lparr>nanos := nanos t + d\<rparr>"

text \<open>\<open>Time.Sub\<close> saturates at the bounds of \<open>int64\<close>.\<close>

definition sub :: "gotime \<Rightarrow> gotime \<Rightarrow> duration" where
  "sub t u = clamp64 (nanos t - nanos u)"

text \<open>\<open>Time.Truncate\<close> rounds down to a multiple of \<open>d\<close> since the zero time.\<close>

definition truncate_to :: "gotime \<Rightarrow> duration \<Rightarrow> gotime" where
  "truncate_to t d =
     (if d \<le> 0 then t else t\<lparr>nanos := nanos t - (nanos t - nanos zero_time) mod d\<rparr>)"

section \<open>The calendar\<close>

definition is_leap :: "int \<Rightarrow> bool" where
  "is_leap y \<longleftrightarrow> y mod 4 = 0 \<and> (y mod 100 \<noteq> 0 \<or> y mod 400 = 0)"

text \<open>Days from 1 January of the year 1 to 1 January of the year \<open>y\<close>.\<close>

definition days_before_year :: "int \<Rightarrow> int" where
  "days_before_year y = (let p = y - 1 in 365 * p + p div 4 - p div 100 + p div 400)"

definition year_yday :: "int \<Rightarrow> int \<times> int" where
  "year_yday d =
     (let n400 = d div 146097; d1 = d mod 146097;
          n100 = min 3 (d1 div 36524); d2 = d1 - 36524 * n100;
          n4 = d2 div 1461; d3 = d2 mod 1461;
          n1 = min 3 (d3 div 365)
      in (400 * n400 + 100 * n100 + 4 * n4 + n1 + 1, d3 - 365 * n1))"

fun month_days :: "bool \<Rightarrow> int \<Rightarrow> int" where
  "month_days leap m =
     (if m = 2 then (if leap then 29 else 28)
      else if m \<in> {4, 6, 9, 11} then 30 else 31)"

definition days_before_month :: "bool \<Rightarrow> int \<Rightarrow> int" where
  "days_before_month leap m =
     (if m \<le> 1 then 0 else if m = 2 then 31
      else (if leap then 1 else 0) +
        (if m = 3 then 59 else if m = 4 then 90 else if m = 5 then 120 else if m = 6 then 151
         else if m = 7 then 181 else if m = 8 then 212 else if m = 9 then 243
         else if m = 10 then 273 else if m = 11 then 304 else 334))"

text \<open>The month (1 to 12) that holds day \<open>yd\<close> (from 0) of a year.\<close>

definition month_of_yday :: "bool \<Rightarrow> int \<Rightarrow> int" where
  "month_of_yday leap yd =
     (if yd < days_before_month leap 2 then 1 else if yd < days_before_month leap 3 then 2
      else if yd < days_before_month leap 4 then 3 else if yd < days_before_month leap 5 then 4
      else if yd < days_before_month leap 6 then 5 else if yd < days_before_month leap 7 then 6
      else if yd < days_before_month leap 8 then 7 else if yd < days_before_month leap 9 then 8
      else if yd < days_before_month leap 10 then 9 else if yd < days_before_month leap 11 then 10
      else if yd < days_before_month leap 12 then 11 else 12)"

definition days_of_date :: "int \<Rightarrow> int \<Rightarrow> int \<Rightarrow> int" where
  "days_of_date y m d = days_before_year y + days_before_month (is_leap y) m + (d - 1)"

section \<open>Fields of a time\<close>

definition unix :: "gotime \<Rightarrow> int" where
  "unix t = nanos t div ns_second"

definition local_secs :: "gotime \<Rightarrow> int" where
  "local_secs t = unix t + zone t (unix t)"

text \<open>Days since 1 January of the year 1 (719162 days before the epoch) in the location of \<open>t\<close>.\<close>

definition local_day :: "gotime \<Rightarrow> int" where
  "local_day t = local_secs t div 86400 + 719162"

definition year :: "gotime \<Rightarrow> int" where
  "year t = fst (year_yday (local_day t))"

definition yday :: "gotime \<Rightarrow> int" where
  "yday t = snd (year_yday (local_day t))"

definition month :: "gotime \<Rightarrow> int" where
  "month t = month_of_yday (is_leap (year t)) (yday t)"

definition day :: "gotime \<Rightarrow> int" where
  "day t = yday t - days_before_month (is_leap (year t)) (month t) + 1"

definition hour :: "gotime \<Rightarrow> int" where
  "hour t = local_secs t mod 86400 div 3600"

definition minute :: "gotime \<Rightarrow> int" where
  "minute t = local_secs t mod 3600 div 60"

definition second :: "gotime \<Rightarrow> int" where
  "second t = local_secs t mod 60"

text \<open>Sunday is 0; 1 January of the year 1 was a Monday.\<close>

definition weekday :: "gotime \<Rightarrow> int" where
  "weekday t = (local_day t + 1) mod 7"

text \<open>
  \<open>time.Date\<close> for a month in range. Hours and minutes outside their usual range are
  normalised by the sum. The offset is looked up at the local second count first and,
  when it is not zero, again at the resulting UTC second, as the library does.
\<close>

definition date :: "int \<Rightarrow> int \<Rightarrow> int \<Rightarrow> int \<Rightarrow> int \<Rightarrow> int \<Rightarrow> int \<Rightarrow> location \<Rightarrow> gotime" where
  "date y mo d h mi s ns l =
     (let u = (days_of_date y mo d - 719162) * 86400 + h * 3600 + mi * 60 + s;
          off = l u;
          unix_s = (if off = 0 then u else u - l (u - off))
      in \<lparr>nanos = unix_s * ns_second + ns, zone = l\<rparr>)"

text \<open>\<open>Time.ISOWeek\<close>: the year and number of the week, by its Thursday.\<close>

definition iso_week :: "gotime \<Rightarrow> int \<times> int" where
  "iso_week t =
     (let d = 4 - weekday t;
          thursday = local_day t + (if d = 4 then - 3 else d)
      in (fst (year_yday thursday), snd (year_yday thursday) div 7 + 1))"

section \<open>Lemmas\<close>

lemmas time_ops = is_zero_def after_def before_def add_def sub_def

lemma nanos_add [simp]: "nanos (add t d) = nanos t + d" and zone_add [simp]: "zone (add t d) = zone t"
  by (simp_all add: add_def)

subsection \<open>The calendar inverts the day count\<close>

lemma div_carry:
  fixes a b c :: int
  assumes "0 \<le> b" and "b < c"
  shows "(c * a + b) div c = a"
  using assms by simp

text \<open>The cascade as a decomposition with its bounds, for the two lemmas below.\<close>

lemma year_yday_cascade:
  obtains n400 n100 n4 n1 d3 where
    "year_yday d = (400 * n400 + 100 * n100 + 4 * n4 + n1 + 1, d3 - 365 * n1)"
    "d = 146097 * n400 + 36524 * n100 + 1461 * n4 + d3"
    "0 \<le> n100" "n100 \<le> 3" "0 \<le> n4" "n4 \<le> 24" "n1 = min 3 (d3 div 365)"
    "0 \<le> d3" "d3 < 1461" "n100 < 3 \<Longrightarrow> 1461 * n4 + d3 < 36524"
proof -
  define n400 d1 where "n400 = d div 146097" and "d1 = d mod 146097"
  define n100 where "n100 = min 3 (d1 div 36524)"
  define d2 where "d2 = d1 - 36524 * n100"
  define n4 d3 where "n4 = d2 div 1461" and "d3 = d2 mod 1461"
  define n1 where "n1 = min 3 (d3 div 365)"
  have d: "d = 146097 * n400 + d1" and d1: "0 \<le> d1" "d1 < 146097"
    by (simp_all add: n400_def d1_def)
  have n100: "0 \<le> n100" "n100 \<le> 3" "0 \<le> d2" "d2 < 36525" "n100 < 3 \<Longrightarrow> d2 < 36524"
    using d1 by (auto simp: n100_def d2_def min_def)
  have d2: "d2 = 1461 * n4 + d3" and d3: "0 \<le> d3" "d3 < 1461"
    by (simp_all add: n4_def d3_def)
  have n4: "0 \<le> n4" "n4 \<le> 24" using n100 by (auto simp: n4_def)
  have eq: "year_yday d = (400 * n400 + 100 * n100 + 4 * n4 + n1 + 1, d3 - 365 * n1)"
    unfolding year_yday_def Let_def n1_def d3_def n4_def d2_def n100_def d1_def n400_def
    by (rule refl)
  have sum: "d = 146097 * n400 + 36524 * n100 + 1461 * n4 + d3"
    using d d2 d2_def by linarith
  have last: "n100 < 3 \<Longrightarrow> 1461 * n4 + d3 < 36524" using n100(5) d2 by simp
  show thesis
    by (rule that [OF eq sum n100(1,2) n4 n1_def d3]) (rule last)
qed

lemma year_yday_inverse: "days_before_year (fst (year_yday d)) + snd (year_yday d) = d"
proof (rule year_yday_cascade [of d])
  fix n400 n100 n4 n1 d3
  assume eq: "year_yday d = (400 * n400 + 100 * n100 + 4 * n4 + n1 + 1, d3 - 365 * n1)"
    and d: "d = 146097 * n400 + 36524 * n100 + 1461 * n4 + d3"
    and n100: "0 \<le> n100" "n100 \<le> 3" and n4: "0 \<le> n4" "n4 \<le> 24"
    and n1_def: "n1 = min 3 (d3 div 365)" and d3: "0 \<le> d3" "d3 < 1461"
  have n1: "0 \<le> n1" "n1 \<le> 3" using d3 by (auto simp: n1_def min_def)
  let ?p = "400 * n400 + 100 * n100 + 4 * n4 + n1"
  have p4: "?p div 4 = 100 * n400 + 25 * n100 + n4"
    using div_carry [of n1 4 "100 * n400 + 25 * n100 + n4"] n1 by (simp add: algebra_simps)
  have p100: "?p div 100 = 4 * n400 + n100"
    using div_carry [of "4 * n4 + n1" 100 "4 * n400 + n100"] n1 n4 by (simp add: algebra_simps)
  have p400: "?p div 400 = n400"
    using div_carry [of "100 * n100 + 4 * n4 + n1" 400 n400] n1 n4 n100
    by (simp add: algebra_simps)
  show ?thesis
    unfolding eq days_before_year_def Let_def by (simp add: p4 p100 p400 d)
qed

lemma year_yday_range:
  "0 \<le> snd (year_yday d) \<and> snd (year_yday d) < (if is_leap (fst (year_yday d)) then 366 else 365)"
proof (rule year_yday_cascade [of d])
  fix n400 n100 n4 n1 d3
  assume eq: "year_yday d = (400 * n400 + 100 * n100 + 4 * n4 + n1 + 1, d3 - 365 * n1)"
    and n100: "0 \<le> n100" "n100 \<le> 3" and n4: "0 \<le> n4" "n4 \<le> 24"
    and n1_def: "n1 = min 3 (d3 div 365)" and d3: "0 \<le> d3" "d3 < 1461"
    and last: "n100 < 3 \<Longrightarrow> 1461 * n4 + d3 < 36524"
  have n1: "0 \<le> n1" "n1 \<le> 3" using d3 by (auto simp: n1_def min_def)
  have yd: "0 \<le> d3 - 365 * n1" "d3 - 365 * n1 < 366" "n1 < 3 \<Longrightarrow> d3 - 365 * n1 < 365"
    using d3 by (auto simp: n1_def min_def)
  let ?y = "400 * n400 + 100 * n100 + 4 * n4 + n1 + 1"
  have "d3 - 365 * n1 < 365" if "\<not> is_leap ?y"
  proof (rule ccontr)
    assume big: "\<not> d3 - 365 * n1 < 365"
    then have "\<not> n1 < 3" using yd(3) by blast
    then have "n1 = 3" using n1(2) by linarith
    with big d3(2) have "d3 = 1460" by linarith
    have "n4 < 24 \<or> n100 = 3"
      using n100 n4 last \<open>d3 = 1460\<close> by linarith
    have y4: "?y = 4 * (100 * n400 + 25 * n100 + n4 + 1)"
      and y100: "?y = (4 * n4 + 4) + 100 * (4 * n400 + n100)"
      and y400: "?y = (100 * n100 + 4 * n4 + 4) + 400 * n400"
      using \<open>n1 = 3\<close> by simp_all
    have "?y mod 100 \<noteq> 0 \<or> ?y mod 400 = 0"
    proof (cases "n4 < 24")
      case True
      then have "?y mod 100 = 4 * n4 + 4"
        unfolding y100 mod_mult_self2 using n4 by (intro mod_pos_pos_trivial) auto
      with n4 show ?thesis by simp
    next
      case False
      with n4 \<open>n4 < 24 \<or> n100 = 3\<close> have "n4 = 24" "n100 = 3" by auto
      then show ?thesis unfolding y400 mod_mult_self2 by simp
    qed
    moreover have "?y mod 4 = 0" unfolding y4 by simp
    ultimately have "is_leap ?y" unfolding is_leap_def by blast
    with that show False by simp
  qed
  then show ?thesis using yd eq by auto
qed

lemma month_of_yday_range: "1 \<le> month_of_yday l yd \<and> month_of_yday l yd \<le> 12"
  by (simp add: month_of_yday_def)

lemma month_of_yday_bounds:
  assumes "0 \<le> yd" and "yd < (if l then 366 else 365)"
  shows "days_before_month l (month_of_yday l yd) \<le> yd \<and>
    yd < days_before_month l (month_of_yday l yd) + month_days l (month_of_yday l yd)"
  using assms by (cases l) (simp_all add: month_of_yday_def days_before_month_def)

lemma month_range: "1 \<le> month t \<and> month t \<le> 12"
  unfolding month_def by (rule month_of_yday_range)

lemma day_range: "1 \<le> day t \<and> day t \<le> month_days (is_leap (year t)) (month t)"
  using month_of_yday_bounds [of "yday t" "is_leap (year t)"] year_yday_range [of "local_day t"]
  by (simp add: day_def month_def year_def yday_def del: month_days.simps)

lemma days_of_date_fields: "days_of_date (year t) (month t) (day t) = local_day t"
  using year_yday_inverse [of "local_day t"]
  by (simp add: days_of_date_def day_def year_def yday_def)

subsection \<open>Clock fields\<close>

lemma hour_range: "0 \<le> hour t \<and> hour t < 24"
proof -
  have "0 \<le> local_secs t mod 86400 \<and> local_secs t mod 86400 < 86400" by simp
  then show ?thesis unfolding hour_def by linarith
qed

lemma minute_range: "0 \<le> minute t \<and> minute t < 60"
proof -
  have "0 \<le> local_secs t mod 3600 \<and> local_secs t mod 3600 < 3600" by simp
  then show ?thesis unfolding minute_def by linarith
qed

lemma second_range: "0 \<le> second t \<and> second t < 60"
  by (simp add: second_def)

lemma weekday_range: "0 \<le> weekday t \<and> weekday t \<le> 6"
  using pos_mod_bound [of 7 "local_day t + 1"] by (simp add: weekday_def)

lemma local_secs_fields:
  "local_secs t = (local_day t - 719162) * 86400 + hour t * 3600 + minute t * 60 + second t"
proof -
  have "x = x div 86400 * 86400 + x mod 86400 div 3600 * 3600 + x mod 3600 div 60 * 60 + x mod 60"
    for x :: int
  proof -
    have "x mod 86400 mod 3600 = x mod 3600" "x mod 3600 mod 60 = x mod 60"
      by (simp_all add: mod_mod_cancel)
    then show ?thesis
      using div_mult_mod_eq [of x 86400] div_mult_mod_eq [of "x mod 86400" 3600]
        div_mult_mod_eq [of "x mod 3600" 60] by linarith
  qed
  from this [of "local_secs t"] show ?thesis
    by (simp add: local_day_def hour_def minute_def second_def)
qed

abbreviation minute_of_day :: "gotime \<Rightarrow> int" where
  "minute_of_day t \<equiv> hour t * 60 + minute t"

subsection \<open>Dates in a fixed zone\<close>

lemma date_fixed:
  assumes "fixed_zone l"
  shows "nanos (date y mo d h mi s ns l) =
    ((days_of_date y mo d - 719162) * 86400 + h * 3600 + mi * 60 + s - l 0) * ns_second + ns"
  using assms by (auto simp: fixed_zone_def date_def Let_def)

lemma zone_date [simp]: "zone (date y mo d h mi s ns l) = l"
  by (simp add: date_def Let_def)

lemma local_secs_fixed: "fixed_zone (zone t) \<Longrightarrow> local_secs t = nanos t div ns_second + zone t 0"
  by (auto simp: fixed_zone_def local_secs_def unix_def)

text \<open>
  Midnight of the local day of \<open>t\<close> in a fixed zone, and a clock time on that day
  relative to it.
\<close>

definition midnight_ns :: "gotime \<Rightarrow> int" where
  "midnight_ns t = ((local_day t - 719162) * 86400 - zone t 0) * ns_second"

lemma date_same_day:
  assumes "fixed_zone (zone t)"
  shows "nanos (date (year t) (month t) (day t) h mi s ns (zone t)) =
    midnight_ns t + (h * 3600 + mi * 60 + s) * ns_second + ns"
  using assms by (simp add: date_fixed days_of_date_fields midnight_ns_def algebra_simps)

lemma nanos_in_day:
  assumes "fixed_zone (zone t)"
  shows "nanos t = midnight_ns t + (minute_of_day t * 60 + second t) * ns_second + nanos t mod ns_second"
proof -
  have "nanos t = nanos t div ns_second * ns_second + nanos t mod ns_second" by simp
  moreover have "nanos t div ns_second = local_secs t - zone t 0"
    using local_secs_fixed [OF assms] by simp
  ultimately show ?thesis
    using local_secs_fields [of t] by (simp add: midnight_ns_def algebra_simps)
qed

end
