(* ===== verification/Retention.thy ===== *)
theory Retention
  imports GoTime
begin

text \<open>
  Package \<open>internal/retention\<close> (\<open>retention.go\<close>, \<open>gfs.go\<close>) with the tier and window
  code of the Supported edition (\<open>supported/retention/backend\<close>): which backups a
  policy deletes. Backups are kept by the file name, in a set that stands for the
  \<open>map[string]bool\<close> of the source. The edition of the build chooses the tier hook and
  the window parser, as the \<open>init\<close> functions do; the answer of
  \<open>license.AllowRetention\<close> is a parameter (\<open>None\<close> is a nil error).

  The lemmas show that the walk along the bases of incremental backups ends also when
  the recorded bases form a cycle and computes a set closed under bases; what each of the
  keep rules adds; and from them what is never deleted.
\<close>

datatype edition = Community | Supported

type_synonym license_check = "string option"

record backup_entry =
  be_FileName :: string
  be_Timestamp :: gotime
  be_Strategy :: string
  be_Base :: string
  be_Size :: int

record retention_policy =
  Last :: int
  Within :: duration
  Hourly :: int
  Daily :: int
  Weekly :: int
  Monthly :: int
  Yearly :: int

datatype retention_error =
    InvalidKeepWithin string
  | KeepWithinNeedsSupporter string
  | KeepWithinUnlicensed string string
  | TiersUnavailable string

section \<open>Policies\<close>

definition HasGFS :: "retention_policy \<Rightarrow> bool" where
  "HasGFS p \<longleftrightarrow> Hourly p > 0 \<or> Daily p > 0 \<or> Weekly p > 0 \<or> Monthly p > 0 \<or> Yearly p > 0"

definition CheckPrune :: "license_check \<Rightarrow> retention_policy \<Rightarrow> retention_error option" where
  "CheckPrune allow p =
     (if Hourly p > 0 \<or> Daily p > 0 \<or> Weekly p > 0 \<or> Monthly p > 0 \<or> Yearly p > 0
      then (case allow of Some err \<Rightarrow> Some (TiersUnavailable err) | None \<Rightarrow> None)
      else None)"

definition StripTiers :: "retention_policy \<Rightarrow> retention_policy" where
  "StripTiers p = p\<lparr>Hourly := 0, Daily := 0, Weekly := 0, Monthly := 0, Yearly := 0\<rparr>"

definition Valid :: "retention_policy \<Rightarrow> bool" where
  "Valid p \<longleftrightarrow> Last p > 0 \<or> Within p > 0 \<or>
     Hourly p > 0 \<or> Daily p > 0 \<or> Weekly p > 0 \<or> Monthly p > 0 \<or> Yearly p > 0"

section \<open>The keep window\<close>

definition parseWithinFull :: "license_check \<Rightarrow> string \<Rightarrow> retention_error + duration" where
  "parseWithinFull allow s =
     (case allow of
        Some err \<Rightarrow> Inl (KeepWithinUnlicensed s err)
      | None \<Rightarrow>
          (let (num, mult) =
             (if has_suffix s ''s'' then (trim_suffix s ''s'', ns_second)
              else if has_suffix s ''m'' then (trim_suffix s ''m'', ns_minute)
              else if has_suffix s ''h'' then (trim_suffix s ''h'', ns_hour)
              else if has_suffix s ''d'' then (trim_suffix s ''d'', ns_day)
              else (s, ns_hour))
           in case atoi (trim_space num) of
                None \<Rightarrow> Inl (InvalidKeepWithin s)
              | Some n \<Rightarrow> if n \<le> 0 then Inl (InvalidKeepWithin s) else Inr (i64 (n * mult))))"

text \<open>The variable \<open>SupporterParseWithin\<close>: the default of the package, replaced by \<open>init\<close>.\<close>

definition SupporterParseWithin :: "edition \<Rightarrow> license_check \<Rightarrow> string \<Rightarrow> retention_error + duration" where
  "SupporterParseWithin ed allow s =
     (case ed of Community \<Rightarrow> Inl (KeepWithinNeedsSupporter s) | Supported \<Rightarrow> parseWithinFull allow s)"

definition ParseWithin :: "edition \<Rightarrow> license_check \<Rightarrow> string \<Rightarrow> retention_error + duration" where
  "ParseWithin ed allow s =
     (if s = [] then Inr 0
      else let trimmed = trim_space s
           in if trimmed = [] then Inr 0
              else if has_suffix trimmed ''m''
              then (case atoi (trim_space (trim_suffix trimmed ''m'')) of
                      None \<Rightarrow> Inl (InvalidKeepWithin s)
                    | Some n \<Rightarrow> if n \<le> 0 then Inl (InvalidKeepWithin s)
                                else Inr (i64 (n * ns_minute)))
              else SupporterParseWithin ed allow trimmed)"

section \<open>Chains of incremental backups\<close>

text \<open>The inner loop of \<open>chainDependencies\<close>: from \<open>base\<close> along the recorded bases.\<close>

function follow_chain :: "backup_entry list \<Rightarrow> string \<Rightarrow> string set \<Rightarrow> string set" where
  "follow_chain bs base needed =
     (if base = [] \<or> base \<in> needed then needed
      else case find (\<lambda>b2. be_FileName b2 = base) bs of
             None \<Rightarrow> insert base needed
           | Some b2 \<Rightarrow> follow_chain bs (be_Base b2) (insert base needed))"
  by pat_completeness auto
termination
proof (relation "measure (\<lambda>(bs, base, needed). card (be_FileName ` set bs - needed))")
  fix bs base needed b2
  assume fresh: "\<not> (base = [] \<or> base \<in> needed)"
    and found: "find (\<lambda>b2. be_FileName b2 = base) bs = Some b2"
  have "base \<in> be_FileName ` set bs - needed"
    using fresh find_SomeD [OF found] by auto
  moreover have "be_FileName ` set bs - insert base needed \<subseteq> be_FileName ` set bs - needed"
    by auto
  ultimately have "be_FileName ` set bs - insert base needed \<subset> be_FileName ` set bs - needed"
    by auto
  then show "((bs, be_Base b2, insert base needed), (bs, base, needed)) \<in>
      measure (\<lambda>(bs, base, needed). card (be_FileName ` set bs - needed))"
    by (simp add: psubset_card_mono)
qed simp

declare follow_chain.simps [simp del]

definition chainDependencies :: "backup_entry list \<Rightarrow> string set" where
  "chainDependencies bs =
     fold (\<lambda>b needed. if be_Strategy b = ''full'' then needed
                      else follow_chain bs (be_Base b) needed) bs {}"

section \<open>Tiers (Supported edition)\<close>

definition pad4_year :: "int \<Rightarrow> string" where
  "pad4_year y = (if y < 0 then CHR ''-'' # pad_left 4 (itoa (- y)) else pad_left 4 (itoa y))"

definition key_hourly :: "gotime \<Rightarrow> string" where
  "key_hourly t =
     (let u = truncate_to t ns_hour
      in pad4_year (year u) @ ''-'' @ pad_left 2 (itoa (month u)) @ ''-'' @
         pad_left 2 (itoa (day u)) @ ''T'' @ pad_left 2 (itoa (hour u)))"

definition key_daily :: "gotime \<Rightarrow> string" where
  "key_daily t =
     pad4_year (year t) @ ''-'' @ pad_left 2 (itoa (month t)) @ ''-'' @ pad_left 2 (itoa (day t))"

definition key_weekly :: "gotime \<Rightarrow> string" where
  "key_weekly t = (let (yr, wk) = iso_week t in itoa yr @ ''-W'' @ pad_left 2 (itoa wk))"

definition key_monthly :: "gotime \<Rightarrow> string" where
  "key_monthly t = pad4_year (year t) @ ''-'' @ pad_left 2 (itoa (month t))"

definition key_yearly :: "gotime \<Rightarrow> string" where
  "key_yearly t = itoa (year t)"

fun tier_loop :: "int \<Rightarrow> (gotime \<Rightarrow> string) \<Rightarrow> backup_entry list \<Rightarrow> string set \<Rightarrow> string set \<Rightarrow> string set" where
  "tier_loop n key [] seen kept = kept"
| "tier_loop n key (b # bs) seen kept =
     (if be_FileName b \<in> kept then tier_loop n key bs seen kept
      else let k = key (be_Timestamp b)
           in if int (card seen) < n \<and> k \<notin> seen
              then tier_loop n key bs (insert k seen) (insert (be_FileName b) kept)
              else tier_loop n key bs seen kept)"

definition applyTier :: "backup_entry list \<Rightarrow> int \<Rightarrow> (gotime \<Rightarrow> string) \<Rightarrow> string set \<Rightarrow> string set" where
  "applyTier bs n key kept = (if n \<le> 0 then kept else tier_loop n key bs {} kept)"

definition applyTiers :: "backup_entry list \<Rightarrow> retention_policy \<Rightarrow> string set \<Rightarrow> string set" where
  "applyTiers bs p kept =
     (let k1 = applyTier bs (Hourly p) key_hourly kept;
          k2 = applyTier bs (Daily p) key_daily k1;
          k3 = applyTier bs (Weekly p) key_weekly k2;
          k4 = applyTier bs (Monthly p) key_monthly k3
      in applyTier bs (Yearly p) key_yearly k4)"

text \<open>The installed hook: \<open>noopTierHook\<close>, or \<open>applyTiers\<close> where the Supported package is linked.\<close>

definition TierHook :: "edition \<Rightarrow> backup_entry list \<Rightarrow> retention_policy \<Rightarrow> string set \<Rightarrow> string set" where
  "TierHook ed bs p kept = (case ed of Community \<Rightarrow> kept | Supported \<Rightarrow> applyTiers bs p kept)"

section \<open>Applying a policy\<close>

definition newer_entry :: "backup_entry \<Rightarrow> backup_entry \<Rightarrow> bool" where
  "newer_entry a b \<longleftrightarrow> after (be_Timestamp a) (be_Timestamp b)"

fun keep_needed :: "string set \<Rightarrow> backup_entry list \<Rightarrow> string set \<Rightarrow> string set" where
  "keep_needed needed [] kept = kept"
| "keep_needed needed (b # bs) kept =
     keep_needed needed bs (if be_FileName b \<in> needed then insert (be_FileName b) kept else kept)"

fun keep_within :: "gotime \<Rightarrow> backup_entry list \<Rightarrow> string set \<Rightarrow> string set" where
  "keep_within cutoff [] kept = kept"
| "keep_within cutoff (b # bs) kept =
     (if is_zero (be_Timestamp b) then keep_within cutoff bs kept
      else if \<not> before (be_Timestamp b) cutoff
      then keep_within cutoff bs (insert (be_FileName b) kept)
      else keep_within cutoff bs kept)"

fun keep_last :: "int \<Rightarrow> int \<Rightarrow> backup_entry list \<Rightarrow> string set \<Rightarrow> string set" where
  "keep_last n cnt [] kept = kept"
| "keep_last n cnt (b # bs) kept =
     (if cnt \<ge> n then kept else keep_last n (cnt + 1) bs (insert (be_FileName b) kept))"

text \<open>
  \<open>ApplyRetentionAt\<close>. \<open>srt\<close> is the sort by \<open>newer_entry\<close>; \<open>clock\<close> is what
  \<open>time.Now()\<close> returns, used when \<open>now\<close> is the zero time.
\<close>

definition ApplyRetentionAt ::
  "(backup_entry list \<Rightarrow> backup_entry list) \<Rightarrow> edition \<Rightarrow> license_check \<Rightarrow> gotime \<Rightarrow>
   backup_entry list \<Rightarrow> retention_policy \<Rightarrow> gotime \<Rightarrow> string list" where
  "ApplyRetentionAt srt ed allow clock backups policy now0 =
     (let now = (if is_zero now0 then clock else now0)
      in if backups = [] then []
         else
           let bs = srt backups;
               needed = chainDependencies bs;
               kept0 = keep_needed needed bs {};
               kept1 = (if Within policy > 0 then keep_within (add now (- Within policy)) bs kept0
                        else kept0);
               kept2 = (if Last policy > 0 then keep_last (Last policy) 0 bs kept1 else kept1);
               policy' = (if HasGFS policy \<and> CheckPrune allow policy \<noteq> None
                          then StripTiers policy else policy);
               kept = TierHook ed bs policy' kept2
           in map be_FileName (filter (\<lambda>b. be_FileName b \<notin> kept) bs))"

definition ApplyRetention ::
  "(backup_entry list \<Rightarrow> backup_entry list) \<Rightarrow> edition \<Rightarrow> license_check \<Rightarrow> gotime \<Rightarrow>
   backup_entry list \<Rightarrow> retention_policy \<Rightarrow> string list" where
  "ApplyRetention srt ed allow clock backups policy =
     ApplyRetentionAt srt ed allow clock backups policy zero_time"

section \<open>What the keep rules add\<close>

lemma keep_needed_eq: "keep_needed needed bs kept = kept \<union> (be_FileName ` set bs \<inter> needed)"
  by (induction bs arbitrary: kept) auto

lemma keep_within_eq:
  "keep_within cutoff bs kept = kept \<union>
     be_FileName ` {b \<in> set bs. \<not> is_zero (be_Timestamp b) \<and> \<not> before (be_Timestamp b) cutoff}"
  by (induction bs arbitrary: kept) auto

lemma keep_last_eq: "keep_last n cnt bs kept = kept \<union> be_FileName ` set (take (nat (n - cnt)) bs)"
proof (induction bs arbitrary: cnt kept)
  case Nil
  then show ?case by simp
next
  case (Cons b bs)
  show ?case
  proof (cases "cnt \<ge> n")
    case True
    then show ?thesis by simp
  next
    case False
    then have "nat (n - cnt) = Suc (nat (n - (cnt + 1)))" by simp
    with False Cons.IH [of "cnt + 1"] show ?thesis by auto
  qed
qed

lemma tier_loop_mono: "kept \<subseteq> tier_loop n key bs seen kept"
proof (induction bs arbitrary: seen kept)
  case (Cons b bs)
  show ?case
    using Cons.IH [of kept seen] Cons.IH [of "insert (be_FileName b) kept"]
    by (fastforce simp: Let_def)
qed simp

lemma applyTier_mono: "kept \<subseteq> applyTier bs n key kept"
  by (simp add: applyTier_def tier_loop_mono)

lemma TierHook_mono: "kept \<subseteq> TierHook ed bs p kept"
  unfolding TierHook_def applyTiers_def Let_def
  by (cases ed) (simp, metis (no_types, lifting) applyTier_mono edition.simps(4) subset_trans)

lemma applyTier_off [simp]: "n \<le> 0 \<Longrightarrow> applyTier bs n key kept = kept"
  by (simp add: applyTier_def)

lemma TierHook_no_tiers: "\<not> HasGFS p \<Longrightarrow> TierHook ed bs p kept = kept"
  by (cases ed) (auto simp: TierHook_def applyTiers_def HasGFS_def not_less)

lemma HasGFS_StripTiers [simp]: "\<not> HasGFS (StripTiers p)"
  by (simp add: HasGFS_def StripTiers_def)

section \<open>The walk along the bases\<close>

text \<open>A name set closed under the recorded bases of the listed backups, but for \<open>pending\<close>.\<close>

definition chain_closed :: "backup_entry list \<Rightarrow> string \<Rightarrow> string set \<Rightarrow> bool" where
  "chain_closed bs pending needed \<longleftrightarrow>
     (\<forall>a \<in> set bs. be_FileName a \<in> needed \<longrightarrow>
        be_Base a = [] \<or> be_Base a \<in> needed \<or> be_Base a = pending)"

lemma chain_closed_done:
  "chain_closed bs base needed \<Longrightarrow> base = [] \<or> base \<in> needed \<Longrightarrow> chain_closed bs [] needed"
  by (auto simp: chain_closed_def)

lemma chain_closed_weaken: "chain_closed bs [] needed \<Longrightarrow> chain_closed bs base needed"
  by (auto simp: chain_closed_def)

lemma follow_chain_spec:
  assumes "distinct (map be_FileName bs)" and "chain_closed bs base needed"
  shows "needed \<subseteq> follow_chain bs base needed \<and> (base \<noteq> [] \<longrightarrow> base \<in> follow_chain bs base needed) \<and>
    chain_closed bs [] (follow_chain bs base needed)"
  using assms
proof (induction bs base needed rule: follow_chain.induct)
  case (1 bs base needed)
  note unique = distinct_map_eqD [OF "1.prems"(1)]
  show ?case
  proof (cases "base = [] \<or> base \<in> needed")
    case True
    with "1.prems" show ?thesis
      by (auto simp: follow_chain.simps [of bs base needed] dest: chain_closed_done)
  next
    case False
    show ?thesis
    proof (cases "find (\<lambda>b2. be_FileName b2 = base) bs")
      case None
      then have "\<forall>b2 \<in> set bs. be_FileName b2 \<noteq> base" by (simp add: find_None_iff)
      with "1.prems" have "chain_closed bs [] (insert base needed)"
        by (auto simp: chain_closed_def)
      with False None show ?thesis by (auto simp: follow_chain.simps [of bs base needed])
    next
      case (Some b2)
      then have b2: "b2 \<in> set bs" "be_FileName b2 = base"
        by (auto dest: find_SomeD)
      have "chain_closed bs (be_Base b2) (insert base needed)"
        unfolding chain_closed_def
      proof (intro ballI impI)
        fix a assume a: "a \<in> set bs" "be_FileName a \<in> insert base needed"
        show "be_Base a = [] \<or> be_Base a \<in> insert base needed \<or> be_Base a = be_Base b2"
        proof (cases "be_FileName a = base")
          case True
          then have "a = b2" using unique [OF a(1) b2(1)] b2(2) by simp
          then show ?thesis by simp
        next
          case False
          with a "1.prems"(2) show ?thesis unfolding chain_closed_def by blast
        qed
      qed
      with "1.IH" [OF False Some "1.prems"(1)] False Some show ?thesis
        by (auto simp: follow_chain.simps [of bs base needed])
    qed
  qed
qed

lemma chain_fold_spec:
  assumes "distinct (map be_FileName bs)" and "chain_closed bs [] needed"
  shows "needed \<subseteq> fold (\<lambda>b needed. if be_Strategy b = ''full'' then needed
            else follow_chain bs (be_Base b) needed) cs needed \<and>
    chain_closed bs [] (fold (\<lambda>b needed. if be_Strategy b = ''full'' then needed
            else follow_chain bs (be_Base b) needed) cs needed) \<and>
    (\<forall>b \<in> set cs. be_Strategy b \<noteq> ''full'' \<longrightarrow> be_Base b \<noteq> [] \<longrightarrow>
       be_Base b \<in> fold (\<lambda>b needed. if be_Strategy b = ''full'' then needed
            else follow_chain bs (be_Base b) needed) cs needed)"
  using assms(2)
proof (induction cs arbitrary: needed)
  case Nil
  then show ?case by simp
next
  case (Cons c cs)
  let ?step = "if be_Strategy c = ''full'' then needed else follow_chain bs (be_Base c) needed"
  note walk = follow_chain_spec [OF assms(1) chain_closed_weaken [OF Cons.prems, of "be_Base c"]]
  have "chain_closed bs [] ?step" using walk Cons.prems by simp
  note IH = Cons.IH [OF this]
  have "needed \<subseteq> ?step" using walk by simp
  with IH walk show ?case by auto
qed

lemma chainDependencies_base:
  assumes "distinct (map be_FileName bs)" and "b \<in> set bs"
    and "be_Strategy b \<noteq> ''full''" and "be_Base b \<noteq> []"
  shows "be_Base b \<in> chainDependencies bs"
  using chain_fold_spec [OF assms(1), of "{}" bs] assms(2-)
  by (simp add: chainDependencies_def chain_closed_def)

lemma chainDependencies_closed:
  assumes "distinct (map be_FileName bs)" and "a \<in> set bs"
    and "be_FileName a \<in> chainDependencies bs" and "be_Base a \<noteq> []"
  shows "be_Base a \<in> chainDependencies bs"
  using chain_fold_spec [OF assms(1), of "{}" bs] assms(2-)
  by (auto simp: chainDependencies_def chain_closed_def)

text \<open>The backups a listed backup is restored on top of: its base, the base of that, and so on.\<close>

inductive ancestor :: "backup_entry set \<Rightarrow> backup_entry \<Rightarrow> backup_entry \<Rightarrow> bool" for B where
  base: "b \<in> B \<Longrightarrow> a \<in> B \<Longrightarrow> be_Base b \<noteq> [] \<Longrightarrow> be_FileName a = be_Base b \<Longrightarrow> ancestor B b a"
| up: "ancestor B b c \<Longrightarrow> a \<in> B \<Longrightarrow> be_Base c \<noteq> [] \<Longrightarrow> be_FileName a = be_Base c \<Longrightarrow> ancestor B b a"

lemma ancestor_in: "ancestor B b a \<Longrightarrow> b \<in> B \<and> a \<in> B"
  by (induction rule: ancestor.induct) auto

lemma ancestor_needed:
  assumes "ancestor (set bs) b a" and "distinct (map be_FileName bs)" and "be_Strategy b \<noteq> ''full''"
  shows "be_FileName a \<in> chainDependencies bs"
  using assms
proof (induction rule: ancestor.induct)
  case (base b a)
  then show ?case using chainDependencies_base [of bs b] by simp
next
  case (up b c a)
  then have "be_FileName c \<in> chainDependencies bs" by blast
  with up ancestor_in [OF up.hyps(1)] show ?case
    using chainDependencies_closed [of bs c] by simp
qed

section \<open>What a policy deletes\<close>

text \<open>The names kept by the chain, window and count rules, before any tier.\<close>

definition rule_kept :: "backup_entry list \<Rightarrow> retention_policy \<Rightarrow> gotime \<Rightarrow> string set" where
  "rule_kept bs p now =
     (be_FileName ` set bs \<inter> chainDependencies bs) \<union>
     (if Within p > 0
      then be_FileName ` {b \<in> set bs. \<not> is_zero (be_Timestamp b) \<and>
             nanos (be_Timestamp b) \<ge> nanos now - Within p}
      else {}) \<union>
     (if Last p > 0 then be_FileName ` set (take (nat (Last p)) bs) else {})"

definition effective_policy :: "license_check \<Rightarrow> retention_policy \<Rightarrow> retention_policy" where
  "effective_policy allow p = (if HasGFS p \<and> CheckPrune allow p \<noteq> None then StripTiers p else p)"

definition effective_now :: "gotime \<Rightarrow> gotime \<Rightarrow> gotime" where
  "effective_now clock now0 = (if is_zero now0 then clock else now0)"

locale retention_sort = slice_sort newer_entry srt
  for srt :: "backup_entry list \<Rightarrow> backup_entry list"
begin

lemma ApplyRetentionAt_eq:
  "ApplyRetentionAt srt ed allow clock backups p now0 =
     map be_FileName (filter (\<lambda>b. be_FileName b \<notin>
       TierHook ed (srt backups) (effective_policy allow p)
         (rule_kept (srt backups) p (effective_now clock now0))) (srt backups))"
proof (cases "backups = []")
  case True
  then show ?thesis by (simp add: ApplyRetentionAt_def Let_def)
next
  case False
  then show ?thesis
    by (simp add: ApplyRetentionAt_def Let_def keep_needed_eq keep_within_eq keep_last_eq
        rule_kept_def effective_policy_def effective_now_def before_def not_less Un_assoc)
qed

lemma deleted_iff:
  assumes "b \<in> set backups"
  shows "be_FileName b \<in> set (ApplyRetentionAt srt ed allow clock backups p now0) \<longleftrightarrow>
    be_FileName b \<notin> TierHook ed (srt backups) (effective_policy allow p)
      (rule_kept (srt backups) p (effective_now clock now0))"
  using assms by (auto simp: ApplyRetentionAt_eq)

lemma rule_kept_survives:
  assumes "be_FileName b \<in> rule_kept (srt backups) p (effective_now clock now0)"
  shows "be_FileName b \<notin> set (ApplyRetentionAt srt ed allow clock backups p now0)"
  using assms TierHook_mono by (fastforce simp: ApplyRetentionAt_eq)

lemma ancestor_survives:
  assumes "ancestor (set backups) b a" and "distinct (map be_FileName backups)"
    and "be_Strategy b \<noteq> ''full''"
  shows "be_FileName a \<notin> set (ApplyRetentionAt srt ed allow clock backups p now0)"
proof (rule rule_kept_survives)
  have "be_FileName a \<in> chainDependencies (srt backups)"
    using assms by (intro ancestor_needed) (simp_all add: srt_distinct_map)
  with ancestor_in [OF assms(1)]
  show "be_FileName a \<in> rule_kept (srt backups) p (effective_now clock now0)"
    by (simp add: rule_kept_def)
qed

lemma within_survives:
  assumes "b \<in> set backups" and "Within p > 0" and "\<not> is_zero (be_Timestamp b)"
    and "nanos (be_Timestamp b) \<ge> nanos (effective_now clock now0) - Within p"
  shows "be_FileName b \<notin> set (ApplyRetentionAt srt ed allow clock backups p now0)"
  using assms by (intro rule_kept_survives) (auto simp: rule_kept_def)

lemma last_survives:
  assumes "b \<in> set (take (nat (Last p)) (srt backups))"
  shows "be_FileName b \<notin> set (ApplyRetentionAt srt ed allow clock backups p now0)"
proof (rule rule_kept_survives)
  have "Last p > 0" using assms by (cases "Last p > 0") auto
  with assms show "be_FileName b \<in> rule_kept (srt backups) p (effective_now clock now0)"
    by (auto simp: rule_kept_def)
qed

text \<open>Every deleted backup leaves at least \<open>Last\<close> backups behind that are no older than it.\<close>

lemma deleted_leaves_last:
  assumes "b \<in> set backups" and "distinct (map be_FileName backups)"
    and "be_FileName b \<in> set (ApplyRetentionAt srt ed allow clock backups p now0)"
  shows "Last p \<le> int (card {a \<in> set backups. nanos (be_Timestamp a) \<ge> nanos (be_Timestamp b) \<and>
    be_FileName a \<notin> set (ApplyRetentionAt srt ed allow clock backups p now0)})"
    (is "_ \<le> int (card ?S)")
proof -
  let ?top = "take (nat (Last p)) (srt backups)"
  have "b \<notin> set ?top" using last_survives assms(3) by blast
  then have drop: "b \<in> set (drop (nat (Last p)) (srt backups))"
    using assms(1) append_take_drop_id [of "nat (Last p)" "srt backups"]
    by (metis Un_iff set_append srt_set)
  have "set ?top \<subseteq> ?S"
  proof
    fix a assume a: "a \<in> set ?top"
    then have "\<not> newer_entry b a" using drop by (rule srt_take_newest)
    moreover have "a \<in> set backups" using a in_set_takeD by fastforce
    ultimately show "a \<in> ?S"
      using last_survives [OF a] by (auto simp: newer_entry_def after_def)
  qed
  moreover have "card (set ?top) = length ?top"
    using assms(2) srt_distinct_map [of be_FileName backups]
    by (intro distinct_card distinct_take) (simp add: distinct_map)
  moreover have "nat (Last p) \<le> length (srt backups)"
    using drop by (cases "nat (Last p) \<le> length (srt backups)") auto
  ultimately have "nat (Last p) \<le> card ?S"
    by (metis (no_types, lifting) List.finite_set card_mono finite_Collect_conjI length_take
        mem_Collect_eq min.absorb2 rev_finite_subset subsetI)
  then show ?thesis by simp
qed

lemma deleted_exact:
  assumes "distinct (map be_FileName backups)" and "b \<in> set backups"
    and "\<not> HasGFS (effective_policy allow p)"
  shows "be_FileName b \<in> set (ApplyRetentionAt srt ed allow clock backups p now0) \<longleftrightarrow>
    be_FileName b \<notin> chainDependencies (srt backups) \<and>
    (Within p > 0 \<longrightarrow> is_zero (be_Timestamp b) \<or>
       nanos (be_Timestamp b) < nanos (effective_now clock now0) - Within p) \<and>
    b \<notin> set (take (nat (Last p)) (srt backups))"
proof -
  have names: "distinct (map be_FileName (srt backups))" and b: "b \<in> set (srt backups)"
    using assms(1,2) by (simp_all add: srt_distinct_map)
  note inj = distinct_map_image_iff [OF names b]
  have top: "be_FileName b \<in> be_FileName ` set (take n (srt backups)) \<longleftrightarrow> b \<in> set (take n (srt backups))" for n
    by (rule inj) (rule set_take_subset)
  have window: "be_FileName b \<in> be_FileName ` {x \<in> set (srt backups). P x} \<longleftrightarrow> P b" for P
    using inj [of "{x \<in> set (srt backups). P x}"] b by auto
  have "b \<notin> set (take (nat (Last p)) (srt backups)) \<longleftrightarrow>
      \<not> (Last p > 0 \<and> b \<in> set (take (nat (Last p)) (srt backups)))"
    by (cases "Last p > 0") auto
  then show ?thesis
    unfolding deleted_iff [OF assms(2)] TierHook_no_tiers [OF assms(3)] rule_kept_def
    using b top window by (auto simp: not_le)
qed

lemma deleted_subset: "set (ApplyRetentionAt srt ed allow clock backups p now0) \<subseteq> be_FileName ` set backups"
  by (auto simp: ApplyRetentionAt_eq)

lemma deleted_distinct:
  "distinct (map be_FileName backups) \<Longrightarrow> distinct (ApplyRetentionAt srt ed allow clock backups p now0)"
  unfolding ApplyRetentionAt_eq
  by (rule distinct_map_filter_eq) (simp add: srt_distinct_map)

end

lemma newer_entry_weak: "strict_weak_order newer_entry"
  by unfold_locales (auto simp: newer_entry_def after_def)

interpretation newest_first: retention_sort "insertion_sort newer_entry"
  by (rule retention_sort.intro, rule strict_weak_order.insertion_sort_sorts, rule newer_entry_weak)

section \<open>What a tier keeps\<close>

text \<open>The backups a tier adds to the kept ones, in list order.\<close>

definition tier_new :: "backup_entry list \<Rightarrow> string set \<Rightarrow> string set \<Rightarrow> backup_entry list" where
  "tier_new bs kept kept' = filter (\<lambda>b. be_FileName b \<in> kept' \<and> be_FileName b \<notin> kept) bs"

definition tier_ok ::
  "int \<Rightarrow> (gotime \<Rightarrow> string) \<Rightarrow> backup_entry list \<Rightarrow> string set \<Rightarrow> string set \<Rightarrow> backup_entry list \<Rightarrow> bool" where
  "tier_ok n key bs seen kept new \<longleftrightarrow>
     distinct (map (key \<circ> be_Timestamp) new) \<and>
     (key \<circ> be_Timestamp) ` set new \<inter> seen = {} \<and>
     int (card seen + length new) \<le> max n (int (card seen)) \<and>
     (\<forall>b \<in> set bs. be_FileName b \<notin> kept \<longrightarrow> b \<in> set new \<or>
        key (be_Timestamp b) \<in> seen \<union> (key \<circ> be_Timestamp) ` set new \<or>
        n \<le> int (card seen + length new)) \<and>
     (\<forall>b \<in> set new. \<forall>c \<in> set bs. be_FileName c \<notin> kept \<longrightarrow>
        key (be_Timestamp c) = key (be_Timestamp b) \<longrightarrow> \<not> newer_entry c b)"

lemma newer_entry_irrefl [simp]: "\<not> newer_entry b b"
  by (simp add: newer_entry_def after_def)

lemma tier_loop_names:
  "be_FileName b \<in> tier_loop n key bs seen kept \<Longrightarrow> be_FileName b \<in> kept \<union> be_FileName ` set bs"
  by (induction bs arbitrary: seen kept) (auto simp: Let_def split: if_splits)

lemma tier_loop_ok:
  assumes "distinct (map be_FileName bs)" and "finite seen"
    and "sorted_wrt (\<lambda>a b. \<not> newer_entry b a) bs"
  shows "tier_ok n key bs seen kept (tier_new bs kept (tier_loop n key bs seen kept))"
  using assms
proof (induction bs arbitrary: seen kept)
  case Nil
  then show ?case by (simp add: tier_new_def tier_ok_def)
next
  case (Cons c bs)
  let ?k = "key (be_Timestamp c)"
  have fresh: "be_FileName c \<notin> be_FileName ` set bs" using Cons.prems(1) by simp
  have IH: "tier_ok n key bs S K (tier_new bs K (tier_loop n key bs S K))" if "finite S" for S K
    using Cons that by simp
  consider (kept) "be_FileName c \<in> kept"
    | (pick) "be_FileName c \<notin> kept" "int (card seen) < n" "?k \<notin> seen"
    | (skip) "be_FileName c \<notin> kept" "n \<le> int (card seen) \<or> ?k \<in> seen"
    by linarith
  then show ?case
  proof cases
    case kept
    then show ?thesis using IH [OF Cons.prems(2), of kept]
      by (auto simp: tier_ok_def tier_new_def)
  next
    case pick
    let ?K = "tier_loop n key bs (insert ?k seen) (insert (be_FileName c) kept)"
    have names: "be_FileName b \<noteq> be_FileName c" if "b \<in> set bs" for b
      using fresh imageI [OF that, of be_FileName] by metis
    have "be_FileName c \<in> ?K" using tier_loop_mono by blast
    moreover have "filter (\<lambda>b. be_FileName b \<in> ?K \<and> be_FileName b \<notin> kept) bs =
        filter (\<lambda>b. be_FileName b \<in> ?K \<and> be_FileName b \<notin> insert (be_FileName c) kept) bs"
      using names by (intro filter_cong) auto
    ultimately have new: "tier_new (c # bs) kept (tier_loop n key (c # bs) seen kept) =
        c # tier_new bs (insert (be_FileName c) kept) ?K"
      using pick by (simp add: tier_new_def Let_def)
    show ?thesis
      unfolding new using IH [of "insert ?k seen" "insert (be_FileName c) kept"] pick Cons.prems names
      by (auto simp: tier_ok_def)
  next
    case skip
    then have loop: "tier_loop n key (c # bs) seen kept = tier_loop n key bs seen kept"
      by (auto simp: Let_def)
    have "be_FileName c \<notin> tier_loop n key bs seen kept"
      using tier_loop_names [of c n key bs seen kept] skip fresh by auto
    then have new: "tier_new (c # bs) kept (tier_loop n key bs seen kept) =
        tier_new bs kept (tier_loop n key bs seen kept)"
      by (simp add: tier_new_def)
    show ?thesis
      unfolding loop new using IH [OF Cons.prems(2), of kept] skip by (auto simp: tier_ok_def)
  qed
qed

section \<open>Properties\<close>

text \<open>Sample backups: a full backup, an incremental on it, an incremental on that one.\<close>

definition sample_time :: "int \<Rightarrow> gotime" where
  "sample_time h = \<lparr>nanos = (1767225600 + h * 3600) * ns_second, zone = utc\<rparr>"

definition sample_full :: backup_entry where
  "sample_full = \<lparr>be_FileName = ''f0'', be_Timestamp = sample_time 0, be_Strategy = ''full'',
     be_Base = [], be_Size = 10\<rparr>"

definition sample_incr1 :: backup_entry where
  "sample_incr1 = \<lparr>be_FileName = ''i1'', be_Timestamp = sample_time 1, be_Strategy = ''incremental'',
     be_Base = ''f0'', be_Size = 1\<rparr>"

definition sample_incr2 :: backup_entry where
  "sample_incr2 = \<lparr>be_FileName = ''i2'', be_Timestamp = sample_time 2, be_Strategy = ''incremental'',
     be_Base = ''i1'', be_Size = 1\<rparr>"

definition sample_old :: backup_entry where
  "sample_old = \<lparr>be_FileName = ''o'', be_Timestamp = sample_time (- 30), be_Strategy = ''full'',
     be_Base = [], be_Size = 10\<rparr>"

definition sample_policy :: retention_policy where
  "sample_policy = \<lparr>Last = 1, Within = 0, Hourly = 0, Daily = 0, Weekly = 0, Monthly = 0, Yearly = 0\<rparr>"

lemmas sample_defs = sample_time_def sample_full_def sample_incr1_def sample_incr2_def
  sample_old_def sample_policy_def

lemma insertion_sort_is_slice_sort: "slice_sort newer_entry (insertion_sort newer_entry)"
  by (rule newest_first.slice_sort_axioms)

text \<open>
  Retention never breaks a backup chain: whatever the policy, the edition and the
  licence, no backup that an incremental or differential backup of the listing is based
  on, directly or through other backups, is in the list of files to delete.
\<close>

theorem retention_keeps_ancestors:
  assumes "slice_sort newer_entry srt" and "distinct (map be_FileName backups)"
    and "ancestor (set backups) b a" and "be_Strategy b \<noteq> ''full''"
  shows "be_FileName a \<notin> set (ApplyRetentionAt srt ed allow clock backups p now0)"
  using assms by (intro retention_sort.ancestor_survives retention_sort.intro)

theorem retention_keeps_ancestors_witness:
  "be_FileName sample_full \<notin> set (ApplyRetentionAt (insertion_sort newer_entry) Community None
     (sample_time 9) [sample_full, sample_incr1, sample_incr2] sample_policy (sample_time 9))"
proof -
  let ?B = "[sample_full, sample_incr1, sample_incr2]"
  have "ancestor (set ?B) sample_incr2 sample_incr1"
    by (rule ancestor.base) (simp_all add: sample_defs)
  then have chain: "ancestor (set ?B) sample_incr2 sample_full"
    by (rule ancestor.up) (simp_all add: sample_defs)
  show ?thesis
    by (rule retention_keeps_ancestors [OF insertion_sort_is_slice_sort _ chain])
      (simp_all add: sample_defs)
qed

text \<open>
  The count rule: a backup is deleted only when at least \<open>Last\<close> backups that are
  no older than it survive the same run.
\<close>

theorem retention_leaves_last:
  assumes "slice_sort newer_entry srt" and "distinct (map be_FileName backups)"
    and "b \<in> set backups"
    and "be_FileName b \<in> set (ApplyRetentionAt srt ed allow clock backups p now0)"
  shows "Last p \<le> int (card {a \<in> set backups. nanos (be_Timestamp a) \<ge> nanos (be_Timestamp b) \<and>
    be_FileName a \<notin> set (ApplyRetentionAt srt ed allow clock backups p now0)})"
  using assms by (intro retention_sort.deleted_leaves_last retention_sort.intro)

theorem retention_leaves_last_witness:
  "Last sample_policy \<le> int (card {a \<in> set [sample_old, sample_full].
     nanos (be_Timestamp a) \<ge> nanos (be_Timestamp sample_old) \<and>
     be_FileName a \<notin> set (ApplyRetentionAt (insertion_sort newer_entry) Community None
       (sample_time 9) [sample_old, sample_full] sample_policy (sample_time 9))})"
proof (rule retention_leaves_last [OF insertion_sort_is_slice_sort])
  have "ApplyRetentionAt (insertion_sort newer_entry) Community None
      (sample_time 9) [sample_old, sample_full] sample_policy (sample_time 9) = [''o'']"
    by code_simp
  then show "be_FileName sample_old \<in> set (ApplyRetentionAt (insertion_sort newer_entry) Community None
      (sample_time 9) [sample_old, sample_full] sample_policy (sample_time 9))"
    by (simp add: sample_defs)
qed (simp_all add: sample_defs)

text \<open>
  The window rule: with a positive window, a backup whose timestamp is known and not
  older than the window is never deleted.
\<close>

theorem retention_keeps_window:
  assumes "slice_sort newer_entry srt" and "b \<in> set backups" and "Within p > 0"
    and "\<not> is_zero (be_Timestamp b)" and "\<not> is_zero now"
    and "nanos now - nanos (be_Timestamp b) \<le> Within p"
  shows "be_FileName b \<notin> set (ApplyRetentionAt srt ed allow clock backups p now)"
  using assms
  by (intro retention_sort.within_survives retention_sort.intro) (auto simp: effective_now_def)

theorem retention_keeps_window_witness:
  "be_FileName sample_incr1 \<notin> set (ApplyRetentionAt (insertion_sort newer_entry) Community None
     (sample_time 9) [sample_old, sample_incr1] (sample_policy\<lparr>Within := 4 * ns_hour\<rparr>) (sample_time 5))"
  by (rule retention_keeps_window [OF insertion_sort_is_slice_sort])
    (simp_all add: sample_defs is_zero_def zero_time_def)

text \<open>
  (C32) Without tiers in force (none configured, or refused by the licence check), the
  three rules are also the only ones: a listed backup is deleted exactly when no chain
  needs it, it is outside the window, and it is not among the \<open>Last\<close> newest.
\<close>

theorem retention_exact:
  assumes "slice_sort newer_entry srt" and "distinct (map be_FileName backups)"
    and "b \<in> set backups" and "\<not> is_zero now"
    and "\<not> HasGFS p \<or> allow \<noteq> None"
  shows "be_FileName b \<in> set (ApplyRetentionAt srt ed allow clock backups p now) \<longleftrightarrow>
    be_FileName b \<notin> chainDependencies (srt backups) \<and>
    (Within p > 0 \<longrightarrow> is_zero (be_Timestamp b) \<or> nanos now - nanos (be_Timestamp b) > Within p) \<and>
    b \<notin> set (take (nat (Last p)) (srt backups))"
proof -
  have "\<not> HasGFS (effective_policy allow p)"
    using assms(5) by (auto simp: effective_policy_def CheckPrune_def HasGFS_def StripTiers_def)
  moreover have "effective_now clock now = now" using assms(4) by (simp add: effective_now_def)
  ultimately show ?thesis
    using retention_sort.deleted_exact [OF retention_sort.intro [OF assms(1)] assms(2,3),
        of allow p ed clock now]
    by (auto simp: algebra_simps)
qed

theorem retention_exact_witness:
  "be_FileName sample_old \<in> set (ApplyRetentionAt (insertion_sort newer_entry) Supported None
     (sample_time 9) [sample_full, sample_old] sample_policy (sample_time 9))"
proof -
  have "be_FileName sample_old \<notin> chainDependencies (insertion_sort newer_entry [sample_full, sample_old])"
    by code_simp
  moreover have "insertion_sort newer_entry [sample_full, sample_old] = [sample_full, sample_old]"
    by (simp add: insertion_sort_def newer_entry_def after_def sample_defs)
  ultimately show ?thesis
    using retention_exact [OF insertion_sort_is_slice_sort, of "[sample_full, sample_old]" sample_old
        "sample_time 9" sample_policy None Supported "sample_time 9"]
    by (simp add: sample_defs is_zero_def zero_time_def HasGFS_def)
qed

text \<open>
  A tier adds at most its number of backups, each from a different bucket and the
  newest of its bucket among the backups not kept before; and it leaves a bucket out only
  when its number is used up.
\<close>

theorem tier_keeps_newest_per_bucket:
  assumes "distinct (map be_FileName bs)" and "sorted_wrt (\<lambda>a b. \<not> newer_entry b a) bs" and "n > 0"
    and "new = filter (\<lambda>b. be_FileName b \<in> applyTier bs n key kept \<and> be_FileName b \<notin> kept) bs"
  shows "int (length new) \<le> n \<and> distinct (map (\<lambda>b. key (be_Timestamp b)) new) \<and>
    (\<forall>b \<in> set new. \<forall>c \<in> set bs. be_FileName c \<notin> kept \<longrightarrow>
       key (be_Timestamp c) = key (be_Timestamp b) \<longrightarrow>
       nanos (be_Timestamp c) \<le> nanos (be_Timestamp b)) \<and>
    (int (length new) < n \<longrightarrow> (\<forall>c \<in> set bs. be_FileName c \<notin> kept \<longrightarrow>
       key (be_Timestamp c) \<in> (\<lambda>b. key (be_Timestamp b)) ` set new))"
proof -
  have "tier_ok n key bs {} kept new"
    using tier_loop_ok [OF assms(1) _ assms(2), of "{}" n key kept] assms(3)
    by (simp add: assms(4) applyTier_def tier_new_def)
  then show ?thesis
    using assms(3) by (auto simp: tier_ok_def newer_entry_def after_def comp_def not_less)
qed

theorem tier_keeps_newest_per_bucket_witness:
  "int (length (filter (\<lambda>b. be_FileName b \<in> applyTier [sample_incr1, sample_full, sample_old] 2 key_yearly {} \<and>
     be_FileName b \<notin> {}) [sample_incr1, sample_full, sample_old])) \<le> 2 \<and>
   applyTier [sample_incr1, sample_full, sample_old] 2 key_yearly {} = {''i1'', ''o''}"
proof
  show "int (length (filter (\<lambda>b. be_FileName b \<in> applyTier [sample_incr1, sample_full, sample_old] 2 key_yearly {} \<and>
     be_FileName b \<notin> {}) [sample_incr1, sample_full, sample_old])) \<le> 2"
    using tier_keeps_newest_per_bucket [of "[sample_incr1, sample_full, sample_old]" 2 _ key_yearly "{}", OF _ _ _ refl]
    by (simp add: sample_defs newer_entry_def after_def)
  show "applyTier [sample_incr1, sample_full, sample_old] 2 key_yearly {} = {''i1'', ''o''}"
    by code_simp
qed

end
