(* ===== verification/Schedule.thy ===== *)
theory Schedule
  imports Retention
begin

text \<open>
  Schedules of jobs: \<open>internal/config/schedule.go\<close> with the day filters and licence gate
  of \<open>supported/config\<close> (\<open>days.go\<close>, \<open>schedule.go\<close>). A nil pointer is \<open>None\<close>. The hook
  variables of the package (\<open>SupporterDayAllowed\<close> and its kin) are chosen by the edition,
  as the \<open>init\<close> function of the Supported package chooses them. Errors carry the values
  the messages print. The natural-language parser \<open>ParseNL\<close> is an argument of the
  functions that call it.

  The lemmas give the denotation of cron fields that pass validation, the meaning of a
  blackout window as a circular interval, the least next clock time of a list, and the
  round trip of clock times.
\<close>

record day_list =
  weekdays :: "int set"
  dom_days :: "int set"

record blackout =
  bo_Begin :: string
  bo_End :: string
  bo_Days :: day_list

record schedule =
  Cron :: string
  Interval :: int
  Begin :: string
  Time :: "int list"
  Start :: string
  Recurring :: string
  Blackouts :: "blackout list option"
  Days :: day_list
  ExcludeDays :: day_list

definition no_days :: day_list where
  "no_days = \<lparr>weekdays = {}, dom_days = {}\<rparr>"

definition empty_schedule :: schedule where
  "empty_schedule = \<lparr>Cron = [], Interval = 0, Begin = [], Time = [], Start = [], Recurring = [],
     Blackouts = None, Days = no_days, ExcludeDays = no_days\<rparr>"

datatype schedule_error =
    CronQuotes string
  | CronFieldCount string nat
  | CronEmptyField
  | CronBadChar char
  | CronBadList string
  | CronBadStep string
  | CronStepRange int
  | CronBadRange string
  | CronRangeBounds int int
  | CronBadValue string
  | CronValueRange int
  | CronField string nat schedule_error
  | BeginQuotes string
  | BeginInvalid string
  | NeedsSupporter string
  | InvalidTime string
  | InvalidDay string
  | DayOutOfRange int
  | CannotParse string

section \<open>Cron expressions\<close>

definition parseRange :: "string \<Rightarrow> (int \<times> int) option" where
  "parseRange s =
     (case splitn2 (CHR ''-'') s of
        [p, q] \<Rightarrow> (case (atoi p, atoi q) of (Some a, Some b) \<Rightarrow> Some (a, b) | _ \<Rightarrow> None)
      | _ \<Rightarrow> None)"

definition validateCronAtom :: "string \<Rightarrow> int \<Rightarrow> int \<Rightarrow> schedule_error option" where
  "validateCronAtom atom lo hi =
     (if CHR ''/'' \<in> set atom then
        (case splitn2 (CHR ''/'') atom of
           [p, q] \<Rightarrow>
             (if q = [] then Some (CronBadStep atom)
              else case atoi q of
                None \<Rightarrow> Some (CronBadStep atom)
              | Some step \<Rightarrow>
                  if step \<le> 0 then Some (CronBadStep atom)
                  else if p = ''*'' then None
                  else (case atoi p of
                          None \<Rightarrow> Some (CronBadStep atom)
                        | Some start \<Rightarrow>
                            if start < lo \<or> start > hi then Some (CronStepRange start) else None))
         | _ \<Rightarrow> Some (CronBadStep atom))
      else if CHR ''-'' \<in> set atom then
        (case parseRange atom of
           None \<Rightarrow> Some (CronBadRange atom)
         | Some (a, b) \<Rightarrow> if a < lo \<or> b > hi \<or> a > b then Some (CronRangeBounds a b) else None)
      else
        (case atoi atom of
           None \<Rightarrow> Some (CronBadValue atom)
         | Some n \<Rightarrow> if n < lo \<or> n > hi then Some (CronValueRange n) else None))"

definition cron_char :: "char \<Rightarrow> bool" where
  "cron_char c \<longleftrightarrow> is_digit c \<or> c \<in> set ''*,-/''"

fun validate_list :: "string \<Rightarrow> string list \<Rightarrow> int \<Rightarrow> int \<Rightarrow> schedule_error option" where
  "validate_list field [] lo hi = None"
| "validate_list field (p # ps) lo hi =
     (if p = [] \<or> CHR '','' \<in> set p then Some (CronBadList field)
      else case validateCronAtom p lo hi of
             Some err \<Rightarrow> Some err
           | None \<Rightarrow> validate_list field ps lo hi)"

definition validateCronField :: "string \<Rightarrow> int \<Rightarrow> int \<Rightarrow> schedule_error option" where
  "validateCronField field lo hi =
     (if field = [] then Some CronEmptyField
      else case find (\<lambda>c. \<not> cron_char c) field of
             Some c \<Rightarrow> Some (CronBadChar c)
           | None \<Rightarrow>
               if field = ''*'' then None
               else if CHR '','' \<in> set field
               then validate_list field (split_char (CHR '','') field) lo hi
               else validateCronAtom field lo hi)"

definition cron_bounds :: "(int \<times> int) list" where
  "cron_bounds = [(0, 59), (0, 23), (1, 31), (1, 12), (0, 6)]"

fun validate_fields :: "string \<Rightarrow> nat \<Rightarrow> (string \<times> (int \<times> int)) list \<Rightarrow> schedule_error option" where
  "validate_fields expr i [] = None"
| "validate_fields expr i ((f, (lo, hi)) # fs) =
     (case validateCronField f lo hi of
        Some err \<Rightarrow> Some (CronField expr (Suc i) err)
      | None \<Rightarrow> validate_fields expr (Suc i) fs)"

definition ValidateCron :: "string \<Rightarrow> schedule_error option" where
  "ValidateCron expr =
     (if contains_any expr [CHR 0x22, CHR 0x27] then Some (CronQuotes expr)
      else let parts = str_fields expr
           in if length parts \<noteq> 5 then Some (CronFieldCount expr (length parts))
              else validate_fields expr 0 (zip parts cron_bounds))"

function cronFieldMatch :: "string \<Rightarrow> int \<Rightarrow> int \<Rightarrow> int \<Rightarrow> bool" where
  "cronFieldMatch field val lo hi =
     (if field = ''*'' then True
      else if CHR '','' \<in> set field
      then list_ex (\<lambda>p. cronFieldMatch p val lo hi) (split_char (CHR '','') field)
      else if CHR ''/'' \<in> set field then
        (case splitn2 (CHR ''/'') field of
           [p, q] \<Rightarrow>
             (case atoi q of
                None \<Rightarrow> False
              | Some step \<Rightarrow>
                  if step \<le> 0 then False
                  else if p = ''*'' then go_rem (val - lo) step = 0
                  else (case atoi p of
                          None \<Rightarrow> False
                        | Some start \<Rightarrow> val \<ge> start \<and> go_rem (val - start) step = 0))
         | _ \<Rightarrow> False)
      else if CHR ''-'' \<in> set field then
        (case parseRange field of None \<Rightarrow> False | Some (a, b) \<Rightarrow> val \<ge> a \<and> val \<le> b)
      else (case atoi field of None \<Rightarrow> False | Some n \<Rightarrow> val = n))"
  by pat_completeness auto
termination
  by (relation "measure (\<lambda>(f, _). length f)") (auto intro: split_char_shorter)

declare cronFieldMatch.simps [simp del]

section \<open>Clock times\<close>

text \<open>
  \<open>fmt.Sscanf\<close> with the verb \<open>%2d\<close> (or \<open>%d\<close>, with no width): spaces are skipped, a newline
  is an error, then an optional sign and at least one digit within the width.
\<close>

fun scan_skip :: "string \<Rightarrow> string option" where
  "scan_skip [] = Some []"
| "scan_skip (c # cs) =
     (if c = CHR 0x0A then None else if is_space c then scan_skip cs else Some (c # cs))"

definition scan_int :: "nat option \<Rightarrow> string \<Rightarrow> (int \<times> string) option" where
  "scan_int width s0 =
     (case scan_skip s0 of
        None \<Rightarrow> None
      | Some [] \<Rightarrow> None
      | Some (c # cs) \<Rightarrow>
          (let signed = (c = CHR ''+'' \<or> c = CHR ''-'');
               body = (if signed then cs else c # cs);
               avail = (case width of None \<Rightarrow> body
                        | Some w \<Rightarrow> take (if signed then w - 1 else w) body);
               ds = takeWhile is_digit avail;
               v = (if c = CHR ''-'' then - digits_val ds else digits_val ds)
           in if ds = [] \<or> \<not> in_i64 v then None else Some (v, drop (length ds) body)))"

definition parseClock :: "string \<Rightarrow> int option" where
  "parseClock s =
     (case (if length s = 4 then
              (case scan_int (Some 2) s of
                 None \<Rightarrow> None
               | Some (h, r) \<Rightarrow> map_option (\<lambda>(m, _). (h, m)) (scan_int (Some 2) r))
            else if length s = 5 then
              (if s ! 2 \<noteq> CHR '':'' then None
               else case scan_int (Some 2) s of
                      Some (h, CHR '':'' # r) \<Rightarrow> map_option (\<lambda>(m, _). (h, m)) (scan_int (Some 2) r)
                    | _ \<Rightarrow> None)
            else None) of
        None \<Rightarrow> None
      | Some (h, m) \<Rightarrow> if h < 0 \<or> h > 23 \<or> m < 0 \<or> m > 59 then None else Some (h * 60 + m))"

definition parseHHMM :: "string \<Rightarrow> int option" where
  "parseHHMM s0 =
     (let s = replace_char (CHR '':'') [] s0
      in if length s \<noteq> 4 then None
         else case (atoi (take 2 s), atoi (drop 2 s)) of
                (Some h, Some m) \<Rightarrow>
                  if h < 0 \<or> h > 23 \<or> m < 0 \<or> m > 59 then None else Some (h * 60 + m)
              | _ \<Rightarrow> None)"

fun TimeList_parse_toks :: "string list \<Rightarrow> int list \<Rightarrow> schedule_error + int list" where
  "TimeList_parse_toks [] t = Inr t"
| "TimeList_parse_toks (tok # toks) t =
     (let tk = trim_space tok
      in if tk = [] then TimeList_parse_toks toks t
         else case parseClock tk of
                None \<Rightarrow> Inl (InvalidTime tk)
              | Some m \<Rightarrow> TimeList_parse_toks toks (t @ [m]))"

text \<open>\<open>TimeList.parse\<close> appends to the list and sorts it.\<close>

definition TimeList_parse :: "int list \<Rightarrow> string \<Rightarrow> schedule_error + int list" where
  "TimeList_parse t s =
     (case TimeList_parse_toks (split_char (CHR '','') s) t of
        Inl err \<Rightarrow> Inl err
      | Inr t' \<Rightarrow> Inr (sort t'))"

definition TimeList_String :: "int list \<Rightarrow> string" where
  "TimeList_String t =
     join '', '' (map (\<lambda>m. pad_left 2 (itoa (go_quot m 60)) @ '':'' @ pad_left 2 (itoa (go_rem m 60))) t)"

definition TimeList_Next :: "int list \<Rightarrow> gotime \<Rightarrow> gotime option" where
  "TimeList_Next t now =
     (case t of
        [] \<Rightarrow> None
      | m0 # _ \<Rightarrow>
          (let at = (\<lambda>m. date (year now) (month now) (day now) (go_quot m 60) (go_rem m 60) 0 0 (zone now));
               cur = hour now * 60 + minute now
           in case find (\<lambda>m. m > cur) t of
                Some m \<Rightarrow> Some (at m)
              | None \<Rightarrow> Some (add (at m0) ns_day)))"

fun isTimeList_toks :: "string list \<Rightarrow> bool" where
  "isTimeList_toks [] = True"
| "isTimeList_toks (tok # toks) =
     (let tk = trim_space tok
      in if tk = [] then False
         else if parseClock tk = None then False
         else isTimeList_toks toks)"

definition isTimeList :: "string \<Rightarrow> bool" where
  "isTimeList s = isTimeList_toks (split_char (CHR '','') s)"

definition ParseOffset :: "string \<Rightarrow> duration option" where
  "ParseOffset s =
     (if s = [] then None
      else let t = trim_space s
           in if has_prefix t ''+''
              then (case atoi (trim_prefix t ''+'') of
                      None \<Rightarrow> None
                    | Some n \<Rightarrow> if n < 0 then None else Some (i64 (n * ns_minute)))
              else if length t \<ge> 2
              then (case atoi (butlast t) of
                      None \<Rightarrow> None
                    | Some n \<Rightarrow>
                        if n \<le> 0 then None
                        else if last t = CHR ''m'' then Some (i64 (n * ns_minute))
                        else if last t = CHR ''h'' then Some (i64 (n * ns_hour))
                        else if last t = CHR ''d'' then Some (i64 (i64 (n * 24) * ns_hour))
                        else None)
              else None)"

section \<open>Days and blackout windows\<close>

definition DayList_Empty :: "day_list \<Rightarrow> bool" where
  "DayList_Empty d \<longleftrightarrow> weekdays d = {} \<and> dom_days d = {}"

definition DayList_Matches :: "day_list \<Rightarrow> gotime \<Rightarrow> bool" where
  "DayList_Matches d t =
     (if DayList_Empty d then True
      else if weekday t \<in> weekdays d then True
      else if day t \<in> dom_days d then True
      else False)"

definition blackoutDaySkip :: "blackout \<Rightarrow> gotime \<Rightarrow> bool" where
  "blackoutDaySkip b t \<longleftrightarrow> \<not> DayList_Empty (bo_Days b) \<and> \<not> DayList_Matches (bo_Days b) t"

definition SupporterBlackoutDaySkip :: "edition \<Rightarrow> blackout \<Rightarrow> gotime \<Rightarrow> bool" where
  "SupporterBlackoutDaySkip ed b t = (case ed of Community \<Rightarrow> False | Supported \<Rightarrow> blackoutDaySkip b t)"

definition Blackout_Contains :: "edition \<Rightarrow> blackout \<Rightarrow> gotime \<Rightarrow> bool" where
  "Blackout_Contains ed b t =
     (if bo_Begin b = [] \<or> bo_End b = [] then False
      else case (parseHHMM (bo_Begin b), parseHHMM (bo_End b)) of
             (Some start, Some fin) \<Rightarrow>
               if SupporterBlackoutDaySkip ed b t then False
               else let now = hour t * 60 + minute t
                    in if fin < start then now > start \<or> now < fin
                       else if fin = start then False
                       else now > start \<and> now < fin
           | _ \<Rightarrow> False)"

definition Blocked :: "edition \<Rightarrow> schedule option \<Rightarrow> gotime \<Rightarrow> bool" where
  "Blocked ed s t =
     (case s of
        None \<Rightarrow> False
      | Some sc \<Rightarrow> (case Blackouts sc of
                      None \<Rightarrow> False
                    | Some bs \<Rightarrow> list_ex (\<lambda>b. Blackout_Contains ed b t) bs))"

definition dayAllowed :: "schedule \<Rightarrow> gotime \<Rightarrow> bool" where
  "dayAllowed s t =
     (if \<not> DayList_Empty (Days s) \<and> \<not> DayList_Matches (Days s) t then False
      else if \<not> DayList_Empty (ExcludeDays s) \<and> DayList_Matches (ExcludeDays s) t then False
      else True)"

definition DayAllowed :: "edition \<Rightarrow> schedule option \<Rightarrow> gotime \<Rightarrow> bool" where
  "DayAllowed ed s t =
     (case s of
        None \<Rightarrow> True
      | Some sc \<Rightarrow> (case ed of Community \<Rightarrow> True | Supported \<Rightarrow> dayAllowed sc t))"

definition firstWait :: "schedule \<Rightarrow> duration option" where
  "firstWait s = (if Start s = [] then None else ParseOffset (Start s))"

definition FirstWait :: "edition \<Rightarrow> schedule option \<Rightarrow> duration option" where
  "FirstWait ed s =
     (case s of
        None \<Rightarrow> None
      | Some sc \<Rightarrow> (case ed of Community \<Rightarrow> None | Supported \<Rightarrow> firstWait sc))"

definition IsRecurring :: "schedule option \<Rightarrow> bool" where
  "IsRecurring s =
     (case s of
        None \<Rightarrow> False
      | Some sc \<Rightarrow>
          if Recurring sc \<noteq> [] then True
          else Cron sc \<noteq> [] \<or> Interval sc > 0 \<or> Time sc \<noteq> [])"

section \<open>What cron fields mean\<close>

text \<open>Abstract cron fields: every value, or a list of steps, ranges and values.\<close>

datatype cron_atom = AStep int | AFrom int int | ARange int int | AVal int

fun atom_values :: "int \<Rightarrow> cron_atom \<Rightarrow> int set" where
  "atom_values lo (AStep k) = {v. lo \<le> v \<and> (v - lo) mod k = 0}"
| "atom_values lo (AFrom a k) = {v. a \<le> v \<and> (v - a) mod k = 0}"
| "atom_values lo (ARange a b) = {a..b}"
| "atom_values lo (AVal n) = {n}"

fun wf_atom :: "int \<Rightarrow> int \<Rightarrow> cron_atom \<Rightarrow> bool" where
  "wf_atom lo hi (AStep k) \<longleftrightarrow> 0 < k \<and> in_i64 k"
| "wf_atom lo hi (AFrom a k) \<longleftrightarrow> lo \<le> a \<and> a \<le> hi \<and> 0 < k \<and> in_i64 k"
| "wf_atom lo hi (ARange a b) \<longleftrightarrow> lo \<le> a \<and> a \<le> b \<and> b \<le> hi"
| "wf_atom lo hi (AVal n) \<longleftrightarrow> lo \<le> n \<and> n \<le> hi"

fun print_atom :: "cron_atom \<Rightarrow> string" where
  "print_atom (AStep k) = ''*/'' @ itoa k"
| "print_atom (AFrom a k) = itoa a @ ''/'' @ itoa k"
| "print_atom (ARange a b) = itoa a @ ''-'' @ itoa b"
| "print_atom (AVal n) = itoa n"

lemma itoa_no_sep:
  assumes "0 \<le> n"
  shows "CHR ''/'' \<notin> set (itoa n)" "CHR '','' \<notin> set (itoa n)" "CHR ''-'' \<notin> set (itoa n)"
    "CHR ''*'' \<notin> set (itoa n)"
  using digits_no_char [OF itoa_digits [OF assms]] by (auto simp: is_digit_def)

lemma itoa_not_star: "0 \<le> n \<Longrightarrow> itoa n \<noteq> ''*''"
  using itoa_no_sep(4) [of n] by auto

lemma splitn2_itoa:
  assumes "0 \<le> a"
  shows "splitn2 (CHR ''/'') (itoa a @ CHR ''/'' # t) = [itoa a, t]"
    and "splitn2 (CHR ''-'') (itoa a @ CHR ''-'' # t) = [itoa a, t]"
    and "splitn2 (CHR ''/'') (CHR ''*'' # CHR ''/'' # t) = [''*'', t]"
  using itoa_no_sep [OF assms] splitn2_sep [of "CHR ''/''" "''*''" t]
  by (simp_all add: go_string)

lemmas cron_atom_simps = splitn2_itoa itoa_no_sep itoa_not_star atoi_itoa parseRange_def

lemma itoa_cron_char: "0 \<le> n \<Longrightarrow> c \<in> set (itoa n) \<Longrightarrow> cron_char c \<and> c \<noteq> CHR '',''"
  using itoa_digits [of n] itoa_no_sep(2) [of n] by (auto simp: cron_char_def list_all_iff)

lemma print_atom_chars: "0 \<le> lo \<Longrightarrow> wf_atom lo hi a \<Longrightarrow> c \<in> set (print_atom a) \<Longrightarrow> cron_char c \<and> c \<noteq> CHR '',''"
  by (cases a) (auto dest: itoa_cron_char [rotated] simp: cron_char_def)

lemma print_atom_no_comma: "0 \<le> lo \<Longrightarrow> wf_atom lo hi a \<Longrightarrow> CHR '','' \<notin> set (print_atom a)"
  using print_atom_chars by blast

lemma print_atom_nonempty: "print_atom a \<noteq> []"
  by (cases a) auto

lemma print_atom_not_star: "0 \<le> lo \<Longrightarrow> wf_atom lo hi a \<Longrightarrow> print_atom a \<noteq> ''*''"
  by (cases a) (auto simp: itoa_not_star append_eq_Cons_conv)

lemma wf_in_i64: "0 \<le> lo \<Longrightarrow> in_i64 hi \<Longrightarrow> lo \<le> x \<Longrightarrow> x \<le> hi \<Longrightarrow> in_i64 x"
  by (auto simp: in_i64_def)

lemma validate_print_atom:
  assumes "0 \<le> lo" and "in_i64 hi" and "wf_atom lo hi a"
  shows "validateCronAtom (print_atom a) lo hi = None"
  using assms wf_in_i64 [OF assms(1,2)]
  by (cases a) (simp_all add: validateCronAtom_def cron_atom_simps)

text \<open>The match of a field that is neither a star nor a list.\<close>

lemma cronFieldMatch_step:
  assumes "f \<noteq> ''*''" and "CHR '','' \<notin> set f" and "CHR ''/'' \<notin> set p" and "f = p @ CHR ''/'' # q"
  shows "cronFieldMatch f v lo hi \<longleftrightarrow>
    (case atoi q of
       None \<Rightarrow> False
     | Some step \<Rightarrow> step > 0 \<and>
         (if p = ''*'' then go_rem (v - lo) step = 0
          else case atoi p of None \<Rightarrow> False | Some start \<Rightarrow> v \<ge> start \<and> go_rem (v - start) step = 0))"
  using assms(1,2) splitn2_sep [OF assms(3), of q] assms(4)
  by (subst cronFieldMatch.simps) (auto split: option.splits)

lemma cronFieldMatch_range:
  assumes "f \<noteq> ''*''" and "CHR '','' \<notin> set f" and "CHR ''/'' \<notin> set f" and "CHR ''-'' \<in> set f"
  shows "cronFieldMatch f v lo hi \<longleftrightarrow> (case parseRange f of None \<Rightarrow> False | Some (a, b) \<Rightarrow> v \<ge> a \<and> v \<le> b)"
  using assms by (subst cronFieldMatch.simps) simp

lemma cronFieldMatch_value:
  assumes "f \<noteq> ''*''" and "CHR '','' \<notin> set f" and "CHR ''/'' \<notin> set f" and "CHR ''-'' \<notin> set f"
  shows "cronFieldMatch f v lo hi \<longleftrightarrow> atoi f = Some v"
  using assms by (subst cronFieldMatch.simps) (auto split: option.splits)

lemma match_print_atom:
  assumes "0 \<le> lo" and "in_i64 hi" and "wf_atom lo hi a" and "lo \<le> v"
  shows "cronFieldMatch (print_atom a) v lo hi \<longleftrightarrow> v \<in> atom_values lo a"
proof -
  note shape = print_atom_not_star [OF assms(1,3)] print_atom_no_comma [OF assms(1,3)]
  note range = wf_in_i64 [OF assms(1,2)]
  show ?thesis
  proof (cases a)
    case (AStep k)
    then show ?thesis
      using cronFieldMatch_step [OF shape, of "''*''" "itoa k"] assms by (simp add: atoi_itoa go_arith)
  next
    case (AFrom x k)
    with assms have "0 \<le> x" by simp
    with AFrom show ?thesis
      using cronFieldMatch_step [OF shape, of "itoa x" "itoa k"] assms range [of x]
      by (auto simp: atoi_itoa go_arith itoa_no_sep itoa_not_star)
  next
    case (ARange x y)
    with assms have "0 \<le> x" "0 \<le> y" by auto
    with ARange show ?thesis
      using cronFieldMatch_range [OF shape] assms range [of x] range [of y]
      by (simp add: atoi_itoa itoa_no_sep splitn2_itoa parseRange_def)
  next
    case (AVal n)
    with assms have "0 \<le> n" by simp
    with AVal show ?thesis
      using cronFieldMatch_value [OF shape] assms range [of n] by (auto simp: atoi_itoa itoa_no_sep)
  qed
qed

definition print_field :: "cron_atom list \<Rightarrow> string" where
  "print_field as = join '','' (map print_atom as)"

lemma print_field_list:
  assumes "0 \<le> lo" and "\<forall>a \<in> set as. wf_atom lo hi a" and "2 \<le> length as"
  shows "CHR '','' \<in> set (print_field as)"
    and "split_char (CHR '','') (print_field as) = map print_atom as"
proof -
  show "CHR '','' \<in> set (print_field as)"
    unfolding print_field_def by (rule join_mem) (simp add: assms(3))
  show "split_char (CHR '','') (print_field as) = map print_atom as"
    unfolding print_field_def using assms print_atom_no_comma [OF assms(1)]
    by (intro split_char_join) auto
qed

lemma print_field_chars:
  assumes "0 \<le> lo" and "\<forall>a \<in> set as. wf_atom lo hi a"
  shows "\<forall>c \<in> set (print_field as). cron_char c"
  unfolding print_field_def
  using set_join [of "'',''" "map print_atom as"] print_atom_chars [OF assms(1)] assms(2)
  by (fastforce simp: cron_char_def)

lemma print_field_nonempty: "as \<noteq> [] \<Longrightarrow> print_field as \<noteq> []"
  by (cases as rule: remdups_adj.cases) (auto simp: print_field_def print_atom_nonempty)

lemma validate_list_None:
  "validate_list f ps lo hi = None \<longleftrightarrow>
     (\<forall>p \<in> set ps. p \<noteq> [] \<and> CHR '','' \<notin> set p \<and> validateCronAtom p lo hi = None)"
  by (induction ps) (auto split: option.splits)

lemma validate_print_field:
  assumes "0 \<le> lo" and "in_i64 hi" and "as \<noteq> []" and "\<forall>a \<in> set as. wf_atom lo hi a"
  shows "validateCronField (print_field as) lo hi = None"
proof -
  have ok: "find (\<lambda>c. \<not> cron_char c) (print_field as) = None"
    using print_field_chars [OF assms(1,4)] by (simp add: find_None_iff)
  show ?thesis
  proof (cases "2 \<le> length as")
    case True
    with print_field_list [OF assms(1,4)] ok print_field_nonempty [OF assms(3)] assms(4)
      print_atom_chars [OF assms(1)] validate_print_atom [OF assms(1,2)]
    show ?thesis
      by (auto simp: validateCronField_def validate_list_None print_atom_nonempty)
  next
    case False
    with assms(3) obtain a where "as = [a]" by (cases as rule: remdups_adj.cases) auto
    then show ?thesis
      using assms ok print_atom_chars [OF assms(1), of hi a] validate_print_atom [OF assms(1,2), of a]
      by (auto simp: validateCronField_def print_field_def print_atom_nonempty)
  qed
qed

lemma match_print_field:
  assumes "0 \<le> lo" and "in_i64 hi" and "as \<noteq> []" and "\<forall>a \<in> set as. wf_atom lo hi a" and "lo \<le> v"
  shows "cronFieldMatch (print_field as) v lo hi \<longleftrightarrow> (\<exists>a \<in> set as. v \<in> atom_values lo a)"
proof (cases "2 \<le> length as")
  case True
  note list = print_field_list [OF assms(1,4) True]
  then have "print_field as \<noteq> ''*''" by auto
  with list match_print_atom [OF assms(1,2) _ assms(5)] assms(4) show ?thesis
    by (subst cronFieldMatch.simps) (auto simp: list_ex_iff)
next
  case False
  with assms(3) obtain a where "as = [a]" by (cases as rule: remdups_adj.cases) auto
  with match_print_atom [OF assms(1,2) _ assms(5)] assms(4) show ?thesis
    by (simp add: print_field_def)
qed

text \<open>Every field that passes validation is matched by some value of its range.\<close>

lemma validated_atom_satisfiable:
  assumes "validateCronAtom p lo hi = None" and "CHR '','' \<notin> set p" and "p \<noteq> ''*''" and "lo \<le> hi"
  shows "\<exists>v. lo \<le> v \<and> v \<le> hi \<and> cronFieldMatch p v lo hi"
proof -
  consider (step) "CHR ''/'' \<in> set p"
    | (range) "CHR ''/'' \<notin> set p" "CHR ''-'' \<in> set p"
    | (single) "CHR ''/'' \<notin> set p" "CHR ''-'' \<notin> set p"
    by blast
  then show ?thesis
  proof cases
    case step
    then obtain x y where split: "p = x @ CHR ''/'' # y" "CHR ''/'' \<notin> set x" "splitn2 (CHR ''/'') p = [x, y]"
      by (rule splitn2_split)
    note match = cronFieldMatch_step [OF assms(3,2) split(2,1)]
    from assms(1) step split(3) obtain k where k: "atoi y = Some k" "0 < k"
      and start: "x \<noteq> ''*'' \<Longrightarrow> \<exists>s. atoi x = Some s \<and> lo \<le> s \<and> s \<le> hi"
      by (auto simp: validateCronAtom_def split: if_splits option.splits)
    show ?thesis
    proof (cases "x = ''*''")
      case True
      with match [of lo lo hi] k assms(4) show ?thesis by (auto simp: go_rem_def)
    next
      case False
      with start obtain s where "atoi x = Some s" "lo \<le> s" "s \<le> hi" by blast
      with False match [of s lo hi] k show ?thesis by (auto simp: go_rem_def)
    qed
  next
    case range
    with assms(1) obtain a b where "parseRange p = Some (a, b)" "lo \<le> a" "a \<le> b" "b \<le> hi"
      by (auto simp: validateCronAtom_def split: if_splits option.splits prod.splits)
    with cronFieldMatch_range [OF assms(3,2) range, of a lo hi] show ?thesis by (auto intro!: exI [of _ a])
  next
    case single
    with assms(1) obtain n where "atoi p = Some n" "lo \<le> n" "n \<le> hi"
      by (auto simp: validateCronAtom_def split: if_splits option.splits)
    with cronFieldMatch_value [OF assms(3,2) single, of n lo hi] show ?thesis by auto
  qed
qed

lemma validated_field_satisfiable:
  assumes "validateCronField f lo hi = None" and "lo \<le> hi"
  shows "\<exists>v. lo \<le> v \<and> v \<le> hi \<and> cronFieldMatch f v lo hi"
proof -
  consider "f = ''*''"
    | (list) "f \<noteq> ''*''" "CHR '','' \<in> set f" "validate_list f (split_char (CHR '','') f) lo hi = None"
    | (atom) "f \<noteq> ''*''" "CHR '','' \<notin> set f" "validateCronAtom f lo hi = None"
    using assms(1) by (auto simp: validateCronField_def split: if_splits option.splits)
  then show ?thesis
  proof cases
    case 1
    then have "cronFieldMatch f lo lo hi" by (subst cronFieldMatch.simps) simp
    then show ?thesis using assms(2) by blast
  next
    case list
    obtain p ps where ps: "split_char (CHR '','') f = p # ps"
      by (cases "split_char (CHR '','') f") auto
    then have p: "validateCronAtom p lo hi = None" "CHR '','' \<notin> set p"
      using list(3) by (auto split: if_splits option.splits)
    then have "p \<noteq> ''*''"
      by (auto simp: validateCronAtom_def atoi_def atoi_raw_def is_digit_def split: if_splits)
    then obtain v where "lo \<le> v" "v \<le> hi" "cronFieldMatch p v lo hi"
      using validated_atom_satisfiable [OF p _ assms(2)] by blast
    then show ?thesis
      using list(1,2) ps by (auto simp: cronFieldMatch.simps [of f])
  next
    case atom
    then show ?thesis using validated_atom_satisfiable assms(2) by blast
  qed
qed

section \<open>Clock times and windows\<close>

lemma parseHHMM_range: "parseHHMM s = Some m \<Longrightarrow> 0 \<le> m \<and> m < 1440"
  by (auto simp: parseHHMM_def Let_def split: if_splits option.splits)

lemma parseClock_range: "parseClock s = Some m \<Longrightarrow> 0 \<le> m \<and> m < 1440"
  by (auto simp: parseClock_def split: if_splits option.splits)

lemma minute_of_day_range: "0 \<le> minute_of_day t \<and> minute_of_day t < 1440"
  using hour_range [of t] minute_range [of t] by auto

text \<open>The two comparisons of the source are one circular interval with both ends left out.\<close>

lemma circular_window:
  fixes now start fin :: int
  assumes "0 \<le> now" "now < 1440" "0 \<le> start" "start < 1440" "0 \<le> fin" "fin < 1440"
  shows "(if fin < start then now > start \<or> now < fin
          else if fin = start then False else now > start \<and> now < fin) \<longleftrightarrow>
    0 < (now - start) mod 1440 \<and> (now - start) mod 1440 < (fin - start) mod 1440"
proof -
  have wrap: "(x - start) mod 1440 = (if x < start then x - start + 1440 else x - start)"
    if "0 \<le> x" "x < 1440" for x
  proof (cases "x < start")
    case True
    have "(x - start) mod 1440 = (x - start + 1440) mod 1440" by simp
    also have "\<dots> = x - start + 1440"
      using True that assms(3,4) by (intro mod_pos_pos_trivial) auto
    finally show ?thesis using True by simp
  next
    case False
    then show ?thesis using that assms(3,4) by (simp add: mod_pos_pos_trivial)
  qed
  show ?thesis
    unfolding wrap [OF assms(1,2)] wrap [OF assms(5,6)] using assms by auto
qed

lemma find_sorted_least:
  assumes "sorted xs" and "find (\<lambda>m. m > cur) xs = Some m" and "x \<in> set xs" and "x > cur"
  shows "m \<le> (x :: int)"
  using assms by (induction xs) (auto split: if_splits)

text \<open>The instants at which a list of clock times falls, from the local midnight of \<open>now\<close>.\<close>

definition clock_instants :: "int list \<Rightarrow> gotime \<Rightarrow> int set" where
  "clock_instants t now = {midnight_ns now + (k * 1440 + m) * ns_minute | k m. m \<in> set t}"

lemma clock_instantsI: "m \<in> set t \<Longrightarrow> midnight_ns now + (k * 1440 + m) * ns_minute \<in> clock_instants t now"
  by (auto simp: clock_instants_def)

lemma now_in_minute:
  assumes "fixed_zone (zone now)"
  shows "midnight_ns now + minute_of_day now * ns_minute \<le> nanos now \<and>
    nanos now < midnight_ns now + (minute_of_day now + 1) * ns_minute"
proof -
  define f where "f = nanos now mod ns_second"
  have f: "0 \<le> f" "f < ns_second" by (simp_all add: f_def)
  have "nanos now = midnight_ns now + (minute_of_day now * 60 + second now) * ns_second + f"
    unfolding f_def by (rule nanos_in_day [OF assms])
  with f second_range [of now] show ?thesis by (simp add: algebra_simps)
qed

lemma clock_date:
  assumes "fixed_zone (zone now)"
  shows "nanos (date (year now) (month now) (day now) (go_quot m 60) (go_rem m 60) 0 0 (zone now)) =
    midnight_ns now + m * ns_minute"
  unfolding date_same_day [OF assms] using go_quot_rem [of 60 m] by (simp add: algebra_simps)

lemma TimeList_Next_least:
  assumes zone: "fixed_zone (zone now)" and sorted: "sorted t" and "t \<noteq> []"
    and clock: "\<forall>m \<in> set t. 0 \<le> m \<and> m < 1440"
  shows "\<exists>next. TimeList_Next t now = Some next \<and> nanos next \<in> clock_instants t now \<and>
    nanos now < nanos next \<and> (\<forall>c \<in> clock_instants t now. nanos now < c \<longrightarrow> nanos next \<le> c)"
proof -
  let ?cur = "minute_of_day now"
  have later: "?cur < k" if "nanos now < midnight_ns now + k * ns_minute" for k
  proof -
    have "?cur * ns_minute < k * ns_minute" using now_in_minute [OF zone] that by linarith
    then show ?thesis by simp
  qed
  have future: "nanos now < midnight_ns now + k * ns_minute" if "?cur < k" for k
  proof -
    have "(?cur + 1) * ns_minute \<le> k * ns_minute" using that by simp
    then show ?thesis using now_in_minute [OF zone] by linarith
  qed
  have instants: "\<forall>c \<in> clock_instants t now. nanos now < c \<longrightarrow> midnight_ns now + b * ns_minute \<le> c"
    if least: "\<And>k x. x \<in> set t \<Longrightarrow> ?cur < k * 1440 + x \<Longrightarrow> b \<le> k * 1440 + x" for b
  proof (intro ballI impI)
    fix c assume "c \<in> clock_instants t now" "nanos now < c"
    then obtain k x where c: "c = midnight_ns now + (k * 1440 + x) * ns_minute" "x \<in> set t"
      by (auto simp: clock_instants_def)
    then have "b \<le> k * 1440 + x" using least later \<open>nanos now < c\<close> by blast
    then have "b * ns_minute \<le> (k * 1440 + x) * ns_minute" by (rule mult_right_mono) simp
    then show "midnight_ns now + b * ns_minute \<le> c" unfolding c by linarith
  qed
  obtain m0 t' where t: "t = m0 # t'" using \<open>t \<noteq> []\<close> by (cases t) auto
  show ?thesis
  proof (cases "find (\<lambda>m. m > ?cur) t")
    case (Some m)
    then have m: "m \<in> set t" "?cur < m" by (auto dest: find_SomeD)
    have least: "m \<le> k * 1440 + x" if "x \<in> set t" "?cur < k * 1440 + x" for k x
    proof (cases "k \<le> 0")
      case True
      with that clock minute_of_day_range [of now] have "k = 0" by (cases "k = 0") auto
      with that find_sorted_least [OF sorted Some] show ?thesis by simp
    next
      case False
      with that clock m show ?thesis by (smt (verit))
    qed
    have "\<forall>c \<in> clock_instants t now. nanos now < c \<longrightarrow> midnight_ns now + m * ns_minute \<le> c"
      by (rule instants) (rule least)
    moreover have "midnight_ns now + m * ns_minute \<in> clock_instants t now"
      using clock_instantsI [OF m(1), of now 0] by simp
    ultimately show ?thesis
      using Some t future [OF m(2)] by (simp add: TimeList_Next_def clock_date [OF zone])
  next
    case None
    then have past: "\<forall>x \<in> set t. x \<le> ?cur" by (auto simp: find_None_iff)
    have m0: "m0 \<le> x" if "x \<in> set t" for x using that sorted t by auto
    have least: "1440 + m0 \<le> k * 1440 + x" if "x \<in> set t" "?cur < k * 1440 + x" for k x
    proof -
      have "x \<le> ?cur" using past that(1) by blast
      with that(2) have "k > 0" by linarith
      with m0 [OF that(1)] show ?thesis by linarith
    qed
    have "\<forall>c \<in> clock_instants t now. nanos now < c \<longrightarrow> midnight_ns now + (1440 + m0) * ns_minute \<le> c"
      by (rule instants) (rule least)
    moreover have "midnight_ns now + (1440 + m0) * ns_minute \<in> clock_instants t now"
      using clock_instantsI [of m0 t now 1] t by simp
    moreover have "?cur < 1440 + m0" using minute_of_day_range [of now] clock t by auto
    ultimately show ?thesis
      using None t future [of "1440 + m0"] by (simp add: TimeList_Next_def clock_date [OF zone] algebra_simps)
  qed
qed

section \<open>Properties\<close>

text \<open>
  (C37) A cron field printed from well-formed parts (steps, steps from a start, ranges,
  values) passes validation, and it matches a value of the field exactly when some part
  denotes that value.
\<close>

theorem cron_field_denotation:
  assumes "0 \<le> lo" and "in_i64 hi" and "as \<noteq> []" and "\<forall>a \<in> set as. wf_atom lo hi a" and "lo \<le> v"
  shows "validateCronField (print_field as) lo hi = None \<and>
    (cronFieldMatch (print_field as) v lo hi \<longleftrightarrow> (\<exists>a \<in> set as. v \<in> atom_values lo a))"
  using validate_print_field [OF assms(1-4)] match_print_field [OF assms] by blast

theorem cron_field_denotation_witness:
  "print_field [AStep 15, ARange 3 5, AVal 7] = ''*/15,3-5,7'' \<and>
     validateCronField ''*/15,3-5,7'' 0 59 = None \<and> cronFieldMatch ''*/15,3-5,7'' 30 0 59"
proof -
  have printed: "print_field [AStep 15, ARange 3 5, AVal 7] = ''*/15,3-5,7''" by code_simp
  have "validateCronField (print_field [AStep 15, ARange 3 5, AVal 7]) 0 59 = None \<and>
    (cronFieldMatch (print_field [AStep 15, ARange 3 5, AVal 7]) 30 0 59 \<longleftrightarrow>
     (\<exists>a \<in> set [AStep 15, ARange 3 5, AVal 7]. 30 \<in> atom_values 0 a))"
    by (rule cron_field_denotation) (simp_all add: in_i64_def)
  then show ?thesis unfolding printed by simp
qed

text \<open>
  Every cron field that passes validation is matched by some value of its range, so
  no single validated field makes an expression dead.
\<close>

theorem validated_field_fires:
  assumes "validateCronField field lo hi = None" and "lo \<le> hi"
  shows "\<exists>v. lo \<le> v \<and> v \<le> hi \<and> cronFieldMatch field v lo hi"
  using assms by (rule validated_field_satisfiable)

theorem validated_field_fires_witness: "\<exists>v. 0 \<le> v \<and> v \<le> 6 \<and> cronFieldMatch ''1-5,6/40'' v 0 6"
  by (rule validated_field_fires) code_simp+

text \<open>
  A blackout window with two clock times is the open circular interval between them:
  an instant is inside when its minute of the day lies strictly after the start and
  strictly before the end, counted modulo a day, and its day is not excused. A window
  whose times are equal is empty.
\<close>

theorem blackout_window:
  assumes "parseHHMM (bo_Begin b) = Some start" and "parseHHMM (bo_End b) = Some fin"
  shows "Blackout_Contains ed b t \<longleftrightarrow> \<not> SupporterBlackoutDaySkip ed b t \<and>
    0 < (minute_of_day t - start) mod 1440 \<and>
    (minute_of_day t - start) mod 1440 < (fin - start) mod 1440"
proof -
  have times: "bo_Begin b \<noteq> []" "bo_End b \<noteq> []"
    using assms by (auto simp: parseHHMM_def replace_char_def)
  have range: "0 \<le> start" "start < 1440" "0 \<le> fin" "fin < 1440"
    using parseHHMM_range [OF assms(1)] parseHHMM_range [OF assms(2)] by simp_all
  have now: "0 \<le> minute_of_day t" "minute_of_day t < 1440" using minute_of_day_range [of t] by simp_all
  show ?thesis
    unfolding Blackout_Contains_def circular_window [OF now range, symmetric]
    using times by (simp add: assms Let_def)
qed

definition night_blackout :: blackout where
  "night_blackout = \<lparr>bo_Begin = ''22:00'', bo_End = ''0600'', bo_Days = no_days\<rparr>"

theorem blackout_window_witness:
  "Blackout_Contains Community night_blackout \<lparr>nanos = 3 * ns_hour, zone = utc\<rparr> \<longleftrightarrow>
     \<not> SupporterBlackoutDaySkip Community night_blackout \<lparr>nanos = 3 * ns_hour, zone = utc\<rparr> \<and>
     0 < (minute_of_day \<lparr>nanos = 3 * ns_hour, zone = utc\<rparr> - 1320) mod 1440 \<and>
     (minute_of_day \<lparr>nanos = 3 * ns_hour, zone = utc\<rparr> - 1320) mod 1440 < (360 - 1320) mod 1440"
  by (rule blackout_window) code_simp+

text \<open>
  In a zone without offset changes, the next run of a sorted list of clock times is
  the first instant after now at which one of the times falls, today or tomorrow.
\<close>

theorem next_clock_time_least:
  assumes "fixed_zone (zone now)" and "sorted t" and "t \<noteq> []" and "\<forall>m \<in> set t. 0 \<le> m \<and> m < 1440"
  shows "\<exists>next. TimeList_Next t now = Some next \<and> nanos next \<in> clock_instants t now \<and>
    nanos now < nanos next \<and> (\<forall>c \<in> clock_instants t now. nanos now < c \<longrightarrow> nanos next \<le> c)"
  using assms by (rule TimeList_Next_least)

theorem next_clock_time_least_witness:
  "\<exists>next. TimeList_Next [90, 1350] \<lparr>nanos = 23 * ns_hour, zone = utc\<rparr> = Some next \<and>
     23 * ns_hour < nanos next"
proof -
  have "\<exists>next. TimeList_Next [90, 1350] \<lparr>nanos = 23 * ns_hour, zone = utc\<rparr> = Some next \<and>
    nanos next \<in> clock_instants [90, 1350] \<lparr>nanos = 23 * ns_hour, zone = utc\<rparr> \<and>
    nanos \<lparr>nanos = 23 * ns_hour, zone = utc\<rparr> < nanos next \<and>
    (\<forall>c \<in> clock_instants [90, 1350] \<lparr>nanos = 23 * ns_hour, zone = utc\<rparr>.
       nanos \<lparr>nanos = 23 * ns_hour, zone = utc\<rparr> < c \<longrightarrow> nanos next \<le> c)"
    by (rule next_clock_time_least) (auto simp: fixed_zone_def utc_def)
  then show ?thesis by auto
qed

end
