(* ===== verification/ScheduleParse.thy ===== *)
theory ScheduleParse
  imports Schedule
begin

text \<open>
  Reading schedules from the configuration: the parsing half of
  \<open>internal/config/schedule.go\<close> and the day-list parser of \<open>supported/config/days.go\<close>.
  A schedule comes as a string or as a mapping; the YAML decoder delivers one of the two
  (\<open>schedule_node\<close>). The answer of \<open>license.AllowSchedule\<close> is a parameter. Warnings
  printed on the way are left out.

  The lemmas show that quote stripping ends and is idempotent, that a cron expression
  taken from a string has passed validation, that clock lists come out sorted and in
  range, and what the Community limits leave of a schedule.
\<close>

section \<open>Quotes\<close>

definition is_quote :: "char \<Rightarrow> bool" where
  "is_quote c \<longleftrightarrow> c = CHR 0x22 \<or> c = CHR 0x27"

lemma length_trim_space: "length (trim_space s) \<le> length s"
  using length_dropWhile_le [of is_space s] length_dropWhile_le [of is_space "rev (dropWhile is_space s)"]
  by (simp add: trim_space_def)

function unquote_loop :: "string \<Rightarrow> bool \<Rightarrow> string \<times> bool" where
  "unquote_loop t changed =
     (if length t \<ge> 2 \<and> is_quote (hd t) \<and> last t = hd t
      then unquote_loop (trim_space (butlast (tl t))) True
      else (t, changed))"
  by pat_completeness auto
termination
proof (relation "measure (\<lambda>(t, _). length t)")
  fix t :: string and changed :: bool
  assume "length t \<ge> 2 \<and> is_quote (hd t) \<and> last t = hd t"
  then show "((trim_space (butlast (tl t)), True), (t, changed)) \<in> measure (\<lambda>(t, _). length t)"
    using length_trim_space [of "butlast (tl t)"] by simp linarith
qed simp

declare unquote_loop.simps [simp del]

definition UnquoteScheduleValue :: "string \<Rightarrow> string \<times> bool" where
  "UnquoteScheduleValue s = unquote_loop (trim_space s) False"

section \<open>Validation and limits\<close>

definition allDigits :: "string \<Rightarrow> bool" where
  "allDigits s \<longleftrightarrow> list_all is_digit s \<and> length s > 0"

definition Schedule_Validate :: "schedule \<Rightarrow> schedule_error option" where
  "Schedule_Validate s =
     (case (if Cron s \<noteq> [] then ValidateCron (Cron s) else None) of
        Some err \<Rightarrow> Some err
      | None \<Rightarrow>
          if Begin s = [] then None
          else let b = trim_space (Begin s)
               in if contains_any b [CHR 0x22, CHR 0x27] then Some (BeginQuotes (Begin s))
                  else if has_prefix b ''+''
                  then (case atoi (trim_prefix b ''+'') of
                          None \<Rightarrow> Some (BeginInvalid (Begin s))
                        | Some n \<Rightarrow> if n < 0 then Some (BeginInvalid (Begin s)) else None)
                  else if length b = 4 \<and> allDigits b
                  then (if parseClock b = None then Some (BeginInvalid (Begin s)) else None)
                  else Some (BeginInvalid (Begin s)))"

definition CommunityScheduleLimits :: "schedule \<Rightarrow> schedule_error + schedule" where
  "CommunityScheduleLimits s =
     (if Start s \<noteq> [] \<and> Recurring s \<noteq> [] then Inl (NeedsSupporter (Start s))
      else if \<not> DayList_Empty (Days s) then Inl (NeedsSupporter ''days'')
      else if \<not> DayList_Empty (ExcludeDays s) then Inl (NeedsSupporter ''exclude_days'')
      else if (case Blackouts s of None \<Rightarrow> False
               | Some bs \<Rightarrow> list_ex (\<lambda>b. \<not> DayList_Empty (bo_Days b)) bs)
      then Inl (NeedsSupporter ''blackout days'')
      else if length (Time s) > 1 then Inr (s\<lparr>Time := [hd (Time s)]\<rparr>)
      else Inr s)"

definition licensedSchedule :: "license_check \<Rightarrow> schedule \<Rightarrow> schedule_error + schedule" where
  "licensedSchedule allow s =
     (case allow of Some _ \<Rightarrow> CommunityScheduleLimits s | None \<Rightarrow> Inr s)"

definition enforceCommunityLimits :: "edition \<Rightarrow> license_check \<Rightarrow> schedule \<Rightarrow> schedule_error + schedule" where
  "enforceCommunityLimits ed allow s =
     (case ed of Community \<Rightarrow> CommunityScheduleLimits s | Supported \<Rightarrow> licensedSchedule allow s)"

definition unquote_field :: "string \<Rightarrow> string" where
  "unquote_field v = (case UnquoteScheduleValue v of (cleaned, stripped) \<Rightarrow> if stripped then cleaned else v)"

definition normalize :: "schedule \<Rightarrow> schedule" where
  "normalize s = s\<lparr>Cron := unquote_field (Cron s), Begin := unquote_field (Begin s),
     Start := unquote_field (Start s), Recurring := unquote_field (Recurring s)\<rparr>"

section \<open>Natural language\<close>

definition looksLikeNL :: "string \<Rightarrow> bool" where
  "looksLikeNL phrase =
     (let p = to_lower (trim_space phrase)
      in if \<not> contains p '' '' then False
         else if list_ex (contains p)
             [''every'', ''at '', ''am'', ''pm'', ''daily'', ''nightly'', ''then '', '' minute'',
              '' minutes'', '' hour'', '' hours'', '' midnight'', '' noon'', ''after ''] then True
         else list_ex (contains p)
             [''monday'', ''tuesday'', ''wednesday'', ''thursday'', ''friday'', ''saturday'',
              ''sunday'', ''weekday'', ''weekend''])"

text \<open>
  The variable \<open>SupporterParseNL\<close>: the error path of the Community build, or \<open>parseNL\<close>
  over the phrase parser \<open>ParseNL\<close>. The result is the schedule when the phrase matched.
\<close>

definition SupporterParseNL ::
  "edition \<Rightarrow> license_check \<Rightarrow> (string \<Rightarrow> schedule option) \<Rightarrow> string \<Rightarrow> schedule_error + schedule option" where
  "SupporterParseNL ed allow ParseNL phrase =
     (case ed of
        Community \<Rightarrow> if looksLikeNL phrase then Inl (NeedsSupporter phrase) else Inr None
      | Supported \<Rightarrow>
          (case allow of
             Some _ \<Rightarrow> Inl (NeedsSupporter phrase)
           | None \<Rightarrow> Inr (ParseNL phrase)))"

section \<open>Schedule strings\<close>

definition parseString ::
  "edition \<Rightarrow> license_check \<Rightarrow> (string \<Rightarrow> schedule option) \<Rightarrow> schedule \<Rightarrow> string \<Rightarrow> schedule_error + schedule" where
  "parseString ed allow ParseNL s str0 =
     (let str = unquote_field str0;
          limits = enforceCommunityLimits ed allow;
          clock = (case TimeList_parse [] str of Inl err \<Rightarrow> Inl err | Inr ts \<Rightarrow> limits (s\<lparr>Time := ts\<rparr>));
          cron = (case ValidateCron str of Some err \<Rightarrow> Inl err | None \<Rightarrow> limits (s\<lparr>Cron := str\<rparr>))
      in if has_prefix str ''+'' then limits (s\<lparr>Begin := str\<rparr>)
         else if length str = 4 \<and> allDigits str then clock
         else if isTimeList str then clock
         else if contains str ''*'' then cron
         else if allDigits str then limits (s\<lparr>Interval := fst (atoi_raw str)\<rparr>)
         else case SupporterParseNL ed allow ParseNL str of
                Inl err \<Rightarrow> Inl err
              | Inr (Some ns) \<Rightarrow> limits ns
              | Inr None \<Rightarrow> if contains str '' '' then cron else Inl (CannotParse str))"

definition parseScheduleString ::
  "edition \<Rightarrow> license_check \<Rightarrow> (string \<Rightarrow> schedule option) \<Rightarrow> string \<Rightarrow> schedule option" where
  "parseScheduleString ed allow ParseNL str =
     (case parseString ed allow ParseNL empty_schedule str of Inl _ \<Rightarrow> None | Inr s \<Rightarrow> Some s)"

datatype schedule_node = NodeString string | NodeMap schedule

definition UnmarshalYAML ::
  "edition \<Rightarrow> license_check \<Rightarrow> (string \<Rightarrow> schedule option) \<Rightarrow> schedule_node \<Rightarrow> schedule_error + schedule" where
  "UnmarshalYAML ed allow ParseNL node =
     (case node of
        NodeString str \<Rightarrow> parseString ed allow ParseNL empty_schedule str
      | NodeMap a \<Rightarrow>
          (let s = normalize a
           in case (if Recurring s = [] then Inr s
                    else case parseScheduleString ed allow ParseNL (Recurring s) of
                           None \<Rightarrow> Inl (CannotParse (Recurring s))
                         | Some ns \<Rightarrow> Inr (s\<lparr>Cron := Cron ns, Interval := Interval ns, Time := Time ns\<rparr>)) of
                Inl err \<Rightarrow> Inl err
              | Inr s' \<Rightarrow>
                  (case Schedule_Validate s' of
                     Some err \<Rightarrow> Inl err
                   | None \<Rightarrow> enforceCommunityLimits ed allow s')))"

section \<open>Day lists (Supported edition)\<close>

definition day_names :: "string list" where
  "day_names = [''sunday'', ''monday'', ''tuesday'', ''wednesday'', ''thursday'', ''friday'', ''saturday'']"

text \<open>
  The table \<open>weekdayAliases\<close>. Each name is entered in three forms, the full name, its
  first three letters and the name without the suffix \<open>day\<close>.
\<close>

definition weekday_forms :: "(string \<times> int) list" where
  "weekday_forms =
     concat (map (\<lambda>(i, name). [(name, i), (take 3 name, i), (trim_suffix name ''day'', i)])
       (zip [0, 1, 2, 3, 4, 5, 6] day_names))"

definition weekdayAliases :: "string \<Rightarrow> int set option" where
  "weekdayAliases tok =
     (if tok = ''thur'' then Some {4}
      else if tok = ''tues'' then Some {2}
      else if tok = ''weekdays'' then Some {1, 2, 3, 4, 5}
      else if tok = ''weekend'' then Some {0, 6}
      else if tok = ''all'' \<or> tok = ''any'' then Some {0, 1, 2, 3, 4, 5, 6}
      else let hits = map snd (filter (\<lambda>(f, _). f = tok) weekday_forms)
           in if hits = [] then None else Some (set hits))"

definition parseWeekday :: "string \<Rightarrow> int set option" where
  "parseWeekday tok = weekdayAliases (to_lower tok)"

fun parseDayList_toks :: "string list \<Rightarrow> day_list \<Rightarrow> schedule_error + day_list" where
  "parseDayList_toks [] d = Inr d"
| "parseDayList_toks (t # ts) d =
     (let tok = trim_space t
      in if tok = [] then parseDayList_toks ts d
         else case atoi tok of
                Some n \<Rightarrow>
                  if n < 1 \<or> n > 31 then Inl (DayOutOfRange n)
                  else parseDayList_toks ts (d\<lparr>dom_days := insert n (dom_days d)\<rparr>)
              | None \<Rightarrow>
                  (case parseWeekday tok of
                     None \<Rightarrow> Inl (InvalidDay tok)
                   | Some ds \<Rightarrow> parseDayList_toks ts (d\<lparr>weekdays := weekdays d \<union> ds\<rparr>)))"

definition parseDayList :: "string \<Rightarrow> schedule_error + day_list" where
  "parseDayList s = parseDayList_toks (split_char (CHR '','') s) no_days"

section \<open>Lemmas\<close>

lemma dropWhile_hd: "dropWhile P s \<noteq> [] \<Longrightarrow> \<not> P (hd (dropWhile P s))"
  by (rule hd_dropWhile)

lemma trim_space_ends:
  assumes "trim_space s \<noteq> []"
  shows "\<not> is_space (hd (trim_space s)) \<and> \<not> is_space (last (trim_space s))"
proof -
  let ?l = "dropWhile is_space s"
  let ?r = "dropWhile is_space (rev ?l)"
  have r: "?r \<noteq> []" using assms by (simp add: trim_space_def)
  then have l: "?l \<noteq> []" by (metis dropWhile.simps(1) rev.simps(1))
  have "\<not> is_space (last (trim_space s))"
    using hd_dropWhile [OF r] r by (simp add: trim_space_def last_rev)
  moreover have "last ?r = last (rev ?l)"
    using r by (metis last_appendR takeWhile_dropWhile_id)
  then have "hd (trim_space s) = hd ?l"
    using r l by (simp add: trim_space_def hd_rev last_rev)
  with hd_dropWhile [OF l] have "\<not> is_space (hd (trim_space s))" by simp
  ultimately show ?thesis by simp
qed

lemma trim_space_idem: "trim_space (trim_space s) = trim_space s"
proof (cases "trim_space s = []")
  case False
  with trim_space_ends [OF False] show ?thesis by (intro trim_space_id) auto
next
  case True
  then show ?thesis by (metis dropWhile.simps(1) rev.simps(1) trim_space_def)
qed

definition unquoted :: "string \<Rightarrow> bool" where
  "unquoted t \<longleftrightarrow> trim_space t = t \<and> \<not> (length t \<ge> 2 \<and> is_quote (hd t) \<and> last t = hd t)"

lemma unquote_loop_unquoted: "trim_space t = t \<Longrightarrow> unquoted (fst (unquote_loop t c))"
proof (induction t c rule: unquote_loop.induct)
  case (1 t c)
  show ?case
  proof (cases "length t \<ge> 2 \<and> is_quote (hd t) \<and> last t = hd t")
    case True
    then have "unquote_loop t c = unquote_loop (trim_space (butlast (tl t))) True"
      by (subst unquote_loop.simps) (simp only: if_True simp_thms)
    with "1.IH" [OF True trim_space_idem] show ?thesis by (simp only:)
  next
    case False
    then have "unquote_loop t c = (t, c)" by (subst unquote_loop.simps) (simp only: if_False)
    with False "1.prems" show ?thesis by (simp only: unquoted_def fst_conv simp_thms)
  qed
qed

lemma UnquoteScheduleValue_unquoted: "unquoted (fst (UnquoteScheduleValue s))"
  unfolding UnquoteScheduleValue_def by (rule unquote_loop_unquoted) (rule trim_space_idem)

lemma UnquoteScheduleValue_id: "unquoted t \<Longrightarrow> UnquoteScheduleValue t = (t, False)"
  unfolding UnquoteScheduleValue_def unquoted_def
  by (subst unquote_loop.simps) (simp only: if_False simp_thms)

lemma TimeList_parse_toks_range:
  "TimeList_parse_toks toks t = Inr t' \<Longrightarrow> \<forall>m \<in> set t. 0 \<le> m \<and> m < 1440 \<Longrightarrow>
     \<forall>m \<in> set t'. 0 \<le> m \<and> m < 1440"
proof (induction toks t rule: TimeList_parse_toks.induct)
  case (2 tok toks t)
  then show ?case
    using parseClock_range [of "trim_space tok"]
    by (simp add: Let_def split: if_splits option.splits)
qed simp

lemma TimeList_parse_sorted:
  "TimeList_parse [] s = Inr t \<Longrightarrow> sorted t \<and> (\<forall>m \<in> set t. 0 \<le> m \<and> m < 1440)"
  by (auto simp: TimeList_parse_def split: sum.splits dest: TimeList_parse_toks_range)

lemma enforce_fields:
  assumes "enforceCommunityLimits ed allow s = Inr s'"
  shows "Cron s' = Cron s" "Interval s' = Interval s" "Begin s' = Begin s" "Start s' = Start s"
    "Recurring s' = Recurring s" "Blackouts s' = Blackouts s"
    "Time s' = Time s \<or> Time s' = [hd (Time s)] \<and> Time s \<noteq> []"
proof -
  have "s' = s \<or> length (Time s) > 1 \<and> s' = s\<lparr>Time := [hd (Time s)]\<rparr>"
    using assms
    by (simp add: enforceCommunityLimits_def licensedSchedule_def CommunityScheduleLimits_def
        split: edition.splits option.split_asm if_split_asm)
  then show "Cron s' = Cron s" "Interval s' = Interval s" "Begin s' = Begin s" "Start s' = Start s"
    "Recurring s' = Recurring s" "Blackouts s' = Blackouts s"
    "Time s' = Time s \<or> Time s' = [hd (Time s)] \<and> Time s \<noteq> []"
    by auto
qed

text \<open>What a schedule taken from a string may hold: a validated expression, sorted clock times.\<close>

definition sound_schedule :: "schedule \<Rightarrow> bool" where
  "sound_schedule s \<longleftrightarrow> (Cron s \<noteq> [] \<longrightarrow> ValidateCron (Cron s) = None) \<and>
     sorted (Time s) \<and> (\<forall>m \<in> set (Time s). 0 \<le> m \<and> m < 1440)"

lemma enforce_sound:
  assumes "enforceCommunityLimits ed allow s = Inr s'" and "sound_schedule s"
  shows "sound_schedule s'"
proof -
  note fields = enforce_fields [OF assms(1)]
  from fields(7) have "sorted (Time s') \<and> set (Time s') \<subseteq> set (Time s)"
    using assms(2) by (auto simp: sound_schedule_def)
  with fields(1) assms(2) show ?thesis unfolding sound_schedule_def by auto
qed

lemma sound_empty: "sound_schedule empty_schedule"
  by (simp add: sound_schedule_def empty_schedule_def)

lemma sound_time: "TimeList_parse [] str = Inr ts \<Longrightarrow> sound_schedule (empty_schedule\<lparr>Time := ts\<rparr>)"
  using TimeList_parse_sorted [of str ts] by (simp add: sound_schedule_def empty_schedule_def)

lemma sound_updates:
  "ValidateCron str = None \<Longrightarrow> sound_schedule (empty_schedule\<lparr>Cron := str\<rparr>)"
  "sound_schedule (empty_schedule\<lparr>Begin := str\<rparr>)"
  "sound_schedule (empty_schedule\<lparr>Interval := n\<rparr>)"
  by (simp_all add: sound_schedule_def empty_schedule_def)

lemma parseString_source:
  assumes "parseString ed allow ParseNL empty_schedule str = Inr sc"
  shows "\<exists>s0. enforceCommunityLimits ed allow s0 = Inr sc \<and>
    (sound_schedule s0 \<or> SupporterParseNL ed allow ParseNL (unquote_field str) = Inr (Some s0))"
proof -
  let ?s = "unquote_field str"
  have clock: ?thesis
    if "(case TimeList_parse [] ?s of Inl err \<Rightarrow> Inl err
         | Inr ts \<Rightarrow> enforceCommunityLimits ed allow (empty_schedule\<lparr>Time := ts\<rparr>)) = Inr sc"
    using that sound_time by (auto split: sum.splits)
  have cron: ?thesis
    if "(case ValidateCron ?s of Some err \<Rightarrow> Inl err
         | None \<Rightarrow> enforceCommunityLimits ed allow (empty_schedule\<lparr>Cron := ?s\<rparr>)) = Inr sc"
    using that sound_updates(1) by (auto split: option.splits)
  have nl: ?thesis
    if "(case SupporterParseNL ed allow ParseNL ?s of
           Inl err \<Rightarrow> Inl err
         | Inr (Some ns) \<Rightarrow> enforceCommunityLimits ed allow ns
         | Inr None \<Rightarrow> if contains ?s '' '' then
             (case ValidateCron ?s of Some err \<Rightarrow> Inl err
              | None \<Rightarrow> enforceCommunityLimits ed allow (empty_schedule\<lparr>Cron := ?s\<rparr>))
            else Inl (CannotParse ?s)) = Inr sc"
  proof (cases "\<exists>ns. SupporterParseNL ed allow ParseNL ?s = Inr (Some ns)")
    case True
    then obtain ns where ns: "SupporterParseNL ed allow ParseNL ?s = Inr (Some ns)" by blast
    with that have "enforceCommunityLimits ed allow ns = Inr sc" by simp
    with ns show ?thesis by blast
  next
    case False
    with that show ?thesis by (intro cron) (auto split: sum.splits option.splits if_splits)
  qed
  show ?thesis
    using assms clock cron nl sound_updates(2,3) unfolding parseString_def Let_def
    by (auto split: if_splits)
qed

section \<open>Properties\<close>

text \<open>
  (C38) A schedule read from a string that is not taken for a phrase, by any edition, carries
  a cron expression only after it passed validation, and its clock times are sorted and
  within the day.
\<close>

theorem parsed_schedule_sound:
  assumes "parseString ed allow ParseNL empty_schedule str = Inr sc"
    and "\<And>ns. SupporterParseNL ed allow ParseNL (unquote_field str) \<noteq> Inr (Some ns)"
  shows "(Cron sc \<noteq> [] \<longrightarrow> ValidateCron (Cron sc) = None) \<and> sorted (Time sc) \<and>
    (\<forall>m \<in> set (Time sc). 0 \<le> m \<and> m < 1440)"
proof -
  obtain s0 where "enforceCommunityLimits ed allow s0 = Inr sc" "sound_schedule s0"
    using parseString_source [OF assms(1)] assms(2) by blast
  then have "sound_schedule sc" by (rule enforce_sound)
  then show ?thesis unfolding sound_schedule_def .
qed

theorem parsed_schedule_sound_witness:
  "\<exists>sc. parseString Community None (\<lambda>_. None) empty_schedule ''22:30, 0130'' = Inr sc \<and>
     sorted (Time sc) \<and> (\<forall>m \<in> set (Time sc). 0 \<le> m \<and> m < 1440)"
proof -
  have run: "parseString Community None (\<lambda>_. None) empty_schedule ''22:30, 0130'' = Inr (empty_schedule\<lparr>Time := [90]\<rparr>)"
    by code_simp
  have "SupporterParseNL Community None (\<lambda>_. None) p \<noteq> Inr (Some ns)" for p ns
    by (simp add: SupporterParseNL_def)
  then show ?thesis using run parsed_schedule_sound [OF run] by blast
qed

text \<open>
  Stripping quotes ends with a value that is trimmed and no longer quoted, and
  stripping that value again changes nothing.
\<close>

theorem unquote_idempotent:
  "unquoted (fst (UnquoteScheduleValue s)) \<and>
     UnquoteScheduleValue (fst (UnquoteScheduleValue s)) = (fst (UnquoteScheduleValue s), False)"
  using UnquoteScheduleValue_unquoted UnquoteScheduleValue_id by blast

end
