(* ===== verification/Cron.thy ===== *)
theory Cron
  imports ScheduleParse
begin

text \<open>
  When a job runs next: \<open>internal/scheduler/cron.go\<close>. Durations are nanoseconds. The two
  functions that divide by the step of an interval return \<open>None\<close> where Go panics (the step
  in nanoseconds wraps to zero) or where the loop over grid points never ends (the step
  wraps to a negative number).

  The lemmas show that \<open>nextCronAt\<close> finds the first matching minute boundary of the next
  525600 minutes, that the matcher of the scheduler agrees with the one of the
  configuration, that an anchored interval waits for the next point of its grid, and that
  the count of missed grid points is the size of the set of grid points in between.
\<close>

section \<open>Matching\<close>

function fieldMatch :: "string \<Rightarrow> int \<Rightarrow> int \<Rightarrow> int \<Rightarrow> bool" where
  "fieldMatch field val lo hi =
     (if field = ''*'' then True
      else if contains_any field [CHR 0x22, CHR 0x27] then False
      else if CHR '','' \<in> set field
      then list_ex (\<lambda>p. fieldMatch p val lo hi) (split_char (CHR '','') field)
      else if CHR ''/'' \<in> set field then
        (case splitn2 (CHR ''/'') field of
           [p, q] \<Rightarrow>
             (case atoi q of
                None \<Rightarrow> False
              | Some step \<Rightarrow>
                  if step \<le> 0 then False
                  else if p = ''*'' then go_rem (val - lo) step = 0
                  else (case atoi p of
                          None \<Rightarrow> False
                        | Some start \<Rightarrow> val \<ge> start \<and> go_rem (val - start) step = 0))
         | _ \<Rightarrow> False)
      else if CHR ''-'' \<in> set field then
        (case splitn2 (CHR ''-'') field of
           [p, q] \<Rightarrow>
             (case (atoi p, atoi q) of (Some a, Some b) \<Rightarrow> val \<ge> a \<and> val \<le> b | _ \<Rightarrow> False)
         | _ \<Rightarrow> False)
      else (case atoi field of None \<Rightarrow> False | Some n \<Rightarrow> val = n))"
  by pat_completeness auto
termination
  by (relation "measure (\<lambda>(f, _). length f)") (auto intro: split_char_shorter)

declare fieldMatch.simps [simp del]

definition cronMatch :: "string \<Rightarrow> gotime \<Rightarrow> bool" where
  "cronMatch expr t =
     (case str_fields expr of
        [p0, p1, p2, p3, p4] \<Rightarrow>
          fieldMatch p0 (minute t) 0 59 \<and> fieldMatch p1 (hour t) 0 23 \<and>
          fieldMatch p2 (day t) 1 31 \<and> fieldMatch p3 (month t) 1 12 \<and>
          fieldMatch p4 (weekday t) 0 6
      | _ \<Rightarrow> False)"

function cron_loop :: "int \<Rightarrow> string \<Rightarrow> gotime \<Rightarrow> gotime \<Rightarrow> duration" where
  "cron_loop i expr now next =
     (if i < 525600
      then if cronMatch expr next then sub next now
           else cron_loop (i + 1) expr now (add next ns_minute)
      else 0)"
  by pat_completeness auto
termination
  by (relation "measure (\<lambda>(i, _). nat (525600 - i))") auto

declare cron_loop.simps [simp del]

definition nextCronAt :: "string \<Rightarrow> gotime \<Rightarrow> duration" where
  "nextCronAt expr now = cron_loop 0 expr now (truncate_to (add now ns_minute) ns_minute)"

section \<open>Waiting\<close>

definition parseBeginAt :: "string \<Rightarrow> gotime \<Rightarrow> duration" where
  "parseBeginAt begin now =
     (if has_prefix begin ''+'' then
        (let m = (case scan_int None (drop 1 begin) of None \<Rightarrow> 0 | Some (v, _) \<Rightarrow> v)
         in if m > 0 then i64 (m * ns_minute) else 0)
      else if length begin = 4 then
        (let (h, m) = (case scan_int (Some 2) begin of
                         None \<Rightarrow> (0, 0)
                       | Some (h, r) \<Rightarrow> (h, case scan_int (Some 2) r of None \<Rightarrow> 0 | Some (m, _) \<Rightarrow> m));
             t0 = date (year now) (month now) (day now) h m 0 0 (zone now);
             target = (if before t0 now then add t0 ns_day else t0)
         in sub target now)
      else 0)"

definition anchor_epoch :: "gotime \<Rightarrow> int \<Rightarrow> gotime" where
  "anchor_epoch now a = date (year now) (month now) (day now) (go_quot a 60) (go_rem a 60) 0 0 (zone now)"

fun anchored_loop :: "duration \<Rightarrow> gotime \<Rightarrow> int list \<Rightarrow> duration \<Rightarrow> duration" where
  "anchored_loop step now [] best = best"
| "anchored_loop step now (a # as) best =
     (let rem0 = go_rem (sub now (anchor_epoch now a)) step;
          rem = (if rem0 < 0 then i64 (rem0 + step) else rem0);
          d = (if rem = 0 then step else i64 (step - rem))
      in anchored_loop step now as (if best = 0 \<or> d < best then d else best))"

definition nextAnchoredDuration :: "int list \<Rightarrow> int \<Rightarrow> gotime \<Rightarrow> duration option" where
  "nextAnchoredDuration anchors intervalMin now =
     (if anchors = [] \<or> intervalMin \<le> 0 then Some 0
      else let step = i64 (intervalMin * ns_minute)
           in if step = 0 then None else Some (anchored_loop step now anchors 0))"

definition nextJobDurationAt :: "schedule option \<Rightarrow> gotime \<Rightarrow> duration option" where
  "nextJobDurationAt s now =
     (case s of
        None \<Rightarrow> Some 0
      | Some sc \<Rightarrow>
          if Cron sc \<noteq> [] then Some (nextCronAt (Cron sc) now)
          else if Interval sc > 0 then
            (if Time sc \<noteq> [] then nextAnchoredDuration (Time sc) (Interval sc) now
             else Some (i64 (Interval sc * ns_minute)))
          else if Begin sc \<noteq> [] then Some (parseBeginAt (Begin sc) now)
          else if Time sc \<noteq> [] then
            (case TimeList_Next (Time sc) now of Some next \<Rightarrow> Some (sub next now) | None \<Rightarrow> Some 0)
          else Some 0)"

definition timeAnchorWait :: "schedule option \<Rightarrow> gotime \<Rightarrow> duration option" where
  "timeAnchorWait s now =
     (case s of
        None \<Rightarrow> None
      | Some sc \<Rightarrow>
          if Time sc = [] then None
          else map_option (\<lambda>next. sub next now) (TimeList_Next (Time sc) now))"

section \<open>Missed grid points\<close>

text \<open>The state of the loop: the seconds seen, the count and the first three points.\<close>

type_synonym grid_state = "int set \<times> int \<times> gotime list"

definition grid_visit :: "gotime \<Rightarrow> grid_state \<Rightarrow> grid_state" where
  "grid_visit g st =
     (case st of (seen, n, samples) \<Rightarrow>
        if unix g \<in> seen then st
        else (insert (unix g) seen, n + 1, if length samples < 3 then samples @ [g] else samples))"

partial_function (option) grid_loop :: "duration \<Rightarrow> gotime \<Rightarrow> gotime \<Rightarrow> grid_state \<Rightarrow> grid_state option" where
  "grid_loop step fin g st =
     (if before g fin then grid_loop step fin (add g step) (grid_visit g st) else Some st)"

fun missed_loop :: "duration \<Rightarrow> gotime \<Rightarrow> gotime \<Rightarrow> int list \<Rightarrow> grid_state \<Rightarrow> grid_state option" where
  "missed_loop step prev fin [] st = Some st"
| "missed_loop step prev fin (a # as) st =
     (let rem0 = go_rem (sub prev (anchor_epoch prev a)) step;
          rem = (if rem0 < 0 then i64 (rem0 + step) else rem0)
      in case grid_loop step fin (add prev (i64 (step - rem))) st of
           None \<Rightarrow> None
         | Some st' \<Rightarrow> missed_loop step prev fin as st')"

definition missedGridPoints :: "int list \<Rightarrow> int \<Rightarrow> gotime \<Rightarrow> gotime \<Rightarrow> (int \<times> gotime list) option" where
  "missedGridPoints anchors intervalMin prev fin =
     (if anchors = [] \<or> intervalMin \<le> 0 \<or> \<not> after fin prev then Some (0, [])
      else let step = i64 (intervalMin * ns_minute)
           in if step = 0 then None
              else map_option snd (missed_loop step prev fin anchors ({}, 0, [])))"

section \<open>Printing\<close>

definition plural :: "int \<Rightarrow> string" where
  "plural n = (if n = 1 then [] else ''s'')"

text \<open>\<open>Duration.Round\<close>: to the nearest multiple, halves away from zero, saturating.\<close>

definition dur_round :: "duration \<Rightarrow> duration \<Rightarrow> duration" where
  "dur_round d m =
     (if m \<le> 0 then d
      else let r = \<bar>go_rem d m\<bar>
           in if d < 0
              then (if r + r < m then d + r else let d1 = d - m + r in if in_i64 d1 then d1 else - (2 ^ 63))
              else (if r + r < m then d - r else let d1 = d + m - r in if in_i64 d1 then d1 else 2 ^ 63 - 1))"

definition roundDur :: "duration \<Rightarrow> string" where
  "roundDur d0 =
     (let d = dur_round d0 1000000
      in if d = 0 then ''0s''
         else if d < ns_second then itoa (go_quot d 1000000) @ ''ms''
         else let h = go_quot d ns_hour; d1 = d - h * ns_hour;
                  m = go_quot d1 ns_minute; d2 = d1 - m * ns_minute;
                  s = go_quot d2 ns_second;
                  ms = go_rem (go_quot d2 1000000) 1000
              in if h > 0 then itoa h @ ''h'' @ itoa m @ ''m'' @ itoa s @ ''s''
                 else if m > 0 then itoa m @ ''m'' @ itoa s @ ''s''
                 else if ms > 0 then itoa s @ ''s'' @ pad_left 3 (itoa ms) @ ''ms''
                 else itoa s @ ''s'')"

definition short_day :: "int \<Rightarrow> string" where
  "short_day w = [''Sun'', ''Mon'', ''Tue'', ''Wed'', ''Thu'', ''Fri'', ''Sat''] ! nat w"

definition format_clock :: "gotime \<Rightarrow> string" where
  "format_clock t = pad_left 2 (itoa (hour t)) @ '':'' @ pad_left 2 (itoa (minute t))"

definition formatMissedTimes :: "gotime list \<Rightarrow> gotime \<Rightarrow> string" where
  "formatMissedTimes ts now =
     join '', '' (map (\<lambda>t.
        if year t = year now \<and> month t = month now \<and> day t = day now then format_clock t
        else short_day (weekday t) @ '' '' @ format_clock t) ts)"

section \<open>Cron lemmas\<close>

lemma zero_time_minute: "nanos zero_time mod ns_minute = 0"
  by (simp add: zero_time_def)

text \<open>The first minute boundary after an instant.\<close>

definition next_minute :: "gotime \<Rightarrow> int" where
  "next_minute now = (nanos now div ns_minute + 1) * ns_minute"

lemma first_boundary:
  "truncate_to (add now ns_minute) ns_minute = now\<lparr>nanos := next_minute now\<rparr>"
proof -
  have "(nanos now + ns_minute - nanos zero_time) mod ns_minute = nanos now mod ns_minute"
    by (simp add: mod_diff_right_eq [symmetric] zero_time_minute mod_add_self2)
  moreover have "nanos now div ns_minute * ns_minute + nanos now mod ns_minute = nanos now"
    by (rule div_mult_mod_eq)
  ultimately show ?thesis
    unfolding truncate_to_def next_minute_def add_def by (simp add: algebra_simps)
qed

text \<open>What the loop computes, for any position of its counter.\<close>

lemma cron_loop_spec:
  "i \<le> 525600 \<Longrightarrow>
     cron_loop i expr now next =
       (case find (\<lambda>k. cronMatch expr (add next (int k * ns_minute))) [0..<nat (525600 - i)] of
          None \<Rightarrow> 0 | Some k \<Rightarrow> sub (add next (int k * ns_minute)) now)"
proof (induction i expr now "next" rule: cron_loop.induct)
  case (1 i expr now "next")
  show ?case
  proof (cases "i < 525600")
    case True
    have "nat (525600 - i) = Suc (nat (525600 - (i + 1)))" using True by linarith
    then have upt: "[0..<nat (525600 - i)] = 0 # map Suc [0..<nat (525600 - (i + 1))]"
      by (simp only: map_Suc_upt upt_conv_Cons zero_less_Suc)
    have shift: "find P (map Suc xs) = map_option Suc (find (\<lambda>k. P (Suc k)) xs)" for P xs
      by (induction xs) auto
    have step: "add (add next ns_minute) (int k * ns_minute) = add next (int (Suc k) * ns_minute)" for k
      by (simp add: add_def algebra_simps)
    have zero: "add next (int 0 * ns_minute) = next" by (simp add: add_def)
    show ?thesis
    proof (cases "cronMatch expr next")
      case True
      then show ?thesis
        unfolding cron_loop.simps [of i] upt find.simps zero using \<open>i < 525600\<close> by (simp add: add_def)
    next
      case False
      have IH: "cron_loop (i + 1) expr now (add next ns_minute) =
          (case find (\<lambda>k. cronMatch expr (add next (int (Suc k) * ns_minute))) [0..<nat (525600 - (i + 1))] of
             None \<Rightarrow> 0 | Some k \<Rightarrow> sub (add next (int (Suc k) * ns_minute)) now)"
        using "1.IH" [OF True False] True unfolding step by simp
      show ?thesis
        unfolding cron_loop.simps [of i] upt find.simps zero shift IH
        using False \<open>i < 525600\<close> by (simp split: option.split)
    qed
  next
    case False
    with "1.prems" show ?thesis by (simp add: cron_loop.simps)
  qed
qed

definition boundary :: "gotime \<Rightarrow> nat \<Rightarrow> gotime" where
  "boundary now k = now\<lparr>nanos := next_minute now + int k * ns_minute\<rparr>"

lemma nextCronAt_find:
  "nextCronAt expr now =
     (case find (\<lambda>k. cronMatch expr (boundary now k)) [0..<525600] of
        None \<Rightarrow> 0 | Some k \<Rightarrow> sub (boundary now k) now)"
proof -
  have "add (now\<lparr>nanos := next_minute now\<rparr>) (int k * ns_minute) = boundary now k" for k
    by (simp add: add_def boundary_def)
  then show ?thesis
    unfolding nextCronAt_def first_boundary using cron_loop_spec [of 0]
    by (simp cong: option.case_cong)
qed

lemma next_minute_bounds: "nanos now < next_minute now \<and> next_minute now \<le> nanos now + ns_minute"
proof -
  have "nanos now div ns_minute * ns_minute + nanos now mod ns_minute = nanos now"
    by (rule div_mult_mod_eq)
  moreover have "0 \<le> nanos now mod ns_minute" "nanos now mod ns_minute < ns_minute" by simp_all
  ultimately show ?thesis unfolding next_minute_def distrib_right by linarith
qed

lemma sub_boundary:
  assumes "k < 525600"
  shows "sub (boundary now k) now = next_minute now + int k * ns_minute - nanos now"
  using next_minute_bounds [of now] assms
  by (simp add: sub_def boundary_def) (intro clamp64_id, auto simp: in_i64_def)

lemma find_upt:
  "find P [0..<n] = Some k \<longleftrightarrow> k < n \<and> P k \<and> (\<forall>j < k. \<not> P j)"
  "find P [0..<n] = None \<longleftrightarrow> (\<forall>j < n. \<not> P j)"
  by (auto simp: find_Some_iff find_None_iff)

lemma find_cases_upt:
  obtains (none) "find P [0..<n] = None" "\<forall>j < n. \<not> P j"
  | (some) k where "find P [0..<n] = Some k" "k < n" "P k" "\<forall>j < k. \<not> P j"
  using find_upt [of P n] by (cases "find P [0..<n]") metis+

text \<open>The minute boundaries after \<open>now\<close> are the \<open>boundary now k\<close>.\<close>

lemma boundary_of:
  assumes "zone u = zone now" and "nanos u mod ns_minute = 0" and "after u now"
  obtains k where "u = boundary now k" "nanos u = next_minute now + int k * ns_minute"
proof -
  define q where "q = nanos u div ns_minute"
  have u: "nanos u = q * ns_minute" using assms(2) by (auto simp: q_def)
  have "nanos now div ns_minute * ns_minute \<le> nanos now" by simp
  have "nanos now < q * ns_minute" using assms(3) u by (simp add: after_def)
  then have "nanos now div ns_minute < q" by (simp add: div_less_iff_less_mult)
  then obtain k where "q = nanos now div ns_minute + 1 + int k"
    using zle_iff_zadd [of "nanos now div ns_minute + 1" q] by auto
  then have "nanos u = next_minute now + int k * ns_minute"
    by (simp add: u next_minute_def algebra_simps)
  moreover have "u = boundary now k"
    using calculation assms(1) by (simp add: boundary_def)
  ultimately show thesis using that by blast
qed

lemma parseRange_match:
  "(case parseRange f of None \<Rightarrow> False | Some (a, b) \<Rightarrow> P a b) =
     (case splitn2 (CHR ''-'') f of
        [p, q] \<Rightarrow> (case (atoi p, atoi q) of (Some a, Some b) \<Rightarrow> P a b | _ \<Rightarrow> False)
      | _ \<Rightarrow> False)"
  by (simp add: parseRange_def split: list.split option.split)

lemma fieldMatch_agrees:
  "\<not> contains_any f [CHR 0x22, CHR 0x27] \<Longrightarrow> fieldMatch f v lo hi = cronFieldMatch f v lo hi"
proof (induction f v lo hi rule: fieldMatch.induct)
  case (1 f v lo hi)
  have quotes: "\<not> contains_any p [CHR 0x22, CHR 0x27]" if "p \<in> set (split_char (CHR '','') f)" for p
    using that "1.prems" split_char_subset [of p "CHR '',''" f] by (auto simp: contains_any_def list_ex_iff)
  show ?case
  proof (cases "f \<noteq> ''*'' \<and> CHR '','' \<in> set f")
    case True
    then have "list_ex (\<lambda>p. fieldMatch p v lo hi) (split_char (CHR '','') f) =
        list_ex (\<lambda>p. cronFieldMatch p v lo hi) (split_char (CHR '','') f)"
      using "1.IH" "1.prems" quotes unfolding list_ex_iff by blast
    with True "1.prems" show ?thesis
      by (simp add: fieldMatch.simps [of f] cronFieldMatch.simps [of f])
  next
    case False
    then have "f = ''*'' \<or> f \<noteq> ''*'' \<and> CHR '','' \<notin> set f" by blast
    then show ?thesis
    proof (elim disjE conjE)
      assume "f = ''*''"
      then show ?thesis by (subst fieldMatch.simps, subst cronFieldMatch.simps) simp
    next
      assume "f \<noteq> ''*''" "CHR '','' \<notin> set f"
      with "1.prems" show ?thesis
        unfolding fieldMatch.simps [of f] cronFieldMatch.simps [of f] parseRange_match
        by (simp only: if_False simp_thms)
    qed
  qed
qed

section \<open>Grid lemmas\<close>

text \<open>The grid of an anchored interval: the instants a whole number of steps from an anchor.\<close>

definition on_grid :: "duration \<Rightarrow> gotime \<Rightarrow> int list \<Rightarrow> int \<Rightarrow> bool" where
  "on_grid step now as x \<longleftrightarrow> (\<exists>a \<in> set as. (x - nanos (anchor_epoch now a)) mod step = 0)"

definition wait_for :: "duration \<Rightarrow> gotime \<Rightarrow> int \<Rightarrow> duration" where
  "wait_for step now a = step - (nanos now - nanos (anchor_epoch now a)) mod step"

lemma wait_for_bounds: "0 < step \<Longrightarrow> 0 < wait_for step now a \<and> wait_for step now a \<le> step"
  by (simp add: wait_for_def)

lemma wait_for_on_grid: "0 < step \<Longrightarrow> (nanos now + wait_for step now a - nanos (anchor_epoch now a)) mod step = 0"
proof -
  assume "0 < step"
  have "nanos now + wait_for step now a - nanos (anchor_epoch now a) =
      step + ((nanos now - nanos (anchor_epoch now a)) - (nanos now - nanos (anchor_epoch now a)) mod step)"
    by (simp add: wait_for_def)
  then show ?thesis by (simp add: minus_mod_eq_mult_div)
qed

lemma wait_for_least:
  assumes "0 < step" and "x > nanos now" and "(x - nanos (anchor_epoch now a)) mod step = 0"
  shows "nanos now + wait_for step now a \<le> x"
proof -
  let ?d = "nanos now - nanos (anchor_epoch now a)"
  obtain q where q: "x - nanos (anchor_epoch now a) = step * q" using assms(3) by auto
  have d: "?d = step * (?d div step) + ?d mod step" by simp
  have "?d < step * q" using q assms(2) by linarith
  then have "?d div step < q"
  proof (rule contrapos_pp)
    assume "\<not> ?d div step < q"
    then have "step * q \<le> step * (?d div step)" using assms(1) by simp
    moreover have "0 \<le> ?d mod step" using assms(1) by simp
    ultimately show "\<not> ?d < step * q" using d by linarith
  qed
  then have "step * (?d div step + 1) \<le> step * q" using assms(1) by (intro mult_left_mono) auto
  then show ?thesis using q d unfolding wait_for_def distrib_left by linarith
qed

text \<open>One round of the loop, while the distance to the anchor fits a duration.\<close>

lemma anchored_step:
  assumes "0 < step" and "in_i64 step" and "in_i64 (nanos now - nanos (anchor_epoch now a))"
  shows "(let rem0 = go_rem (sub now (anchor_epoch now a)) step;
              rem = (if rem0 < 0 then i64 (rem0 + step) else rem0)
          in if rem = 0 then step else i64 (step - rem)) = wait_for step now a"
    and "(let rem0 = go_rem (sub now (anchor_epoch now a)) step;
              rem = (if rem0 < 0 then i64 (rem0 + step) else rem0)
          in i64 (step - rem)) = wait_for step now a"
proof -
  let ?d = "nanos now - nanos (anchor_epoch now a)"
  let ?r = "go_rem ?d step"
  have sub: "sub now (anchor_epoch now a) = ?d" using assms(3) by (simp add: sub_def clamp64_id)
  have rem: "(if ?r < 0 then i64 (?r + step) else ?r) = ?d mod step"
    using go_rem_fix [OF assms(1), of ?d] go_rem_bounds [OF assms(1), of ?d] assms(2)
    by (auto simp: in_i64_def intro!: i64_id)
  have wait: "i64 (step - ?d mod step) = wait_for step now a"
    using wait_for_bounds [OF assms(1), of now a] assms(2)
    by (auto simp: wait_for_def in_i64_def intro!: i64_id)
  show "(let rem0 = go_rem (sub now (anchor_epoch now a)) step;
              rem = (if rem0 < 0 then i64 (rem0 + step) else rem0)
          in if rem = 0 then step else i64 (step - rem)) = wait_for step now a"
    unfolding Let_def sub rem wait by (simp add: wait_for_def)
  show "(let rem0 = go_rem (sub now (anchor_epoch now a)) step;
              rem = (if rem0 < 0 then i64 (rem0 + step) else rem0)
          in i64 (step - rem)) = wait_for step now a"
    unfolding Let_def sub rem wait by (rule refl)
qed

lemma anchor_epoch_fixed:
  "fixed_zone (zone now) \<Longrightarrow> nanos (anchor_epoch now a) = midnight_ns now + a * ns_minute"
  by (simp add: anchor_epoch_def clock_date)

text \<open>An anchor on the same day is less than a day away.\<close>

lemma anchor_near:
  assumes "fixed_zone (zone now)" and "0 \<le> a" and "a < 1440"
  shows "in_i64 (nanos now - nanos (anchor_epoch now a))"
proof -
  have "(minute_of_day now + 1) * ns_minute \<le> 1440 * ns_minute" "0 \<le> minute_of_day now * ns_minute"
    using minute_of_day_range [of now] by auto
  with now_in_minute [OF assms(1)] assms(2,3) show ?thesis
    unfolding anchor_epoch_fixed [OF assms(1)] in_i64_def by (simp add: algebra_simps)
qed

lemma anchored_loop_least:
  assumes "0 < step" and "in_i64 step"
    and "\<forall>a \<in> set as. in_i64 (nanos now - nanos (anchor_epoch now a))" and "0 \<le> best"
  shows "(anchored_loop step now as best \<in> wait_for step now ` set as \<or> anchored_loop step now as best = best) \<and>
    (\<forall>a \<in> set as. anchored_loop step now as best \<le> wait_for step now a) \<and>
    (0 < best \<longrightarrow> anchored_loop step now as best \<le> best) \<and>
    (0 < best \<or> as \<noteq> [] \<longrightarrow> 0 < anchored_loop step now as best)"
  using assms(3,4)
proof (induction as arbitrary: best)
  case (Cons a as)
  let ?w = "wait_for step now a"
  let ?b = "if best = 0 \<or> ?w < best then ?w else best"
  have w: "0 < ?w" using wait_for_bounds [OF assms(1)] by blast
  have step: "anchored_loop step now (a # as) best = anchored_loop step now as ?b"
    using anchored_step(1) [OF assms(1,2), of now a] Cons.prems(1) unfolding anchored_loop.simps Let_def by simp
  have b: "0 < ?b" "?b \<le> ?w" "0 < best \<Longrightarrow> ?b \<le> best" "?b = ?w \<or> ?b = best"
    using w Cons.prems(2) by auto
  show ?case
    unfolding step using Cons.IH [of ?b] Cons.prems(1) b by (auto simp del: anchored_loop.simps)
qed simp

definition visited :: "int set \<Rightarrow> grid_state \<Rightarrow> bool" where
  "visited S st \<longleftrightarrow> (case st of (seen, n, samples) \<Rightarrow>
     finite S \<and> (\<forall>x \<in> S. x mod ns_second = 0) \<and> seen = (\<lambda>x. x div ns_second) ` S \<and> n = int (card S) \<and>
     length samples = min 3 (card S) \<and> nanos ` set samples \<subseteq> S)"

lemma second_inj: "x mod ns_second = 0 \<Longrightarrow> y mod ns_second = 0 \<Longrightarrow> x div ns_second = y div ns_second \<Longrightarrow> x = y"
  by (metis div_mult_mod_eq)

lemma visited_visit:
  assumes "visited S st" and "nanos g mod ns_second = 0"
  shows "visited (insert (nanos g) S) (grid_visit g st)"
proof -
  obtain seen n samples where st: "st = (seen, n, samples)" by (cases st)
  have inv: "finite S" "\<forall>x \<in> S. x mod ns_second = 0" "seen = (\<lambda>x. x div ns_second) ` S"
    "n = int (card S)" "length samples = min 3 (card S)" "nanos ` set samples \<subseteq> S"
    using assms(1) unfolding visited_def st by simp_all
  have mem: "unix g \<in> seen \<longleftrightarrow> nanos g \<in> S"
    unfolding unix_def inv(3) using inv(2) second_inj [OF assms(2)] by blast
  show ?thesis
  proof (cases "nanos g \<in> S")
    case True
    with assms mem show ?thesis by (simp add: visited_def grid_visit_def st insert_absorb)
  next
    case False
    have card: "card (insert (nanos g) S) = Suc (card S)" using False inv(1) by simp
    have visit: "grid_visit g st = (insert (unix g) seen, n + 1, if length samples < 3 then samples @ [g] else samples)"
      using False mem by (simp add: grid_visit_def st)
    have "nanos ` set (if length samples < 3 then samples @ [g] else samples) \<subseteq> insert (nanos g) S"
      using inv(6) by auto
    then show ?thesis
      unfolding visited_def visit using inv assms(2) card by (simp add: unix_def min_def)
  qed
qed

definition grid_points :: "duration \<Rightarrow> gotime \<Rightarrow> int \<Rightarrow> int set" where
  "grid_points step fin g = {g + int k * step | k. g + int k * step < nanos fin}"

lemma grid_points_step:
  assumes "0 < step"
  shows "grid_points step fin g = (if g < nanos fin then insert g (grid_points step fin (g + step)) else {})"
proof (cases "g < nanos fin")
  case True
  have "x \<in> grid_points step fin g \<longleftrightarrow> x = g \<or> x \<in> grid_points step fin (g + step)" for x
  proof
    assume "x \<in> grid_points step fin g"
    then obtain k where k: "x = g + int k * step" "x < nanos fin" by (auto simp: grid_points_def)
    then show "x = g \<or> x \<in> grid_points step fin (g + step)"
      by (cases k) (auto simp: grid_points_def algebra_simps)
  next
    assume "x = g \<or> x \<in> grid_points step fin (g + step)"
    then obtain k where "x = g + int k * step" "x < nanos fin"
    proof
      assume "x \<in> grid_points step fin (g + step)"
      then obtain j where "x = g + step + int j * step" "x < nanos fin" by (auto simp: grid_points_def)
      then have "x = g + int (Suc j) * step" by (simp add: algebra_simps)
      with \<open>x < nanos fin\<close> show thesis using that by blast
    qed (use True that [of 0] in simp)
    then show "x \<in> grid_points step fin g" by (auto simp: grid_points_def)
  qed
  with True show ?thesis by auto
next
  case False
  then show ?thesis using assms by (auto simp: grid_points_def not_less) (smt (verit) mult_nonneg_nonneg of_nat_0_le_iff)
qed

lemma grid_loop_visited:
  assumes "0 < step" and "step mod ns_second = 0"
  shows "visited S st \<Longrightarrow> nanos g mod ns_second = 0 \<Longrightarrow>
    \<exists>st'. grid_loop step fin g st = Some st' \<and> visited (S \<union> grid_points step fin (nanos g)) st'"
proof (induction "nat (nanos fin - nanos g)" arbitrary: S st g rule: less_induct)
  case less
  show ?case
  proof (cases "before g fin")
    case True
    have "nanos (add g step) mod ns_second = 0" using less.prems(2) assms(2) by (metis mod_0 mod_add_eq add_0 nanos_add)
    moreover have "nat (nanos fin - nanos (add g step)) < nat (nanos fin - nanos g)"
      using True assms(1) by (auto simp: before_def)
    ultimately obtain st' where "grid_loop step fin (add g step) (grid_visit g st) = Some st'"
      "visited (insert (nanos g) S \<union> grid_points step fin (nanos (add g step))) st'"
      using less.hyps [OF _ visited_visit [OF less.prems]] by (metis (no_types))
    then show ?thesis
      using True grid_points_step [OF assms(1), of fin "nanos g"]
      by (simp add: grid_loop.simps [of step fin g] before_def)
  next
    case False
    with less.prems grid_points_step [OF assms(1), of fin "nanos g"] show ?thesis
      by (simp add: grid_loop.simps [of step fin g] before_def)
  qed
qed

lemma missed_loop_visited:
  assumes "0 < step" and "in_i64 step" and "step mod ns_second = 0"
    and "\<forall>a \<in> set as. in_i64 (nanos prev - nanos (anchor_epoch prev a)) \<and>
      (nanos prev + wait_for step prev a) mod ns_second = 0"
  shows "visited S st \<Longrightarrow> \<exists>st'. missed_loop step prev fin as st = Some st' \<and>
    visited (S \<union> (\<Union>a \<in> set as. grid_points step fin (nanos prev + wait_for step prev a))) st'"
  using assms(4)
proof (induction as arbitrary: S st)
  case (Cons a as)
  let ?g = "add prev (wait_for step prev a)"
  obtain st1 where st1: "grid_loop step fin ?g st = Some st1" "visited (S \<union> grid_points step fin (nanos ?g)) st1"
    using grid_loop_visited [OF assms(1,3) Cons.prems(1), of ?g fin] Cons.prems(2) by auto
  have "missed_loop step prev fin (a # as) st = missed_loop step prev fin as st1"
    using anchored_step(2) [OF assms(1,2), of prev a] Cons.prems(2) st1(1)
    unfolding missed_loop.simps Let_def by simp
  moreover have "\<forall>b \<in> set as. in_i64 (nanos prev - nanos (anchor_epoch prev b)) \<and>
      (nanos prev + wait_for step prev b) mod ns_second = 0"
    using Cons.prems(2) by simp
  ultimately show ?case using Cons.IH [OF st1(2)] by (auto simp del: missed_loop.simps simp: Un_assoc)
qed simp

lemma grid_points_after:
  assumes "0 < step"
  shows "grid_points step fin (nanos now + wait_for step now a) =
    {x. nanos now < x \<and> x < nanos fin \<and> (x - nanos (anchor_epoch now a)) mod step = 0}" (is "?L = ?R")
proof (rule set_eqI)
  fix x
  let ?g = "nanos now + wait_for step now a"
  let ?e = "nanos (anchor_epoch now a)"
  have g: "(?g - ?e) mod step = 0" by (rule wait_for_on_grid [OF assms])
  have later: "nanos now < ?g" using wait_for_bounds [OF assms, of now a] by linarith
  have shift: "(?g + k * step - ?e) mod step = (?g - ?e) mod step" for k
    using mod_mult_self1 [of "?g - ?e" k step] by (simp add: algebra_simps)
  show "x \<in> ?L \<longleftrightarrow> x \<in> ?R"
  proof
    assume "x \<in> ?L"
    then obtain k where k: "x = ?g + int k * step" "x < nanos fin" unfolding grid_points_def by blast
    have "0 \<le> int k * step" using assms by simp
    with k later g shift [of "int k"] show "x \<in> ?R" by simp
  next
    assume R: "x \<in> ?R"
    then have "?g \<le> x"
      using wait_for_least [OF assms, of now x a] by simp
    have "step dvd (x - ?e) - (?g - ?e)"
      using R g by (intro dvd_diff [of _ "x - ?e" "?g - ?e"]) (simp_all only: mem_Collect_eq dvd_eq_mod_eq_0)
    moreover have "(x - ?e) - (?g - ?e) = x - ?g" by linarith
    ultimately have "step dvd x - ?g" by (simp only:)
    then obtain q where q: "x - ?g = step * q" by (rule dvdE)
    with \<open>?g \<le> x\<close> have "0 \<le> step * q" by simp
    then have "0 \<le> q" using assms by (simp add: zero_le_mult_iff)
    then obtain k where "q = int k" by (rule nonneg_int_cases)
    with q have "x = ?g + int k * step" by (simp add: algebra_simps)
    with R show "x \<in> ?L" unfolding grid_points_def by blast
  qed
qed

lemma interval_step:
  assumes "0 < n" and "n * ns_minute < 2 ^ 63"
  shows "i64 (n * ns_minute) = n * ns_minute" "0 < n * ns_minute" "in_i64 (n * ns_minute)"
    "n * ns_minute mod ns_second = 0"
proof -
  show "in_i64 (n * ns_minute)" using assms by (simp add: in_i64_def)
  then show "i64 (n * ns_minute) = n * ns_minute" by (rule i64_id)
  show "0 < n * ns_minute" using assms by simp
  have "n * ns_minute = (n * 60) * ns_second" by simp
  then show "n * ns_minute mod ns_second = 0" by (simp only: mod_mult_self2_is_0)
qed

lemma grid_whole_second:
  assumes "fixed_zone (zone now)" and "0 < step" and "step mod ns_second = 0"
  shows "(nanos now + wait_for step now a) mod ns_second = 0"
proof -
  have "ns_second dvd step" using assms(3) by (simp only: dvd_eq_mod_eq_0)
  moreover have "step dvd nanos now + wait_for step now a - nanos (anchor_epoch now a)"
    using wait_for_on_grid [OF assms(2)] by (simp only: dvd_eq_mod_eq_0)
  ultimately have "ns_second dvd nanos now + wait_for step now a - nanos (anchor_epoch now a)"
    by (rule dvd_trans)
  moreover have "nanos (anchor_epoch now a) = ((local_day now - 719162) * 86400 - zone now 0 + a * 60) * ns_second"
    unfolding anchor_epoch_fixed [OF assms(1)] midnight_ns_def by (simp add: algebra_simps)
  then have "ns_second dvd nanos (anchor_epoch now a)" by (metis dvd_triv_right)
  ultimately have "ns_second dvd nanos now + wait_for step now a - nanos (anchor_epoch now a) + nanos (anchor_epoch now a)"
    by (rule dvd_add)
  then show ?thesis by (simp only: diff_add_cancel dvd_eq_mod_eq_0)
qed

lemma nextCronAt_le:
  assumes "zone u = zone now" and "nanos u mod ns_minute = 0" and "after u now"
    and "nanos u \<le> nanos now + 525600 * ns_minute" and "cronMatch expr u"
  shows "0 < nextCronAt expr now \<and> nextCronAt expr now \<le> nanos u - nanos now"
proof (rule boundary_of [OF assms(1-3)])
  fix j assume j: "u = boundary now j" "nanos u = next_minute now + int j * ns_minute"
  have "j < 525600" using assms(4) j(2) next_minute_bounds [of now] by linarith
  show ?thesis
  proof (rule find_cases_upt [of "\<lambda>k. cronMatch expr (boundary now k)" 525600])
    assume "\<forall>i < 525600. \<not> cronMatch expr (boundary now i)"
    with \<open>j < 525600\<close> j(1) assms(5) show ?thesis by blast
  next
    fix k assume k: "find (\<lambda>k. cronMatch expr (boundary now k)) [0..<525600] = Some k" "k < 525600"
      "\<forall>i < k. \<not> cronMatch expr (boundary now i)"
    have "k \<le> j" using k(3) j(1) assms(5) by (metis not_le)
    then show ?thesis
      unfolding nextCronAt_find k(1) j(2) using sub_boundary [OF k(2), of now] next_minute_bounds [of now]
      by simp
  qed
qed

lemma nextCronAt_zero_iff:
  "nextCronAt expr now = 0 \<longleftrightarrow>
     (\<nexists>u. zone u = zone now \<and> nanos u mod ns_minute = 0 \<and> after u now \<and>
        nanos u \<le> nanos now + 525600 * ns_minute \<and> cronMatch expr u)" (is "?Z \<longleftrightarrow> \<not> ?E")
proof (rule find_cases_upt [of "\<lambda>k. cronMatch expr (boundary now k)" 525600])
  assume none: "find (\<lambda>k. cronMatch expr (boundary now k)) [0..<525600] = None"
    "\<forall>j < 525600. \<not> cronMatch expr (boundary now j)"
  have "\<not> ?E"
  proof
    assume ?E
    then obtain u where u: "zone u = zone now" "nanos u mod ns_minute = 0" "after u now"
      "nanos u \<le> nanos now + 525600 * ns_minute" "cronMatch expr u" by (elim exE conjE) (rule that)
    obtain k where k: "u = boundary now k" "nanos u = next_minute now + int k * ns_minute"
      by (rule boundary_of [OF u(1-3)])
    have "k < 525600" using u(4) k(2) next_minute_bounds [of now] by linarith
    with none(2) k(1) u(5) show False by blast
  qed
  with none(1) show ?thesis by (simp add: nextCronAt_find)
next
  fix k assume k: "find (\<lambda>k. cronMatch expr (boundary now k)) [0..<525600] = Some k" "k < 525600"
    "cronMatch expr (boundary now k)"
  have "nanos (boundary now k) = (nanos now div ns_minute + 1 + int k) * ns_minute"
    unfolding boundary_def next_minute_def by (simp add: algebra_simps)
  then have "nanos (boundary now k) mod ns_minute = 0" by (simp only: mod_mult_self2_is_0)
  moreover have "after (boundary now k) now" "nanos (boundary now k) \<le> nanos now + 525600 * ns_minute"
    using next_minute_bounds [of now] k(2) by (auto simp: boundary_def after_def)
  ultimately have ?E using k(3) by (intro exI [of _ "boundary now k"]) (simp add: boundary_def)
  moreover have "0 < nextCronAt expr now"
    unfolding nextCronAt_find k(1) using sub_boundary [OF k(2)] next_minute_bounds [of now] by simp
  ultimately show ?thesis by simp
qed

text \<open>The fields of an instant a number of whole minutes from a local midnight.\<close>

lemma minute_fields:
  fixes k :: int
  assumes "fixed_zone (zone now)" and "0 \<le> m" and "m < 1440"
  defines "u \<equiv> now\<lparr>nanos := midnight_ns now + (k * 1440 + m) * ns_minute\<rparr>"
  shows "hour u = m div 60" "minute u = m mod 60" "weekday u = (weekday now + k) mod 7"
proof -
  have "nanos u = ((local_day now - 719162 + k) * 86400 - zone now 0 + m * 60) * ns_second"
    by (simp add: u_def midnight_ns_def algebra_simps)
  then have "nanos u div ns_second = (local_day now - 719162 + k) * 86400 - zone now 0 + m * 60"
    by (simp only: nonzero_mult_div_cancel_right)
  moreover have "fixed_zone (zone u)" "zone u = zone now" using assms(1) by (simp_all add: u_def)
  ultimately have secs: "local_secs u = m * 60 + (local_day now - 719162 + k) * 86400"
    using local_secs_fixed [of u] by simp
  have m: "m * 60 mod 86400 = m * 60" "m * 60 div 86400 = 0" using assms(2,3) by simp_all
  have day: "local_secs u mod 86400 = m * 60" "local_secs u div 86400 = local_day now - 719162 + k"
    unfolding secs mod_mult_self1 using m div_mult_self1 [of 86400 "m * 60" "local_day now - 719162 + k"]
    by simp_all
  show "hour u = m div 60" unfolding hour_def day(1) by simp
  have "local_secs u mod 3600 = local_secs u mod 86400 mod 3600" by (simp add: mod_mod_cancel)
  then have "local_secs u mod 3600 = m * 60 mod (60 * 60)" unfolding day(1) by simp
  also have "\<dots> = m mod 60 * 60" by (simp add: mult_mod_left)
  finally show "minute u = m mod 60" unfolding minute_def by simp
  have "weekday u = ((local_day now + 1) + k) mod 7"
    unfolding weekday_def local_day_def [of u] day(2) by (simp add: algebra_simps)
  then show "weekday u = (weekday now + k) mod 7" unfolding weekday_def by (simp add: mod_add_left_eq)
qed

text \<open>An instant at a given weekday and minute of the day, at most a week ahead.\<close>

lemma week_ahead:
  assumes "fixed_zone (zone now)" and "zone now 0 mod 60 = 0"
    and "0 \<le> m" and "m < 1440" and "0 \<le> w" and "w < 7"
  obtains u where "zone u = zone now" "nanos u mod ns_minute = 0" "after u now"
    "nanos u \<le> nanos now + 7 * ns_day" "hour u = m div 60" "minute u = m mod 60" "weekday u = w"
proof -
  define k0 where "k0 = (w - weekday now) mod 7"
  have k0: "0 \<le> k0" "k0 \<le> 6" using pos_mod_bound [of 7 "w - weekday now"] by (auto simp: k0_def)
  let ?at = "\<lambda>k. midnight_ns now + (k * 1440 + m) * ns_minute"
  define k where "k = (if nanos now < ?at k0 then k0 else k0 + 7)"
  define u where "u = now\<lparr>nanos := ?at k\<rparr>"
  have now: "midnight_ns now \<le> nanos now" "nanos now < midnight_ns now + ns_day"
  proof -
    have "(minute_of_day now + 1) * ns_minute \<le> 1440 * ns_minute" "0 \<le> minute_of_day now * ns_minute"
      using minute_of_day_range [of now] by auto
    with now_in_minute [OF assms(1)] show "midnight_ns now \<le> nanos now" "nanos now < midnight_ns now + ns_day"
      by linarith+
  qed
  obtain q where q: "zone now 0 = 60 * q" using assms(2) by auto
  have "nanos u = ((local_day now - 719162 + k) * 1440 - q + m) * ns_minute"
    by (simp add: u_def midnight_ns_def q algebra_simps)
  then have minute: "nanos u mod ns_minute = 0" by (simp only: mod_mult_self2_is_0)
  have at: "?at k0 \<le> midnight_ns now + 7 * ns_day - 1" "?at (k0 + 7) = ?at k0 + 7 * ns_day"
    "midnight_ns now \<le> ?at k0"
    using k0 assms(3,4) by (auto simp: algebra_simps)
  have "nanos now < ?at k \<and> ?at k \<le> nanos now + 7 * ns_day"
  proof (cases "nanos now < ?at k0")
    case True
    then have "k = k0" by (simp only: k_def if_True)
    with True at(1) now(1) show ?thesis unfolding \<open>k = k0\<close> by linarith
  next
    case False
    then have "k = k0 + 7" by (simp only: k_def if_False)
    with False at(2,3) now(2) show ?thesis unfolding \<open>k = k0 + 7\<close> by linarith
  qed
  then have bounds: "after u now" "nanos u \<le> nanos now + 7 * ns_day" by (simp_all add: u_def after_def)
  have "(weekday now + k) mod 7 = (weekday now + k0) mod 7" by (simp add: k_def flip: add.assoc)
  also have "\<dots> = w" using assms(5,6) unfolding k0_def by (simp add: mod_add_right_eq)
  finally have w: "weekday u = w" unfolding u_def minute_fields(3) [OF assms(1,3,4)] .
  show thesis
    by (rule that [OF _ minute bounds _ _ w])
      (simp_all only: u_def minute_fields(1,2) [OF assms(1,3,4)], simp)
qed

lemma ValidateCron_fields:
  assumes "ValidateCron expr = None" and "str_fields expr = [p0, p1, p2, p3, p4]"
  shows "validateCronField p0 0 59 = None" "validateCronField p1 0 23 = None"
    "validateCronField p4 0 6 = None"
  using assms by (auto simp: ValidateCron_def cron_bounds_def Let_def split: if_splits option.splits)

lemma validated_no_quotes: "validateCronField f lo hi = None \<Longrightarrow> \<not> contains_any f [CHR 0x22, CHR 0x27]"
  by (auto simp: validateCronField_def find_None_iff contains_any_def list_ex_iff cron_char_def is_digit_def
      split: if_splits option.splits)

lemma validated_match:
  assumes "validateCronField f lo hi = None" and "lo \<le> hi"
  obtains v where "lo \<le> v" "v \<le> hi" "fieldMatch f v lo hi"
  using validated_field_satisfiable [OF assms] fieldMatch_agrees [OF validated_no_quotes [OF assms(1)]] that
  by blast

lemma fieldMatch_star: "fieldMatch ''*'' v lo hi"
  by (simp add: fieldMatch.simps)

lemma cronMatch_fields:
  "str_fields expr = [p0, p1, p2, p3, p4] \<Longrightarrow> cronMatch expr t \<longleftrightarrow>
     fieldMatch p0 (minute t) 0 59 \<and> fieldMatch p1 (hour t) 0 23 \<and> fieldMatch p2 (day t) 1 31 \<and>
     fieldMatch p3 (month t) 1 12 \<and> fieldMatch p4 (weekday t) 0 6"
  by (simp add: cronMatch_def)

section \<open>Properties\<close>

definition cron_sample_now :: gotime where
  "cron_sample_now = \<lparr>nanos = 1767225630 * ns_second, zone = utc\<rparr>"

lemma cron_sample_zone: "fixed_zone (zone cron_sample_now)"
  by (auto simp: cron_sample_now_def fixed_zone_def utc_def)

text \<open>
  (C29) When \<open>nextCronAt\<close> gives a wait, the instant after that wait is a minute boundary
  later than now that the expression matches, and no earlier boundary after now matches.
\<close>

theorem next_cron_least:
  assumes "nextCronAt expr now \<noteq> 0"
  defines "t \<equiv> add now (nextCronAt expr now)"
  shows "after t now \<and> nanos t mod ns_minute = 0 \<and> cronMatch expr t \<and>
    (\<forall>u. zone u = zone now \<and> nanos u mod ns_minute = 0 \<and> after u now \<and> cronMatch expr u \<longrightarrow> \<not> before u t)"
proof (rule find_cases_upt [of "\<lambda>k. cronMatch expr (boundary now k)" 525600])
  assume "find (\<lambda>k. cronMatch expr (boundary now k)) [0..<525600] = None"
  with assms(1) show ?thesis by (simp add: nextCronAt_find)
next
  fix k assume k: "find (\<lambda>k. cronMatch expr (boundary now k)) [0..<525600] = Some k" "k < 525600"
    "cronMatch expr (boundary now k)" "\<forall>j < k. \<not> cronMatch expr (boundary now j)"
  have t: "t = boundary now k"
    unfolding t_def nextCronAt_find k(1) using sub_boundary [OF k(2), of now]
    by (simp add: add_def boundary_def)
  have "nanos t = (nanos now div ns_minute + 1 + int k) * ns_minute"
    unfolding t boundary_def next_minute_def by (simp add: algebra_simps)
  then have "nanos t mod ns_minute = 0" by (simp only: mod_mult_self2_is_0)
  moreover have "after t now" using next_minute_bounds [of now] by (simp add: t boundary_def after_def)
  moreover have "\<not> before u t" if "zone u = zone now \<and> nanos u mod ns_minute = 0 \<and> after u now \<and> cronMatch expr u" for u
  proof -
    from that have u: "zone u = zone now" "nanos u mod ns_minute = 0" "after u now" by simp_all
    obtain j where j: "u = boundary now j" by (rule boundary_of [OF u])
    with that k(4) have "k \<le> j" by (metis not_le)
    then show ?thesis by (simp add: j t boundary_def before_def)
  qed
  ultimately show ?thesis using k(3) unfolding t by blast
qed

theorem next_cron_least_witness:
  "nextCronAt ''*/15 * * * *'' cron_sample_now = 870 * ns_second \<and>
     cronMatch ''*/15 * * * *'' (add cron_sample_now (870 * ns_second))"
proof -
  have wait: "nextCronAt ''*/15 * * * *'' cron_sample_now = 870 * ns_second" by code_simp
  then show ?thesis using next_cron_least [of "''*/15 * * * *''" cron_sample_now] by simp
qed

text \<open>
  \<open>nextCronAt\<close> gives zero exactly when none of the next 525600 minute boundaries
  matches, so a wait of zero never stands for a match.
\<close>

theorem next_cron_zero:
  "nextCronAt expr now = 0 \<longleftrightarrow>
     (\<nexists>u. zone u = zone now \<and> nanos u mod ns_minute = 0 \<and> after u now \<and>
        nanos u \<le> nanos now + 525600 * ns_minute \<and> cronMatch expr u)"
  by (rule nextCronAt_zero_iff)

lemma impossible_date_wait: "nextCronAt ''0 0 30 2 *'' now = 0"
proof -
  have split: "str_fields ''0 0 30 2 *'' = [''0'', ''0'', ''30'', ''2'', ''*'']" by code_simp
  have day: "fieldMatch ''30'' v lo hi \<longleftrightarrow> v = 30" for v lo hi
    by (subst fieldMatch.simps) (simp add: contains_any_def atoi_def atoi_raw_def is_digit_def digits_val_def digit_val_def clamp64_def in_i64_def)
  have month: "fieldMatch ''2'' v lo hi \<longleftrightarrow> v = 2" for v lo hi
    by (subst fieldMatch.simps) (simp add: contains_any_def atoi_def atoi_raw_def is_digit_def digits_val_def digit_val_def clamp64_def in_i64_def)
  have "\<not> cronMatch ''0 0 30 2 *'' u" for u
    unfolding cronMatch_fields [OF split] day month using day_range [of u] by (auto split: if_splits)
  then show ?thesis unfolding nextCronAt_zero_iff by blast
qed

text \<open>
  An expression can pass validation and name a day that no year has: 30 February is
  accepted, and the wait for it is zero at every instant.
\<close>

theorem impossible_date_accepted:
  "ValidateCron ''0 0 30 2 *'' = None \<and> nextCronAt ''0 0 30 2 *'' now = 0"
proof
  show "ValidateCron ''0 0 30 2 *'' = None" by code_simp
  show "nextCronAt ''0 0 30 2 *'' now = 0" by (rule impossible_date_wait)
qed

text \<open>
  On fields without quotes, the matcher of the scheduler and the matcher of the
  configuration package decide alike.
\<close>

theorem cron_matchers_agree:
  assumes "\<not> contains_any field [CHR 0x22, CHR 0x27]"
  shows "fieldMatch field val lo hi \<longleftrightarrow> cronFieldMatch field val lo hi"
  using assms by (rule fieldMatch_agrees)

theorem cron_matchers_agree_witness:
  "fieldMatch ''1-5,*/20'' 40 0 59 \<and> cronFieldMatch ''1-5,*/20'' 40 0 59"
proof -
  have "fieldMatch ''1-5,*/20'' 40 0 59 \<longleftrightarrow> cronFieldMatch ''1-5,*/20'' 40 0 59"
    by (rule cron_matchers_agree) code_simp
  moreover have "cronFieldMatch ''1-5,*/20'' 40 0 59" by code_simp
  ultimately show ?thesis by simp
qed

text \<open>
  In a zone without offset changes, an interval with anchors waits for the first
  point after now of the grid that its anchors and its step span, and the wait is positive
  and at most one step.
\<close>

theorem next_anchored_least:
  assumes "fixed_zone (zone now)" and "anchors \<noteq> []" and "\<forall>a \<in> set anchors. 0 \<le> a \<and> a < 1440"
    and "0 < n" and "n * ns_minute < 2 ^ 63"
  shows "\<exists>d. nextAnchoredDuration anchors n now = Some d \<and> 0 < d \<and> d \<le> n * ns_minute \<and>
    on_grid (n * ns_minute) now anchors (nanos now + d) \<and>
    (\<forall>x. nanos now < x \<and> on_grid (n * ns_minute) now anchors x \<longrightarrow> nanos now + d \<le> x)"
proof -
  let ?step = "n * ns_minute"
  let ?d = "anchored_loop ?step now anchors 0"
  note step = interval_step [OF assms(4,5)]
  have near: "\<forall>a \<in> set anchors. in_i64 (nanos now - nanos (anchor_epoch now a))"
    using anchor_near [OF assms(1)] assms(3) by blast
  note loop = anchored_loop_least [OF step(2,3) near order_refl]
  then have least: "\<forall>a \<in> set anchors. ?d \<le> wait_for ?step now a" and pos: "0 < ?d"
    using assms(2) by blast+
  with loop obtain a where a: "a \<in> set anchors" "?d = wait_for ?step now a" by auto
  have "nextAnchoredDuration anchors n now = Some ?d"
    using assms(2,4) step(1,2) by (simp add: nextAnchoredDuration_def)
  moreover have "?d \<le> ?step" unfolding a(2) using wait_for_bounds [OF step(2)] by blast
  moreover have "on_grid ?step now anchors (nanos now + ?d)"
    unfolding on_grid_def a(2) using a(1) wait_for_on_grid [OF step(2)] by blast
  moreover have "nanos now + ?d \<le> x" if "nanos now < x" "on_grid ?step now anchors x" for x
  proof -
    from that(2) obtain b where b: "b \<in> set anchors" "(x - nanos (anchor_epoch now b)) mod ?step = 0"
      unfolding on_grid_def by (elim bexE) (rule that)
    have "nanos now + wait_for ?step now b \<le> x" by (rule wait_for_least [OF step(2) that(1) b(2)])
    moreover have "?d \<le> wait_for ?step now b" using least b(1) by (rule bspec)
    ultimately show ?thesis by linarith
  qed
  then have "\<forall>x. nanos now < x \<and> on_grid ?step now anchors x \<longrightarrow> nanos now + ?d \<le> x" by (intro allI impI, elim conjE)
  ultimately show ?thesis using pos by (intro exI [of _ ?d]) (simp only: simp_thms)
qed

theorem next_anchored_least_witness:
  "\<exists>d. nextAnchoredDuration [90, 750] 360 cron_sample_now = Some d \<and> 0 < d \<and> d \<le> 360 * ns_minute"
proof -
  have "\<exists>d. nextAnchoredDuration [90, 750] 360 cron_sample_now = Some d \<and> 0 < d \<and> d \<le> 360 * ns_minute \<and>
    on_grid (360 * ns_minute) cron_sample_now [90, 750] (nanos cron_sample_now + d) \<and>
    (\<forall>x. nanos cron_sample_now < x \<and> on_grid (360 * ns_minute) cron_sample_now [90, 750] x \<longrightarrow>
       nanos cron_sample_now + d \<le> x)"
    by (rule next_anchored_least [OF cron_sample_zone]) simp_all
  then show ?thesis by (elim exE conjE) (intro exI conjI)
qed


text \<open>
  A validated expression that leaves the day of the month and the month open runs at
  least once a week: in a zone at a whole number of minutes from UTC the wait is positive
  and at most seven days.
\<close>

theorem weekly_cron_fires:
  assumes "fixed_zone (zone now)" and "zone now 0 mod 60 = 0"
    and "ValidateCron expr = None" and "str_fields expr = [m, h, ''*'', ''*'', w]"
  shows "0 < nextCronAt expr now \<and> nextCronAt expr now \<le> 7 * ns_day"
proof -
  note valid = ValidateCron_fields [OF assms(3,4)]
  obtain vm where vm: "0 \<le> vm" "vm \<le> 59" "fieldMatch m vm 0 59"
    by (rule validated_match [OF valid(1)]) simp
  obtain vh where vh: "0 \<le> vh" "vh \<le> 23" "fieldMatch h vh 0 23"
    by (rule validated_match [OF valid(2)]) simp
  obtain vw where vw: "0 \<le> vw" "vw \<le> 6" "fieldMatch w vw 0 6"
    by (rule validated_match [OF valid(3)]) simp
  obtain u where u: "zone u = zone now" "nanos u mod ns_minute = 0" "after u now"
    "nanos u \<le> nanos now + 7 * ns_day" "hour u = (vh * 60 + vm) div 60" "minute u = (vh * 60 + vm) mod 60"
    "weekday u = vw"
    by (rule week_ahead [OF assms(1,2), of "vh * 60 + vm" vw]) (use vm vh vw in auto)
  have "hour u = vh" "minute u = vm" unfolding u(5,6) using vm by simp_all
  then have "cronMatch expr u"
    unfolding cronMatch_fields [OF assms(4)] using vm(3) vh(3) vw(3) u(7) by (simp add: fieldMatch_star)
  moreover have "nanos u \<le> nanos now + 525600 * ns_minute" using u(4) by linarith
  ultimately have "0 < nextCronAt expr now \<and> nextCronAt expr now \<le> nanos u - nanos now"
    using nextCronAt_le [OF u(1-3)] by (simp only: simp_thms)
  with u(4) show ?thesis by linarith
qed

theorem weekly_cron_fires_witness:
  "0 < nextCronAt ''30 2 * * 1-5'' cron_sample_now \<and> nextCronAt ''30 2 * * 1-5'' cron_sample_now \<le> 7 * ns_day"
proof (rule weekly_cron_fires [OF cron_sample_zone])
  show "zone cron_sample_now 0 mod 60 = 0" by (simp add: cron_sample_now_def utc_def)
  show "ValidateCron ''30 2 * * 1-5'' = None" by code_simp
  show "str_fields ''30 2 * * 1-5'' = [''30'', ''2'', ''*'', ''*'', ''1-5'']" by code_simp
qed


end
