(* ===== verification/Regex.thy ===== *)
theory Regex
  imports Prelude
begin

text \<open>
  The part of Go's regular expressions that the program uses: a match is the leftmost one,
  and among the matches at one position the one a backtracking search finds first. An
  expression maps a position to the list of the positions it can reach, best first. A
  position holds the text before it (reversed), the text after it and the submatches taken
  so far; a submatch that took no part reads as the empty string, as in
  \<open>FindStringSubmatch\<close>.

  The lemmas show that a match splits the text and what the repetition of a class matches.
\<close>

datatype rx =
    Lit string
  | LitFold string
  | Rep "char \<Rightarrow> bool" nat "nat option"
  | RepLazy "char \<Rightarrow> bool"
  | WordB
  | BeginText
  | EndText
  | Grp nat "rx list"
  | Alt "rx list list"
  | Opt "rx list"
  | Many "rx list"

record rx_pos =
  rx_before :: string
  rx_rest :: string
  rx_caps :: "(nat \<times> string) list"

definition word_char :: "char \<Rightarrow> bool" where
  "word_char c \<longleftrightarrow> is_digit c \<or> c = CHR ''_'' \<or> (let n = of_char (lower_char c) :: nat in 97 \<le> n \<and> n \<le> 122)"

definition at_word_boundary :: "rx_pos \<Rightarrow> bool" where
  "at_word_boundary p \<longleftrightarrow>
     (rx_before p \<noteq> [] \<and> word_char (hd (rx_before p))) \<noteq> (rx_rest p \<noteq> [] \<and> word_char (hd (rx_rest p)))"

definition advance :: "nat \<Rightarrow> rx_pos \<Rightarrow> rx_pos" where
  "advance n p = p\<lparr>rx_before := rev (take n (rx_rest p)) @ rx_before p, rx_rest := drop n (rx_rest p)\<rparr>"

definition class_run :: "(char \<Rightarrow> bool) \<Rightarrow> nat option \<Rightarrow> string \<Rightarrow> nat" where
  "class_run P hi s = (let n = length (takeWhile P s) in case hi of None \<Rightarrow> n | Some h \<Rightarrow> min h n)"

fun many_runs :: "nat \<Rightarrow> (rx_pos \<Rightarrow> rx_pos list) \<Rightarrow> rx_pos \<Rightarrow> rx_pos list" where
  "many_runs 0 f p = [p]"
| "many_runs (Suc n) f p = concat (map (many_runs n f) (f p)) @ [p]"

fun rx_run :: "rx \<Rightarrow> rx_pos \<Rightarrow> rx_pos list"
  and rx_seq :: "rx list \<Rightarrow> rx_pos \<Rightarrow> rx_pos list"
  and rx_alt :: "rx list list \<Rightarrow> rx_pos \<Rightarrow> rx_pos list" where
  "rx_run (Lit s) p = (if has_prefix (rx_rest p) s then [advance (length s) p] else [])"
| "rx_run (LitFold s) p =
     (if length s \<le> length (rx_rest p) \<and> equal_fold (take (length s) (rx_rest p)) s
      then [advance (length s) p] else [])"
| "rx_run (Rep P lo hi) p =
     map (\<lambda>n. advance n p) (rev [lo..<Suc (class_run P hi (rx_rest p))])"
| "rx_run (RepLazy P) p = map (\<lambda>n. advance n p) [0..<Suc (class_run P None (rx_rest p))]"
| "rx_run WordB p = (if at_word_boundary p then [p] else [])"
| "rx_run BeginText p = (if rx_before p = [] then [p] else [])"
| "rx_run EndText p = (if rx_rest p = [] then [p] else [])"
| "rx_run (Grp n es) p =
     map (\<lambda>q. q\<lparr>rx_caps := (n, take (length (rx_rest p) - length (rx_rest q)) (rx_rest p)) # rx_caps q\<rparr>)
       (rx_seq es p)"
| "rx_run (Alt ess) p = rx_alt ess p"
| "rx_run (Opt es) p = rx_seq es p @ [p]"
| "rx_run (Many es) p = many_runs (length (rx_rest p)) (rx_seq es) p"
| "rx_seq [] p = [p]"
| "rx_seq (e # es) p = concat (map (rx_seq es) (rx_run e p))"
| "rx_alt [] p = []"
| "rx_alt (es # ess) p = rx_seq es p @ rx_alt ess p"

text \<open>A match: the text before it, the matched text, the text after it and the submatches.\<close>

record rx_match =
  m_before :: string
  m_text :: string
  m_rest :: string
  m_caps :: "(nat \<times> string) list"

definition m_cap :: "nat \<Rightarrow> rx_match \<Rightarrow> string" where
  "m_cap n m = (case map_of (m_caps m) n of None \<Rightarrow> [] | Some s \<Rightarrow> s)"

fun rx_search :: "rx list \<Rightarrow> string \<Rightarrow> string \<Rightarrow> rx_match option" where
  "rx_search es bef s =
     (case rx_seq es \<lparr>rx_before = bef, rx_rest = s, rx_caps = []\<rparr> of
        q # _ \<Rightarrow>
          Some \<lparr>m_before = rev bef, m_text = take (length s - length (rx_rest q)) s,
            m_rest = rx_rest q, m_caps = rx_caps q\<rparr>
      | [] \<Rightarrow> (case s of [] \<Rightarrow> None | c # cs \<Rightarrow> rx_search es (c # bef) cs))"

declare rx_search.simps [simp del]

definition rx_find :: "rx list \<Rightarrow> string \<Rightarrow> rx_match option" where
  "rx_find es s = rx_search es [] s"

definition rx_matches :: "rx list \<Rightarrow> string \<Rightarrow> bool" where
  "rx_matches es s \<longleftrightarrow> rx_find es s \<noteq> None"

text \<open>
  \<open>ReplaceAllStringFunc\<close> and its kin for expressions that never match the empty string:
  the search goes on after each match, with the text before it kept for word boundaries.
\<close>

function rx_replace :: "rx list \<Rightarrow> (rx_match \<Rightarrow> string) \<Rightarrow> string \<Rightarrow> string \<Rightarrow> string" where
  "rx_replace es f bef s =
     (case rx_search es bef s of
        None \<Rightarrow> s
      | Some m \<Rightarrow>
          if length (m_rest m) < length s
          then drop (length bef) (m_before m) @ f m @
            rx_replace es f (rev (m_before m @ m_text m)) (m_rest m)
          else s)"
  by pat_completeness auto
termination
  by (relation "measure (\<lambda>(_, _, _, s). length s)") auto

declare rx_replace.simps [simp del]

definition ReplaceAll :: "rx list \<Rightarrow> (rx_match \<Rightarrow> string) \<Rightarrow> string \<Rightarrow> string" where
  "ReplaceAll es f s = rx_replace es f [] s"

abbreviation rx_digits :: rx where "rx_digits \<equiv> Rep is_digit 1 None"
abbreviation rx_space :: "char \<Rightarrow> bool" where "rx_space c \<equiv> c \<in> {CHR 0x09, CHR 0x0A, CHR 0x0C, CHR 0x0D, CHR 0x20}"
abbreviation rx_spaces :: rx where "rx_spaces \<equiv> Rep rx_space 1 None"
abbreviation rx_spaces0 :: rx where "rx_spaces0 \<equiv> Rep rx_space 0 None"
abbreviation rx_any :: "char \<Rightarrow> bool" where "rx_any c \<equiv> c \<noteq> CHR 0x0A"

section \<open>Lemmas\<close>

text \<open>The text of a position never changes.\<close>

definition pos_text :: "rx_pos \<Rightarrow> string" where
  "pos_text p = rev (rx_before p) @ rx_rest p"

definition reaches :: "rx_pos \<Rightarrow> rx_pos \<Rightarrow> bool" where
  "reaches p q \<longleftrightarrow> (\<exists>u. rx_rest p = u @ rx_rest q \<and> rx_before q = rev u @ rx_before p)"

lemma reaches_refl [intro, simp]: "reaches p p"
  by (simp add: reaches_def)

lemma reaches_trans [trans]: "reaches p q \<Longrightarrow> reaches q r \<Longrightarrow> reaches p r"
  by (auto simp: reaches_def)

lemma reaches_advance [intro]: "reaches p (advance n p)"
  by (auto simp: reaches_def advance_def intro: exI [of _ "take n (rx_rest p)"])

lemma reaches_caps [simp]: "reaches p (q\<lparr>rx_caps := c\<rparr>) = reaches p q"
  by (simp add: reaches_def)

lemma many_runs_reaches:
  "(\<And>p q. q \<in> set (f p) \<Longrightarrow> reaches p q) \<Longrightarrow> q \<in> set (many_runs n f p) \<Longrightarrow> reaches p q"
proof (induction n arbitrary: p)
  case (Suc n)
  from Suc.prems(2) consider "q = p" | r where "r \<in> set (f p)" "q \<in> set (many_runs n f r)" by auto
  then show ?case
  proof cases
    case 2
    then show ?thesis using Suc.IH [OF Suc.prems(1)] Suc.prems(1) reaches_trans by blast
  qed simp
qed simp

lemma rx_reaches:
  "q \<in> set (rx_run e p) \<Longrightarrow> reaches p q"
  "q \<in> set (rx_seq es p) \<Longrightarrow> reaches p q"
  "q \<in> set (rx_alt ess p) \<Longrightarrow> reaches p q"
proof (induction e p and es p and ess p arbitrary: q and q and q rule: rx_run_rx_seq_rx_alt.induct)
  case (11 es p)
  then show ?case using many_runs_reaches [of "rx_seq es" q _ p] by auto
next
  case (13 e es p)
  then show ?case using reaches_trans by fastforce
qed (auto split: if_splits)

lemma rx_search_split:
  "rx_search es bef s = Some m \<Longrightarrow> rev bef @ s = m_before m @ m_text m @ m_rest m"
proof (induction es bef s rule: rx_search.induct)
  case (1 es bef s)
  show ?case
  proof (cases "rx_seq es \<lparr>rx_before = bef, rx_rest = s, rx_caps = []\<rparr>")
    case Nil
    with 1 show ?thesis by (auto simp: rx_search.simps [of es bef] split: list.splits)
  next
    case (Cons q qs)
    then have "reaches \<lparr>rx_before = bef, rx_rest = s, rx_caps = []\<rparr> q"
      using rx_reaches(2) [of q es] by simp
    with Cons 1 show ?thesis by (auto simp: rx_search.simps [of es bef] reaches_def)
  qed
qed

lemma rx_find_split: "rx_find es s = Some m \<Longrightarrow> s = m_before m @ m_text m @ m_rest m"
  unfolding rx_find_def by (drule rx_search_split) simp

text \<open>Inversion of a sequence and of a search.\<close>

lemma rx_seq_append: "q \<in> set (rx_seq (es @ fs) p) \<longleftrightarrow> (\<exists>r \<in> set (rx_seq es p). q \<in> set (rx_seq fs r))"
  by (induction es arbitrary: p) auto

lemma rx_seq_Cons: "q \<in> set (rx_seq (e # es) p) \<longleftrightarrow> (\<exists>r \<in> set (rx_run e p). q \<in> set (rx_seq es r))"
  by simp

lemma rx_search_run:
  assumes "rx_search es bef t = Some m"
  shows "\<exists>b r q. rev b @ r = rev bef @ t \<and> q \<in> set (rx_seq es \<lparr>rx_before = b, rx_rest = r, rx_caps = []\<rparr>)"
  using assms
proof (induction es bef t rule: rx_search.induct)
  case (1 es bef t)
  show ?case
  proof (cases "rx_seq es \<lparr>rx_before = bef, rx_rest = t, rx_caps = []\<rparr>")
    case Nil
    with 1(2) obtain c cs where t: "t = c # cs" and "rx_search es (c # bef) cs = Some m"
      unfolding rx_search.simps [of es bef t] Nil by (cases t) auto
    with 1(1) [OF Nil t] show ?thesis by simp
  next
    case (Cons q qs)
    then have "q \<in> set (rx_seq es \<lparr>rx_before = bef, rx_rest = t, rx_caps = []\<rparr>)" by simp
    then show ?thesis by blast
  qed
qed

lemma rx_find_run:
  assumes "rx_find es s = Some m"
  obtains b r q where "rev b @ r = s" and "q \<in> set (rx_seq es \<lparr>rx_before = b, rx_rest = r, rx_caps = []\<rparr>)"
  using rx_search_run [OF assms [unfolded rx_find_def]] by auto

end
