(* ===== verification/NaturalLanguage.thy ===== *)
theory NaturalLanguage
  imports Cron Regex
begin

text \<open>
  Schedules in words: \<open>ParseNL\<close> and \<open>buildCron\<close> of \<open>supported/config/nl.go\<close>. The phrase
  is searched for facts one after the other, each a step on \<open>nl_result\<close>; the schedule is
  then built from the facts found. Numbers too long for an \<open>int\<close> are clamped by \<open>Atoi\<close>,
  whose error the code ignores.

  The lemmas show that the cron expressions built from a time of the day and a list of
  weekdays are valid and match exactly that time on those days, and that the parser does
  not check the time it reads.
\<close>

record nl_result =
  timeMin :: int
  days :: "int list"
  intervalMin :: int
  beginMin :: int
  haveTime :: bool
  haveFact :: bool

definition nl_int :: "nat \<Rightarrow> rx_match \<Rightarrow> int" where
  "nl_int n m = fst (atoi_raw (m_cap n m))"

definition nl_after :: "rx list \<Rightarrow> string \<Rightarrow> (rx_match \<Rightarrow> nl_result \<Rightarrow> nl_result) \<Rightarrow> nl_result \<Rightarrow> nl_result" where
  "nl_after es phrase f r = (case rx_find es phrase of None \<Rightarrow> r | Some m \<Rightarrow> f m r)"

definition nl_if :: "bool \<Rightarrow> (nl_result \<Rightarrow> nl_result) \<Rightarrow> nl_result \<Rightarrow> nl_result" where
  "nl_if b f r = (if b then f r else r)"

definition nl_begin :: "string \<Rightarrow> nl_result \<Rightarrow> nl_result" where
  "nl_begin phrase =
     (\<lambda>r. if has_prefix phrase ''+''
          then (case atoi (trim_prefix phrase ''+'') of
                  Some n \<Rightarrow> if n > 0 then r\<lparr>beginMin := n, haveFact := True\<rparr> else r
                | None \<Rightarrow> r)
          else r)
     \<circ> nl_after [WordB, Lit ''after'', rx_spaces, Grp 1 [rx_digits], rx_spaces, Lit ''hour''] phrase
         (\<lambda>m r. r\<lparr>beginMin := i64 (nl_int 1 m * 60), haveFact := True\<rparr>)
     \<circ> nl_after [WordB, Lit ''in'', rx_spaces, Grp 1 [rx_digits], rx_spaces, Lit ''minute''] phrase
         (\<lambda>m r. r\<lparr>beginMin := nl_int 1 m, haveFact := True\<rparr>)"

definition every_rx :: "string \<Rightarrow> rx list" where
  "every_rx u = [Lit ''every'', rx_spaces, Grp 1 [rx_digits], rx_spaces, Lit u]"

definition nl_interval :: "string \<Rightarrow> nl_result \<Rightarrow> nl_result" where
  "nl_interval phrase =
     nl_if (contains phrase ''every day'') (\<lambda>r. r\<lparr>intervalMin := 1440, haveFact := True\<rparr>)
     \<circ> nl_if (contains phrase ''every hour'') (\<lambda>r. r\<lparr>intervalMin := 60, haveFact := True\<rparr>)
     \<circ> nl_if (contains phrase ''every minute'') (\<lambda>r. r\<lparr>intervalMin := 1, haveFact := True\<rparr>)
     \<circ> nl_after (every_rx ''day'') phrase (\<lambda>m r. r\<lparr>intervalMin := i64 (nl_int 1 m * 1440), haveFact := True\<rparr>)
     \<circ> nl_after (every_rx ''hour'') phrase (\<lambda>m r. r\<lparr>intervalMin := i64 (nl_int 1 m * 60), haveFact := True\<rparr>)
     \<circ> nl_after (every_rx ''minute'') phrase (\<lambda>m r. r\<lparr>intervalMin := nl_int 1 m, haveFact := True\<rparr>)"

definition set_time :: "int \<Rightarrow> nl_result \<Rightarrow> nl_result" where
  "set_time t r = r\<lparr>timeMin := t, haveTime := True, haveFact := True\<rparr>"

definition meridiem_hour :: "string \<Rightarrow> int \<Rightarrow> int" where
  "meridiem_hour mer h =
     (let h1 = (if mer = ''pm'' \<and> h < 12 then h + 12 else h)
      in if mer = ''am'' \<and> h1 = 12 then 0 else h1)"

definition nl_time :: "string \<Rightarrow> nl_result \<Rightarrow> nl_result" where
  "nl_time phrase =
     (\<lambda>r. case rx_find [Grp 1 [Rep is_digit 1 (Some 2)], Lit '':'', Grp 2 [Rep is_digit 2 (Some 2)],
                        rx_spaces0, Opt [Grp 3 [Alt [[Lit ''am''], [Lit ''pm'']]]]] phrase of
            Some m \<Rightarrow> set_time (meridiem_hour (m_cap 3 m) (nl_int 1 m) * 60 + nl_int 2 m) r
          | None \<Rightarrow>
              (case rx_find [Grp 1 [Rep is_digit 1 (Some 2)], rx_spaces0,
                             Grp 2 [Alt [[Lit ''am''], [Lit ''pm'']]]] phrase of
                 Some m \<Rightarrow> set_time (meridiem_hour (m_cap 2 m) (nl_int 1 m) * 60) r
               | None \<Rightarrow>
                   (case rx_find [WordB, Grp 1 [Rep is_digit 3 (Some 4)], WordB] phrase of
                      Some m \<Rightarrow>
                        (let v = m_cap 1 m
                         in if length v = 4
                            then let h = fst (atoi_raw (take 2 v)); mi = fst (atoi_raw (drop 2 v))
                                 in if h \<le> 23 \<and> mi \<le> 59 then set_time (h * 60 + mi) r else r
                            else r)
                    | None \<Rightarrow> r)))
     \<circ> nl_if (contains phrase ''noon'') (set_time 720)
     \<circ> nl_if (contains phrase ''midnight'') (set_time 0)"

definition day_seen :: "string \<Rightarrow> string \<Rightarrow> bool" where
  "day_seen phrase name \<longleftrightarrow>
     contains phrase name \<or> contains phrase (trim_suffix name ''day'' @ ''s'') \<or>
     contains phrase (take 3 name) \<or>
     list_ex (\<lambda>p. let part = trim_space p
                  in part = take 3 name \<or> part = name \<or> part = trim_suffix name ''day'')
       (split_char (CHR '','') phrase)"

definition nl_days :: "string \<Rightarrow> nl_result \<Rightarrow> nl_result" where
  "nl_days phrase =
     nl_if (contains phrase ''weekend'' \<or> contains phrase ''weekends'') (\<lambda>r. r\<lparr>days := [0, 6], haveFact := True\<rparr>)
     \<circ> nl_if (contains phrase ''weekday'' \<or> contains phrase ''weekdays'')
         (\<lambda>r. r\<lparr>days := [1, 2, 3, 4, 5], haveFact := True\<rparr>)
     \<circ> (\<lambda>r. let seen = map fst (filter (\<lambda>(i, name). day_seen phrase name) (zip [0, 1, 2, 3, 4, 5, 6] day_names))
            in if seen = [] then r else r\<lparr>days := seen, haveFact := True\<rparr>)"

definition buildCron :: "int \<Rightarrow> int \<Rightarrow> int list \<Rightarrow> string" where
  "buildCron hh mm ds = itoa mm @ '' '' @ itoa hh @ '' * * '' @ join '','' (map itoa ds)"

function hour_steps :: "int \<Rightarrow> int \<Rightarrow> string list" where
  "hour_steps h step = (if 0 < step \<and> h < 24 then itoa h # hour_steps (h + step) step else [])"
  by pat_completeness auto
termination
  by (relation "measure (\<lambda>(h, _). nat (24 - h))") auto

declare hour_steps.simps [simp del]

text \<open>The schedule made from the facts. \<open>stepH\<close> is positive whenever the loop runs.\<close>

definition nl_schedule :: "string \<Rightarrow> nl_result \<Rightarrow> schedule option" where
  "nl_schedule phrase r =
     (let dailyHint = contains phrase ''daily'' \<or> contains phrase ''nightly'' \<or> contains phrase ''every day'';
          hh = go_quot (timeMin r) 60; mm = go_rem (timeMin r) 60;
          daily = itoa mm @ '' '' @ itoa hh @ '' * * *'';
          s = empty_schedule
      in if \<not> haveFact r then None
         else if beginMin r > 0 \<and> (haveTime r \<or> days r \<noteq> [] \<or> intervalMin r > 0)
         then (let s1 = s\<lparr>Start := ''+'' @ itoa (beginMin r)\<rparr>
               in if haveTime r
                  then Some (s1\<lparr>Recurring := if days r \<noteq> [] then buildCron hh mm (days r) else daily\<rparr>)
                  else if intervalMin r > 0 then Some (s1\<lparr>Recurring := itoa (intervalMin r)\<rparr>)
                  else Some (s1\<lparr>Recurring := buildCron 0 0 (days r)\<rparr>))
         else if beginMin r > 0 then Some (s\<lparr>Begin := ''+'' @ itoa (beginMin r)\<rparr>)
         else if haveTime r
         then (let s1 = s\<lparr>Time := [timeMin r]\<rparr>
               in if days r \<noteq> [] then Some (s1\<lparr>Cron := buildCron hh mm (days r)\<rparr>)
                  else if intervalMin r > 0 \<and> go_rem (intervalMin r) 60 = 0
                  then Some (s1\<lparr>Cron := itoa mm @ '' '' @
                    join '','' (hour_steps hh (go_quot (intervalMin r) 60)) @ '' * * *''\<rparr>)
                  else Some (s1\<lparr>Cron := daily\<rparr>))
         else if intervalMin r > 0 then Some (s\<lparr>Interval := intervalMin r\<rparr>)
         else if days r \<noteq> [] then Some (s\<lparr>Cron := buildCron 0 0 (days r)\<rparr>)
         else if dailyHint then Some (s\<lparr>Cron := ''0 0 * * *''\<rparr>)
         else None)"

definition ParseNL :: "string \<Rightarrow> schedule option" where
  "ParseNL phrase0 =
     (let phrase = to_lower (trim_space phrase0);
          r0 = \<lparr>timeMin = - 1, days = [], intervalMin = 0, beginMin = 0, haveTime = False, haveFact = False\<rparr>
      in nl_schedule phrase ((nl_days phrase \<circ> nl_time phrase \<circ> nl_interval phrase \<circ> nl_begin phrase) r0))"

section \<open>Lemmas\<close>

lemma fields_word:
  "\<forall>c \<in> set w. \<not> is_space c \<Longrightarrow> foldr fields_step w (cur, out) = (w @ cur, out)"
  by (induction w) (auto simp: fields_step_def)

lemma str_fields_word: "\<forall>c \<in> set w. \<not> is_space c \<Longrightarrow> w \<noteq> [] \<Longrightarrow> str_fields w = [w]"
  by (simp add: str_fields_def fields_word)

lemma str_fields_cons:
  assumes "\<forall>c \<in> set w. \<not> is_space c" and "w \<noteq> []"
  shows "str_fields (w @ CHR '' '' # rest) = w # str_fields rest"
proof -
  obtain cur out where r: "foldr fields_step rest ([], []) = (cur, out)" by fastforce
  have "foldr fields_step (CHR '' '' # rest) ([], []) = ([], str_fields rest)"
    by (simp add: str_fields_def r fields_step_def [of "CHR '' ''"] is_space_def)
  then show ?thesis
    using assms by (simp add: str_fields_def [of "w @ CHR '' '' # rest"] fields_word)
qed

lemma itoa_nospace: "0 \<le> n \<Longrightarrow> c \<in> set (itoa n) \<Longrightarrow> \<not> is_space c"
  using itoa_digits [of n] by (auto simp: list_all_iff is_digit_def is_space_def)

lemma print_vals: "print_field (map AVal ds) = join '','' (map itoa ds)"
  by (simp add: print_field_def comp_def)

lemma join_itoa_nospace: "\<forall>d \<in> set ds. 0 \<le> d \<Longrightarrow> c \<in> set (join '','' (map itoa ds)) \<Longrightarrow> \<not> is_space c"
  using set_join [of "'',''" "map itoa ds"] itoa_nospace by (fastforce simp: is_space_def)

lemma str_fields_buildCron:
  assumes "0 \<le> hh" and "0 \<le> mm" and "ds \<noteq> []" and "\<forall>d \<in> set ds. 0 \<le> d"
  shows "str_fields (buildCron hh mm ds) = [itoa mm, itoa hh, ''*'', ''*'', join '','' (map itoa ds)]"
proof -
  let ?d = "join '','' (map itoa ds)"
  have d: "?d \<noteq> []" using print_field_nonempty [of "map AVal ds"] assms(3) by (simp add: print_vals)
  have star: "str_fields (CHR ''*'' # CHR '' '' # x) = ''*'' # str_fields x" for x
    using str_fields_cons [of "''*''" x] by (simp add: is_space_def)
  show ?thesis
    unfolding buildCron_def
    using str_fields_cons [of "itoa mm"] str_fields_cons [of "itoa hh"] itoa_nospace assms
      str_fields_word [of ?d] join_itoa_nospace [OF assms(4)] d
    by (simp add: star)
qed

lemma validate_values:
  assumes "0 \<le> lo" and "in_i64 hi" and "ds \<noteq> []" and "\<forall>d \<in> set ds. lo \<le> d \<and> d \<le> hi"
  shows "validateCronField (join '','' (map itoa ds)) lo hi = None"
    and "lo \<le> v \<Longrightarrow> fieldMatch (join '','' (map itoa ds)) v lo hi \<longleftrightarrow> v \<in> set ds"
proof -
  have wf: "\<forall>a \<in> set (map AVal ds). wf_atom lo hi a" using assms(4) by auto
  have ne: "map AVal ds \<noteq> []" using assms(3) by simp
  note valid = validate_print_field [OF assms(1,2) ne wf]
  show "validateCronField (join '','' (map itoa ds)) lo hi = None" using valid by (simp add: print_vals)
  assume "lo \<le> v"
  then show "fieldMatch (join '','' (map itoa ds)) v lo hi \<longleftrightarrow> v \<in> set ds"
    using match_print_field [OF assms(1,2) ne wf] fieldMatch_agrees [OF validated_no_quotes [OF valid]]
    by (auto simp: print_vals)
qed

lemmas validate_value = validate_values [of _ _ "[n]" for n, simplified]

lemma buildCron_no_quotes:
  assumes "0 \<le> hh" and "0 \<le> mm" and "\<forall>d \<in> set ds. 0 \<le> d"
  shows "\<not> contains_any (buildCron hh mm ds) [CHR 0x22, CHR 0x27]"
proof -
  have "c \<noteq> CHR 0x22 \<and> c \<noteq> CHR 0x27" if "c \<in> set (itoa n)" "0 \<le> n" for c n
    using itoa_digits [OF that(2)] that(1) by (auto simp: list_all_iff is_digit_def)
  then show ?thesis
    using set_join [of "'',''" "map itoa ds"] assms
    by (fastforce simp: buildCron_def contains_any_def list_ex_iff)
qed

section \<open>Properties\<close>

text \<open>
  The expression built for a time of the day and a list of weekdays passes validation
  and matches an instant exactly when its clock shows that time on one of those days.
\<close>

theorem buildCron_denotation:
  assumes "0 \<le> hh" and "hh \<le> 23" and "0 \<le> mm" and "mm \<le> 59"
    and "ds \<noteq> []" and "\<forall>d \<in> set ds. 0 \<le> d \<and> d \<le> 6"
  shows "ValidateCron (buildCron hh mm ds) = None \<and>
    (cronMatch (buildCron hh mm ds) t \<longleftrightarrow> hour t = hh \<and> minute t = mm \<and> weekday t \<in> set ds)"
proof -
  have pos: "\<forall>d \<in> set ds. 0 \<le> d" using assms(6) by blast
  note split = str_fields_buildCron [OF assms(1,3,5) pos]
  have i64: "in_i64 59" "in_i64 23" "in_i64 6" by (simp_all add: in_i64_def)
  note m = validate_value [OF order_refl i64(1), of mm]
    and h = validate_value [OF order_refl i64(2), of hh]
    and w = validate_values [OF order_refl i64(3) assms(5,6)]
  have star: "validateCronField ''*'' lo hi = None" for lo hi
    by (simp add: validateCronField_def cron_char_def)
  have "ValidateCron (buildCron hh mm ds) = None"
    using buildCron_no_quotes [OF assms(1,3) pos] assms split m(1) h(1) w(1) star
    by (simp add: ValidateCron_def cron_bounds_def)
  moreover have "cronMatch (buildCron hh mm ds) t \<longleftrightarrow> hour t = hh \<and> minute t = mm \<and> weekday t \<in> set ds"
    unfolding cronMatch_fields [OF split]
    using m(2) [of "minute t"] h(2) [of "hour t"] w(2) [of "weekday t"] assms
      minute_range [of t] hour_range [of t] weekday_range [of t] fieldMatch_star by auto
  ultimately show ?thesis by blast
qed

theorem buildCron_denotation_witness:
  "ParseNL ''every Monday and Friday at 9:30 pm'' =
     Some (empty_schedule\<lparr>Time := [1290], Cron := buildCron 21 30 [1, 5]\<rparr>) \<and>
   ValidateCron (buildCron 21 30 [1, 5]) = None \<and>
   (cronMatch (buildCron 21 30 [1, 5]) cron_sample_now \<longleftrightarrow>
     hour cron_sample_now = 21 \<and> minute cron_sample_now = 30 \<and> weekday cron_sample_now \<in> set [1, 5])"
proof
  show "ParseNL ''every Monday and Friday at 9:30 pm'' =
     Some (empty_schedule\<lparr>Time := [1290], Cron := buildCron 21 30 [1, 5]\<rparr>)" by code_simp
  show "ValidateCron (buildCron 21 30 [1, 5]) = None \<and>
   (cronMatch (buildCron 21 30 [1, 5]) cron_sample_now \<longleftrightarrow>
     hour cron_sample_now = 21 \<and> minute cron_sample_now = 30 \<and> weekday cron_sample_now \<in> set [1, 5])"
    by (rule buildCron_denotation) simp_all
qed

text \<open>
  The phrase parser does not check the time it reads: a phrase that names the hour 25
  is turned into a schedule whose expression fails validation, and a licensed build takes
  it as it is.
\<close>

theorem phrase_time_unchecked:
  "parseString Supported None ParseNL empty_schedule ''daily at 25:30'' =
     Inr (empty_schedule\<lparr>Time := [1530], Cron := ''30 25 * * *''\<rparr>) \<and>
   ValidateCron ''30 25 * * *'' \<noteq> None"
  by code_simp

end
