(* ===== verification/Glob.thy ===== *)
theory Glob
  imports Prelude
begin

text \<open>
  The glob patterns of Go's \<open>path.Match\<close>, which the table and database filters and the
  selection of backups use: a pattern is read into a list of elements, or is malformed;
  a star matches any run without a slash. Characters are bytes, as for ASCII names. The
  lemmas give the language of a pattern and the patterns that match only themselves.
\<close>

datatype glob = GStar | GAny | GChar char | GClass bool "(char \<times> char) list"

definition get_esc :: "string \<Rightarrow> (char \<times> string) option" where
  "get_esc s =
     (case s of
        [] \<Rightarrow> None
      | c # cs \<Rightarrow>
          if c = CHR ''-'' \<or> c = CHR '']'' then None
          else if c = CHR 0x5C
          then (case cs of d # ds \<Rightarrow> if ds = [] then None else Some (d, ds) | [] \<Rightarrow> None)
          else if cs = [] then None else Some (c, cs))"

lemma get_esc_shorter: "get_esc s = Some (c, r) \<Longrightarrow> length r < length s"
  by (auto simp: get_esc_def split: list.splits if_splits)

text \<open>The ranges of a class up to its closing bracket; the flag says that one was read.\<close>

function class_ranges :: "bool \<Rightarrow> string \<Rightarrow> ((char \<times> char) list \<times> string) option" where
  "class_ranges some s =
     (if some \<and> s \<noteq> [] \<and> hd s = CHR '']'' then Some ([], tl s)
      else case get_esc s of
             None \<Rightarrow> None
           | Some (lo, r) \<Rightarrow>
               (case (if r \<noteq> [] \<and> hd r = CHR ''-'' then get_esc (tl r) else Some (lo, r)) of
                  None \<Rightarrow> None
                | Some (hi, r') \<Rightarrow>
                    (case class_ranges True r' of None \<Rightarrow> None | Some (rs, t) \<Rightarrow> Some ((lo, hi) # rs, t))))"
  by pat_completeness auto
termination
  by (relation "measure (\<lambda>(_, s). length s)")
    (auto split: if_splits dest!: get_esc_shorter simp: less_diff_conv)

declare class_ranges.simps [simp del]

lemma class_ranges_shorter: "class_ranges b s = Some (rs, t) \<Longrightarrow> length t < length s"
proof (induction b s arbitrary: rs rule: class_ranges.induct)
  case (1 b s)
  show ?case
  proof (cases "b \<and> s \<noteq> [] \<and> hd s = CHR '']''")
    case True
    with "1.prems" have "t = tl s" by (simp add: class_ranges.simps [of True s])
    with True show ?thesis by (cases s) auto
  next
    case False
    with "1.prems" obtain lo r hi r' rs' where steps: "get_esc s = Some (lo, r)"
      "(if r \<noteq> [] \<and> hd r = CHR ''-'' then get_esc (tl r) else Some (lo, r)) = Some (hi, r')"
      "class_ranges True r' = Some (rs', t)"
      by (simp add: class_ranges.simps [of b s]) (auto split: option.splits)
    have "length r' \<le> length r"
      using steps(2) by (auto dest!: get_esc_shorter split: if_splits)
    moreover have "length t < length r'"
      by (rule "1.IH" [OF _ steps(1) refl steps(2) refl steps(3)]) (use False in blast)
    ultimately show ?thesis using get_esc_shorter [OF steps(1)] by simp
  qed
qed

function parse_glob :: "string \<Rightarrow> glob list option" where
  "parse_glob [] = Some []"
| "parse_glob (c # cs) =
     (if c = CHR ''*'' then map_option (Cons GStar) (parse_glob cs)
      else if c = CHR ''?'' then map_option (Cons GAny) (parse_glob cs)
      else if c = CHR 0x5C
      then (case cs of [] \<Rightarrow> None | d # ds \<Rightarrow> map_option (Cons (GChar d)) (parse_glob ds))
      else if c = CHR ''[''
      then (let neg = (cs \<noteq> [] \<and> hd cs = CHR ''^'')
            in case class_ranges False (if neg then tl cs else cs) of
                 None \<Rightarrow> None
               | Some (rs, t) \<Rightarrow> map_option (Cons (GClass neg rs)) (parse_glob t))
      else map_option (Cons (GChar c)) (parse_glob cs))"
  by pat_completeness auto
termination
  by (relation "measure length") (auto dest!: class_ranges_shorter split: if_splits)

definition glob_char :: "glob \<Rightarrow> char \<Rightarrow> bool" where
  "glob_char g c =
     (case g of
        GStar \<Rightarrow> False
      | GAny \<Rightarrow> c \<noteq> CHR ''/''
      | GChar d \<Rightarrow> c = d
      | GClass neg rs \<Rightarrow>
          list_ex (\<lambda>(lo, hi). (of_char lo :: nat) \<le> of_char c \<and> of_char c \<le> (of_char hi :: nat)) rs \<noteq> neg)"

fun glob_match :: "glob list \<Rightarrow> string \<Rightarrow> bool" where
  "glob_match [] s \<longleftrightarrow> s = []"
| "glob_match (GStar # gs) s \<longleftrightarrow>
     glob_match gs s \<or> (case s of [] \<Rightarrow> False | c # cs \<Rightarrow> c \<noteq> CHR ''/'' \<and> glob_match (GStar # gs) cs)"
| "glob_match (g # gs) s \<longleftrightarrow> (case s of [] \<Rightarrow> False | c # cs \<Rightarrow> glob_char g c \<and> glob_match gs cs)"

text \<open>\<open>path.Match\<close>; \<open>None\<close> is \<open>ErrBadPattern\<close>.\<close>

definition path_Match :: "string \<Rightarrow> string \<Rightarrow> bool option" where
  "path_Match pattern name = map_option (\<lambda>gs. glob_match gs name) (parse_glob pattern)"

section \<open>Lemmas\<close>

lemma glob_match_star:
  "glob_match (GStar # gs) s \<longleftrightarrow> (\<exists>u v. s = u @ v \<and> CHR ''/'' \<notin> set u \<and> glob_match gs v)"
proof (induction s)
  case (Cons c s)
  have "(\<exists>u v. c # s = u @ v \<and> CHR ''/'' \<notin> set u \<and> glob_match gs v) \<longleftrightarrow>
      glob_match gs (c # s) \<or> (c \<noteq> CHR ''/'' \<and> (\<exists>u v. s = u @ v \<and> CHR ''/'' \<notin> set u \<and> glob_match gs v))"
    (is "?L \<longleftrightarrow> ?R")
  proof
    assume ?L
    then obtain u v where uv: "c # s = u @ v" "CHR ''/'' \<notin> set u" "glob_match gs v" by blast
    then show ?R by (cases u) auto
  next
    assume ?R
    then show ?L
    proof
      assume "glob_match gs (c # s)"
      then show ?L by (intro exI [of _ "[]"] exI [of _ "c # s"]) simp
    next
      assume "c \<noteq> CHR ''/'' \<and> (\<exists>u v. s = u @ v \<and> CHR ''/'' \<notin> set u \<and> glob_match gs v)"
      then obtain u v where "c \<noteq> CHR ''/''" "s = u @ v" "CHR ''/'' \<notin> set u" "glob_match gs v" by blast
      then show ?L by (intro exI [of _ "c # u"] exI [of _ v]) auto
    qed
  qed
  with Cons.IH show ?case by simp
qed simp

definition plain_char :: "char \<Rightarrow> bool" where
  "plain_char c \<longleftrightarrow> c \<notin> {CHR ''*'', CHR ''?'', CHR ''['', CHR 0x5C}"

lemma parse_plain: "\<forall>c \<in> set p. plain_char c \<Longrightarrow> parse_glob p = Some (map GChar p)"
  by (induction p) (auto simp: plain_char_def)

lemma glob_match_chars: "glob_match (map GChar p) s \<longleftrightarrow> s = p"
  by (induction p arbitrary: s) (auto simp: glob_char_def split: list.splits)

lemma path_Match_plain: "\<forall>c \<in> set p. plain_char c \<Longrightarrow> path_Match p s = Some (s = p)"
  by (simp add: path_Match_def parse_plain glob_match_chars)

end
