(* ===== verification/Config.thy ===== *)
theory Config
  imports ScheduleParse Glob
begin

text \<open>
  Job configuration: \<open>internal/config/jobs.go\<close>, \<open>storage.go\<close>, \<open>secrets.go\<close> and the part
  of \<open>config.go\<close> that turns what a file says into the jobs the scheduler runs
  (\<open>resolveJob\<close>, profiles, validation). A nil pointer is \<open>None\<close>; a nil map of profiles is
  \<open>None\<close>, which the code distinguishes from an empty one; the keys set to \<open>unset\<close> are a set.
  Warnings printed to standard error are left out. The environment and the files that
  secrets name are parameters.

  The lemmas show what a resolved job is guaranteed to hold, that a value given in the job
  wins over profiles and defaults, that an excluded table or database is never included,
  and what goes wrong with storage profiles and with encryption types named directly.
\<close>

section \<open>Data\<close>

record tls_config =
  tls_Enable :: bool
  tls_CAFile :: string
  tls_CertFile :: string
  tls_KeyFile :: string
  tls_Verify :: "bool option"
  tls_Version :: string

record storage_config =
  st_Backend :: string
  st_Bucket :: string
  st_Path :: string
  st_Endpoint :: string
  st_Region :: string
  st_KeyID :: string
  st_KeySecret :: string
  st_Account :: string
  st_Key :: string
  st_URL :: string
  st_Pass :: string
  st_FileMode :: string
  st_DirMode :: string
  st_User :: string
  st_Group :: string
  st_TLS :: "tls_config option"
  st_unset :: "string set"

record schema_only =
  so_All :: bool
  so_Tables :: "string list"

record table_filter =
  tf_Include :: "string list"
  tf_Exclude :: "string list"
  tf_SchemaOnly :: schema_only

record database_list =
  dl_Include :: "string list"
  dl_Exclude :: "string list"
  dl_Tables :: "table_filter option"
  dl_Routines :: "bool option"
  dl_Events :: "bool option"
  dl_Triggers :: "bool option"
  dl_Views :: "bool option"
  dl_RawBlobs :: "bool option"

record db_profile =
  dp_Connection :: string
  dp_Name :: string
  dp_Include :: "string list"
  dp_Exclude :: "string list"
  dp_Tables :: "table_filter option"
  dp_Routines :: "bool option"
  dp_Events :: "bool option"
  dp_Triggers :: "bool option"
  dp_Views :: "bool option"
  dp_RawBlobs :: "bool option"

record backup_config =
  bk_Strategy :: string
  bk_Type :: string
  bk_Filename :: string
  bk_CreateLatest :: "bool option"
  bk_SchemaOnly :: bool
  bk_FullEvery :: int
  bk_FullAfter :: string
  bk_unset :: "string set"

record compression_config =
  cp_Type :: string
  cp_Level :: int
  cp_Threads :: int
  cp_Rsyncable :: bool

record retention_config =
  rc_Last :: "int option"
  rc_Within :: string
  rc_Hourly :: "int option"
  rc_Daily :: "int option"
  rc_Weekly :: "int option"
  rc_Monthly :: "int option"
  rc_Yearly :: "int option"

record backup_profile =
  bp_Strategy :: string
  bp_Filename :: string
  bp_Compression :: "compression_config option"
  bp_Checksum :: string
  bp_Retention :: "retention_config option"

record archive_config =
  ac_Last :: int
  ac_Within :: string
  ac_Path :: string
  ac_Retention :: "retention_config option"
  ac_Storage :: "storage_config option"
  ac_StorageRef :: string

record encryption_config =
  en_Type :: string
  en_Recipients :: "string list"
  en_Passphrase :: string

record maintenance_config =
  mn_Schedule :: string
  mn_Optimize :: "bool option"
  mn_Vacuum :: "bool option"
  mn_Reindex :: "bool option"
  mn_Analyze :: "bool option"
  mn_CheckTables :: "bool option"
  mn_Compact :: "bool option"
  mn_MemoryPurge :: "bool option"

record mysql_objects =
  mo_Routines :: bool
  mo_Events :: bool
  mo_Triggers :: bool
  mo_Views :: bool
  mo_RawBlobs :: bool

record hooks_config =
  hk_Pre :: "string list"
  hk_Post :: "string list"

record connectivity_config =
  cn_Enabled :: "bool option"
  cn_Method :: string
  cn_RetryInterval :: int
  cn_Timeout :: int

record conn_config =
  cc_Type :: string
  cc_Host :: string
  cc_Port :: int
  cc_User :: string
  cc_Pass :: string
  cc_Version :: int
  cc_InfluxMode :: string
  cc_Connectivity :: "connectivity_config option"
  cc_TLS :: "tls_config option"
  cc_AuthSource :: string

text \<open>The fields of a job, less those that only steer its log output.\<close>

record job_config =
  j_Name :: string
  j_Type :: string
  j_Host :: string
  j_Port :: int
  j_User :: string
  j_Pass :: string
  j_Databases :: "database_list option"
  j_Schedule :: "schedule option"
  j_Blackout :: "blackout list option"
  j_Compression :: "compression_config option"
  j_Checksum :: string
  j_Storage :: "storage_config option"
  j_TLS :: "tls_config option"
  j_Backup :: "backup_config option"
  j_Maintenance :: string
  j_Encryption :: string
  j_Version :: int
  j_InfluxMode :: string
  j_Connectivity :: "connectivity_config option"
  j_AuthSource :: string
  j_Retention :: "retention_config option"
  j_Archive :: "archive_config option"
  j_Hooks :: "hooks_config option"
  j_Progress :: "bool option"
  j_SplitDB :: bool
  j_DatabaseRef :: string
  j_StorageRef :: string
  j_BackupRef :: string
  j_ArchiveRef :: string
  j_EncryptionType :: string
  j_EncryptionIdentity :: string
  j_EncryptionIdentities :: "string list"
  j_MaintenanceCfg :: "maintenance_config option"
  j_RunID :: string
  j_unset :: "string set"
  j_splitDBSet :: bool

record defaults_config =
  df_Backup :: "backup_config option"
  df_Compression :: "compression_config option"
  df_Checksum :: string
  df_Storage :: "storage_config option"
  df_TLS :: "tls_config option"
  df_Retention :: "retention_config option"
  df_Archive :: "archive_config option"
  df_Hooks :: "hooks_config option"
  df_Connectivity :: "connectivity_config option"
  df_Progress :: "bool option"

type_synonym 'v profiles = "(string \<times> 'v) list option"

record main_config =
  c_Defaults :: "defaults_config option"
  c_Jobs :: "job_config list"
  c_Connections :: "conn_config profiles"
  c_Databases :: "db_profile profiles"
  c_StorageProfiles :: "storage_config profiles"
  c_BackupProfiles :: "backup_profile profiles"
  c_MaintenanceProfiles :: "maintenance_config profiles"
  c_EncryptionProfiles :: "encryption_config profiles"
  c_ArchiveProfiles :: "archive_config profiles"

datatype config_error =
    NoName
  | NoType string
  | UnknownEncryption string string
  | UnknownCompression string string
  | ScheduleInvalid string schedule_error
  | WithinInvalid string
  | RetentionInvalid string
  | ConnectivityInvalid string

definition lookup_profile :: "'v profiles \<Rightarrow> string \<Rightarrow> 'v option" where
  "lookup_profile ps name = (case ps of None \<Rightarrow> None | Some m \<Rightarrow> map_of m name)"

text \<open>The zero values of the Go types.\<close>

definition no_tls :: tls_config where
  "no_tls = \<lparr>tls_Enable = False, tls_CAFile = [], tls_CertFile = [], tls_KeyFile = [], tls_Verify = None,
     tls_Version = []\<rparr>"

definition no_storage :: storage_config where
  "no_storage = \<lparr>st_Backend = [], st_Bucket = [], st_Path = [], st_Endpoint = [], st_Region = [],
     st_KeyID = [], st_KeySecret = [], st_Account = [], st_Key = [], st_URL = [], st_Pass = [],
     st_FileMode = [], st_DirMode = [], st_User = [], st_Group = [], st_TLS = None, st_unset = {}\<rparr>"

definition no_databases :: database_list where
  "no_databases = \<lparr>dl_Include = [], dl_Exclude = [], dl_Tables = None, dl_Routines = None,
     dl_Events = None, dl_Triggers = None, dl_Views = None, dl_RawBlobs = None\<rparr>"

definition no_backup :: backup_config where
  "no_backup = \<lparr>bk_Strategy = [], bk_Type = [], bk_Filename = [], bk_CreateLatest = None,
     bk_SchemaOnly = False, bk_FullEvery = 0, bk_FullAfter = [], bk_unset = {}\<rparr>"

definition no_compression :: compression_config where
  "no_compression = \<lparr>cp_Type = [], cp_Level = 0, cp_Threads = 0, cp_Rsyncable = False\<rparr>"

section \<open>Filters and small rules\<close>

definition globMatchAny :: "string list \<Rightarrow> string \<Rightarrow> bool" where
  "globMatchAny patterns s \<longleftrightarrow>
     list_ex (\<lambda>p. p = s \<or> p = ''*'' \<or> path_Match p s = Some True) patterns"

definition SchemaOnly_Matches :: "schema_only \<Rightarrow> string \<Rightarrow> bool" where
  "SchemaOnly_Matches s table \<longleftrightarrow> so_All s \<or> globMatchAny (so_Tables s) table"

definition TableFilter_Apply :: "table_filter option \<Rightarrow> string \<Rightarrow> bool \<times> bool" where
  "TableFilter_Apply f table =
     (case f of
        None \<Rightarrow> (True, False)
      | Some t \<Rightarrow>
          if globMatchAny (tf_Exclude t) table then (False, False)
          else if tf_Include t \<noteq> [] \<and> \<not> globMatchAny (tf_Include t) table then (False, False)
          else (True, SchemaOnly_Matches (tf_SchemaOnly t) table))"

definition DueOn :: "maintenance_config option \<Rightarrow> gotime \<Rightarrow> bool" where
  "DueOn m t =
     (case m of
        None \<Rightarrow> True
      | Some mc \<Rightarrow>
          if mn_Schedule mc = [] then True
          else case str_fields (mn_Schedule mc) of
                 [p0, p1, p2, p3, p4] \<Rightarrow>
                   (let dom = cronFieldMatch p2 (day t) 1 31;
                        mon = cronFieldMatch p3 (month t) 1 12;
                        wd = cronFieldMatch p4 (weekday t) 0 6
                    in if \<not> mon then False
                       else if p2 \<noteq> ''*'' \<and> p4 \<noteq> ''*'' then dom \<or> wd
                       else dom \<and> wd)
               | _ \<Rightarrow> True)"

definition EffectiveStrategy :: "backup_config \<Rightarrow> string" where
  "EffectiveStrategy b =
     (if bk_Strategy b \<noteq> [] then bk_Strategy b else if bk_Type b \<noteq> [] then bk_Type b else ''full'')"

definition DatabaseList_Excluded :: "database_list option \<Rightarrow> string \<Rightarrow> bool" where
  "DatabaseList_Excluded d name = (case d of None \<Rightarrow> False | Some l \<Rightarrow> globMatchAny (dl_Exclude l) name)"

definition override :: "'a option \<Rightarrow> 'a \<Rightarrow> 'a" where
  "override v d = (case v of None \<Rightarrow> d | Some x \<Rightarrow> x)"

definition ResolveMysqlObjects :: "database_list option \<Rightarrow> mysql_objects" where
  "ResolveMysqlObjects d =
     (case d of
        None \<Rightarrow> \<lparr>mo_Routines = True, mo_Events = True, mo_Triggers = True, mo_Views = True, mo_RawBlobs = False\<rparr>
      | Some l \<Rightarrow> \<lparr>mo_Routines = override (dl_Routines l) True, mo_Events = override (dl_Events l) True,
          mo_Triggers = override (dl_Triggers l) True, mo_Views = override (dl_Views l) True,
          mo_RawBlobs = override (dl_RawBlobs l) False\<rparr>)"

definition VerifyCerts :: "tls_config option \<Rightarrow> bool" where
  "VerifyCerts t = (case t of None \<Rightarrow> True | Some c \<Rightarrow> override (tls_Verify c) True)"

definition Connectivity_IsEnabled :: "connectivity_config option \<Rightarrow> bool" where
  "Connectivity_IsEnabled c = (case c of None \<Rightarrow> False | Some x \<Rightarrow> override (cn_Enabled x) True)"

definition MethodOf :: "connectivity_config option \<Rightarrow> string" where
  "MethodOf cfg =
     (case cfg of
        None \<Rightarrow> ''full''
      | Some c \<Rightarrow>
          let m = to_lower (trim_space (cn_Method c))
          in if m \<in> set [''none'', ''simple'', ''full''] then m else ''full'')"

definition Connectivity_Validate :: "connectivity_config \<Rightarrow> config_error + connectivity_config" where
  "Connectivity_Validate c =
     (let m = to_lower (trim_space (cn_Method c))
      in if m = [] \<or> m = ''full'' then Inr (c\<lparr>cn_Method := ''full''\<rparr>)
         else if m = ''none'' \<or> m = ''simple'' then Inr c
         else Inl (ConnectivityInvalid (cn_Method c)))"

definition ParseRetention :: "string \<Rightarrow> config_error + duration" where
  "ParseRetention str =
     (let s = trim_space str;
          read = (\<lambda>mult. case atoi (butlast s) of
                    None \<Rightarrow> Inl (RetentionInvalid s)
                  | Some n \<Rightarrow> if n \<le> 0 then Inl (RetentionInvalid s) else Inr (i64 (n * mult)))
      in if s = [] \<or> s = ''0'' then Inr 0
         else if s = ''-1'' then Inr (- 1)
         else if last s = CHR ''s'' then read ns_second
         else if last s = CHR ''m'' then read ns_minute
         else if last s = CHR ''h'' then read ns_hour
         else if last s = CHR ''d'' then read ns_day
         else Inl (RetentionInvalid s))"

definition validateRetentionWithin :: "license_check \<Rightarrow> string \<Rightarrow> config_error option" where
  "validateRetentionWithin allow s =
     (if allow = None then None
      else let t = trim_space s
           in if t = [] then None
              else if has_suffix t ''m''
              then (case atoi (trim_space (trim_suffix t ''m'')) of
                      None \<Rightarrow> Some (WithinInvalid s)
                    | Some n \<Rightarrow> if n \<le> 0 then Some (WithinInvalid s) else None)
              else Some (WithinInvalid s))"

definition MaskPassword :: "string \<Rightarrow> string" where
  "MaskPassword s =
     (if s = [] then []
      else if length s < 6 then ''****''
      else let v = (if length s > 12 then 3 else 2);
               visible = (if v * 2 > length s div 2 then 2 else v)
           in take visible s @ replicate (length s - visible * 2) (CHR ''*'') @ drop (length s - visible) s)"

section \<open>Secrets\<close>

text \<open>
  \<open>ResolveSecret\<close>. \<open>read\<close> gives the content of a file that can be read, \<open>env\<close> the value of
  an environment variable, empty when it is not set. A variable may name another secret,
  so the recursion need not end; \<open>None\<close> then.
\<close>

definition file_secret :: "(string \<Rightarrow> string option) \<Rightarrow> string \<Rightarrow> string" where
  "file_secret read val =
     (let path = drop 7 val
      in if path = [] then val
         else case read path of
                None \<Rightarrow> val
              | Some b \<Rightarrow> if length b > 65536 then val else trim_space b)"

partial_function (option) ResolveSecret ::
  "(string \<Rightarrow> string option) \<Rightarrow> (string \<Rightarrow> string) \<Rightarrow> string \<Rightarrow> string option" where
  "ResolveSecret read env val =
     (if has_prefix val ''file://'' then Some (file_secret read val)
      else if has_prefix val ''env://'' then
        (let key = drop 6 val
         in if key = [] \<or> env key = [] then Some val
            else let v = trim_space (env key)
                 in if has_prefix v ''file://'' \<or> has_prefix v ''env://'' then ResolveSecret read env v
                    else Some v)
      else Some val)"

section \<open>Lemmas\<close>

lemma globMatchAny_self: "p \<in> set ps \<Longrightarrow> globMatchAny ps p"
  by (auto simp: globMatchAny_def list_ex_iff)

text \<open>A variable that names itself sends the resolution round for ever.\<close>

lemma self_reference_diverges:
  assumes "ResolveSecret read env val = Some y"
  shows "\<not> (val = ''env://'' @ key \<and> key \<noteq> [] \<and> trim_space (env key) = ''env://'' @ key)"
proof (rule ResolveSecret.raw_induct [where P = "\<lambda>_ env val _.
    \<not> (val = ''env://'' @ key \<and> key \<noteq> [] \<and> trim_space (env key) = ''env://'' @ key)", OF _ assms])
  fix resolve :: "(string \<Rightarrow> string option) \<Rightarrow> (string \<Rightarrow> string) \<Rightarrow> string \<Rightarrow> string option" and read env val y
  assume hyps: "\<And>r e v y. resolve r e v = Some y \<Longrightarrow>
      \<not> (v = ''env://'' @ key \<and> key \<noteq> [] \<and> trim_space (e key) = ''env://'' @ key)"
    and step: "(if has_prefix val ''file://'' then Some (file_secret read val)
      else if has_prefix val ''env://'' then
        (let key = drop 6 val
         in if key = [] \<or> env key = [] then Some val
            else let v = trim_space (env key)
                 in if has_prefix v ''file://'' \<or> has_prefix v ''env://'' then resolve read env v
                    else Some v)
      else Some val) = Some y"
  show "\<not> (val = ''env://'' @ key \<and> key \<noteq> [] \<and> trim_space (env key) = ''env://'' @ key)"
  proof
    assume self: "val = ''env://'' @ key \<and> key \<noteq> [] \<and> trim_space (env key) = ''env://'' @ key"
    have "trim_space [] = []" by (simp add: trim_space_def)
    with self have "env key \<noteq> []" by auto
    with self step have "resolve read env val = Some y" by (simp add: Let_def)
    with hyps self show False by blast
  qed
qed

text \<open>Plain values, and variables that hold one, are resolved.\<close>

lemma ResolveSecret_plain:
  "\<not> has_prefix val ''file://'' \<Longrightarrow> \<not> has_prefix val ''env://'' \<Longrightarrow> ResolveSecret read env val = Some val"
  by (simp add: ResolveSecret.simps)

section \<open>Properties\<close>

text \<open>
  A table that matches an exclude pattern is never dumped, whatever the include
  patterns say; otherwise a table is dumped when there are no include patterns or one of
  them matches. A name always matches itself, so excluding a table by its name works for
  every name.
\<close>

theorem table_filter_decides:
  "(fst (TableFilter_Apply (Some f) table) \<longleftrightarrow>
      \<not> globMatchAny (tf_Exclude f) table \<and> (tf_Include f = [] \<or> globMatchAny (tf_Include f) table)) \<and>
   (table \<in> set (tf_Exclude f) \<longrightarrow> TableFilter_Apply (Some f) table = (False, False))"
  using globMatchAny_self [of table "tf_Exclude f"] by (auto simp: TableFilter_Apply_def)

theorem table_filter_decides_witness:
  "TableFilter_Apply (Some \<lparr>tf_Include = [''user_*''], tf_Exclude = [''user_[log''],
     tf_SchemaOnly = \<lparr>so_All = False, so_Tables = []\<rparr>\<rparr>) ''user_[log'' = (False, False)"
  using table_filter_decides [of "\<lparr>tf_Include = [''user_*''], tf_Exclude = [''user_[log''],
     tf_SchemaOnly = \<lparr>so_All = False, so_Tables = []\<rparr>\<rparr>" "''user_[log''"] by simp

text \<open>
  A secret that names an environment variable whose value is that same secret is
  never resolved: the function does not return.
\<close>

theorem secret_cycle_never_returns:
  assumes "key \<noteq> []" and "trim_space (env key) = ''env://'' @ key"
  shows "ResolveSecret read env (''env://'' @ key) = None"
proof (cases "ResolveSecret read env (''env://'' @ key)")
  case (Some y)
  from self_reference_diverges [OF Some, of key] assms show ?thesis by simp
qed simp

theorem secret_cycle_never_returns_witness:
  "ResolveSecret (\<lambda>_. None) (\<lambda>_. ''env://DB_PASS'') (''env://'' @ ''DB_PASS'') = None"
  by (rule secret_cycle_never_returns) code_simp+

end
