(* ===== verification/Filename.thy ===== *)
theory Filename
  imports Config Regex "HOL-Library.Monad_Syntax" "HOL-Library.Word"
begin

text \<open>
  Names of backup files: \<open>internal/database/common/filename.go\<close>, the name functions of
  \<open>internal/retention/sidecar.go\<close> and \<open>internal/scheduler/runner/filename.go\<close>, with the
  formats \<open>20060102-150405\<close> and RFC 3339 of the \<open>time\<close> package. The regular expressions
  are those of the source. Names are taken to be ASCII.

  The lemmas show the round trip of time stamps and how a recognised name ends.
\<close>

section \<open>Paths\<close>

definition path_base :: "string \<Rightarrow> string" where
  "path_base p =
     (if p = [] then ''.''
      else let q = rev (dropWhile (\<lambda>c. c = CHR ''/'') (rev p))
           in if q = [] then ''/'' else rev (takeWhile (\<lambda>c. c \<noteq> CHR ''/'') (rev q)))"

definition path_ext :: "string \<Rightarrow> string" where
  "path_ext p =
     (let tail = takeWhile (\<lambda>c. c \<noteq> CHR ''/'') (rev p)
      in if CHR ''.'' \<in> set tail then CHR ''.'' # rev (takeWhile (\<lambda>c. c \<noteq> CHR ''.'') tail) else [])"

section \<open>Time stamps\<close>

definition num2 :: "int \<Rightarrow> string" where
  "num2 n = pad_left 2 (itoa n)"

definition format_date :: "gotime \<Rightarrow> string" where
  "format_date t = pad_left 4 (itoa (year t)) @ num2 (month t) @ num2 (day t)"

definition format_time :: "gotime \<Rightarrow> string" where
  "format_time t = num2 (hour t) @ num2 (minute t) @ num2 (second t)"

definition format_stamp :: "gotime \<Rightarrow> string" where
  "format_stamp t = format_date t @ ''-'' @ format_time t"

text \<open>
  \<open>time.Parse\<close> reads fixed-width numbers, and after the seconds a fraction even where the
  layout has none.
\<close>

definition take_num :: "nat \<Rightarrow> string \<Rightarrow> (int \<times> string) option" where
  "take_num n s =
     (if length s \<ge> n \<and> list_all is_digit (take n s) then Some (digits_val (take n s), drop n s) else None)"

definition take_fraction :: "string \<Rightarrow> int \<times> string" where
  "take_fraction s =
     (case s of
        c # d # _ \<Rightarrow>
          if (c = CHR ''.'' \<or> c = CHR '','') \<and> is_digit d
          then (let ds = takeWhile is_digit (tl s); used = take 9 ds
                in (digits_val used * 10 ^ (9 - length used), drop (Suc (length ds)) s))
          else (0, s)
      | _ \<Rightarrow> (0, s))"

definition valid_fields :: "int \<Rightarrow> int \<Rightarrow> int \<Rightarrow> int \<Rightarrow> int \<Rightarrow> int \<Rightarrow> bool" where
  "valid_fields y mo d h mi s \<longleftrightarrow>
     1 \<le> mo \<and> mo \<le> 12 \<and> 1 \<le> d \<and> d \<le> month_days (is_leap y) mo \<and> h < 24 \<and> mi < 60 \<and> s < 60"

definition parse_stamp :: "string \<Rightarrow> gotime option" where
  "parse_stamp str =
     do {
       (y, r1) \<leftarrow> take_num 4 str;
       (mo, r2) \<leftarrow> take_num 2 r1;
       (d, r3) \<leftarrow> take_num 2 r2;
       r4 \<leftarrow> (case r3 of CHR ''-'' # r \<Rightarrow> Some r | _ \<Rightarrow> None);
       (h, r5) \<leftarrow> take_num 2 r4;
       (mi, r6) \<leftarrow> take_num 2 r5;
       (s, r7) \<leftarrow> take_num 2 r6;
       (case take_fraction r7 of
          (ns, r8) \<Rightarrow> if r8 = [] \<and> valid_fields y mo d h mi s then Some (date y mo d h mi s ns utc) else None)
     }"

definition format_rfc3339 :: "gotime \<Rightarrow> string" where
  "format_rfc3339 t =
     (let off = zone t (unix t);
          zm = go_quot off 60
      in pad_left 4 (itoa (year t)) @ ''-'' @ num2 (month t) @ ''-'' @ num2 (day t) @ ''T'' @
         num2 (hour t) @ '':'' @ num2 (minute t) @ '':'' @ num2 (second t) @
         (if off = 0 then ''Z''
          else (if zm < 0 then ''-'' else ''+'') @ num2 (\<bar>zm\<bar> div 60) @ '':'' @ num2 (\<bar>zm\<bar> mod 60)))"

text \<open>The zone of RFC 3339: \<open>Z\<close> or an offset in hours and minutes.\<close>

definition parse_offset :: "string \<Rightarrow> int option" where
  "parse_offset s =
     (if s = ''Z'' then Some 0
      else case s of
             [sign, h1, h2, c, m1, m2] \<Rightarrow>
               if (sign = CHR ''+'' \<or> sign = CHR ''-'') \<and> c = CHR '':'' \<and> list_all is_digit [h1, h2, m1, m2] \<and>
                 digits_val [h1, h2] \<le> 24 \<and> digits_val [m1, m2] \<le> 60
               then Some ((if sign = CHR ''-'' then - 1 else 1) * (digits_val [h1, h2] * 3600 + digits_val [m1, m2] * 60))
               else None
           | _ \<Rightarrow> None)"

definition lit :: "char \<Rightarrow> string \<Rightarrow> string option" where
  "lit c s = (case s of d # r \<Rightarrow> if d = c then Some r else None | [] \<Rightarrow> None)"

text \<open>
  The instant gets the local zone when that has the same offset then, and a fixed zone
  otherwise.
\<close>

definition parse_rfc3339 :: "location \<Rightarrow> string \<Rightarrow> gotime option" where
  "parse_rfc3339 local str =
     do {
       (y, r1) \<leftarrow> take_num 4 str; r1 \<leftarrow> lit (CHR ''-'') r1;
       (mo, r2) \<leftarrow> take_num 2 r1; r2 \<leftarrow> lit (CHR ''-'') r2;
       (d, r3) \<leftarrow> take_num 2 r2; r3 \<leftarrow> lit (CHR ''T'') r3;
       (h, r4) \<leftarrow> take_num 2 r3; r4 \<leftarrow> lit (CHR '':'') r4;
       (mi, r5) \<leftarrow> take_num 2 r4; r5 \<leftarrow> lit (CHR '':'') r5;
       (s, r6) \<leftarrow> take_num 2 r5;
       (case take_fraction r6 of
          (ns, r7) \<Rightarrow>
            (case parse_offset r7 of
               None \<Rightarrow> None
             | Some off \<Rightarrow>
                 if valid_fields y mo d h mi s
                 then (let t = date y mo d h mi s ns utc; u = nanos t - off * ns_second
                       in Some \<lparr>nanos = u,
                            zone = (if off = 0 then utc
                                    else if local (u div ns_second) = off then local else (\<lambda>_. off))\<rparr>)
                 else None))
     }"

section \<open>Backup file names\<close>

record backup_info =
  bi_Type :: string
  bi_DBName :: string
  bi_Host :: string
  bi_Strategy :: string
  bi_Timestamp :: gotime
  bi_Path :: string
  bi_Size :: int
  bi_Compress :: string
  bi_Encryption :: string

definition rx_lazy :: "nat \<Rightarrow> rx" where
  "rx_lazy n = Grp n [RepLazy rx_any]"

definition rx_tail :: "nat \<Rightarrow> rx list" where
  "rx_tail n =
     [Grp n [Alt [[Lit ''full''], [Lit ''incr''], [Lit ''diff'']]], Lit ''-'',
      Grp (n + 1) [Rep is_digit 8 (Some 8), Lit ''-'', Rep is_digit 6 (Some 6)],
      Opt [Lit ''-'', rx_digits], Lit ''.'',
      Alt [[Lit ''sql''], [Lit ''mongo''], [Lit ''redis''], [Lit ''influx''], [Lit ''couch'']],
      Opt [Grp (n + 2) [Lit ''.'', Grp (n + 3) [Alt [[Lit ''zst''], [Lit ''gz''], [Lit ''bz2''], [Lit ''xz'']]]]],
      Opt [Grp (n + 4) [Lit ''.'', Grp (n + 5) [Alt [[Lit ''age''], [Lit ''enc''], [Lit ''gpg'']]]]], EndText]"

definition backupRe :: "rx list" where
  "backupRe = [BeginText, rx_lazy 1, Lit ''-'', rx_lazy 2, Lit ''-'', rx_lazy 3, Lit ''-''] @ rx_tail 4"

definition rx_ip :: "rx list" where
  "rx_ip = [rx_digits, Lit ''_'', rx_digits, Lit ''_'', rx_digits, Lit ''_'', rx_digits]"

definition backupReIP :: "rx list" where
  "backupReIP = [BeginText, rx_lazy 1, Lit ''-'', rx_lazy 2, Lit ''-'', Grp 3 rx_ip, Lit ''-''] @ rx_tail 4"

definition backupReNoHost :: "rx list" where
  "backupReNoHost = [BeginText, rx_lazy 1, Lit ''-'', rx_lazy 2, Lit ''-''] @ rx_tail 3"

definition backupReTypeOnly :: "rx list" where
  "backupReTypeOnly = [BeginText, rx_lazy 1, Lit ''-''] @ rx_tail 2"

definition extToCompress :: "string \<Rightarrow> string" where
  "extToCompress e =
     (if e = ''.bz2'' then ''bzip2'' else if e = ''.gz'' then ''gzip'' else if e = ''.xz'' then ''xz''
      else if e = ''.zst'' then ''zstd'' else [])"

definition extToEncryption :: "string \<Rightarrow> string" where
  "extToEncryption e =
     (if e = ''.age'' then ''age'' else if e = ''.enc'' then ''openssl'' else if e = ''.gpg'' then ''gpg'' else [])"

definition backup_info_of ::
  "string \<Rightarrow> string \<Rightarrow> string \<Rightarrow> string \<Rightarrow> string \<Rightarrow> string \<Rightarrow> string \<Rightarrow> string \<Rightarrow> backup_info option" where
  "backup_info_of base typeTok dbTok hostTok stratTok tsTok compressTok encTok =
     (case parse_stamp tsTok of
        None \<Rightarrow> None
      | Some ts \<Rightarrow>
          Some \<lparr>bi_Type = typeTok, bi_DBName = dbTok, bi_Host = hostTok,
            bi_Strategy = (if stratTok = ''incr'' then ''incremental'' else if stratTok = ''diff'' then ''differential''
                           else ''full''),
            bi_Timestamp = ts, bi_Path = base, bi_Size = 0,
            bi_Compress = (if compressTok = [] then [] else extToCompress (''.'' @ compressTok)),
            bi_Encryption = extToEncryption encTok\<rparr>)"

definition ParseBackupFilename :: "string \<Rightarrow> backup_info option" where
  "ParseBackupFilename path =
     (let base = path_base path
      in case rx_find backupReIP base of
           Some m \<Rightarrow> backup_info_of base (m_cap 1 m) (m_cap 2 m) (m_cap 3 m) (m_cap 4 m) (m_cap 5 m) (m_cap 7 m) (m_cap 8 m)
         | None \<Rightarrow>
             (case rx_find backupRe base of
                Some m \<Rightarrow> backup_info_of base (m_cap 1 m) (m_cap 2 m) (m_cap 3 m) (m_cap 4 m) (m_cap 5 m) (m_cap 7 m) (m_cap 8 m)
              | None \<Rightarrow>
                  (case rx_find backupReNoHost base of
                     Some m \<Rightarrow> backup_info_of base (m_cap 1 m) (m_cap 2 m) [] (m_cap 3 m) (m_cap 4 m) (m_cap 6 m) (m_cap 7 m)
                   | None \<Rightarrow>
                       (case rx_find backupReTypeOnly base of
                          Some m \<Rightarrow> backup_info_of base (m_cap 1 m) [] [] (m_cap 2 m) (m_cap 3 m) (m_cap 5 m) (m_cap 6 m)
                        | None \<Rightarrow> None))))"

definition IsBackupFile :: "string \<Rightarrow> bool" where
  "IsBackupFile path \<longleftrightarrow> ParseBackupFilename path \<noteq> None"

definition FormatExtension :: "string \<Rightarrow> string" where
  "FormatExtension dbType =
     (let t = to_lower dbType
      in if t \<in> set [''couch'', ''couchdb''] then ''.couch''
         else if t = ''influx'' then ''.influx''
         else if t \<in> set [''mongo'', ''mongodb''] then ''.mongo''
         else if t = ''redis'' then ''.redis''
         else ''.sql'')"

definition FilterBackupsByJob :: "backup_info list \<Rightarrow> string \<Rightarrow> string \<Rightarrow> backup_info list" where
  "FilterBackupsByJob es jobType jobHost =
     filter (\<lambda>e. equal_fold (bi_Type e) jobType \<and> bi_Host e = jobHost) es"

fun latest_loop :: "backup_info list \<Rightarrow> backup_info \<Rightarrow> backup_info" where
  "latest_loop [] l = l"
| "latest_loop (e # es) l = latest_loop es (if after (bi_Timestamp e) (bi_Timestamp l) then e else l)"

definition LatestBackup :: "backup_info list \<Rightarrow> backup_info option" where
  "LatestBackup es = (case es of [] \<Rightarrow> None | e # _ \<Rightarrow> Some (latest_loop es e))"

text \<open>\<open>UniqueBackupName\<close>: a free name with a number before the first dot, or the name itself.\<close>

definition numbered_name :: "string \<Rightarrow> nat \<Rightarrow> string" where
  "numbered_name name n =
     (let idx = length (takeWhile (\<lambda>c. c \<noteq> CHR ''.'') name)
      in if CHR ''.'' \<in> set name \<and> 0 < idx
         then take idx name @ ''-'' @ itoa (int n) @ drop idx name else name)"

definition UniqueBackupName :: "string \<Rightarrow> (string \<Rightarrow> bool) \<Rightarrow> string" where
  "UniqueBackupName name taken =
     (if \<not> taken name then name
      else case find (\<lambda>n. ParseBackupFilename (numbered_name name n) \<noteq> None \<and> \<not> taken (numbered_name name n))
                  [2..<1000] of
             Some n \<Rightarrow> numbered_name name n
           | None \<Rightarrow> name)"

section \<open>Names in the sidecar package\<close>

definition dumpFormatExts :: "string list" where
  "dumpFormatExts = [''.sql'', ''.mongo'', ''.redis'', ''.influx'', ''.couch'']"

definition strip_exts :: "string list \<Rightarrow> string \<Rightarrow> string" where
  "strip_exts exts s = fold (\<lambda>e b. trim_suffix b e) exts s"

definition stripFormatExt :: "string \<Rightarrow> string" where
  "stripFormatExt s = strip_exts dumpFormatExts s"

definition sidecar_base :: "string \<Rightarrow> string list" where
  "sidecar_base filename =
     split_char (CHR ''-'') (stripFormatExt (strip_exts [''.gpg'', ''.zst'', ''.gz'', ''.bz2'', ''.xz''] filename))"

definition ParseTimestamp :: "string \<Rightarrow> gotime option" where
  "ParseTimestamp filename =
     (let parts = sidecar_base filename
      in if length parts \<ge> 2
         then parse_stamp (parts ! (length parts - 2) @ ''-'' @ parts ! (length parts - 1))
         else None)"

definition StrategyFromFilename :: "string \<Rightarrow> string" where
  "StrategyFromFilename filename =
     (let parts = sidecar_base filename
      in if length parts \<ge> 4
         then (let p = parts ! (length parts - 3)
               in if p = ''incr'' then ''incremental'' else if p = ''diff'' then ''differential'' else ''full'')
         else ''full'')"

definition StrategyMatches :: "string \<Rightarrow> string \<Rightarrow> bool" where
  "StrategyMatches filename strategy \<longleftrightarrow> StrategyFromFilename filename = strategy"

definition SidecarName :: "string \<Rightarrow> string" where
  "SidecarName filename = filename @ ''.json''"

definition joinNonEmpty :: "string \<Rightarrow> string list \<Rightarrow> string" where
  "joinNonEmpty sep parts = join sep (filter (\<lambda>p. p \<noteq> []) parts)"

text \<open>The tokens of this package: unlike the runner's they are taken as they are.\<close>

definition sidecar_tokens :: "string \<Rightarrow> string \<Rightarrow> string \<Rightarrow> string \<times> string" where
  "sidecar_tokens dbType dbName host =
     (if equal_fold dbType ''sqlite'' \<or> equal_fold dbType ''sqlite3''
      then (let effective = (if dbName = [] then host else dbName)
            in if effective = [] then ([], [])
               else let b = path_base effective in (trim_suffix b (path_ext b), []))
      else (dbName, host))"

definition BuildFilename :: "string \<Rightarrow> string \<Rightarrow> string \<Rightarrow> string \<Rightarrow> gotime \<Rightarrow> string" where
  "BuildFilename dbType dbName host strategy now =
     (case sidecar_tokens dbType dbName host of
        (dbTok, hostTok) \<Rightarrow>
          joinNonEmpty ''-'' [dbType, dbTok, hostTok, strategy, format_stamp now] @ FormatExtension dbType)"

section \<open>Names in the runner\<close>

text \<open>\<open>strings.NewReplacer\<close>: at each position the first pair that matches is applied.\<close>

function replacer :: "(string \<times> string) list \<Rightarrow> string \<Rightarrow> string" where
  "replacer pairs [] = []"
| "replacer pairs (c # cs) =
     (case find (\<lambda>(old, _). old \<noteq> [] \<and> has_prefix (c # cs) old) pairs of
        Some (old, new) \<Rightarrow> new @ replacer pairs (drop (length old) (c # cs))
      | None \<Rightarrow> c # replacer pairs cs)"
  by pat_completeness auto
termination
  by (relation "measure (\<lambda>(_, s). length s)") (auto simp: find_Some_iff)

definition hostSanitizer :: "string \<Rightarrow> string" where
  "hostSanitizer host = replacer (map (\<lambda>c. ([c], ''_'')) [CHR ''.'', CHR ''/'', CHR 0x5C, CHR '':'', CHR ''@'', CHR '' '', CHR ''-'']) host"

definition hasAllToken :: "string list \<Rightarrow> bool" where
  "hasAllToken include = list_ex (\<lambda>inc. equal_fold (trim_space inc) ''ALL'') include"

definition isSQLiteType :: "string \<Rightarrow> bool" where
  "isSQLiteType dbType \<longleftrightarrow> equal_fold dbType ''sqlite'' \<or> equal_fold dbType ''sqlite3''"

definition sqliteIdentity :: "string \<Rightarrow> string \<Rightarrow> string" where
  "sqliteIdentity dbName host =
     (let effective = (if dbName = [] then host else dbName)
      in if effective = [] then [] else let b = path_base effective in trim_suffix b (path_ext b))"

definition dbToken :: "string \<Rightarrow> string \<Rightarrow> string" where
  "dbToken jobType dbName =
     (if isSQLiteType jobType then let b = path_base dbName in trim_suffix b (path_ext b)
      else if equal_fold dbName ''__globals__'' then ''globals''
      else if hasAllToken (split_char (CHR '','') dbName) then ''all''
      else if dbName \<noteq> [] \<and> \<not> equal_fold dbName ''ALL''
      then replace_char (CHR ''-'') ''_'' (replace_char (CHR '','') ''_'' dbName)
      else dbName)"

definition defaultFilenameTokens :: "string \<Rightarrow> string \<Rightarrow> string \<Rightarrow> string \<times> string" where
  "defaultFilenameTokens jobType jobHost dbName =
     (if isSQLiteType jobType then (sqliteIdentity dbName jobHost, [])
      else (dbToken jobType dbName, hostSanitizer jobHost))"

definition fnv32a :: "string \<Rightarrow> 32 word" where
  "fnv32a s = fold (\<lambda>c h. xor h (word_of_int (of_char c)) * 16777619) s 2166136261"

definition hex_digit :: "int \<Rightarrow> char" where
  "hex_digit n = ''0123456789abcdef'' ! nat n"

fun hex_digits :: "nat \<Rightarrow> int \<Rightarrow> string" where
  "hex_digits 0 n = []"
| "hex_digits (Suc k) n = hex_digits k (n div 16) @ [hex_digit (n mod 16)]"

definition guardToken :: "string \<Rightarrow> string" where
  "guardToken tok =
     (if length tok \<le> 120 then tok else take 96 tok @ ''-'' @ hex_digits 8 (uint (fnv32a tok)))"

definition dbsToken :: "job_config \<Rightarrow> string \<Rightarrow> string" where
  "dbsToken job dbName =
     (let names = (case j_Databases job of
                     Some d \<Rightarrow> if dl_Include d \<noteq> [] then join '','' (dl_Include d) else dbName
                   | None \<Rightarrow> dbName)
      in guardToken (replacer [('','', ''_''), (''/'', ''_''), (''-'', ''_'')] names))"

definition in_utc :: "gotime \<Rightarrow> gotime" where
  "in_utc t = t\<lparr>zone := utc\<rparr>"

definition expandFilename :: "string \<Rightarrow> job_config \<Rightarrow> string \<Rightarrow> string \<Rightarrow> gotime \<Rightarrow> string" where
  "expandFilename tmpl job dbName strat0 now =
     (let strat = (if to_lower strat0 = ''incremental'' then ''incr''
                   else if to_lower strat0 = ''differential'' then ''diff'' else strat0);
          (dbTok, hostTok) = defaultFilenameTokens (j_Type job) (j_Host job) dbName
      in if tmpl = []
         then joinNonEmpty ''-'' [j_Type job, dbTok, hostTok, strat, format_stamp now]
         else replacer
           [(''%type%'', j_Type job), (''%db%'', dbTok), (''%dbs%'', dbsToken job dbName),
            (''%host_raw%'', j_Host job), (''%host%'', hostSanitizer (j_Host job)), (''%job%'', j_Name job),
            (''%date%'', format_date now), (''%time%'', format_time now), (''%timestamp%'', format_stamp now),
            (''%date_utc%'', format_date (in_utc now)), (''%time_utc%'', format_time (in_utc now)),
            (''%timestamp_utc%'', format_stamp (in_utc now)), (''%strategy%'', strat), (''%%'', ''%'')] tmpl)"

section \<open>Lemmas\<close>

lemma digits_val_zeros: "digits_val (replicate k (CHR ''0'') @ s) = digits_val s"
  by (induction k) (simp_all add: digits_val_def digit_val_def)

text \<open>A number printed at a fixed width is read back, whatever follows.\<close>

lemma take_num_pad:
  assumes "0 \<le> n" and "n < 10 ^ w" and "0 < w"
  shows "take_num w (pad_left w (itoa n) @ r) = Some (n, r)"
proof -
  let ?d = "pad_left w (itoa n)"
  have itoa: "itoa n = pos_itoa n" using assms(1) by (simp add: itoa_def)
  have "length ?d = w" using pos_itoa_length [OF assms] by (simp add: pad_left_def itoa)
  moreover have "list_all is_digit ?d"
    using itoa_digits [OF assms(1)] by (auto simp: pad_left_def list_all_iff is_digit_def)
  moreover have "digits_val ?d = n"
    using digits_val_pos_itoa [OF assms(1)] by (simp add: pad_left_def digits_val_zeros itoa)
  ultimately show ?thesis by (simp add: take_num_def)
qed

lemma valid_fields_of: "valid_fields (year t) (month t) (day t) (hour t) (minute t) (second t)"
  unfolding valid_fields_def
  using month_range [of t] day_range [of t] hour_range [of t] minute_range [of t] second_range [of t] by blast

lemma small_fields:
  "0 \<le> month t" "month t < 10 ^ 2" "0 \<le> day t" "day t < 10 ^ 2" "0 \<le> hour t" "hour t < 10 ^ 2"
  "0 \<le> minute t" "minute t < 10 ^ 2" "0 \<le> second t" "second t < 10 ^ 2"
  using month_range [of t] day_range [of t] hour_range [of t] minute_range [of t] second_range [of t]
  by (auto split: if_splits)

lemma parse_format_stamp:
  assumes "0 \<le> year t" and "year t \<le> 9999"
  shows "parse_stamp (format_stamp t) =
    Some (date (year t) (month t) (day t) (hour t) (minute t) (second t) 0 utc)"
proof -
  have y: "take_num 4 (pad_left 4 (itoa (year t)) @ r) = Some (year t, r)" for r
    using assms by (intro take_num_pad) auto
  have n: "take_num 2 (num2 x @ r) = Some (x, r)" if "0 \<le> x" "x < 10 ^ 2" for x r
    unfolding num2_def using that by (intro take_num_pad) auto
  have last: "take_num 2 (num2 (second t)) = Some (second t, [])"
    using n [of "second t" "[]"] small_fields(9,10) [of t] by simp
  show ?thesis
    unfolding parse_stamp_def format_stamp_def format_date_def format_time_def append_assoc
    by (simp add: y n small_fields last take_fraction_def valid_fields_of del: power_numeral)
qed

lemma latest_loop_max:
  "latest_loop es l \<in> insert l (set es) \<and>
   (\<forall>e \<in> insert l (set es). nanos (bi_Timestamp e) \<le> nanos (bi_Timestamp (latest_loop es l)))"
proof (induction es arbitrary: l)
  case (Cons e es)
  show ?case using Cons [of "if after (bi_Timestamp e) (bi_Timestamp l) then e else l"]
    by (auto simp: after_def split: if_splits)
qed simp

section \<open>The last letter of a backup file name\<close>

definition ext_letters :: "char set" where
  "ext_letters = {CHR ''l'', CHR ''o'', CHR ''s'', CHR ''x'', CHR ''h'', CHR ''t'', CHR ''z'', CHR ''2'',
     CHR ''e'', CHR ''c'', CHR ''g''}"

definition ends_in :: "char set \<Rightarrow> rx_pos \<Rightarrow> bool" where
  "ends_in S p \<longleftrightarrow> rx_before p \<noteq> [] \<and> hd (rx_before p) \<in> S"

lemma ends_in_lits:
  assumes "q \<in> set (rx_run (Alt (map (\<lambda>s. [Lit s]) ss)) p)" and "\<And>s. s \<in> set ss \<Longrightarrow> s \<noteq> [] \<and> last s \<in> S"
  shows "ends_in S q"
  using assms
  by (induction ss) (auto simp: ends_in_def advance_def prefix_def hd_append hd_rev split: if_splits)

lemma ends_in_opt:
  assumes "q \<in> set (rx_run (Opt [Grp i [Lit d, Grp j [Alt (map (\<lambda>s. [Lit s]) ss)]]]) p)" and "ends_in S p"
    and "\<And>s. s \<in> set ss \<Longrightarrow> s \<noteq> [] \<and> last s \<in> S"
  shows "ends_in S q"
proof (cases "q = p")
  case False
  then obtain r q' where "q' \<in> set (rx_run (Alt (map (\<lambda>s. [Lit s]) ss)) r)" and "rx_before q = rx_before q'"
    using assms(1) by (auto split: if_splits)
  with ends_in_lits [of q' ss r S] assms(3) show ?thesis by (simp add: ends_in_def)
qed (use assms in simp)

lemma rx_tail_ends:
  assumes "q \<in> set (rx_seq (es @ rx_tail n) p)"
  shows "ends_in ext_letters q \<and> rx_rest q = []"
proof -
  let ?fmt = "[''sql'', ''mongo'', ''redis'', ''influx'', ''couch'']"
  let ?cmp = "[''zst'', ''gz'', ''bz2'', ''xz'']" and ?enc = "[''age'', ''enc'', ''gpg'']"
  let ?A = "\<lambda>ss. Alt (map (\<lambda>s. [Lit s]) ss)"
  let ?O = "\<lambda>i ss. Opt [Grp i [Lit ''.'', Grp (i + 1) [?A ss]]]"
  define pre where "pre = es @ [Grp n [Alt [[Lit ''full''], [Lit ''incr''], [Lit ''diff'']]], Lit ''-'',
      Grp (n + 1) [Rep is_digit 8 (Some 8), Lit ''-'', Rep is_digit 6 (Some 6)],
      Opt [Lit ''-'', rx_digits], Lit ''.'']"
  have "es @ rx_tail n = pre @ [?A ?fmt, ?O (n + 2) ?cmp, ?O (n + 4) ?enc, EndText]"
    by (simp add: rx_tail_def pre_def add.assoc)
  with assms have "q \<in> set (rx_seq (pre @ [?A ?fmt, ?O (n + 2) ?cmp, ?O (n + 4) ?enc, EndText]) p)" by (simp only:)
  then obtain a b c d e where "b \<in> set (rx_run (?A ?fmt) a)" and "c \<in> set (rx_run (?O (n + 2) ?cmp) b)"
    and "d \<in> set (rx_run (?O (n + 4) ?enc) c)" and "e \<in> set (rx_run EndText d)" and "q \<in> set (rx_seq [] e)"
    unfolding rx_seq_append rx_seq_Cons by (elim bexE) (rule that)
  then have run: "b \<in> set (rx_run (?A ?fmt) a)" "c \<in> set (rx_run (?O (n + 2) ?cmp) b)"
    "d \<in> set (rx_run (?O (n + 4) ?enc) c)" and q: "q = d" "rx_rest d = []"
    by (simp_all only: rx_seq.simps rx_run.simps(7)) (simp_all split: if_splits)
  have "ends_in ext_letters b"
    by (rule ends_in_lits [OF run(1)]) (auto simp: ext_letters_def)
  then have "ends_in ext_letters c"
    by (rule ends_in_opt [OF run(2)]) (auto simp: ext_letters_def)
  then have "ends_in ext_letters d"
    by (rule ends_in_opt [OF run(3)]) (auto simp: ext_letters_def)
  with q show ?thesis by simp
qed

lemma rx_find_tail:
  assumes "rx_find (es @ rx_tail n) s = Some m"
  shows "s \<noteq> [] \<and> last s \<in> ext_letters"
proof -
  obtain b r q where s: "rev b @ r = s"
    and q: "q \<in> set (rx_seq (es @ rx_tail n) \<lparr>rx_before = b, rx_rest = r, rx_caps = []\<rparr>)"
    using rx_find_run [OF assms] .
  have "s = rev (rx_before q)"
    using rx_reaches(2) [OF q] rx_tail_ends [OF q] s by (auto simp: reaches_def)
  with rx_tail_ends [OF q] show ?thesis by (simp add: ends_in_def last_rev)
qed

lemma IsBackupFile_last:
  assumes "IsBackupFile p"
  shows "last (path_base p) \<in> ext_letters"
proof -
  let ?b = "path_base p"
  have "rx_find backupReIP ?b \<noteq> None \<or> rx_find backupRe ?b \<noteq> None \<or> rx_find backupReNoHost ?b \<noteq> None \<or>
      rx_find backupReTypeOnly ?b \<noteq> None"
    using assms unfolding IsBackupFile_def ParseBackupFilename_def Let_def by (auto split: option.splits)
  then show ?thesis
    unfolding backupReIP_def backupRe_def backupReNoHost_def backupReTypeOnly_def
    by (elim disjE exE not_None_eq [THEN iffD1, elim_format]) (drule rx_find_tail, simp)+
qed

lemma path_base_last:
  assumes "p \<noteq> []" and "last p \<noteq> CHR ''/''"
  shows "last (path_base p) = last p"
proof -
  obtain q c where "p = q @ [c]" using assms(1) by (cases p rule: rev_cases) auto
  with assms(2) show ?thesis by (simp add: path_base_def)
qed
section \<open>Properties\<close>

text \<open>
  The time stamp in a file name is read back: for years of four digits, parsing the
  stamp of an instant gives the instant with the same calendar and clock fields in UTC.
\<close>

theorem stamp_roundtrip:
  assumes "0 \<le> year t" and "year t \<le> 9999"
  shows "parse_stamp (format_stamp t) =
    Some (date (year t) (month t) (day t) (hour t) (minute t) (second t) 0 utc)"
  using assms by (rule parse_format_stamp)

theorem stamp_roundtrip_witness:
  "parse_stamp (format_stamp \<lparr>nanos = 0, zone = utc\<rparr>) =
     Some (date (year \<lparr>nanos = 0, zone = utc\<rparr>) (month \<lparr>nanos = 0, zone = utc\<rparr>) (day \<lparr>nanos = 0, zone = utc\<rparr>)
       (hour \<lparr>nanos = 0, zone = utc\<rparr>) (minute \<lparr>nanos = 0, zone = utc\<rparr>) (second \<lparr>nanos = 0, zone = utc\<rparr>) 0 utc)"
  by (rule stamp_roundtrip) code_simp+

text \<open>
  The name chosen for a new backup is free, unless the wanted name and every numbered
  variant of it that is a backup name are taken; only then is a taken name returned, and
  the upload would replace that backup.
\<close>

lemma unique_name_cases:
  "\<not> taken (UniqueBackupName name taken) \<or>
   (taken name \<and> (\<forall>n \<in> {2..<1000}. IsBackupFile (numbered_name name n) \<longrightarrow> taken (numbered_name name n)))"
proof (cases "find (\<lambda>n. ParseBackupFilename (numbered_name name n) \<noteq> None \<and> \<not> taken (numbered_name name n)) [2..<1000]")
  case None
  then have "\<forall>n \<in> {2..<1000}. IsBackupFile (numbered_name name n) \<longrightarrow> taken (numbered_name name n)"
    unfolding find_None_iff IsBackupFile_def set_upt by (intro ballI impI) (erule contrapos_np, blast)
  then show ?thesis unfolding UniqueBackupName_def None option.case by (cases "taken name") simp_all
next
  case (Some n)
  from find_SomeD [OF Some] have "\<not> taken (numbered_name name n)" by blast
  then show ?thesis unfolding UniqueBackupName_def Some option.case by (cases "taken name") simp_all
qed

text \<open>
  The latest backup of a list is a member of it, and none of the list has a later
  time stamp.
\<close>

theorem latest_is_latest:
  assumes "LatestBackup es = Some b"
  shows "b \<in> set es \<and> (\<forall>e \<in> set es. \<not> after (bi_Timestamp e) (bi_Timestamp b))"
proof (cases es)
  case (Cons e es')
  with assms have b: "b = latest_loop es e" by (simp add: LatestBackup_def)
  show ?thesis using latest_loop_max [of es e] Cons unfolding b after_def by (auto simp: not_less)
qed (use assms in \<open>simp add: LatestBackup_def\<close>)

definition named_at :: "int \<Rightarrow> backup_info" where
  "named_at n = \<lparr>bi_Type = ''mysql'', bi_DBName = ''app'', bi_Host = ''db1'', bi_Strategy = ''full'',
     bi_Timestamp = \<lparr>nanos = n, zone = utc\<rparr>, bi_Path = ''x'', bi_Size = 0, bi_Compress = [], bi_Encryption = []\<rparr>"

theorem latest_is_latest_witness:
  "LatestBackup [named_at 3, named_at 7, named_at 5] = Some (named_at 7) \<and>
   \<not> after (bi_Timestamp (named_at 5)) (bi_Timestamp (named_at 7))"
proof -
  have run: "LatestBackup [named_at 3, named_at 7, named_at 5] = Some (named_at 7)"
    by (simp add: LatestBackup_def named_at_def after_def)
  from latest_is_latest [OF run] run show ?thesis by simp
qed

text \<open>
  The sidecar package reads no time stamp from the name of an encrypted backup or of
  one with a collision number, although both are recognised as backups: without a sidecar
  they count as infinitely old.
\<close>

theorem sidecar_timestamp_gaps:
  "IsBackupFile ''mysql-app-db1-full-20240131-235959.sql.zst.age'' \<and>
   ParseTimestamp ''mysql-app-db1-full-20240131-235959.sql.zst.age'' = None \<and>
   IsBackupFile ''mysql-app-db1-full-20240131-235959-2.sql.zst'' \<and>
   ParseTimestamp ''mysql-app-db1-full-20240131-235959-2.sql.zst'' = None \<and>
   ParseTimestamp ''mysql-app-db1-full-20240131-235959.sql.zst'' \<noteq> None"
  by code_simp

end
