(* ===== verification/Storage.thy ===== *)
theory Storage
  imports Prelude "HOL-Library.List_Lexorder" "HOL-Library.Char_ord"
begin

text \<open>
  Storage backends: the interface \<open>storage.Storage\<close>, its filesystem implementation, the
  registry of backends and the parser of file modes (\<open>internal/storage/storage.go\<close>).

  The filesystem is a list of files by their path, a list of names from the root, with
  content and modification time in nanoseconds, and the directories that exist.
  \<open>filepath.WalkDir\<close> visits it in the order of the paths compared name by name. The
  owner and the permissions that \<open>Upload\<close> sets are not part of the state, nor is the
  temporary file, which is gone when \<open>Upload\<close> returns; \<open>now\<close> is the time of the write.
  The content of a file is bytes, or the JSON text of a value together with its length;
  the type of these values is a parameter. A reader delivers content or fails.

  The locale \<open>storage\<close> is what the rest of the program relies on: the laws of upload,
  download, delete and list on the content seen through a handle. Its interpretation
  \<open>fs\<close> proves them for the filesystem. Failed uploads leave all files as they were.
\<close>

section \<open>Paths\<close>

type_synonym path = "string list"

text \<open>\<open>filepath.Clean\<close> on the names of an absolute path.\<close>

fun clean_onto :: "path \<Rightarrow> string list \<Rightarrow> path" where
  "clean_onto done [] = rev done"
| "clean_onto done (x # xs) =
     (if x = [] \<or> x = ''.'' then clean_onto done xs
      else if x = ''..'' then clean_onto (tl done) xs
      else clean_onto (x # done) xs)"

definition path_join :: "path \<Rightarrow> string \<Rightarrow> path" where
  "path_join base p = clean_onto (rev base) (split_char (CHR ''/'') p)"

fun rel_path :: "path \<Rightarrow> path \<Rightarrow> string list" where
  "rel_path (b # bs) (x # xs) = (if b = x then rel_path bs xs else map (\<lambda>_. ''..'') (b # bs) @ x # xs)"
| "rel_path [] xs = xs"
| "rel_path bs [] = map (\<lambda>_. ''..'') bs"

definition filepath_Rel :: "path \<Rightarrow> path \<Rightarrow> string" where
  "filepath_Rel base full = (let r = rel_path base full in if r = [] then ''.'' else join ''/'' r)"

section \<open>The filesystem\<close>

datatype 'j content = Bytes string | Json 'j nat

fun content_size :: "'j content \<Rightarrow> int" where
  "content_size (Bytes s) = int (length s)"
| "content_size (Json _ n) = int n"

datatype 'j reader = Data "'j content" | ReadFails

record 'j stored_file =
  f_data :: "'j content"
  f_mtime :: int

record 'j fs =
  fs_files :: "(path \<times> 'j stored_file) list"
  fs_dirs :: "path list"

record entry =
  e_Path :: string
  e_Size :: int
  e_ModTime :: int

datatype storage_error =
    NotExist | NotDir | IsDirectory | NotEmpty | NoData | ReadError | Cancelled
  | UnsupportedBackend string

definition file_at :: "'j fs \<Rightarrow> path \<Rightarrow> 'j stored_file option" where
  "file_at s q = map_of (fs_files s) q"

definition is_dir :: "'j fs \<Rightarrow> path \<Rightarrow> bool" where
  "is_dir s q \<longleftrightarrow> q = [] \<or> q \<in> set (fs_dirs s)"

definition below_file :: "'j fs \<Rightarrow> path \<Rightarrow> bool" where
  "below_file s q \<longleftrightarrow> list_ex (\<lambda>p. p \<noteq> q \<and> file_at s p \<noteq> None) (prefixes q)"

definition MkdirAll :: "'j fs \<Rightarrow> path \<Rightarrow> storage_error + 'j fs" where
  "MkdirAll s d =
     (if list_ex (\<lambda>p. file_at s p \<noteq> None) (prefixes d) then Inl NotDir
      else Inr (s\<lparr>fs_dirs := filter (\<lambda>p. p \<noteq> [] \<and> p \<notin> set (fs_dirs s)) (prefixes d) @ fs_dirs s\<rparr>))"

definition file_entry :: "path \<Rightarrow> path \<Rightarrow> 'j stored_file \<Rightarrow> entry" where
  "file_entry base q f = \<lparr>e_Path = filepath_Rel base q, e_Size = content_size (f_data f), e_ModTime = f_mtime f\<rparr>"

text \<open>The files at and below a directory in the order of \<open>WalkDir\<close>.\<close>

definition walk :: "'j fs \<Rightarrow> path \<Rightarrow> (path \<times> 'j stored_file) list" where
  "walk s root = sort_key fst (filter (\<lambda>(q, _). prefix root q) (fs_files s))"

definition fs_Delete :: "path \<Rightarrow> 'j fs \<Rightarrow> bool \<Rightarrow> string \<Rightarrow> 'j fs \<times> storage_error option" where
  "fs_Delete base s cancelled p =
     (if cancelled then (s, Some Cancelled)
      else let q = path_join base p
           in if file_at s q \<noteq> None then (s\<lparr>fs_files := filter (\<lambda>(r, _). r \<noteq> q) (fs_files s)\<rparr>, None)
              else if is_dir s q
              then (if list_ex (\<lambda>(r, _). prefix q r) (fs_files s) \<or> list_ex (strict_prefix q) (fs_dirs s)
                    then (s, Some NotEmpty)
                    else (s\<lparr>fs_dirs := removeAll q (fs_dirs s)\<rparr>, None))
              else (s, Some (if below_file s q then NotDir else NotExist)))"

definition fs_Download :: "path \<Rightarrow> 'j fs \<Rightarrow> bool \<Rightarrow> string \<Rightarrow> storage_error + 'j reader" where
  "fs_Download base s cancelled p =
     (if cancelled then Inl Cancelled
      else let q = path_join base p
           in case file_at s q of
                Some f \<Rightarrow> Inr (Data (f_data f))
              | None \<Rightarrow>
                  if is_dir s q then Inr ReadFails
                  else Inl (if below_file s q then NotDir else NotExist))"

definition fs_List :: "path \<Rightarrow> 'j fs \<Rightarrow> bool \<Rightarrow> string \<Rightarrow> storage_error + entry list" where
  "fs_List base s cancelled pre =
     (if cancelled then Inl Cancelled
      else let q = path_join base pre
           in case (if pre \<noteq> [] \<and> \<not> has_suffix pre ''/'' then file_at s q else None) of
                Some f \<Rightarrow> Inr [file_entry base q f]
              | None \<Rightarrow>
                  (case file_at s q of
                     Some f \<Rightarrow> Inr [file_entry base q f]
                   | None \<Rightarrow>
                       if is_dir s q then Inr (map (\<lambda>(r, f). file_entry base r f) (walk s q))
                       else if below_file s q then Inl NotDir
                       else if pre = [] then Inr []
                       else Inr (filter (\<lambda>e. has_prefix (e_Path e) pre)
                              (map (\<lambda>(r, f). file_entry base r f) (walk s base)))))"

definition fs_Upload ::
  "path \<Rightarrow> 'j fs \<Rightarrow> bool \<Rightarrow> int \<Rightarrow> string \<Rightarrow> 'j reader \<Rightarrow> 'j fs \<times> (storage_error + int)" where
  "fs_Upload base s cancelled now p r =
     (if cancelled then (s, Inl Cancelled)
      else let q = path_join base p
           in case MkdirAll s (butlast q) of
                Inl err \<Rightarrow> (s, Inl err)
              | Inr s1 \<Rightarrow>
                  (case r of
                     ReadFails \<Rightarrow> (s1, Inl ReadError)
                   | Data c \<Rightarrow>
                       if content_size c = 0 then (s1, Inl NoData)
                       else if is_dir s1 q then (s1, Inl IsDirectory)
                       else (s1\<lparr>fs_files := (q, \<lparr>f_data = c, f_mtime = now\<rparr>) #
                               filter (\<lambda>(x, _). x \<noteq> q) (fs_files s1)\<rparr>, Inr (content_size c))))"

section \<open>Registry\<close>

text \<open>The backends by name; \<open>None\<close> is the panic of a registration without a name or twice.\<close>

type_synonym 'b registry = "(string \<times> 'b) list"

definition RegisterBackend :: "'b registry \<Rightarrow> string \<Rightarrow> 'b \<Rightarrow> 'b registry option" where
  "RegisterBackend reg name spec =
     (if name = [] then None
      else if map_of reg name \<noteq> None then None
      else Some ((name, spec) # reg))"

definition LookupBackend :: "'b registry \<Rightarrow> string \<Rightarrow> 'b option" where
  "LookupBackend reg name = (if name = [] then None else map_of reg name)"

definition Backends :: "'b registry \<Rightarrow> string list" where
  "Backends reg = sort (map fst reg)"

definition storage_New :: "(('o \<Rightarrow> storage_error + 'h)) registry \<Rightarrow> string \<Rightarrow> 'o \<Rightarrow> storage_error + 'h" where
  "storage_New reg backend opts =
     (case LookupBackend reg backend of
        None \<Rightarrow> Inl (UnsupportedBackend backend)
      | Some new \<Rightarrow> new opts)"

section \<open>File modes\<close>

definition isOctal :: "string \<Rightarrow> bool" where
  "isOctal s \<longleftrightarrow> list_all (\<lambda>c. CHR ''0'' \<le> c \<and> c \<le> CHR ''7'') s"

definition octal_val :: "string \<Rightarrow> nat" where
  "octal_val s = fold (\<lambda>c n. n * 8 + (of_char c - 48)) s 0"

text \<open>One place of a mode in the form \<open>rwxr-x---\<close>.\<close>

definition mode_place :: "char \<Rightarrow> char \<Rightarrow> nat \<Rightarrow> nat option" where
  "mode_place want c b =
     (if c = want then Some b else if c \<in> set ''-st'' then Some 0 else None)"

fun mode_places :: "string \<Rightarrow> char list \<Rightarrow> nat list \<Rightarrow> nat option" where
  "mode_places (c # cs) (w # ws) (b # bs) =
     (case mode_place w c b of
        None \<Rightarrow> None
      | Some v \<Rightarrow> (case mode_places cs ws bs of None \<Rightarrow> None | Some m \<Rightarrow> Some (v + m)))"
| "mode_places _ _ _ = Some 0"

definition perm_bit :: "char \<Rightarrow> nat option" where
  "perm_bit c = (if c = CHR ''r'' then Some 4 else if c = CHR ''w'' then Some 2
                 else if c = CHR ''x'' then Some 1 else None)"

fun perm_bits :: "string \<Rightarrow> nat \<Rightarrow> nat option" where
  "perm_bits [] m = Some m"
| "perm_bits (c # cs) m = (case perm_bit c of None \<Rightarrow> None | Some b \<Rightarrow> perm_bits cs (or m b))"

definition apply_op :: "char \<Rightarrow> nat \<Rightarrow> nat \<Rightarrow> nat" where
  "apply_op op perm d =
     (if op = CHR ''='' then perm else if op = CHR ''+'' then or d perm else d - and d perm)"

definition mode_class :: "char \<Rightarrow> nat option" where
  "mode_class c = (if c = CHR ''u'' then Some 0 else if c = CHR ''g'' then Some 1
                   else if c = CHR ''o'' then Some 2 else None)"

fun apply_classes :: "string \<Rightarrow> char \<Rightarrow> nat \<Rightarrow> nat list \<Rightarrow> nat list option" where
  "apply_classes [] op perm ds = Some ds"
| "apply_classes (w # ws) op perm ds =
     (case mode_class w of
        None \<Rightarrow> None
      | Some c \<Rightarrow> apply_classes ws op perm (ds[c := apply_op op perm (ds ! c)]))"

definition mode_clause :: "string \<Rightarrow> nat list \<Rightarrow> nat list option" where
  "mode_clause clause ds =
     (let who = takeWhile (\<lambda>c. c \<notin> set ''=+-'') clause
      in case drop (length who) clause of
           [] \<Rightarrow> None
         | op # perms \<Rightarrow>
             if who = [] \<or> (perms = [] \<and> op \<noteq> CHR ''='') then None
             else (case perm_bits perms 0 of
                     None \<Rightarrow> None
                   | Some perm \<Rightarrow>
                       if CHR ''a'' \<in> set who then Some (map (apply_op op perm) ds)
                       else apply_classes who op perm ds))"

fun mode_clauses :: "string list \<Rightarrow> nat list \<Rightarrow> nat list option" where
  "mode_clauses [] ds = Some ds"
| "mode_clauses (cl # cls) ds =
     (let clause = trim_space cl
      in if clause = [] then mode_clauses cls ds
         else case mode_clause clause ds of None \<Rightarrow> None | Some ds' \<Rightarrow> mode_clauses cls ds')"

definition parseSymbolicMode :: "string \<Rightarrow> nat option" where
  "parseSymbolicMode s =
     (if length s = 9
      then mode_places s ''rwxrwxrwx'' [256, 128, 64, 32, 16, 8, 4, 2, 1]
      else case mode_clauses (split_char (CHR '','') s) [0, 0, 0] of
             Some [u, g, x] \<Rightarrow> Some (u * 64 + g * 8 + x)
           | _ \<Rightarrow> None)"

definition parseModeString :: "string \<Rightarrow> nat option" where
  "parseModeString str =
     (let s = trim_space str
      in if s = [] then Some 0
         else if isOctal s then (let m = octal_val s in if m < 2 ^ 31 then Some m else None)
         else parseSymbolicMode s)"

definition ParseMode :: "string \<Rightarrow> nat" where
  "ParseMode s = (case parseModeString s of None \<Rightarrow> 0 | Some m \<Rightarrow> m)"

section \<open>The interface\<close>

locale storage =
  fixes upload :: "'h \<Rightarrow> 's \<Rightarrow> bool \<Rightarrow> int \<Rightarrow> string \<Rightarrow> 'j reader \<Rightarrow> 's \<times> (storage_error + int)"
    and download :: "'h \<Rightarrow> 's \<Rightarrow> bool \<Rightarrow> string \<Rightarrow> storage_error + 'j reader"
    and list_entries :: "'h \<Rightarrow> 's \<Rightarrow> bool \<Rightarrow> string \<Rightarrow> storage_error + entry list"
    and remove :: "'h \<Rightarrow> 's \<Rightarrow> bool \<Rightarrow> string \<Rightarrow> 's \<times> storage_error option"
    and contents :: "'h \<Rightarrow> 's \<Rightarrow> string \<Rightarrow> 'j content option"
    and inv :: "'h \<Rightarrow> 's \<Rightarrow> bool"
    and apart :: "'h \<Rightarrow> 'h \<Rightarrow> bool"
    and ok_name :: "string \<Rightarrow> bool"
  assumes upload_ok: "inv h s \<Longrightarrow> ok_name p \<Longrightarrow> upload h s cancelled now p r = (s', Inr n) \<Longrightarrow>
      inv h s' \<and> (\<exists>d. r = Data d \<and> contents h s' = (contents h s)(p \<mapsto> d))"
    and upload_err: "inv h s \<Longrightarrow> ok_name p \<Longrightarrow> upload h s cancelled now p r = (s', Inl e) \<Longrightarrow>
      inv h s' \<and> contents h s' = contents h s"
    and upload_apart: "inv h s \<Longrightarrow> inv g s \<Longrightarrow> apart h g \<Longrightarrow> ok_name p \<Longrightarrow>
      upload h s cancelled now p r = (s', x) \<Longrightarrow> inv g s' \<and> contents g s' = contents g s"
    and download_ok: "inv h s \<Longrightarrow> ok_name p \<Longrightarrow>
      download h s False p = Inr (Data d) \<longleftrightarrow> contents h s p = Some d"
    and remove_ok: "inv h s \<Longrightarrow> ok_name p \<Longrightarrow> remove h s cancelled p = (s', None) \<Longrightarrow>
      inv h s' \<and> contents h s' = (contents h s)(p := None)"
    and remove_err: "remove h s cancelled p = (s', Some e) \<Longrightarrow> s' = s"
    and remove_present: "inv h s \<Longrightarrow> ok_name p \<Longrightarrow> contents h s p \<noteq> None \<Longrightarrow>
      snd (remove h s False p) = None"
    and remove_apart: "inv h s \<Longrightarrow> inv g s \<Longrightarrow> apart h g \<Longrightarrow> ok_name p \<Longrightarrow>
      remove h s cancelled p = (s', e') \<Longrightarrow> inv g s' \<and> contents g s' = contents g s"
    and list_ok: "inv h s \<Longrightarrow> list_entries h s False [] = Inr es \<Longrightarrow>
      distinct (map e_Path es) \<and> e_Path ` set es = dom (contents h s)"
    and contents_ok: "contents h s p \<noteq> None \<Longrightarrow> ok_name p"
    and apart_sym: "apart h g \<Longrightarrow> apart g h"
begin

lemma upload_contents:
  assumes "inv h s" and "ok_name p" and "upload h s cancelled now p r = (s', x)"
  shows "inv h s'" and "contents h s' q = contents h s q \<or> q = p"
proof -
  have "inv h s' \<and> (contents h s' q = contents h s q \<or> q = p)"
  proof (cases x)
    case (Inl e)
    with upload_err [OF assms(1,2)] assms(3) show ?thesis by simp
  next
    case (Inr n)
    with upload_ok [OF assms(1,2)] assms(3) show ?thesis by fastforce
  qed
  then show "inv h s'" "contents h s' q = contents h s q \<or> q = p" by blast+
qed

lemma remove_contents:
  assumes "inv h s" and "ok_name p" and "remove h s cancelled p = (s', x)"
  shows "inv h s'" and "contents h s' q = contents h s q \<or> q = p \<and> contents h s' q = None"
proof -
  have "inv h s' \<and> (contents h s' q = contents h s q \<or> q = p \<and> contents h s' q = None)"
  proof (cases x)
    case None
    with remove_ok [OF assms(1,2)] assms(3) show ?thesis by simp
  next
    case (Some e)
    with remove_err assms(1,3) show ?thesis by blast
  qed
  then show "inv h s'" "contents h s' q = contents h s q \<or> q = p \<and> contents h s' q = None" by blast+
qed

end

section \<open>The filesystem satisfies the interface\<close>

definition ok_comp :: "string \<Rightarrow> bool" where
  "ok_comp x \<longleftrightarrow> x \<noteq> [] \<and> x \<noteq> ''.'' \<and> x \<noteq> ''..'' \<and> CHR ''/'' \<notin> set x"

definition comps :: "string \<Rightarrow> path" where
  "comps p = split_char (CHR ''/'') p"

definition fs_name :: "string \<Rightarrow> bool" where
  "fs_name p \<longleftrightarrow> list_all ok_comp (comps p)"

definition wf_fs :: "'j fs \<Rightarrow> bool" where
  "wf_fs s \<longleftrightarrow> distinct (map fst (fs_files s)) \<and>
     (\<forall>q \<in> fst ` set (fs_files s). q \<noteq> [] \<and> list_all ok_comp q \<and> q \<notin> set (fs_dirs s) \<and>
        (\<forall>d. strict_prefix d q \<longrightarrow> is_dir s d \<and> file_at s d = None))"

definition fs_inv :: "path \<Rightarrow> 'j fs \<Rightarrow> bool" where
  "fs_inv base s \<longleftrightarrow> wf_fs s \<and> list_all ok_comp base \<and> file_at s base = None"

definition fs_contents :: "path \<Rightarrow> 'j fs \<Rightarrow> string \<Rightarrow> 'j content option" where
  "fs_contents base s p = (if fs_name p then map_option f_data (file_at s (base @ comps p)) else None)"

definition fs_apart :: "path \<Rightarrow> path \<Rightarrow> bool" where
  "fs_apart b c \<longleftrightarrow> \<not> prefix b c \<and> \<not> prefix c b"

lemma clean_onto_ok: "list_all ok_comp xs \<Longrightarrow> clean_onto done xs = rev done @ xs"
  by (induction xs arbitrary: "done") (auto simp: ok_comp_def)

lemma path_join_ok: "fs_name p \<Longrightarrow> path_join base p = base @ comps p"
  by (simp add: path_join_def fs_name_def comps_def clean_onto_ok)

lemma path_join_empty: "list_all ok_comp base \<Longrightarrow> path_join base [] = base"
  by (simp add: path_join_def)

lemma comps_nonempty [simp]: "comps p \<noteq> []"
  by (simp add: comps_def)

lemma join_comps: "join ''/'' (comps p) = p"
  by (simp add: comps_def join_split_char)

lemma comps_join: "xs \<noteq> [] \<Longrightarrow> list_all ok_comp xs \<Longrightarrow> comps (join ''/'' xs) = xs"
  unfolding comps_def by (rule split_char_join) (auto simp: list_all_iff ok_comp_def)

lemma comps_inject: "comps p = comps q \<longleftrightarrow> p = q"
  using join_comps by metis

lemma rel_path_below: "rel_path base (base @ xs) = xs"
  by (induction base) auto

lemma Rel_below: "xs \<noteq> [] \<Longrightarrow> filepath_Rel base (base @ xs) = join ''/'' xs"
  by (simp add: filepath_Rel_def rel_path_below)

lemma map_of_filter_key: "map_of (filter (\<lambda>(r, _). P r) xs) q = (if P q then map_of xs q else None)"
  by (induction xs) auto

lemma file_at_files: "file_at s q \<noteq> None \<longleftrightarrow> q \<in> fst ` set (fs_files s)"
  by (simp add: file_at_def map_of_eq_None_iff)

lemma wf_fsD:
  assumes "wf_fs s" and "file_at s q \<noteq> None"
  shows "q \<noteq> []" "list_all ok_comp q" "q \<notin> set (fs_dirs s)" "strict_prefix d q \<Longrightarrow> is_dir s d"
    "strict_prefix d q \<Longrightarrow> file_at s d = None" "\<not> is_dir s q"
  using assms unfolding wf_fs_def file_at_files is_dir_def by blast+

lemma wf_fsI:
  assumes "distinct (map fst (fs_files s))"
    and "\<And>q. file_at s q \<noteq> None \<Longrightarrow> q \<noteq> [] \<and> list_all ok_comp q \<and> q \<notin> set (fs_dirs s) \<and>
      (\<forall>d. strict_prefix d q \<longrightarrow> is_dir s d \<and> file_at s d = None)"
  shows "wf_fs s"
  using assms unfolding wf_fs_def file_at_files by blast

text \<open>The effect of the three operations on the files.\<close>

lemma delete_file_at:
  assumes "wf_fs s"
  shows "fs_Delete base s cancelled p = (s', None) \<Longrightarrow>
      file_at s' = (file_at s)(path_join base p := None) \<and> wf_fs s'"
    and "fs_Delete base s cancelled p = (s', Some e) \<Longrightarrow> s' = s"
proof -
  let ?q = "path_join base p"
  assume del: "fs_Delete base s cancelled p = (s', None)"
  show "file_at s' = (file_at s)(?q := None) \<and> wf_fs s'"
  proof (cases "file_at s ?q = None")
    case False
    with del have s': "s' = s\<lparr>fs_files := filter (\<lambda>(r, _). r \<noteq> ?q) (fs_files s)\<rparr>"
      by (auto simp: fs_Delete_def Let_def split: if_splits)
    then have at: "file_at s' = (file_at s)(?q := None)"
      by (intro ext) (simp add: file_at_def map_of_filter_key)
    have "is_dir s' d = is_dir s d" for d by (simp add: s' is_dir_def)
    moreover have "distinct (map fst (fs_files s'))"
      using assms by (simp add: s' wf_fs_def distinct_map_filter)
    moreover have "fs_dirs s' = fs_dirs s" by (simp add: s')
    ultimately have "wf_fs s'"
      using wf_fsD [OF assms] by (intro wf_fsI) (auto simp: at split: if_splits)
    with at show ?thesis by blast
  next
    case True
    with del have s': "s' = s\<lparr>fs_dirs := removeAll ?q (fs_dirs s)\<rparr>"
      and empty: "\<not> list_ex (\<lambda>(r, _). prefix ?q r) (fs_files s)" "is_dir s ?q"
      by (auto simp: fs_Delete_def Let_def split: if_splits)
    have at: "file_at s' = file_at s" by (intro ext) (simp add: s' file_at_def)
    have keep: "is_dir s' d" if "is_dir s d" "strict_prefix d q" "file_at s q \<noteq> None" for d q
    proof -
      have "q \<in> fst ` set (fs_files s)" using that(3) by (simp only: file_at_files)
      with empty(1) that(2) have "d \<noteq> ?q" by (auto simp: list_ex_iff dest: prefix_order.less_imp_le)
      with that(1) show ?thesis by (simp add: s' is_dir_def)
    qed
    have "distinct (map fst (fs_files s'))" using assms by (simp add: s' wf_fs_def)
    moreover have "set (fs_dirs s') \<subseteq> set (fs_dirs s)" by (auto simp: s')
    moreover have "q \<noteq> [] \<and> list_all ok_comp q \<and> q \<notin> set (fs_dirs s') \<and>
        (\<forall>d. strict_prefix d q \<longrightarrow> is_dir s' d \<and> file_at s' d = None)" if "file_at s' q \<noteq> None" for q
      using wf_fsD [OF assms, of q] keep [of _ q] that calculation(2) unfolding at by blast
    ultimately have "wf_fs s'" by (intro wf_fsI)
    with at True show ?thesis by (simp add: fun_upd_idem)
  qed
next
  assume "fs_Delete base s cancelled p = (s', Some e)"
  then show "s' = s" by (auto simp: fs_Delete_def Let_def split: if_splits)
qed

lemma MkdirAll_ok:
  assumes "MkdirAll s d = Inr s1"
  shows "file_at s1 = file_at s" "fs_files s1 = fs_files s"
    "\<And>x. is_dir s1 x \<longleftrightarrow> is_dir s x \<or> prefix x d" "\<And>x. prefix x d \<Longrightarrow> file_at s x = None"
proof -
  from assms have s1: "s1 = s\<lparr>fs_dirs := filter (\<lambda>p. p \<noteq> [] \<and> p \<notin> set (fs_dirs s)) (prefixes d) @ fs_dirs s\<rparr>"
    and none: "\<not> list_ex (\<lambda>p. file_at s p \<noteq> None) (prefixes d)"
    by (auto simp: MkdirAll_def split: if_splits)
  show "file_at s1 = file_at s" by (intro ext) (simp add: s1 file_at_def)
  show "fs_files s1 = fs_files s" by (simp add: s1)
  show "is_dir s1 x \<longleftrightarrow> is_dir s x \<or> prefix x d" for x by (auto simp: s1 is_dir_def)
  show "prefix x d \<Longrightarrow> file_at s x = None" for x using none by (auto simp: list_ex_iff)
qed

lemma wf_fs_MkdirAll:
  assumes "wf_fs s" and "MkdirAll s d = Inr s1"
  shows "wf_fs s1"
proof (rule wf_fsI)
  note mk = MkdirAll_ok [OF assms(2)]
  show "distinct (map fst (fs_files s1))" using assms(1) mk(2) by (simp add: wf_fs_def)
  fix q assume q: "file_at s1 q \<noteq> None"
  then have "\<not> is_dir s1 q" using wf_fsD(6) [OF assms(1), of q] mk(1,3,4) by metis
  then show "q \<noteq> [] \<and> list_all ok_comp q \<and> q \<notin> set (fs_dirs s1) \<and>
      (\<forall>d. strict_prefix d q \<longrightarrow> is_dir s1 d \<and> file_at s1 d = None)"
    using wf_fsD [OF assms(1), of q] q mk(3) unfolding mk(1) by (auto simp: is_dir_def)
qed

lemma strict_prefix_butlast: "strict_prefix d q \<Longrightarrow> prefix d (butlast q)"
  by (metis prefix_def prefix_order.less_irrefl prefix_snoc snoc_eq_iff_butlast strict_prefix_simps(1) strict_prefix_def)

text \<open>A successful upload adds the file; a failed one changes no file.\<close>

lemma upload_file_at:
  assumes "wf_fs s" and "path_join base p \<noteq> []" and "list_all ok_comp (path_join base p)"
    and "fs_Upload base s cancelled now p r = (s', x)"
  shows "wf_fs s' \<and>
    (case x of
       Inl e \<Rightarrow> file_at s' = file_at s
     | Inr n \<Rightarrow> (\<exists>c. r = Data c \<and> n = content_size c \<and> n \<noteq> 0 \<and>
         file_at s' = (file_at s)(path_join base p \<mapsto> \<lparr>f_data = c, f_mtime = now\<rparr>)))"
proof (cases "cancelled \<or> (\<exists>e. MkdirAll s (butlast (path_join base p)) = Inl e)")
  case True
  with assms show ?thesis by (auto simp: fs_Upload_def Let_def split: if_splits)
next
  case False
  let ?q = "path_join base p"
  from False obtain s1 where mk: "MkdirAll s (butlast ?q) = Inr s1"
    by (cases "MkdirAll s (butlast ?q)") auto
  note mk1 = MkdirAll_ok [OF mk] and wf1 = wf_fs_MkdirAll [OF assms(1) mk]
  show ?thesis
  proof (cases x)
    case (Inl e)
    with False mk assms(4) mk1(1) wf1 show ?thesis
      by (auto simp: fs_Upload_def Let_def split: reader.splits if_splits)
  next
    case (Inr n)
    with False mk assms(4) obtain c where c: "r = Data c" "content_size c \<noteq> 0" "\<not> is_dir s1 ?q" "x = Inr (content_size c)"
      and s': "s' = s1\<lparr>fs_files := (?q, \<lparr>f_data = c, f_mtime = now\<rparr>) # filter (\<lambda>(x, _). x \<noteq> ?q) (fs_files s1)\<rparr>"
      by (auto simp: fs_Upload_def Let_def split: reader.splits if_splits)
    have at: "file_at s' = (file_at s)(?q \<mapsto> \<lparr>f_data = c, f_mtime = now\<rparr>)"
      by (intro ext) (simp add: s' file_at_def map_of_filter_key flip: mk1(1) [unfolded file_at_def])
    have dirs: "fs_dirs s' = fs_dirs s1" "is_dir s' d = is_dir s1 d" for d by (simp_all add: s' is_dir_def)
    have "wf_fs s'"
    proof (rule wf_fsI)
      show "distinct (map fst (fs_files s'))"
        using wf1 by (auto simp: s' wf_fs_def distinct_map_filter)
      fix q assume q: "file_at s' q \<noteq> None"
      have clash: "d \<noteq> ?q" if "strict_prefix d q" "file_at s q \<noteq> None" for d
        using wf_fsD(4) [OF assms(1) that(2,1)] c(3) mk1(3) by blast
      have up: "is_dir s1 d \<and> file_at s d = None" if "strict_prefix d ?q" for d
        using strict_prefix_butlast [OF that] mk1(3,4) by blast
      have "?q \<notin> set (fs_dirs s1)" using c(3) by (simp add: is_dir_def)
      show "q \<noteq> [] \<and> list_all ok_comp q \<and> q \<notin> set (fs_dirs s') \<and>
          (\<forall>d. strict_prefix d q \<longrightarrow> is_dir s' d \<and> file_at s' d = None)"
      proof (cases "q = ?q")
        case True
        with assms(2,3) up \<open>?q \<notin> set (fs_dirs s1)\<close> show ?thesis
          unfolding dirs at by (auto simp: strict_prefix_def)
      next
        case False
        with q have "file_at s q \<noteq> None" by (simp add: at)
        then show ?thesis
          using wf_fsD [OF wf1, of q] clash unfolding dirs at mk1(1) by auto
      qed
    qed
    with c at show ?thesis by auto
  qed
qed

lemma fs_join_ok:
  assumes "list_all ok_comp base" and "fs_name p"
  shows "path_join base p = base @ comps p" "path_join base p \<noteq> []" "list_all ok_comp (path_join base p)"
  using assms by (simp_all add: path_join_ok fs_name_def)

lemma fs_apart_paths:
  assumes "fs_apart base c"
  shows "c \<noteq> base @ comps p" "c @ comps p' \<noteq> base @ comps p"
proof -
  show "c \<noteq> base @ comps p" using assms by (auto simp: fs_apart_def)
  show "c @ comps p' \<noteq> base @ comps p"
    using assms by (auto simp: fs_apart_def prefix_def append_eq_append_conv2)
qed

lemma fs_Upload_laws:
  assumes "fs_inv base s" and "fs_name p" and "fs_Upload base s cancelled now p r = (s', x)"
  shows "x = Inr n \<Longrightarrow> fs_inv base s' \<and> (\<exists>d. r = Data d \<and> fs_contents base s' = (fs_contents base s)(p \<mapsto> d))"
    and "x = Inl e \<Longrightarrow> fs_inv base s' \<and> fs_contents base s' = fs_contents base s"
    and "fs_inv c s \<Longrightarrow> fs_apart base c \<Longrightarrow> fs_inv c s' \<and> fs_contents c s' = fs_contents c s"
proof -
  have base: "wf_fs s" "list_all ok_comp base" "file_at s base = None" using assms(1) by (auto simp: fs_inv_def)
  note q = fs_join_ok [OF base(2) assms(2)]
  note up = upload_file_at [OF base(1) q(2,3) assms(3)]
  have ne: "base \<noteq> base @ comps p" by simp
  have eq: "base @ comps p = base @ comps p' \<longleftrightarrow> p = p'" for p' by (auto simp: comps_inject)
  show "x = Inr n \<Longrightarrow> fs_inv base s' \<and> (\<exists>d. r = Data d \<and> fs_contents base s' = (fs_contents base s)(p \<mapsto> d))"
    using up base ne assms(2) unfolding q(1) by (auto simp: fs_inv_def fs_contents_def fun_eq_iff eq comps_inject)
  show "x = Inl e \<Longrightarrow> fs_inv base s' \<and> fs_contents base s' = fs_contents base s"
    using up base by (auto simp: fs_inv_def fs_contents_def fun_eq_iff)
  assume c: "fs_inv c s" "fs_apart base c"
  have "file_at s' c = file_at s c" "file_at s' (c @ comps p') = file_at s (c @ comps p')" for p'
    using up fs_apart_paths(1) [OF c(2), of p] fs_apart_paths(2) [OF c(2), of _ p] unfolding q(1) by (auto split: sum.splits)
  then show "fs_inv c s' \<and> fs_contents c s' = fs_contents c s"
    using up c(1) by (simp add: fs_inv_def fs_contents_def fun_eq_iff)
qed

lemma fs_Delete_laws:
  assumes "fs_inv base s" and "fs_name p" and "fs_Delete base s cancelled p = (s', x)"
  shows "x = None \<Longrightarrow> fs_inv base s' \<and> fs_contents base s' = (fs_contents base s)(p := None)"
    and "fs_inv c s \<Longrightarrow> fs_apart base c \<Longrightarrow> fs_inv c s' \<and> fs_contents c s' = fs_contents c s"
proof -
  have base: "wf_fs s" "list_all ok_comp base" "file_at s base = None" using assms(1) by (auto simp: fs_inv_def)
  note q = fs_join_ok [OF base(2) assms(2)]
  show "x = None \<Longrightarrow> fs_inv base s' \<and> fs_contents base s' = (fs_contents base s)(p := None)"
    using delete_file_at(1) [OF base(1)] assms(3) base assms(2) q(1)
    by (auto simp: fs_inv_def fs_contents_def fun_eq_iff comps_inject)
  assume c: "fs_inv c s" "fs_apart base c"
  have "wf_fs s' \<and> (file_at s' = file_at s \<or> file_at s' = (file_at s)(base @ comps p := None))"
    using delete_file_at [OF base(1), of base cancelled p s'] assms(3) q(1) base(1) by (cases x) auto
  moreover from this have "file_at s' c = file_at s c" "file_at s' (c @ comps p') = file_at s (c @ comps p')" for p'
    using fs_apart_paths(1) [OF c(2), of p] fs_apart_paths(2) [OF c(2), of _ p] by auto
  ultimately show "fs_inv c s' \<and> fs_contents c s' = fs_contents c s"
    using c(1) by (simp add: fs_inv_def fs_contents_def fun_eq_iff)
qed

lemma fs_Delete_err: "fs_Delete base s cancelled p = (s', Some e) \<Longrightarrow> s' = s"
  by (auto simp: fs_Delete_def Let_def split: if_splits)

lemma fs_Delete_present:
  assumes "fs_inv base s" and "fs_name p" and "fs_contents base s p \<noteq> None"
  shows "snd (fs_Delete base s False p) = None"
  using assms fs_join_ok(1) [of base p] by (auto simp: fs_inv_def fs_contents_def fs_Delete_def)

lemma fs_Download_ok:
  assumes "fs_inv base s" and "fs_name p"
  shows "fs_Download base s False p = Inr (Data d) \<longleftrightarrow> fs_contents base s p = Some d"
  using assms fs_join_ok(1) [of base p]
  by (auto simp: fs_inv_def fs_contents_def fs_Download_def Let_def split: option.splits)

lemma walk_files:
  "distinct (map fst (fs_files s)) \<Longrightarrow> distinct (map fst (walk s root))"
  "set (walk s root) = {(q, f). (q, f) \<in> set (fs_files s) \<and> prefix root q}"
proof -
  assume "distinct (map fst (fs_files s))"
  then have "distinct (map fst (filter (\<lambda>(q, _). prefix root q) (fs_files s)))" by (rule distinct_map_filter)
  then show "distinct (map fst (walk s root))" unfolding walk_def by (simp add: distinct_map)
next
  show "set (walk s root) = {(q, f). (q, f) \<in> set (fs_files s) \<and> prefix root q}" by (auto simp: walk_def)
qed

lemma wf_fs_mem: "wf_fs s \<Longrightarrow> (q, f) \<in> set (fs_files s) \<longleftrightarrow> file_at s q = Some f"
  by (simp add: wf_fs_def file_at_def)

text \<open>Listing everything under a handle gives each of its files once.\<close>

lemma fs_List_ok:
  assumes "fs_inv base s" and "fs_List base s False [] = Inr es"
  shows "distinct (map e_Path es) \<and> e_Path ` set es = dom (fs_contents base s)"
proof -
  have base: "wf_fs s" "list_all ok_comp base" "file_at s base = None" using assms(1) by (auto simp: fs_inv_def)
  have below: "\<exists>xs. q = base @ xs \<and> xs \<noteq> [] \<and> list_all ok_comp xs"
    if "file_at s q \<noteq> None" "prefix base q" for q
    using that wf_fsD(2) [OF base(1) that(1)] base(3) by (auto simp: prefix_def)
  have dom: "dom (fs_contents base s) = (\<lambda>(q, _). filepath_Rel base q) ` set (walk s base)"
  proof (intro set_eqI iffI)
    fix p assume "p \<in> dom (fs_contents base s)"
    then obtain f where "fs_name p" "file_at s (base @ comps p) = Some f"
      by (auto simp: fs_contents_def split: if_splits)
    then have "(base @ comps p, f) \<in> set (walk s base)" by (simp add: walk_files wf_fs_mem [OF base(1)])
    then show "p \<in> (\<lambda>(q, _). filepath_Rel base q) ` set (walk s base)"
      by (rule rev_image_eqI) (simp add: Rel_below join_comps)
  next
    fix p assume "p \<in> (\<lambda>(q, _). filepath_Rel base q) ` set (walk s base)"
    then obtain q f where q: "p = filepath_Rel base q" "file_at s q = Some f" "prefix base q"
      by (auto simp: walk_files wf_fs_mem [OF base(1)])
    with below [of q] obtain xs where "q = base @ xs" "xs \<noteq> []" "list_all ok_comp xs" by auto
    with q show "p \<in> dom (fs_contents base s)"
      by (auto simp: fs_contents_def fs_name_def Rel_below comps_join)
  qed
  show ?thesis
  proof (cases "is_dir s base")
    case True
    then have es: "es = map (\<lambda>(r, f). file_entry base r f) (walk s base)"
      using assms(2) base path_join_empty [OF base(2)] by (auto simp: fs_List_def)
    have paths: "map e_Path es = map (filepath_Rel base) (map fst (walk s base))"
      by (simp add: es file_entry_def case_prod_beta comp_def)
    have "inj_on (filepath_Rel base) (fst ` set (walk s base))"
    proof (rule inj_onI)
      fix q r assume "q \<in> fst ` set (walk s base)" "r \<in> fst ` set (walk s base)"
        and rel: "filepath_Rel base q = filepath_Rel base r"
      then have "file_at s q \<noteq> None" "prefix base q" "file_at s r \<noteq> None" "prefix base r"
        by (auto simp: walk_files wf_fs_mem [OF base(1)])
      with below [of q] below [of r] obtain xs ys where
        "q = base @ xs" "xs \<noteq> []" "list_all ok_comp xs" "r = base @ ys" "ys \<noteq> []" "list_all ok_comp ys" by blast
      with rel comps_join show "q = r" by (metis Rel_below)
    qed
    then have "distinct (map e_Path es)"
      unfolding paths distinct_map [of "filepath_Rel base"] using base(1) by (auto simp: wf_fs_def walk_files)
    moreover have "e_Path ` set es = dom (fs_contents base s)"
      unfolding dom es by (auto simp: file_entry_def image_image case_prod_beta)
    ultimately show ?thesis by blast
  next
    case False
    have "walk s base = []"
    proof -
      have "file_at s q = None" if "prefix base q" for q
        using that wf_fsD(4) [OF base(1), of q base] base(3) False by (cases "q = base") (auto simp: strict_prefix_def simp flip: not_None_eq)
      then have "set (walk s base) = {}" by (auto simp: walk_files wf_fs_mem [OF base(1)])
      then show ?thesis by simp
    qed
    with False assms(2) base path_join_empty [OF base(2)] dom show ?thesis
      by (auto simp: fs_List_def split: if_splits)
  qed
qed

interpretation fs: storage fs_Upload fs_Download fs_List fs_Delete fs_contents fs_inv fs_apart fs_name
proof (unfold_locales, goal_cases)
  case 1 then show ?case using fs_Upload_laws(1) by blast
next
  case 2 then show ?case using fs_Upload_laws(2) by blast
next
  case 3 then show ?case using fs_Upload_laws(3) by blast
next
  case 4 then show ?case using fs_Download_ok by blast
next
  case 5 then show ?case using fs_Delete_laws(1) by blast
next
  case 6 then show ?case using fs_Delete_err by blast
next
  case 7 then show ?case using fs_Delete_present by blast
next
  case 8 then show ?case using fs_Delete_laws(2) by blast
next
  case 9 then show ?case using fs_List_ok by blast
next
  case 10 then show ?case by (auto simp: fs_contents_def split: if_splits)
next
  case 11 then show ?case by (auto simp: fs_apart_def)
qed

lemma or_less_8: "m < 8 \<Longrightarrow> b < 8 \<Longrightarrow> or m b < (8 :: nat)"
  using OR_upper [of "int m" 3 "int b"] by (simp add: or_nat_def)

lemma perm_bits_less: "perm_bits cs m = Some v \<Longrightarrow> m < 8 \<Longrightarrow> v < 8"
proof (induction cs m rule: perm_bits.induct)
  case (2 c cs m)
  then obtain b where "perm_bit c = Some b" "perm_bits cs (or m b) = Some v" by (auto split: option.splits)
  moreover from this have "b < 8" by (auto simp: perm_bit_def split: if_splits)
  ultimately show ?case using 2 or_less_8 [of m b] by blast
qed simp

lemma apply_op_less: "perm < 8 \<Longrightarrow> d < 8 \<Longrightarrow> apply_op op perm d < 8"
  by (auto simp: apply_op_def intro: or_less_8)

abbreviation mode_digits :: "nat list \<Rightarrow> bool" where
  "mode_digits ds \<equiv> length ds = 3 \<and> (\<forall>d \<in> set ds. d < 8)"

lemma apply_classes_digits:
  "apply_classes ws op perm ds = Some ds' \<Longrightarrow> perm < 8 \<Longrightarrow> mode_digits ds \<Longrightarrow> mode_digits ds'"
proof (induction ws op perm ds rule: apply_classes.induct)
  case (2 w ws op perm ds)
  then obtain c where c: "mode_class w = Some c" "apply_classes ws op perm (ds[c := apply_op op perm (ds ! c)]) = Some ds'"
    by (auto split: option.splits)
  have "c < length ds" using c(1) "2.prems"(3) by (auto simp: mode_class_def split: if_splits)
  then have "apply_op op perm (ds ! c) < 8" using "2.prems" by (intro apply_op_less) auto
  then have "mode_digits (ds[c := apply_op op perm (ds ! c)])"
    using "2.prems"(3) set_update_subset_insert [of ds c] by fastforce
  with 2 c show ?case by blast
qed simp

lemma mode_clause_digits:
  assumes "mode_clause clause ds = Some ds'" and "mode_digits ds"
  shows "mode_digits ds'"
proof -
  let ?who = "takeWhile (\<lambda>c. c \<notin> set ''=+-'') clause"
  from assms(1) obtain op perms where op: "drop (length ?who) clause = op # perms"
    by (cases "drop (length ?who) clause") (simp_all add: mode_clause_def)
  with assms(1) obtain perm where perm: "perm_bits perms 0 = Some perm"
    and ds': "(if CHR ''a'' \<in> set ?who then Some (map (apply_op op perm) ds) else apply_classes ?who op perm ds) = Some ds'"
    unfolding mode_clause_def Let_def op by (simp split: if_split_asm option.split_asm)
  have "perm < 8" using perm_bits_less [OF perm] by simp
  then show ?thesis
    using ds' assms(2) apply_classes_digits [of ?who op perm ds ds'] apply_op_less [of perm]
    by (auto split: if_splits)
qed

lemma mode_clauses_digits: "mode_clauses cls ds = Some ds' \<Longrightarrow> mode_digits ds \<Longrightarrow> mode_digits ds'"
proof (induction cls ds rule: mode_clauses.induct)
  case (2 cl cls ds)
  then show ?case
    using mode_clause_digits [of "trim_space cl" ds] by (auto simp: Let_def split: if_splits option.splits)
qed simp

lemma mode_places_bound: "mode_places cs ws bs = Some m \<Longrightarrow> m \<le> sum_list bs"
  by (induction cs ws bs arbitrary: m rule: mode_places.induct)
    (force simp: mode_place_def split: option.splits if_splits)+

lemma symbolic_bound: "parseSymbolicMode s = Some m \<Longrightarrow> m < 512"
proof (cases "length s = 9")
  case True
  assume "parseSymbolicMode s = Some m"
  with True have "m \<le> sum_list [256, 128, 64, 32, 16, 8, 4, 2, 1]"
    unfolding parseSymbolicMode_def by (intro mode_places_bound) simp
  then show ?thesis by simp
next
  case False
  assume "parseSymbolicMode s = Some m"
  with False obtain u g x where "mode_clauses (split_char (CHR '','') s) [0, 0, 0] = Some [u, g, x]"
    "m = u * 64 + g * 8 + x"
    unfolding parseSymbolicMode_def by (auto split: option.splits list.splits)
  with mode_clauses_digits [of "split_char (CHR '','') s" "[0, 0, 0]" "[u, g, x]"] show ?thesis by simp
qed

section \<open>Properties\<close>

definition sample_fs :: "nat fs" where
  "sample_fs = \<lparr>fs_files = [([''backup'', ''a.sql''], \<lparr>f_data = Bytes ''dump'', f_mtime = 5\<rparr>)],
     fs_dirs = [[''backup'']]\<rparr>"

lemma sample_fs_inv: "fs_inv [''backup''] sample_fs"
proof -
  have "wf_fs sample_fs"
    by (rule wf_fsI) (auto simp: sample_fs_def file_at_def is_dir_def ok_comp_def strict_prefix_def
        prefix_Cons split: if_splits)
  then show ?thesis by (simp add: fs_inv_def ok_comp_def) (simp add: sample_fs_def file_at_def)
qed



text \<open>
  A symbolic file mode that is accepted stays within the nine permission bits.
\<close>

theorem symbolic_mode_bounded:
  assumes "parseSymbolicMode s = Some m"
  shows "m < 512"
  using assms by (rule symbolic_bound)

theorem symbolic_mode_bounded_witness: "parseSymbolicMode ''u=rwx,g+rx,o-w'' = Some 488 \<and> 488 < (512 :: nat)"
proof -
  have run: "parseSymbolicMode ''u=rwx,g+rx,o-w'' = Some 488" by code_simp
  show ?thesis using run symbolic_mode_bounded [OF run] by simp
qed

text \<open>
  A clause list of nine characters is taken for the form \<open>rwxrwxrwx\<close> and refused,
  while the same list with one permission more is accepted.
\<close>

theorem nine_character_clauses_refused:
  "parseModeString ''u=rwx,g=r'' = None \<and> parseModeString ''u=rwx,g=rx'' = Some 488"
  by code_simp

end
