(* ===== verification/Catalog.thy ===== *)
theory Catalog
  imports Filename Storage
begin

text \<open>
  What is in a storage: sidecar files, the list of backups, deletion and archiving
  (\<open>internal/retention/sidecar.go\<close>, \<open>retention.go\<close>, \<open>archive.go\<close> and
  \<open>supported/retention/backend/archive.go\<close>), and the position of a new backup in its chain
  (\<open>internal/scheduler/runner/chain.go\<close>, \<open>glob.go\<close>, \<open>all.go\<close>).

  A \<open>storage.Storage\<close> value is a record of its four operations on a state that all
  storages share, so that two storages may lie in one filesystem. The JSON text of a
  sidecar is represented by the sidecar it encodes and its length, which the parameter
  \<open>json_len\<close> gives; other files never hold the text of a sidecar. Sorting functions are
  parameters, as in the theory of retention.

  The lemmas are stated once for every storage that satisfies the locale \<open>storage\<close> and
  hold for the filesystem by its interpretation: a written sidecar is read back, deleting
  backups touches only their own files, and archiving loses nothing.
\<close>

section \<open>Sidecars\<close>

record tool_meta =
  tm_Name :: string
  tm_Edition :: string
  tm_Hostname :: string
  tm_Version :: string

record job_meta =
  jm_Name :: string
  jm_Schedule :: string

record server_meta =
  sm_Engine :: string
  sm_Version :: string
  sm_Arch :: string

record table_meta =
  tb_Include :: "string list"
  tb_Exclude :: "string list"
  tb_SchemaOnly :: "string list"

record encryption_meta =
  em_Type :: string
  em_Recipients :: "string list"
  em_Passphrase :: bool
  em_Key :: string
  em_Hash :: string

record sidecar =
  sc_Format :: string
  sc_SchemaVersion :: int
  sc_Tool :: "tool_meta option"
  sc_Job :: "job_meta option"
  sc_Trigger :: string
  sc_SessionID :: string
  sc_RunID :: string
  sc_Status :: string
  sc_DurationMs :: int
  sc_RawSize :: int
  sc_FileName :: string
  sc_Strategy :: string
  sc_Protocol :: string
  sc_SchemaOnly :: bool
  sc_Tables :: "table_meta option"
  sc_Notes :: "string list"
  sc_Base :: string
  sc_Position :: string
  sc_Type :: string
  sc_DB :: string
  sc_Host :: string
  sc_Server :: "server_meta option"
  sc_Timestamp :: string
  sc_Checksums :: "(string \<times> string) list"
  sc_Size :: int
  sc_Compress :: string
  sc_CompressLevel :: int
  sc_CompressThreads :: int
  sc_Rsyncable :: bool
  sc_ChainDepth :: int
  sc_Encryption :: "encryption_meta option"

record 's storage_api =
  api_Upload :: "'s \<Rightarrow> bool \<Rightarrow> int \<Rightarrow> string \<Rightarrow> sidecar reader \<Rightarrow> 's \<times> (storage_error + int)"
  api_Download :: "'s \<Rightarrow> bool \<Rightarrow> string \<Rightarrow> storage_error + sidecar reader"
  api_List :: "'s \<Rightarrow> bool \<Rightarrow> string \<Rightarrow> storage_error + entry list"
  api_Delete :: "'s \<Rightarrow> bool \<Rightarrow> string \<Rightarrow> 's \<times> storage_error option"

definition fs_api :: "path \<Rightarrow> sidecar fs storage_api" where
  "fs_api base = \<lparr>api_Upload = fs_Upload base, api_Download = fs_Download base, api_List = fs_List base,
     api_Delete = fs_Delete base\<rparr>"

text \<open>The context is \<open>context.Background()\<close> in these functions: it is never cancelled.\<close>

definition ReadSidecar :: "'s storage_api \<Rightarrow> 's \<Rightarrow> string \<Rightarrow> sidecar option" where
  "ReadSidecar st s filename =
     (case api_Download st s False (SidecarName filename) of
        Inr (Data (Json sc _)) \<Rightarrow> Some sc
      | _ \<Rightarrow> None)"

definition WriteSidecar ::
  "'s storage_api \<Rightarrow> (sidecar \<Rightarrow> nat) \<Rightarrow> int \<Rightarrow> 's \<Rightarrow> string \<Rightarrow> sidecar \<Rightarrow> 's \<times> storage_error option" where
  "WriteSidecar st json_len now s filename sc =
     (case api_Upload st s False now (SidecarName filename) (Data (Json sc (json_len sc))) of
        (s', Inl err) \<Rightarrow> (s', Some err)
      | (s', Inr _) \<Rightarrow> (s', None))"

section \<open>Listing and deleting\<close>

definition read_sidecars :: "'s storage_api \<Rightarrow> 's \<Rightarrow> entry list \<Rightarrow> (string \<times> sidecar) list" where
  "read_sidecars st s es =
     List.map_filter (\<lambda>e. if has_suffix (e_Path e) ''.json''
         then (let name = trim_suffix (e_Path e) ''.json'' in map_option (Pair name) (ReadSidecar st s name))
         else None) es"

definition backup_of_entry :: "location \<Rightarrow> (string \<times> sidecar) list \<Rightarrow> entry \<Rightarrow> backup_entry" where
  "backup_of_entry local scs e =
     (let sc = map_of scs (e_Path e);
          ts0 = (case sc of
                   None \<Rightarrow> zero_time
                 | Some x \<Rightarrow> (case parse_rfc3339 local (sc_Timestamp x) of None \<Rightarrow> zero_time | Some t \<Rightarrow> t));
          ts = (if is_zero ts0 then (case ParseTimestamp (e_Path e) of None \<Rightarrow> ts0 | Some t \<Rightarrow> t) else ts0);
          strategy = (case sc of None \<Rightarrow> ''full'' | Some x \<Rightarrow> sc_Strategy x)
      in \<lparr>be_FileName = e_Path e, be_Timestamp = ts,
           be_Strategy = (if strategy = ''full'' then StrategyFromFilename (e_Path e) else strategy),
           be_Base = (case sc of None \<Rightarrow> [] | Some x \<Rightarrow> sc_Base x), be_Size = e_Size e\<rparr>)"

definition backup_path :: "string \<Rightarrow> bool" where
  "backup_path p \<longleftrightarrow> \<not> has_suffix p ''.json'' \<and> IsBackupFile p"

definition ListBackupsWithSidecars ::
  "'s storage_api \<Rightarrow> location \<Rightarrow> 's \<Rightarrow> string \<Rightarrow> storage_error + backup_entry list" where
  "ListBackupsWithSidecars st local s pre =
     (case api_List st s False pre of
        Inl err \<Rightarrow> Inl err
      | Inr es \<Rightarrow>
          Inr (map (backup_of_entry local (read_sidecars st s es)) (filter (\<lambda>e. backup_path (e_Path e)) es)))"

definition companions :: "string \<Rightarrow> string list" where
  "companions f = [SidecarName f, f @ ''.md5'', f @ ''.sha1'']"

text \<open>Deleting a companion file reports every error but that the file is not there.\<close>

fun delete_companions ::
  "'s storage_api \<Rightarrow> bool \<Rightarrow> string list \<Rightarrow> 's \<times> (string \<times> storage_error) list \<Rightarrow> 's \<times> (string \<times> storage_error) list" where
  "delete_companions st cancelled [] acc = acc"
| "delete_companions st cancelled (f # fs) (s, errs) =
     (case api_Delete st s cancelled f of
        (s', err) \<Rightarrow>
          delete_companions st cancelled fs
            (s', case err of None \<Rightarrow> errs | Some e \<Rightarrow> if e = NotExist then errs else errs @ [(f, e)]))"

fun DeleteBackupsWithContext ::
  "'s storage_api \<Rightarrow> bool \<Rightarrow> string list \<Rightarrow> 's \<times> (string \<times> storage_error) list \<Rightarrow> 's \<times> (string \<times> storage_error) list" where
  "DeleteBackupsWithContext st cancelled [] acc = acc"
| "DeleteBackupsWithContext st cancelled (f # fs) (s, errs) =
     (case api_Delete st s cancelled f of
        (s', err) \<Rightarrow>
          DeleteBackupsWithContext st cancelled fs
            (delete_companions st cancelled (companions f)
               (s', case err of None \<Rightarrow> errs | Some e \<Rightarrow> errs @ [(f, e)])))"

definition DeleteBackups :: "'s storage_api \<Rightarrow> string list \<Rightarrow> 's \<Rightarrow> 's \<times> (string \<times> storage_error) list" where
  "DeleteBackups st files s = DeleteBackupsWithContext st False files (s, [])"

section \<open>Archiving\<close>

datatype archive_error = ListFailed storage_error | UploadFailed storage_error | DeleteFailed storage_error
  | ArchiveNotAvailable string | ArchiveNotBuilt

definition moveFile ::
  "'s storage_api \<Rightarrow> 's storage_api \<Rightarrow> int \<Rightarrow> 's \<Rightarrow> string \<Rightarrow> 's \<times> archive_error option" where
  "moveFile src dst now s path =
     (if path = [] then (s, None)
      else case api_Download src s False path of
             Inl _ \<Rightarrow> (s, None)
           | Inr rc \<Rightarrow>
               (case api_Upload dst s False now path rc of
                  (s1, Inl err) \<Rightarrow> (s1, Some (UploadFailed err))
                | (s1, Inr _) \<Rightarrow>
                    (case api_Delete src s1 False path of
                       (s2, Some err) \<Rightarrow> (s2, Some (DeleteFailed err))
                     | (s2, None) \<Rightarrow> (s2, None))))"

definition move_all :: "'s storage_api \<Rightarrow> 's storage_api \<Rightarrow> int \<Rightarrow> string list \<Rightarrow> 's \<Rightarrow> 's" where
  "move_all src dst now files s = fold (\<lambda>f s. fst (moveFile src dst now s f)) files s"

fun archive_loop ::
  "'s storage_api \<Rightarrow> 's storage_api \<Rightarrow> int \<Rightarrow> string list \<Rightarrow> 's \<Rightarrow> int \<Rightarrow> string list \<Rightarrow>
   's \<times> int \<times> string list \<times> archive_error option" where
  "archive_loop src dst now [] s moved candidates = (s, moved, candidates, None)"
| "archive_loop src dst now (p # ps) s moved candidates =
     (case moveFile src dst now s p of
        (s1, Some err) \<Rightarrow> (s1, moved, candidates @ [p], Some err)
      | (s1, None) \<Rightarrow>
          archive_loop src dst now ps (move_all src dst now (companions p) s1) (moved + 1) (candidates @ [p]))"

definition newer_file :: "entry \<Rightarrow> entry \<Rightarrow> bool" where
  "newer_file a b \<longleftrightarrow> e_ModTime a > e_ModTime b"

definition archive_keep :: "int \<Rightarrow> duration \<Rightarrow> gotime \<Rightarrow> entry list \<Rightarrow> int" where
  "archive_keep lastN within now backups =
     (if within > 0
      then int (length (takeWhile (\<lambda>e. e_ModTime e \<ge> nanos (add now (- within))) backups))
      else if lastN > 0 then lastN else 0)"

definition runArchive ::
  "(entry list \<Rightarrow> entry list) \<Rightarrow> 's storage_api \<Rightarrow> 's storage_api \<Rightarrow> gotime \<Rightarrow> int \<Rightarrow> duration \<Rightarrow> 's \<Rightarrow>
   's \<times> int \<times> string list \<times> archive_error option" where
  "runArchive srt src dst now lastN within s =
     (case api_List src s False [] of
        Inl err \<Rightarrow> (s, 0, [], Some (ListFailed err))
      | Inr es \<Rightarrow>
          (let backups = srt (filter (\<lambda>e. backup_path (e_Path e)) es);
               keep = archive_keep lastN within now backups
           in if backups = [] \<or> keep \<ge> int (length backups) then (s, 0, [], None)
              else archive_loop src dst (nanos now) (map e_Path (drop (nat keep) backups)) s 0 []))"

definition RunArchive ::
  "edition \<Rightarrow> license_check \<Rightarrow> (entry list \<Rightarrow> entry list) \<Rightarrow> 's storage_api \<Rightarrow> 's storage_api \<Rightarrow> gotime \<Rightarrow>
   int \<Rightarrow> duration \<Rightarrow> 's \<Rightarrow> 's \<times> int \<times> string list \<times> archive_error option" where
  "RunArchive ed allow srt src dst now lastN within s =
     (case allow of
        Some err \<Rightarrow> (s, 0, [], Some (ArchiveNotAvailable err))
      | None \<Rightarrow>
          (case ed of
             Community \<Rightarrow> (s, 0, [], Some ArchiveNotBuilt)
           | Supported \<Rightarrow> runArchive srt src dst now lastN within s))"

section \<open>Chains\<close>

record backup_chain =
  ch_Depth :: int
  ch_LastFull :: int

definition backupPrefix :: "string \<Rightarrow> string \<Rightarrow> string \<Rightarrow> string" where
  "backupPrefix dbType dbName host =
     (case defaultFilenameTokens dbType host dbName of
        (dbTok, hostTok) \<Rightarrow> joinNonEmpty ''-'' [dbType, dbTok, hostTok] @ ''-'')"

fun chain_loop :: "'s storage_api \<Rightarrow> 's \<Rightarrow> entry list \<Rightarrow> backup_chain \<Rightarrow> backup_chain" where
  "chain_loop st s [] chain = chain"
| "chain_loop st s (e # es) chain =
     (case ReadSidecar st s (e_Path e) of
        None \<Rightarrow> chain_loop st s es chain
      | Some sc \<Rightarrow>
          if sc_Strategy sc = ''full'' then chain\<lparr>ch_LastFull := e_ModTime e\<rparr>
          else chain_loop st s es (chain\<lparr>ch_Depth := ch_Depth chain + 1\<rparr>))"

definition chainInfo ::
  "(entry list \<Rightarrow> entry list) \<Rightarrow> 's storage_api \<Rightarrow> 's \<Rightarrow> string \<Rightarrow> string \<Rightarrow> string \<Rightarrow> backup_chain" where
  "chainInfo srt st s dbType dbName host =
     (case api_List st s False [] of
        Inl _ \<Rightarrow> \<lparr>ch_Depth = 0, ch_LastFull = 0\<rparr>
      | Inr es \<Rightarrow>
          chain_loop st s
            (srt (filter (\<lambda>e. has_prefix (e_Path e) (backupPrefix dbType dbName host) \<and>
               \<not> has_suffix (e_Path e) ''.json'') es))
            \<lparr>ch_Depth = 0, ch_LastFull = 0\<rparr>)"

fun last_entry :: "(string \<Rightarrow> bool) \<Rightarrow> entry list \<Rightarrow> string \<Rightarrow> int \<Rightarrow> string" where
  "last_entry P [] latest ts = latest"
| "last_entry P (e # es) latest ts =
     (if \<not> has_suffix (e_Path e) ''.json'' \<and> P (e_Path e) \<and> e_ModTime e \<ge> ts
      then last_entry P es (e_Path e) (e_ModTime e) else last_entry P es latest ts)"

definition findLastChainParent :: "'s storage_api \<Rightarrow> 's \<Rightarrow> string \<Rightarrow> string \<Rightarrow> string \<Rightarrow> string" where
  "findLastChainParent st s dbType dbName host =
     (case api_List st s False [] of
        Inl _ \<Rightarrow> []
      | Inr es \<Rightarrow> last_entry (\<lambda>p. has_prefix p (backupPrefix dbType dbName host)) es [] 0)"

definition findLastFullBackup :: "'s storage_api \<Rightarrow> 's \<Rightarrow> string \<Rightarrow> string \<Rightarrow> string \<Rightarrow> string" where
  "findLastFullBackup st s dbType dbName host =
     (case api_List st s False [] of
        Inl _ \<Rightarrow> []
      | Inr es \<Rightarrow> last_entry (\<lambda>p. has_prefix p (backupPrefix dbType dbName host @ ''full-'')) es [] 0)"

fun position_loop :: "'s storage_api \<Rightarrow> 's \<Rightarrow> entry list \<Rightarrow> string" where
  "position_loop st s [] = []"
| "position_loop st s (e # es) =
     (case ReadSidecar st s (e_Path e) of
        None \<Rightarrow> position_loop st s es
      | Some sc \<Rightarrow> if sc_Position sc \<noteq> [] then sc_Position sc else position_loop st s es)"

definition newer_path :: "entry \<Rightarrow> entry \<Rightarrow> bool" where
  "newer_path a b =
     (if e_ModTime a = e_ModTime b then e_Path a > e_Path b else e_ModTime a > e_ModTime b)"

definition findLastPosition ::
  "(entry list \<Rightarrow> entry list) \<Rightarrow> 's storage_api \<Rightarrow> 's \<Rightarrow> string \<Rightarrow> string \<Rightarrow> string \<Rightarrow> string \<Rightarrow> string" where
  "findLastPosition srt st s dbType dbName host strategy =
     (case api_List st s False [] of
        Inl _ \<Rightarrow> []
      | Inr es \<Rightarrow>
          position_loop st s
            (srt (filter (\<lambda>e. has_prefix (e_Path e) (backupPrefix dbType dbName host) \<and>
               \<not> has_suffix (e_Path e) ''.json'' \<and>
               \<not> (strategy = ''differential'' \<and> \<not> StrategyMatches (e_Path e) ''full'')) es)))"

definition positionAnchored :: "string \<Rightarrow> bool" where
  "positionAnchored dbType \<longleftrightarrow>
     to_lower dbType \<in> set [''mongo'', ''mongodb'', ''mysql'', ''mariadb'', ''influx'', ''influxdb'']"

text \<open>
  Why a chain starts anew. \<open>time.ParseDuration\<close> is the parameter \<open>dur\<close>; \<open>now\<close> is the
  clock that \<open>time.Since\<close> reads. The modification time is taken as seconds.
\<close>

datatype reset_reason = NoFull | DepthReached int int | FullTooOld string

definition shouldResetChain ::
  "(string \<Rightarrow> duration option) \<Rightarrow> gotime \<Rightarrow> backup_config option \<Rightarrow> backup_chain \<Rightarrow> reset_reason option" where
  "shouldResetChain dur now cfg chain =
     (if ch_LastFull chain = 0 then Some NoFull
      else case cfg of
             None \<Rightarrow> None
           | Some b \<Rightarrow>
               if bk_FullEvery b > 0 \<and> ch_Depth chain \<ge> bk_FullEvery b
               then Some (DepthReached (ch_Depth chain) (bk_FullEvery b))
               else if bk_FullAfter b \<noteq> [] then
                 (case dur (bk_FullAfter b) of
                    None \<Rightarrow> None
                  | Some d \<Rightarrow>
                      if d > 0 \<and> clamp64 (nanos now - ch_LastFull chain * ns_second) \<ge> d
                      then Some (FullTooOld (bk_FullAfter b)) else None)
               else None)"

section \<open>Database lists and selection\<close>

fun add_names :: "string list \<Rightarrow> string list \<Rightarrow> string list" where
  "add_names [] out = out"
| "add_names (n # ns) out =
     add_names ns (if to_lower n \<in> set (map to_lower out) then out else out @ [n])"

definition expandAllInclude :: "string list \<Rightarrow> database_list option \<Rightarrow> string list" where
  "expandAllInclude discovered l =
     (let excl = (case l of None \<Rightarrow> [] | Some d \<Rightarrow> dl_Exclude d);
          incl = (case l of None \<Rightarrow> [] | Some d \<Rightarrow> dl_Include d)
      in add_names (filter (\<lambda>i. \<not> equal_fold (trim_space i) ''ALL'' \<and> i \<noteq> []) incl)
           (add_names (filter (\<lambda>n. \<not> globMatchAny excl n) discovered) []))"

definition shouldSplitDatabases :: "string list \<Rightarrow> bool" where
  "shouldSplitDatabases include \<longleftrightarrow> hasAllToken include \<or> length include > 1"

definition splitDatabaseList :: "string list \<Rightarrow> string list" where
  "splitDatabaseList include = filter (\<lambda>n. trim_space n \<noteq> []) include"

definition containsGlobals :: "string list \<Rightarrow> bool" where
  "containsGlobals include \<longleftrightarrow> list_ex (\<lambda>d. contains d ''__globals__'') include"

definition IsGlobPattern :: "string \<Rightarrow> bool" where
  "IsGlobPattern s \<longleftrightarrow> list_ex (\<lambda>c. c \<in> set ''*?['') s"

datatype glob_error = GlobList storage_error | GlobPattern string | GlobNone string

fun glob_loop :: "string \<Rightarrow> entry list \<Rightarrow> (entry \<times> gotime) option \<Rightarrow> (entry \<times> gotime) option option" where
  "glob_loop pattern [] best = Some best"
| "glob_loop pattern (e # es) best =
     (case ParseBackupFilename (e_Path e) of
        None \<Rightarrow> glob_loop pattern es best
      | Some bi \<Rightarrow>
          (case path_Match pattern (e_Path e) of
             None \<Rightarrow> None
           | Some False \<Rightarrow> glob_loop pattern es best
           | Some True \<Rightarrow>
               glob_loop pattern es
                 (case best of
                    None \<Rightarrow> Some (e, bi_Timestamp bi)
                  | Some (b, ts) \<Rightarrow>
                      if e_ModTime e > e_ModTime b \<or> (e_ModTime e = e_ModTime b \<and> after (bi_Timestamp bi) ts)
                      then Some (e, bi_Timestamp bi) else best)))"

definition ResolveGlobFile :: "'s storage_api \<Rightarrow> 's \<Rightarrow> string \<Rightarrow> glob_error + string" where
  "ResolveGlobFile st s pattern =
     (case api_List st s False [] of
        Inl err \<Rightarrow> Inl (GlobList err)
      | Inr es \<Rightarrow>
          (case glob_loop pattern es None of
             None \<Rightarrow> Inl (GlobPattern pattern)
           | Some None \<Rightarrow> Inl (GlobNone pattern)
           | Some (Some (b, _)) \<Rightarrow> Inr (e_Path b)))"

section \<open>Files that belong to a backup are not backups\<close>

lemma companion_not_backup:
  assumes "c \<in> set (companions f)"
  shows "\<not> backup_path c"
proof
  assume "backup_path c"
  then have "last (path_base c) \<in> ext_letters" by (simp add: backup_path_def IsBackupFile_last)
  with assms show False
    by (auto simp: companions_def SidecarName_def path_base_last ext_letters_def)
qed

section \<open>Laws of the operations on any storage\<close>

definition mk_api where
  "mk_api upload download list_entries remove h =
     \<lparr>api_Upload = upload h, api_Download = download h, api_List = list_entries h, api_Delete = remove h\<rparr>"

text \<open>The files that deleting the backups \<open>fs\<close> may touch.\<close>

definition own_files :: "string list \<Rightarrow> string set" where
  "own_files fs = set fs \<union> (\<Union>f \<in> set fs. set (companions f))"

locale catalog = storage upload download list_entries remove contents inv apart ok_name
  for upload :: "'h \<Rightarrow> 's \<Rightarrow> bool \<Rightarrow> int \<Rightarrow> string \<Rightarrow> sidecar reader \<Rightarrow> 's \<times> (storage_error + int)"
    and download :: "'h \<Rightarrow> 's \<Rightarrow> bool \<Rightarrow> string \<Rightarrow> storage_error + sidecar reader"
    and list_entries :: "'h \<Rightarrow> 's \<Rightarrow> bool \<Rightarrow> string \<Rightarrow> storage_error + entry list"
    and remove :: "'h \<Rightarrow> 's \<Rightarrow> bool \<Rightarrow> string \<Rightarrow> 's \<times> storage_error option"
    and contents :: "'h \<Rightarrow> 's \<Rightarrow> string \<Rightarrow> sidecar content option"
    and inv :: "'h \<Rightarrow> 's \<Rightarrow> bool"
    and apart :: "'h \<Rightarrow> 'h \<Rightarrow> bool"
    and ok_name :: "string \<Rightarrow> bool" +
  assumes ok_nonempty: "ok_name p \<Longrightarrow> p \<noteq> []"
    and ok_companion: "ok_name p \<Longrightarrow> c \<in> set (companions p) \<Longrightarrow> ok_name c"
begin

abbreviation api :: "'h \<Rightarrow> 's storage_api" where
  "api h \<equiv> mk_api upload download list_entries remove h"

lemma api_sel [simp]:
  "api_Upload (api h) = upload h" "api_Download (api h) = download h"
  "api_List (api h) = list_entries h" "api_Delete (api h) = remove h"
  by (simp_all add: mk_api_def)

lemma ok_sidecar: "ok_name p \<Longrightarrow> ok_name (SidecarName p)"
  by (rule ok_companion) (auto simp: companions_def)

lemma read_sidecar: "inv h s \<Longrightarrow> ok_name p \<Longrightarrow>
    ReadSidecar (api h) s p = (case contents h s (SidecarName p) of Some (Json sc _) \<Rightarrow> Some sc | _ \<Rightarrow> None)"
proof (cases "contents h s (SidecarName p)")
  case None
  assume "inv h s" "ok_name p"
  from download_ok [OF this(1) ok_sidecar [OF this(2)]] None show ?thesis
    by (auto simp: ReadSidecar_def split: sum.splits reader.splits)
next
  case (Some d)
  assume "inv h s" "ok_name p"
  from download_ok [OF this(1) ok_sidecar [OF this(2)], of d] Some show ?thesis
    by (simp add: ReadSidecar_def split: content.splits)
qed

lemma sidecar_written:
  assumes "inv h s" and "ok_name p" and "WriteSidecar (api h) jl now s p sc = (s', None)"
  shows "ReadSidecar (api h) s' p = Some sc" and "\<And>q. q \<noteq> SidecarName p \<Longrightarrow> contents h s' q = contents h s q"
    and "inv h s'"
proof -
  obtain n where up: "upload h s False now (SidecarName p) (Data (Json sc (jl sc))) = (s', Inr n)"
    using assms(3) by (auto simp: WriteSidecar_def split: prod.splits sum.splits)
  have up': "inv h s'" "contents h s' = (contents h s)(SidecarName p \<mapsto> Json sc (jl sc))"
    using upload_ok [OF assms(1) ok_sidecar [OF assms(2)] up] by auto
  then show "inv h s'" "ReadSidecar (api h) s' p = Some sc" "\<And>q. q \<noteq> SidecarName p \<Longrightarrow> contents h s' q = contents h s q"
    using read_sidecar [OF up'(1) assms(2)] by auto
qed

subsection \<open>Deletion\<close>

text \<open>\<open>pruned Q h s s'\<close>: from \<open>s\<close> to \<open>s'\<close> some of the files \<open>Q\<close> went, and nothing else changed.\<close>

definition pruned :: "string set \<Rightarrow> 'h \<Rightarrow> 's \<Rightarrow> 's \<Rightarrow> bool" where
  "pruned Q h s s' \<longleftrightarrow> inv h s' \<and>
     (\<forall>q. contents h s' q = contents h s q \<or> q \<in> Q \<and> contents h s' q = None)"

lemma pruned_trans: "pruned Q h s t \<Longrightarrow> pruned R h t u \<Longrightarrow> pruned (Q \<union> R) h s u"
  unfolding pruned_def by (metis Un_iff)

lemma pruned_mono: "pruned Q h s t \<Longrightarrow> Q \<subseteq> R \<Longrightarrow> pruned R h s t"
  unfolding pruned_def by blast

lemma pruned_cong: "pruned Q h s t \<Longrightarrow> t = t' \<Longrightarrow> pruned Q h s t'"
  by simp

lemma pruned_gone: "pruned Q h s t \<Longrightarrow> contents h s q = None \<Longrightarrow> contents h t q = None"
  unfolding pruned_def by metis

lemma pruned_remove:
  assumes "inv h s" and "ok_name p" and "remove h s cancelled p = (s', x)"
  shows "pruned {p} h s s'"
  using remove_contents [OF assms] by (auto simp: pruned_def)

lemma pruned_companions:
  assumes "inv h s" and "\<And>c. c \<in> set cs \<Longrightarrow> ok_name c"
  shows "pruned (set cs) h s (fst (delete_companions (api h) cancelled cs (s, errs)))"
  using assms
proof (induction cs arbitrary: s errs)
  case Nil
  then show ?case by (simp add: pruned_def)
next
  case (Cons c cs)
  obtain s' x where r: "remove h s cancelled c = (s', x)" by fastforce
  have one: "pruned {c} h s s'" using pruned_remove [OF Cons.prems(1) _ r] Cons.prems(2) by simp
  then have "inv h s'" by (simp add: pruned_def)
  with Cons have "pruned (set cs) h s' (fst (delete_companions (api h) cancelled cs (s', e)))" for e by simp
  from pruned_trans [OF one this] show ?case using r by simp
qed

lemma delete_companions_errs:
  "\<exists>es. snd (delete_companions st cancelled cs (s, errs)) = errs @ es"
proof (induction cs arbitrary: s errs)
  case (Cons c cs)
  obtain s' x where r: "api_Delete st s cancelled c = (s', x)" by fastforce
  show ?case
    using Cons [of s' errs] Cons [of s' "errs @ [(c, the x)]"] by (auto simp: r split: option.splits)
qed simp

lemma pruned_backups:
  assumes "inv h s" and "list_all ok_name fs"
  shows "pruned (own_files fs) h s (fst (DeleteBackupsWithContext (api h) cancelled fs (s, errs)))"
  using assms
proof (induction fs arbitrary: s errs)
  case Nil
  then show ?case by (simp add: pruned_def)
next
  case (Cons f fs)
  then have ok: "ok_name f" "list_all ok_name fs" by simp_all
  obtain s1 x where r: "remove h s cancelled f = (s1, x)" by fastforce
  let ?e = "case x of None \<Rightarrow> errs | Some e \<Rightarrow> errs @ [(f, e)]"
  obtain s2 errs2 where c: "delete_companions (api h) cancelled (companions f) (s1, ?e) = (s2, errs2)" by fastforce
  have one: "pruned {f} h s s1" using pruned_remove [OF Cons.prems(1) ok(1) r] .
  then have i1: "inv h s1" by (simp add: pruned_def)
  have two: "pruned (set (companions f)) h s1 s2"
    using pruned_companions [OF i1, of "companions f" cancelled ?e] ok_companion [OF ok(1)] c by simp
  then have "inv h s2" by (simp add: pruned_def)
  with Cons.IH ok have "pruned (own_files fs) h s2 (fst (DeleteBackupsWithContext (api h) cancelled fs (s2, errs2)))"
    by simp
  from pruned_trans [OF pruned_trans [OF one two] this]
  show ?case by (rule pruned_mono [of _ _ s, THEN pruned_cong]) (use r c in \<open>auto simp: own_files_def\<close>)
qed

lemma remove_gone:
  assumes "inv h s" and "ok_name p" and "remove h s False p = (s', x)"
  shows "contents h s' p = None"
proof (cases x)
  case None
  with remove_ok [OF assms(1,2)] assms(3) show ?thesis by simp
next
  case (Some e)
  then have "contents h s p = None" using remove_present [OF assms(1,2)] assms(3) by fastforce
  with Some remove_err assms(3) show ?thesis by blast
qed

lemma backups_gone:
  assumes "inv h s" and "list_all ok_name fs" and "f \<in> set fs"
  shows "contents h (fst (DeleteBackupsWithContext (api h) False fs (s, errs))) f = None"
  using assms
proof (induction fs arbitrary: s errs)
  case (Cons g fs)
  then have ok: "ok_name g" "list_all ok_name fs" by simp_all
  obtain s1 x where r: "remove h s False g = (s1, x)" by fastforce
  let ?e = "case x of None \<Rightarrow> errs | Some e \<Rightarrow> errs @ [(g, e)]"
  obtain s2 errs2 where c: "delete_companions (api h) False (companions g) (s1, ?e) = (s2, errs2)" by fastforce
  have i1: "inv h s1" using pruned_remove [OF Cons.prems(1) ok(1) r] by (simp add: pruned_def)
  have two: "pruned (set (companions g)) h s1 s2"
    using pruned_companions [OF i1, of "companions g" False ?e] ok_companion [OF ok(1)] c by simp
  then have i2: "inv h s2" by (simp add: pruned_def)
  have step: "fst (DeleteBackupsWithContext (api h) False (g # fs) (s, errs)) =
      fst (DeleteBackupsWithContext (api h) False fs (s2, errs2))" using r c by simp
  show ?case
  proof (cases "f \<in> set fs")
    case True
    then show ?thesis unfolding step using Cons.IH [OF i2 ok(2)] by simp
  next
    case False
    with Cons.prems(3) have "f = g" by simp
    then have "contents h s2 f = None"
      using pruned_gone [OF two] remove_gone [OF Cons.prems(1) ok(1) r] by simp
    then show ?thesis unfolding step by (rule pruned_gone [OF pruned_backups [OF i2 ok(2)]])
  qed
qed simp

subsection \<open>Archiving\<close>

text \<open>
  \<open>moved h g s s'\<close>: every file is as it was in both storages, or it went from \<open>h\<close> to
  \<open>g\<close> with its content.
\<close>

definition moved :: "'h \<Rightarrow> 'h \<Rightarrow> 's \<Rightarrow> 's \<Rightarrow> bool" where
  "moved h g s s' \<longleftrightarrow> inv h s' \<and> inv g s' \<and>
     (\<forall>q. contents h s' q = contents h s q \<and> contents g s' q = contents g s q \<or>
          contents h s q \<noteq> None \<and> contents h s' q = None \<and> contents g s' q = contents h s q)"

lemma moved_refl: "inv h s \<Longrightarrow> inv g s \<Longrightarrow> moved h g s s"
  by (simp add: moved_def)

lemma moved_inv: "moved h g s t \<Longrightarrow> inv h t" "moved h g s t \<Longrightarrow> inv g t"
  by (simp_all add: moved_def)

lemma moved_trans: "moved h g s t \<Longrightarrow> moved h g t u \<Longrightarrow> moved h g s u"
  unfolding moved_def by metis

lemma moveFile_moved:
  assumes inv: "inv h s" "inv g s" and apart: "apart h g" and p: "ok_name p"
    and move: "moveFile (api h) (api g) now s p = (s', x)"
  shows "moved h g s s'" and "x = None \<Longrightarrow> contents h s p = Some d \<Longrightarrow> contents h s' p = None \<and> contents g s' p = Some d"
    and "q \<noteq> p \<Longrightarrow> contents h s' q = contents h s q \<and> contents g s' q = contents g s q"
proof -
  have "moved h g s s' \<and> (x = None \<longrightarrow> contents h s p = Some d \<longrightarrow> contents h s' p = None \<and> contents g s' p = Some d) \<and>
     (q \<noteq> p \<longrightarrow> contents h s' q = contents h s q \<and> contents g s' q = contents g s q)"
  proof (cases "download h s False p")
    case (Inl e)
    with move ok_nonempty [OF p] have "s' = s" by (simp add: moveFile_def)
    moreover have "contents h s p \<noteq> Some d" using Inl download_ok [OF inv(1) p, of d] by auto
    ultimately show ?thesis using moved_refl inv by simp
  next
    case (Inr rc)
    obtain s1 y where up: "upload g s False now p rc = (s1, y)" by fastforce
    have h1: "inv h s1" "contents h s1 = contents h s"
      using upload_apart [OF inv(2,1) apart_sym [OF apart] p up] by auto
    show ?thesis
    proof (cases y)
      case (Inl e)
      then have "s' = s1" "x \<noteq> None" using move up Inr ok_nonempty [OF p] by (auto simp: moveFile_def)
      with upload_err [OF inv(2) p, of False now rc s1 e] up Inl h1 show ?thesis by (auto simp: moved_def)
    next
      case up_ok: (Inr n)
      obtain d' where d': "rc = Data d'" "inv g s1" "contents g s1 = (contents g s)(p \<mapsto> d')"
        using upload_ok [OF inv(2) p, of False now rc s1 n] up up_ok by auto
      have c: "contents h s p = Some d'" using download_ok [OF inv(1) p, of d'] Inr d'(1) by simp
      have "snd (remove h s1 False p) = None" by (rule remove_present [OF h1(1) p]) (simp add: h1 c)
      then obtain s2 where rm: "remove h s1 False p = (s2, None)" by (cases "remove h s1 False p") auto
      have "s' = s2" "x = None" using move Inr up up_ok rm ok_nonempty [OF p] by (auto simp: moveFile_def)
      moreover have "inv h s2" "contents h s2 = (contents h s1)(p := None)"
        using remove_ok [OF h1(1) p rm] by auto
      moreover have "inv g s2" "contents g s2 = contents g s1"
        using remove_apart [OF h1(1) d'(2) apart p rm] by auto
      ultimately show ?thesis using c d' h1 by (auto simp: moved_def)
    qed
  qed
  then show "moved h g s s'" "x = None \<Longrightarrow> contents h s p = Some d \<Longrightarrow> contents h s' p = None \<and> contents g s' p = Some d"
    "q \<noteq> p \<Longrightarrow> contents h s' q = contents h s q \<and> contents g s' q = contents g s q" by blast+
qed

lemma move_all_moved:
  assumes "inv h s" "inv g s" and "apart h g" and "list_all ok_name cs"
  shows "moved h g s (move_all (api h) (api g) now cs s)"
    and "q \<notin> set cs \<Longrightarrow> contents h (move_all (api h) (api g) now cs s) q = contents h s q"
proof -
  have "moved h g s (move_all (api h) (api g) now cs s) \<and>
      (q \<notin> set cs \<longrightarrow> contents h (move_all (api h) (api g) now cs s) q = contents h s q)"
    using assms
  proof (induction cs arbitrary: s)
    case Nil
    then show ?case by (simp add: move_all_def moved_refl)
  next
    case (Cons c cs)
    obtain s' x where m: "moveFile (api h) (api g) now s c = (s', x)" by fastforce
    note one = moveFile_moved [OF Cons.prems(1,2,3) _ m]
    have ok: "ok_name c" "list_all ok_name cs" using Cons.prems(4) by simp_all
    have step: "move_all (api h) (api g) now (c # cs) s = move_all (api h) (api g) now cs s'"
      by (simp add: move_all_def m)
    show ?case
      unfolding step using Cons.IH [OF moved_inv [OF one(1) [OF ok(1)]] Cons.prems(3) ok(2)] one(1,3) [OF ok(1)]
        moved_trans by auto
  qed
  then show "moved h g s (move_all (api h) (api g) now cs s)"
    "q \<notin> set cs \<Longrightarrow> contents h (move_all (api h) (api g) now cs s) q = contents h s q" by blast+
qed

lemma moved_gone: "moved h g s t \<Longrightarrow> contents h s q = None \<Longrightarrow> contents h t q = None"
  unfolding moved_def by metis

lemma moved_there:
  "moved h g s t \<Longrightarrow> contents h s q = Some d \<Longrightarrow> contents h t q = None \<Longrightarrow> contents g t q = Some d"
  unfolding moved_def by (metis option.distinct(1))

lemma archive_loop_moved:
  assumes "inv h s" "inv g s" and "apart h g" and "list_all ok_name ps"
    and "archive_loop (api h) (api g) now ps s n cs = (s', n', cs', err)"
  shows "moved h g s s' \<and> (\<forall>q. q \<notin> own_files ps \<longrightarrow> contents h s' q = contents h s q) \<and>
    (err = None \<longrightarrow> n' = n + int (length ps) \<and> cs' = cs @ ps \<and>
       (\<forall>p \<in> set ps. contents h s' p = None))"
  using assms
proof (induction ps arbitrary: s n cs)
  case Nil
  then show ?case by (simp add: moved_refl)
next
  case (Cons p ps)
  have ok: "ok_name p" "list_all ok_name ps" "list_all ok_name (companions p)"
    using Cons.prems(4) ok_companion by (auto simp: list_all_iff)
  obtain s1 x where m: "moveFile (api h) (api g) now s p = (s1, x)" by fastforce
  note one = moveFile_moved [OF Cons.prems(1-3) ok(1) m]
  show ?case
  proof (cases x)
    case (Some e)
    with Cons.prems(5) m have "s' = s1" "err \<noteq> None" by auto
    with one show ?thesis by (auto simp: own_files_def)
  next
    case None
    let ?t = "move_all (api h) (api g) now (companions p) s1"
    have t: "moved h g s1 ?t" "\<And>q. q \<notin> set (companions p) \<Longrightarrow> contents h ?t q = contents h s1 q"
      using move_all_moved [OF moved_inv [OF one(1)] Cons.prems(3) ok(3)] by blast+
    have mt: "moved h g s ?t" using moved_trans [OF one(1) t(1)] .
    have "archive_loop (api h) (api g) now ps ?t (n + 1) (cs @ [p]) = (s', n', cs', err)"
      using Cons.prems(5) m None by simp
    from Cons.IH [OF moved_inv [OF t(1)] Cons.prems(3) ok(2) this]
    have rest: "moved h g ?t s'" "\<forall>q. q \<notin> own_files ps \<longrightarrow> contents h s' q = contents h ?t q"
      "err = None \<Longrightarrow> n' = n + 1 + int (length ps) \<and> cs' = (cs @ [p]) @ ps \<and>
         (\<forall>p \<in> set ps. contents h s' p = None)" by simp_all
    have "contents h s1 p = None"
      using moved_gone [OF one(1)] one(2) [OF None] by (cases "contents h s p") auto
    then have p: "contents h s' p = None" using moved_gone [OF moved_trans [OF t(1) rest(1)]] by simp
    show ?thesis
      using moved_trans [OF mt rest(1)] rest p t(2) one(3) by (auto simp: own_files_def)
  qed
qed

lemma archive_run:
  assumes sorts: "slice_sort newer_file srt" and inv: "inv h s" "inv g s" and apart: "apart h g"
    and run: "runArchive srt (api h) (api g) now lastN within s = (s', n, cs, err)"
  shows "moved h g s s'"
    and "list_entries h s False [] = Inr es \<Longrightarrow> bs = srt (filter (\<lambda>e. backup_path (e_Path e)) es) \<Longrightarrow>
      k = nat (archive_keep lastN within now bs) \<Longrightarrow>
      (\<forall>e \<in> set (take k bs). contents h s' (e_Path e) = contents h s (e_Path e)) \<and>
      (err = None \<longrightarrow> n = int (length (drop k bs)) \<and> cs = map e_Path (drop k bs) \<and>
         (\<forall>e \<in> set (drop k bs). contents h s' (e_Path e) = None \<and>
            contents g s' (e_Path e) = contents h s (e_Path e)))"
proof -
  have facts: "moved h g s s' \<and> (\<forall>e \<in> set (take k bs). contents h s' (e_Path e) = contents h s (e_Path e)) \<and>
      (err = None \<longrightarrow> n = int (length (drop k bs)) \<and> cs = map e_Path (drop k bs) \<and>
         (\<forall>e \<in> set (drop k bs). contents h s' (e_Path e) = None \<and>
            contents g s' (e_Path e) = contents h s (e_Path e)))"
    if es: "list_entries h s False [] = Inr es" and bs: "bs = srt (filter (\<lambda>e. backup_path (e_Path e)) es)"
      and k: "k = nat (archive_keep lastN within now bs)" for es bs k
  proof (cases "bs = [] \<or> archive_keep lastN within now bs \<ge> int (length bs)")
    case True
    then have "drop k bs = []" and "s' = s" "n = 0" "cs = []" using run es k by (auto simp: runArchive_def bs Let_def)
    then show ?thesis using moved_refl inv by auto
  next
    case False
    let ?ps = "map e_Path (drop k bs)"
    have set_bs: "set bs = {e \<in> set es. backup_path (e_Path e)}"
      using slice_sort.srt_set [OF sorts] by (auto simp: bs)
    have dist: "distinct (map e_Path bs)"
      using list_ok [OF inv(1) es] slice_sort.srt_distinct_map [OF sorts, of e_Path]
      by (simp add: bs distinct_map_filter)
    have there: "contents h s (e_Path e) \<noteq> None" if "e \<in> set bs" for e
      using that list_ok [OF inv(1) es] by (auto simp: set_bs)
    then have ok: "list_all ok_name ?ps" using contents_ok by (fastforce simp: list_all_iff dest: in_set_dropD)
    have "archive_loop (api h) (api g) (nanos now) ?ps s 0 [] = (s', n, cs, err)"
      using run es False k by (simp add: runArchive_def bs Let_def)
    note loop = archive_loop_moved [OF inv apart ok this]
    have keep: "e_Path e \<notin> own_files ?ps" if e: "e \<in> set (take k bs)" for e
    proof -
      have "backup_path (e_Path e)" using in_set_takeD [OF e] by (simp add: set_bs)
      then have "\<forall>f. e_Path e \<notin> set (companions f)" using companion_not_backup by blast
      moreover have "e_Path e \<notin> set ?ps"
        using e dist append_take_drop_id [of k bs] by (metis disjoint_iff distinct_append map_append image_eqI set_map)
      ultimately show ?thesis by (simp add: own_files_def)
    qed
    show ?thesis
      using loop keep there moved_there by (fastforce dest: in_set_dropD)
  qed
  show "moved h g s s'"
  proof (cases "list_entries h s False []")
    case (Inl e)
    with run moved_refl inv show ?thesis by (auto simp: runArchive_def)
  qed (use facts in blast)
  assume "list_entries h s False [] = Inr es" "bs = srt (filter (\<lambda>e. backup_path (e_Path e)) es)"
    "k = nat (archive_keep lastN within now bs)"
  from facts [OF this] show "(\<forall>e \<in> set (take k bs). contents h s' (e_Path e) = contents h s (e_Path e)) \<and>
      (err = None \<longrightarrow> n = int (length (drop k bs)) \<and> cs = map e_Path (drop k bs) \<and>
         (\<forall>e \<in> set (drop k bs). contents h s' (e_Path e) = None \<and>
            contents g s' (e_Path e) = contents h s (e_Path e)))" by (rule conjunct2)
qed

end

section \<open>The filesystem\<close>

lemma fs_api_mk: "fs_api h = mk_api fs_Upload fs_Download fs_List fs_Delete h"
  by (simp add: fs_api_def mk_api_def)

lemma split_char_append_nosep:
  "d \<notin> set t \<Longrightarrow> split_char d (s @ t) = butlast (split_char d s) @ [last (split_char d s) @ t]"
  by (induction s) (auto split: list.splits)

lemma fs_name_companion: "fs_name p \<Longrightarrow> c \<in> set (companions p) \<Longrightarrow> fs_name c"
proof -
  assume p: "fs_name p" and "c \<in> set (companions p)"
  then obtain e where c: "c = p @ e" "CHR ''/'' \<notin> set e" "length e > 3" by (auto simp: companions_def SidecarName_def)
  have ok: "list_all ok_comp (butlast (comps p))" "ok_comp (last (comps p))"
    using p comps_nonempty [of p] unfolding fs_name_def
    by (auto simp: list_all_iff intro: in_set_butlastD last_in_set)
  then have "ok_comp (last (comps p) @ e)" using c by (cases e; cases "tl e") (auto simp: ok_comp_def append_eq_Cons_conv)
  then show "fs_name c" using ok c by (simp add: fs_name_def comps_def split_char_append_nosep)
qed

interpretation fsc: catalog fs_Upload fs_Download fs_List fs_Delete fs_contents fs_inv fs_apart fs_name
proof unfold_locales
  show "fs_name p \<Longrightarrow> p \<noteq> []" for p by (auto simp: fs_name_def comps_def ok_comp_def)
  show "fs_name p \<Longrightarrow> c \<in> set (companions p) \<Longrightarrow> fs_name c" for p c by (rule fs_name_companion)
qed


interpretation newer_file: strict_weak_order newer_file
  by unfold_locales (auto simp: newer_file_def)

section \<open>Chains\<close>

definition selectable :: "(string \<Rightarrow> bool) \<Rightarrow> entry \<Rightarrow> bool" where
  "selectable P e \<longleftrightarrow> \<not> has_suffix (e_Path e) ''.json'' \<and> P (e_Path e)"

lemma last_entry_Cons:
  "last_entry P (e # es) l ts =
     (if selectable P e \<and> e_ModTime e \<ge> ts then last_entry P es (e_Path e) (e_ModTime e) else last_entry P es l ts)"
  by (simp add: selectable_def)

lemma last_entry_max:
  "last_entry P es l ts = l \<and> (\<forall>e \<in> set es. selectable P e \<longrightarrow> e_ModTime e < ts) \<or>
   (\<exists>e \<in> set es. last_entry P es l ts = e_Path e \<and> selectable P e \<and> e_ModTime e \<ge> ts \<and>
      (\<forall>x \<in> set es. selectable P x \<longrightarrow> e_ModTime x \<le> e_ModTime e))"
proof (induction es arbitrary: l ts)
  case (Cons e es)
  show ?case
  proof (cases "selectable P e \<and> e_ModTime e \<ge> ts")
    case True
    with Cons.IH [of "e_Path e" "e_ModTime e"] show ?thesis unfolding last_entry_Cons by fastforce
  next
    case False
    with Cons.IH [of l ts] show ?thesis unfolding last_entry_Cons by fastforce
  qed
qed simp

definition chain_member :: "string \<Rightarrow> string \<Rightarrow> string \<Rightarrow> string \<Rightarrow> bool" where
  "chain_member dbType dbName host = (\<lambda>p. has_prefix p (backupPrefix dbType dbName host))"

section \<open>Properties\<close>

definition shelf :: "sidecar fs" where
  "shelf = \<lparr>fs_files =
       [([''backup'', ''redis-full-20240101-000000.redis''], \<lparr>f_data = Bytes ''one'', f_mtime = 1\<rparr>),
        ([''backup'', ''redis-full-20240102-000000.redis''], \<lparr>f_data = Bytes ''two'', f_mtime = 2\<rparr>),
        ([''backup'', ''redis-full-20240101-000000.redis.md5''], \<lparr>f_data = Bytes ''sum'', f_mtime = 1\<rparr>)],
     fs_dirs = [[''backup''], [''cold'']]\<rparr>"

lemma shelf_inv: "fs_inv [''backup''] shelf" "fs_inv [''cold''] shelf"
proof -
  have "wf_fs shelf"
    by (rule wf_fsI) (auto simp: shelf_def file_at_def is_dir_def ok_comp_def strict_prefix_def
        prefix_Cons split: if_splits)
  then show "fs_inv [''backup''] shelf" "fs_inv [''cold''] shelf"
    by (simp_all add: fs_inv_def ok_comp_def) (simp_all add: shelf_def file_at_def)
qed

definition shelf_once :: "sidecar fs" where
  "shelf_once = \<lparr>fs_files =
       [([''backup'', ''archive'', ''redis-full-20240101-000000.redis.md5''], \<lparr>f_data = Bytes ''sum'', f_mtime = 9\<rparr>),
        ([''backup'', ''archive'', ''redis-full-20240101-000000.redis''], \<lparr>f_data = Bytes ''one'', f_mtime = 9\<rparr>),
        ([''backup'', ''redis-full-20240102-000000.redis''], \<lparr>f_data = Bytes ''two'', f_mtime = 2\<rparr>)],
     fs_dirs = [[''backup'', ''archive''], [''backup''], [''cold'']]\<rparr>"

definition shelf_sidecar :: sidecar where
  "shelf_sidecar = \<lparr>sc_Format = ''1'', sc_SchemaVersion = 1, sc_Tool = None, sc_Job = None, sc_Trigger = [],
     sc_SessionID = [], sc_RunID = [], sc_Status = ''ok'', sc_DurationMs = 0, sc_RawSize = 0,
     sc_FileName = [], sc_Strategy = ''full'', sc_Protocol = [], sc_SchemaOnly = False, sc_Tables = None,
     sc_Notes = [], sc_Base = [], sc_Position = [], sc_Type = ''redis'', sc_DB = [], sc_Host = [],
     sc_Server = None, sc_Timestamp = [], sc_Checksums = [], sc_Size = 3, sc_Compress = [],
     sc_CompressLevel = 0, sc_CompressThreads = 0, sc_Rsyncable = False, sc_ChainDepth = 0,
     sc_Encryption = None\<rparr>"

text \<open>
  A sidecar that was written is read back as it was, and writing it changes no other
  file of the storage.
\<close>

theorem sidecar_roundtrip:
  assumes "fs_inv base s" and "fs_name p" and "WriteSidecar (fs_api base) json_len now s p sc = (s', None)"
  shows "ReadSidecar (fs_api base) s' p = Some sc \<and> fs_inv base s' \<and>
    (\<forall>q. q \<noteq> SidecarName p \<longrightarrow> fs_contents base s' q = fs_contents base s q)"
  using fsc.sidecar_written [OF assms(1,2) assms(3) [unfolded fs_api_mk]] by (simp add: fs_api_mk)

theorem sidecar_roundtrip_witness:
  "ReadSidecar (fs_api [''backup''])
     (fst (WriteSidecar (fs_api [''backup'']) (\<lambda>_. 7) 9 shelf ''x.redis'' shelf_sidecar)) ''x.redis''
     = Some shelf_sidecar"
proof -
  obtain s' where w: "WriteSidecar (fs_api [''backup'']) (\<lambda>_. 7) 9 shelf ''x.redis'' shelf_sidecar = (s', None)"
    by (simp add: WriteSidecar_def SidecarName_def fs_api_def fs_Upload_def path_join_def MkdirAll_def shelf_def
        file_at_def is_dir_def)
  have "fs_name ''x.redis''" by (simp add: fs_name_def comps_def ok_comp_def)
  from sidecar_roundtrip [OF shelf_inv(1) this w] w show ?thesis by simp
qed







text \<open>
  The default archive is the directory \<open>archive\<close> of the hot storage, which lists it
  too. An archived backup is then a file of the hot storage with the newest time: the
  next run keeps that one and archives the newest backup instead.
\<close>

theorem nested_archive_counts_archived:
  "fst (runArchive (insertion_sort newer_file) (fs_api [''backup'']) (fs_api [''backup'', ''archive''])
     \<lparr>nanos = 9, zone = utc\<rparr> 1 0 shelf) = shelf_once \<and>
   fst (snd (snd (runArchive (insertion_sort newer_file) (fs_api [''backup'']) (fs_api [''backup'', ''archive''])
     \<lparr>nanos = 10, zone = utc\<rparr> 1 0 shelf_once))) = [''redis-full-20240102-000000.redis'']"
proof
  show "fst (runArchive (insertion_sort newer_file) (fs_api [''backup'']) (fs_api [''backup'', ''archive''])
     \<lparr>nanos = 9, zone = utc\<rparr> 1 0 shelf) = shelf_once" by code_simp
  show "fst (snd (snd (runArchive (insertion_sort newer_file) (fs_api [''backup'']) (fs_api [''backup'', ''archive''])
     \<lparr>nanos = 10, zone = utc\<rparr> 1 0 shelf_once))) = [''redis-full-20240102-000000.redis'']" by code_simp
qed

text \<open>
  The parent of a new incremental backup is the backup of the same database and host
  with the latest modification time among those the storage lists, and it is empty only
  when none is listed.
\<close>

theorem chain_parent_latest:
  assumes "api_List st s False [] = Inr es" and "\<forall>e \<in> set es. e_ModTime e \<ge> 0"
    and "P = chain_member dbType dbName host"
  shows "findLastChainParent st s dbType dbName host = [] \<and> (\<forall>e \<in> set es. \<not> selectable P e) \<or>
    (\<exists>e \<in> set es. findLastChainParent st s dbType dbName host = e_Path e \<and> selectable P e \<and>
       (\<forall>x \<in> set es. selectable P x \<longrightarrow> e_ModTime x \<le> e_ModTime e))"
proof -
  have eq: "findLastChainParent st s dbType dbName host = last_entry P es [] 0"
    by (simp add: findLastChainParent_def assms(1,3) chain_member_def)
  show ?thesis unfolding eq using last_entry_max [of P es "[]" 0] assms(2) by (meson not_less)
qed

theorem chain_parent_latest_witness:
  "findLastChainParent (fs_api [''backup'']) shelf ''redis'' [] [] = ''redis-full-20240102-000000.redis''"
proof -
  let ?es = "projr (fs_List [''backup''] shelf False [])" and ?P = "chain_member ''redis'' [] []"
  have list: "api_List (fs_api [''backup'']) shelf False [] = Inr ?es" by code_simp
  have nonneg: "list_all (\<lambda>e. e_ModTime e \<ge> 0) ?es" by code_simp
  have some: "list_ex (selectable ?P) ?es" by code_simp
  have only: "list_all (\<lambda>e. selectable ?P e \<and> list_all (\<lambda>x. selectable ?P x \<longrightarrow> e_ModTime x \<le> e_ModTime e) ?es \<longrightarrow>
      e_Path e = ''redis-full-20240102-000000.redis'') ?es" by code_simp
  have "\<forall>e \<in> set ?es. e_ModTime e \<ge> 0" using nonneg by (simp only: list_all_iff)
  from chain_parent_latest [OF list this refl, of "''redis''" "[]" "[]"] show ?thesis
  proof (elim disjE bexE conjE)
    assume "\<forall>e \<in> set ?es. \<not> selectable ?P e"
    with some have False by (simp only: list_ex_iff) blast
    then show ?thesis ..
  next
    fix e assume "e \<in> set ?es" "selectable ?P e" "\<forall>x \<in> set ?es. selectable ?P x \<longrightarrow> e_ModTime x \<le> e_ModTime e"
      and res: "findLastChainParent (fs_api [''backup'']) shelf ''redis'' [] [] = e_Path e"
    then have "e_Path e = ''redis-full-20240102-000000.redis''"
      using only by (simp only: list_all_iff)
    with res show ?thesis by simp
  qed
qed

text \<open>
  \<open>full_after\<close> never starts a new chain on a storage whose modification times are
  in nanoseconds, as those of the filesystem are: the time is read as seconds, so the
  full backup lies far in the future and its age is negative.
\<close>

theorem full_after_never_due:
  assumes "ch_LastFull chain \<ge> 10 ^ 18" and "nanos now < 10 ^ 27"
  shows "shouldResetChain dur now cfg chain \<noteq> Some (FullTooOld age)"
proof -
  have "nanos now - ch_LastFull chain * ns_second \<le> 0" using assms by simp
  then have "clamp64 (nanos now - ch_LastFull chain * ns_second) \<le> 0" by (simp add: clamp64_def)
  then show ?thesis by (auto simp: shouldResetChain_def split: option.splits if_splits)
qed

theorem full_after_never_due_witness:
  "shouldResetChain (\<lambda>_. Some ns_second) \<lparr>nanos = 1750000000000000000, zone = utc\<rparr> 
     (Some \<lparr>bk_Strategy = ''incremental'', bk_Type = [], bk_Filename = [], bk_CreateLatest = None, bk_SchemaOnly = False,
       bk_FullEvery = 0, bk_FullAfter = ''24h'', bk_unset = {}\<rparr>)
     \<lparr>ch_Depth = 0, ch_LastFull = 1700000000000000000\<rparr> \<noteq> Some (FullTooOld ''24h'')"
  by (rule full_after_never_due) simp_all

end
