(* ===== verification/ResolveJob.thy ===== *)
theory ResolveJob
  imports Config
begin

text \<open>
  Completing a job from profiles and defaults: \<open>resolveJob\<close>, \<open>mergeStorage\<close>,
  \<open>mergeProfileMaps\<close>, \<open>resolveStorage\<close>, \<open>resolveSecrets\<close> and
  \<open>ValidateWithEncryptionProfiles\<close> (\<open>internal/config/config.go\<close>, \<open>jobs.go\<close>,
  \<open>storage.go\<close>). \<open>resolveJob\<close> is split into the paragraphs of the source, applied in the
  same order. The receiver is the loaded configuration, which is never nil.

  The lemmas show which parts every resolved job has, and how values of the job, profiles
  and defaults take precedence.
\<close>

definition mergeProfileMaps :: "'v profiles \<Rightarrow> (string \<times> 'v) list \<Rightarrow> 'v profiles" where
  "mergeProfileMaps flat nested =
     (if nested = [] then flat
      else let f = (case flat of None \<Rightarrow> [] | Some m \<Rightarrow> m)
           in Some (f @ filter (\<lambda>(k, _). map_of f k = None) nested))"

definition mergeStorage :: "storage_config \<Rightarrow> storage_config \<Rightarrow> storage_config" where
  "mergeStorage job prof =
     (let pick = (\<lambda>key get. if key \<notin> st_unset job \<and> get job = [] then get prof else get job)
      in job\<lparr>st_Backend := pick ''backend'' st_Backend, st_Bucket := pick ''bucket'' st_Bucket,
           st_Path := pick ''path'' st_Path, st_Endpoint := pick ''endpoint'' st_Endpoint,
           st_Region := pick ''region'' st_Region, st_KeyID := pick ''key_id'' st_KeyID,
           st_KeySecret := pick ''key_secret'' st_KeySecret, st_FileMode := pick ''file_mode'' st_FileMode,
           st_DirMode := pick ''dir_mode'' st_DirMode, st_User := pick ''user'' st_User,
           st_Group := pick ''group'' st_Group\<rparr>)"

definition keep_or :: "'a option \<Rightarrow> bool \<Rightarrow> 'a option \<Rightarrow> 'a option" where
  "keep_or v ok d = (case v of Some x \<Rightarrow> Some x | None \<Rightarrow> if ok then d else None)"

definition resolve_db_profile :: "job_config \<Rightarrow> db_profile \<Rightarrow> job_config" where
  "resolve_db_profile job prof =
     (let ok = ''databases'' \<notin> j_unset job;
          d0 = (case j_Databases job of None \<Rightarrow> no_databases | Some d \<Rightarrow> d);
          d1 = (if dl_Include d0 = [] \<and> dp_Include prof \<noteq> [] \<and> ok then d0\<lparr>dl_Include := dp_Include prof\<rparr> else d0);
          d2 = (if dl_Include d1 = [] \<and> dp_Name prof \<noteq> [] \<and> ok then d1\<lparr>dl_Include := [dp_Name prof]\<rparr> else d1);
          d3 = (if dl_Exclude d2 = [] \<and> dp_Exclude prof \<noteq> [] \<and> ok then d2\<lparr>dl_Exclude := dp_Exclude prof\<rparr> else d2)
      in job\<lparr>j_Databases := Some (d3\<lparr>
           dl_Routines := keep_or (dl_Routines d3) ok (dp_Routines prof),
           dl_Events := keep_or (dl_Events d3) ok (dp_Events prof),
           dl_Triggers := keep_or (dl_Triggers d3) ok (dp_Triggers prof),
           dl_Views := keep_or (dl_Views d3) ok (dp_Views prof),
           dl_RawBlobs := keep_or (dl_RawBlobs d3) ok (dp_RawBlobs prof),
           dl_Tables := keep_or (dl_Tables d3) (''tables'' \<notin> j_unset job) (dp_Tables prof)\<rparr>)\<rparr>)"

definition resolve_connection :: "job_config \<Rightarrow> conn_config \<Rightarrow> job_config \<times> connectivity_config option" where
  "resolve_connection job conn =
     (let str = (\<lambda>key cur new. if cur = [] \<and> key \<notin> j_unset job then new else cur);
          num = (\<lambda>key cur new. if cur = (0 :: int) \<and> key \<notin> j_unset job then new else cur)
      in (job\<lparr>j_Type := str ''type'' (j_Type job) (cc_Type conn),
            j_Host := str ''host'' (j_Host job) (cc_Host conn),
            j_Port := num ''port'' (j_Port job) (cc_Port conn),
            j_User := str ''user'' (j_User job) (cc_User conn),
            j_Pass := str ''pass'' (j_Pass job) (cc_Pass conn),
            j_Version := num ''version'' (j_Version job) (cc_Version conn),
            j_InfluxMode := str ''influx_mode'' (j_InfluxMode job) (cc_InfluxMode conn),
            j_AuthSource := str ''auth_source'' (j_AuthSource job) (cc_AuthSource conn),
            j_TLS := keep_or (j_TLS job) (''tls'' \<notin> j_unset job) (cc_TLS conn)\<rparr>,
          if ''connectivity'' \<notin> j_unset job then cc_Connectivity conn else None))"

definition resolve_databases :: "main_config \<Rightarrow> job_config \<Rightarrow> job_config \<times> connectivity_config option" where
  "resolve_databases c job =
     (if j_DatabaseRef job = [] then (job, None)
      else case c_Databases c of
             Some _ \<Rightarrow>
               (case lookup_profile (c_Databases c) (j_DatabaseRef job) of
                  Some prof \<Rightarrow>
                    (let job1 = resolve_db_profile job prof
                     in if dp_Connection prof \<noteq> []
                        then (case lookup_profile (c_Connections c) (dp_Connection prof) of
                                Some conn \<Rightarrow> resolve_connection job1 conn
                              | None \<Rightarrow> (job1, None))
                        else (job1, None))
                | None \<Rightarrow>
                    (let d = (case j_Databases job of None \<Rightarrow> no_databases | Some d \<Rightarrow> d)
                     in (job\<lparr>j_Databases := Some (if dl_Include d = []
                           then d\<lparr>dl_Include := [j_DatabaseRef job]\<rparr> else d)\<rparr>, None)))
           | None \<Rightarrow>
               (case j_Databases job of
                  None \<Rightarrow> (job\<lparr>j_Databases := Some (no_databases\<lparr>dl_Include := [j_DatabaseRef job]\<rparr>)\<rparr>, None)
                | Some _ \<Rightarrow> (job, None)))"

definition resolve_schedule :: "job_config \<Rightarrow> job_config" where
  "resolve_schedule job0 =
     (let job = (if j_splitDBSet job0 then job0 else job0\<lparr>j_SplitDB := True\<rparr>)
      in case j_Blackout job of
           None \<Rightarrow> job
         | Some bs \<Rightarrow>
             if bs = [] then job
             else let s = (case j_Schedule job of None \<Rightarrow> empty_schedule | Some s \<Rightarrow> s)
                  in job\<lparr>j_Schedule := Some (if Blackouts s = None \<or> Blackouts s = Some []
                       then s\<lparr>Blackouts := Some bs\<rparr> else s)\<rparr>)"

definition resolve_encryption :: "main_config \<Rightarrow> job_config \<Rightarrow> job_config" where
  "resolve_encryption c job =
     (if j_Encryption job = [] then job
      else case lookup_profile (c_EncryptionProfiles c) (j_Encryption job) of
             None \<Rightarrow> job
           | Some prof \<Rightarrow>
               if en_Passphrase prof \<noteq> []
               then job\<lparr>j_EncryptionType := en_Type prof, j_EncryptionIdentity := en_Passphrase prof,
                      j_EncryptionIdentities := [en_Passphrase prof]\<rparr>
               else job\<lparr>j_EncryptionType := en_Type prof, j_EncryptionIdentities := en_Recipients prof\<rparr>)"

definition resolve_backup_profile :: "main_config \<Rightarrow> job_config \<Rightarrow> job_config" where
  "resolve_backup_profile c job =
     (if j_BackupRef job = [] then job
      else case lookup_profile (c_BackupProfiles c) (j_BackupRef job) of
             None \<Rightarrow> job
           | Some prof \<Rightarrow>
               (let b0 = (case j_Backup job of None \<Rightarrow> no_backup | Some b \<Rightarrow> b);
                    b1 = (if ''strategy'' \<notin> bk_unset b0 \<and> bk_Strategy b0 = [] \<and> bp_Strategy prof \<noteq> []
                          then b0\<lparr>bk_Strategy := bp_Strategy prof\<rparr> else b0);
                    b2 = (if ''filename'' \<notin> bk_unset b1 \<and> bk_Filename b1 = []
                          then b1\<lparr>bk_Filename := bp_Filename prof\<rparr> else b1)
                in job\<lparr>j_Backup := Some b2,
                     j_Compression := keep_or (j_Compression job) (''compression'' \<notin> j_unset job) (bp_Compression prof),
                     j_Checksum := (if j_Checksum job = [] \<and> bp_Checksum prof \<noteq> [] \<and> ''checksum'' \<notin> j_unset job
                                    then bp_Checksum prof else j_Checksum job),
                     j_Retention := keep_or (j_Retention job) (''retention'' \<notin> j_unset job) (bp_Retention prof)\<rparr>))"

definition resolve_storage_profile :: "main_config \<Rightarrow> job_config \<Rightarrow> job_config" where
  "resolve_storage_profile c job =
     (if j_StorageRef job = [] then job
      else case lookup_profile (c_StorageProfiles c) (j_StorageRef job) of
             None \<Rightarrow> job
           | Some prof \<Rightarrow>
               job\<lparr>j_Storage := Some (case j_Storage job of None \<Rightarrow> prof | Some s \<Rightarrow> mergeStorage s prof)\<rparr>)"

definition dflt :: "main_config \<Rightarrow> (defaults_config \<Rightarrow> 'a option) \<Rightarrow> 'a option" where
  "dflt c get = (case c_Defaults c of None \<Rightarrow> None | Some d \<Rightarrow> get d)"

definition resolve_compression :: "main_config \<Rightarrow> job_config \<Rightarrow> job_config" where
  "resolve_compression c job =
     (let cp = (case j_Compression job of
                  Some x \<Rightarrow> x
                | None \<Rightarrow> (case dflt c df_Compression of
                             Some x \<Rightarrow> x
                           | None \<Rightarrow> \<lparr>cp_Type = ''zstd'', cp_Level = 3, cp_Threads = 1, cp_Rsyncable = False\<rparr>));
          cp' = (if ''compression'' \<in> j_unset job then no_compression
                 else cp\<lparr>cp_Type := if cp_Type cp = [] then ''zstd'' else cp_Type cp,
                        cp_Level := if cp_Level cp = 0 then 3 else cp_Level cp\<rparr>)
      in job\<lparr>j_Compression := Some cp'\<rparr>)"

definition resolve_checksum :: "main_config \<Rightarrow> job_config \<Rightarrow> job_config" where
  "resolve_checksum c job =
     (if j_Checksum job \<noteq> [] then job
      else case c_Defaults c of
             Some d \<Rightarrow> job\<lparr>j_Checksum := if ''checksum'' \<notin> j_unset job \<and> df_Checksum d \<noteq> []
                        then df_Checksum d else ''md5''\<rparr>
           | None \<Rightarrow> job\<lparr>j_Checksum := ''md5''\<rparr>)"

definition resolve_storage :: "main_config \<Rightarrow> job_config \<Rightarrow> job_config" where
  "resolve_storage c job =
     (let s0 = (case j_Storage job of
                  Some s \<Rightarrow> s
                | None \<Rightarrow> (case (if ''storage'' \<notin> j_unset job then dflt c df_Storage else None) of
                             Some s \<Rightarrow> s
                           | None \<Rightarrow> no_storage\<lparr>st_Backend := ''filesystem''\<rparr>));
          s1 = (if st_Backend s0 = [] \<and> ''backend'' \<in> st_unset s0 then s0\<lparr>st_Backend := ''filesystem''\<rparr> else s0)
      in job\<lparr>j_Storage := Some (s1\<lparr>
           st_FileMode := if st_FileMode s1 = [] then ''600'' else st_FileMode s1,
           st_DirMode := if st_DirMode s1 = [] then ''700'' else st_DirMode s1\<rparr>)\<rparr>)"

definition resolve_tls_backup :: "main_config \<Rightarrow> job_config \<Rightarrow> job_config" where
  "resolve_tls_backup c job =
     (let tls = (case j_TLS job of
                   Some t \<Rightarrow> t
                 | None \<Rightarrow> (case (if ''tls'' \<notin> j_unset job then dflt c df_TLS else None) of
                              Some t \<Rightarrow> t | None \<Rightarrow> no_tls));
          b = (case keep_or (j_Backup job) (''backup'' \<notin> j_unset job) (dflt c df_Backup) of
                 Some b \<Rightarrow> b | None \<Rightarrow> no_backup)
      in job\<lparr>j_TLS := Some tls, j_Backup := Some b\<rparr>)"

definition resolve_connectivity :: "main_config \<Rightarrow> connectivity_config option \<Rightarrow> job_config \<Rightarrow> job_config" where
  "resolve_connectivity c conn job =
     (let ok = ''connectivity'' \<notin> j_unset job;
          x = (case j_Connectivity job of
                 Some x \<Rightarrow> x
               | None \<Rightarrow>
                   if ok \<and> conn \<noteq> None then the conn
                   else if ok \<and> dflt c df_Connectivity \<noteq> None then the (dflt c df_Connectivity)
                   else \<lparr>cn_Enabled = Some True, cn_Method = ''full'', cn_RetryInterval = 5, cn_Timeout = 30\<rparr>)
      in job\<lparr>j_Connectivity := Some (case Connectivity_Validate x of Inr x' \<Rightarrow> x' | Inl _ \<Rightarrow> x)\<rparr>)"

text \<open>\<open>resolveStorage\<close> of an archive: the named storage profile takes the place of the storage.\<close>

definition resolveStorage :: "main_config \<Rightarrow> archive_config \<Rightarrow> archive_config" where
  "resolveStorage c a =
     (if ac_StorageRef a = [] then a
      else a\<lparr>ac_Storage := lookup_profile (c_StorageProfiles c) (ac_StorageRef a), ac_StorageRef := []\<rparr>)"

definition resolve_rest :: "main_config \<Rightarrow> job_config \<Rightarrow> job_config" where
  "resolve_rest c job =
     (let maint = (if j_Maintenance job = [] then None
                   else lookup_profile (c_MaintenanceProfiles c) (j_Maintenance job));
          arch0 = (case (if j_ArchiveRef job = [] then None
                         else lookup_profile (c_ArchiveProfiles c) (j_ArchiveRef job)) of
                     Some a \<Rightarrow> Some a
                   | None \<Rightarrow> j_Archive job);
          arch = keep_or arch0 (''archive'' \<notin> j_unset job) (dflt c df_Archive)
      in job\<lparr>j_MaintenanceCfg := (case maint of Some m \<Rightarrow> Some m | None \<Rightarrow> j_MaintenanceCfg job),
           j_Retention := keep_or (j_Retention job) (''retention'' \<notin> j_unset job) (dflt c df_Retention),
           j_Archive := map_option (resolveStorage c) arch,
           j_Hooks := keep_or (j_Hooks job) (''hooks'' \<notin> j_unset job) (dflt c df_Hooks),
           j_Progress := keep_or (j_Progress job) (''progress'' \<notin> j_unset job) (dflt c df_Progress)\<rparr>)"

definition resolveJob :: "main_config \<Rightarrow> job_config \<Rightarrow> job_config" where
  "resolveJob c job =
     (case resolve_databases c job of
        (job1, conn) \<Rightarrow>
          resolve_rest c (resolve_connectivity c conn (resolve_tls_backup c (resolve_storage c
            (resolve_checksum c (resolve_compression c (resolve_storage_profile c
              (resolve_backup_profile c (resolve_encryption c (resolve_schedule job1))))))))))"

section \<open>Validation and loading\<close>

definition encryption_types :: "string list" where
  "encryption_types = ['''', ''none'', ''age'', ''gpg'', ''openpgp'', ''pgp'', ''openssl'']"

definition compression_types :: "string list" where
  "compression_types = ['''', ''none'', ''gz'', ''gzip'', ''bz'', ''bzip'', ''bzip2'', ''xz'', ''xzip'', ''zst'', ''zstd'']"

text \<open>
  \<open>ValidateWithEncryptionProfiles\<close>. It may shorten the clock times of the schedule, so the
  job comes back with the result. The two licence answers are parameters.
\<close>

definition ValidateWithEncryptionProfiles ::
  "edition \<Rightarrow> license_check \<Rightarrow> license_check \<Rightarrow> encryption_config profiles \<Rightarrow> job_config \<Rightarrow> config_error + job_config" where
  "ValidateWithEncryptionProfiles ed allowSched allowRet profiles j =
     (if j_Name j = [] then Inl NoName
      else if j_Type j = [] then Inl (NoType (j_Name j))
      else let enc = (case lookup_profile profiles (j_Encryption j) of
                        Some prof \<Rightarrow> en_Type prof
                      | None \<Rightarrow> j_Encryption j)
           in if j_Encryption j \<noteq> [] \<and> enc \<notin> set encryption_types
              then Inl (UnknownEncryption (j_Name j) enc)
              else if (case j_Compression j of
                         None \<Rightarrow> False
                       | Some cp \<Rightarrow> ''compression'' \<notin> j_unset j \<and> to_lower (cp_Type cp) \<notin> set compression_types)
              then Inl (UnknownCompression (j_Name j) (override (map_option cp_Type (j_Compression j)) []))
              else case (case j_Schedule j of
                           None \<Rightarrow> Inr j
                         | Some s \<Rightarrow>
                             (case Schedule_Validate s of
                                Some err \<Rightarrow> Inl (ScheduleInvalid (j_Name j) err)
                              | None \<Rightarrow>
                                  (case enforceCommunityLimits ed allowSched s of
                                     Inl err \<Rightarrow> Inl (ScheduleInvalid (j_Name j) err)
                                   | Inr s' \<Rightarrow> Inr (j\<lparr>j_Schedule := Some s'\<rparr>)))) of
                     Inl err \<Rightarrow> Inl err
                   | Inr j' \<Rightarrow>
                       (case j_Retention j' of
                          None \<Rightarrow> Inr j'
                        | Some r \<Rightarrow>
                            if rc_Within r = [] then Inr j'
                            else (case validateRetentionWithin allowRet (rc_Within r) of
                                    Some err \<Rightarrow> Inl err
                                  | None \<Rightarrow> Inr j')))"

text \<open>The loop of \<open>LoadConfig\<close> over the jobs: resolve and validate, stopping at the first error.\<close>

fun load_jobs ::
  "edition \<Rightarrow> license_check \<Rightarrow> license_check \<Rightarrow> main_config \<Rightarrow> job_config list \<Rightarrow> config_error + job_config list" where
  "load_jobs ed allowSched allowRet c [] = Inr []"
| "load_jobs ed allowSched allowRet c (j # js) =
     (case ValidateWithEncryptionProfiles ed allowSched allowRet (c_EncryptionProfiles c) (resolveJob c j) of
        Inl err \<Rightarrow> Inl err
      | Inr j' \<Rightarrow> (case load_jobs ed allowSched allowRet c js of Inl err \<Rightarrow> Inl err | Inr js' \<Rightarrow> Inr (j' # js')))"

text \<open>Without the licence for incremental backups the chain limits are dropped.\<close>

definition drop_chain_limits :: "license_check \<Rightarrow> job_config \<Rightarrow> job_config" where
  "drop_chain_limits allowIncr job =
     (case j_Backup job of
        None \<Rightarrow> job
      | Some b \<Rightarrow>
          if (bk_FullEvery b > 0 \<or> bk_FullAfter b \<noteq> []) \<and> allowIncr \<noteq> None
          then job\<lparr>j_Backup := Some (b\<lparr>bk_FullEvery := if bk_FullEvery b > 0 then 0 else bk_FullEvery b,
                  bk_FullAfter := []\<rparr>)\<rparr>
          else job)"

section \<open>Lemmas\<close>

lemmas resolve_defs = resolve_schedule_def resolve_encryption_def resolve_backup_profile_def
  resolve_storage_profile_def resolve_compression_def resolve_checksum_def resolve_storage_def
  resolve_tls_backup_def resolve_connectivity_def resolve_rest_def Let_def

text \<open>Only the paragraph on databases touches the connection data.\<close>

lemma resolveJob_connection:
  "j_Type (resolveJob c job) = j_Type (fst (resolve_databases c job))"
  "j_Host (resolveJob c job) = j_Host (fst (resolve_databases c job))"
  "j_User (resolveJob c job) = j_User (fst (resolve_databases c job))"
  "j_Port (resolveJob c job) = j_Port (fst (resolve_databases c job))"
proof -
  have "f (resolveJob c job) = f (fst (resolve_databases c job))"
    if "\<And>c job. f (resolve_rest c job) = f job" "\<And>c x job. f (resolve_connectivity c x job) = f job"
      "\<And>c job. f (resolve_tls_backup c job) = f job" "\<And>c job. f (resolve_storage c job) = f job"
      "\<And>c job. f (resolve_checksum c job) = f job" "\<And>c job. f (resolve_compression c job) = f job"
      "\<And>c job. f (resolve_storage_profile c job) = f job" "\<And>c job. f (resolve_backup_profile c job) = f job"
      "\<And>c job. f (resolve_encryption c job) = f job" "\<And>job. f (resolve_schedule job) = f job" for f :: "job_config \<Rightarrow> 'a"
    unfolding resolveJob_def by (cases "resolve_databases c job") (simp add: that)
  note frame = this
  show "j_Type (resolveJob c job) = j_Type (fst (resolve_databases c job))"
    by (rule frame) (simp_all add: resolve_defs split: option.split)
  show "j_Host (resolveJob c job) = j_Host (fst (resolve_databases c job))"
    by (rule frame) (simp_all add: resolve_defs split: option.split)
  show "j_User (resolveJob c job) = j_User (fst (resolve_databases c job))"
    by (rule frame) (simp_all add: resolve_defs split: option.split)
  show "j_Port (resolveJob c job) = j_Port (fst (resolve_databases c job))"
    by (rule frame) (simp_all add: resolve_defs split: option.split)
qed

lemma resolve_databases_keeps:
  "j_Host job \<noteq> [] \<Longrightarrow> j_Host (fst (resolve_databases c job)) = j_Host job"
  "j_Type job \<noteq> [] \<Longrightarrow> j_Type (fst (resolve_databases c job)) = j_Type job"
  "j_User job \<noteq> [] \<Longrightarrow> j_User (fst (resolve_databases c job)) = j_User job"
  "j_Port job \<noteq> 0 \<Longrightarrow> j_Port (fst (resolve_databases c job)) = j_Port job"
  by (simp_all add: resolve_databases_def resolve_connection_def resolve_db_profile_def Let_def
      split: option.split)

text \<open>The fields that each paragraph leaves alone, as far as later paragraphs rely on them.\<close>

lemma rest_frame [simp]:
  "j_Compression (resolve_rest c j) = j_Compression j" "j_Storage (resolve_rest c j) = j_Storage j"
  "j_TLS (resolve_rest c j) = j_TLS j" "j_Backup (resolve_rest c j) = j_Backup j"
  "j_Connectivity (resolve_rest c j) = j_Connectivity j" "j_Checksum (resolve_rest c j) = j_Checksum j"
  "j_EncryptionType (resolve_rest c j) = j_EncryptionType j"
  by (simp_all add: resolve_rest_def Let_def)

lemma connectivity_frame [simp]:
  "j_Compression (resolve_connectivity c x j) = j_Compression j" "j_Storage (resolve_connectivity c x j) = j_Storage j"
  "j_TLS (resolve_connectivity c x j) = j_TLS j" "j_Backup (resolve_connectivity c x j) = j_Backup j"
  "j_Checksum (resolve_connectivity c x j) = j_Checksum j" "j_EncryptionType (resolve_connectivity c x j) = j_EncryptionType j"
  by (simp_all add: resolve_connectivity_def Let_def)

lemma tls_backup_frame [simp]:
  "j_Compression (resolve_tls_backup c j) = j_Compression j" "j_Storage (resolve_tls_backup c j) = j_Storage j"
  "j_Checksum (resolve_tls_backup c j) = j_Checksum j" "j_EncryptionType (resolve_tls_backup c j) = j_EncryptionType j"
  by (simp_all add: resolve_tls_backup_def Let_def)

lemma storage_frame [simp]:
  "j_Compression (resolve_storage c j) = j_Compression j" "j_Checksum (resolve_storage c j) = j_Checksum j"
  "j_EncryptionType (resolve_storage c j) = j_EncryptionType j"
  by (simp_all add: resolve_storage_def Let_def)

lemma checksum_frame [simp]:
  "j_Compression (resolve_checksum c j) = j_Compression j" "j_EncryptionType (resolve_checksum c j) = j_EncryptionType j"
  by (simp_all add: resolve_checksum_def split: option.split)

lemma early_frame [simp]:
  "j_EncryptionType (resolve_compression c j) = j_EncryptionType j"
  "j_EncryptionType (resolve_storage_profile c j) = j_EncryptionType j"
  "j_EncryptionType (resolve_backup_profile c j) = j_EncryptionType j"
  by (simp_all add: resolve_compression_def resolve_storage_profile_def resolve_backup_profile_def Let_def
      split: option.split)

lemma stage_sets [simp]:
  "j_Compression (resolve_compression c j) \<noteq> None" "j_Connectivity (resolve_connectivity c x j) \<noteq> None"
  "j_TLS (resolve_tls_backup c j) \<noteq> None" "j_Backup (resolve_tls_backup c j) \<noteq> None"
  "j_Storage (resolve_storage c j) \<noteq> None"
  by (simp_all add: resolve_compression_def resolve_connectivity_def resolve_tls_backup_def
      resolve_storage_def Let_def)

lemma resolved_parts:
  "j_Compression (resolveJob c job) \<noteq> None \<and> j_Storage (resolveJob c job) \<noteq> None \<and>
   j_TLS (resolveJob c job) \<noteq> None \<and> j_Backup (resolveJob c job) \<noteq> None \<and>
   j_Connectivity (resolveJob c job) \<noteq> None"
  unfolding resolveJob_def by (cases "resolve_databases c job") (simp del: not_None_eq)

lemma resolved_storage:
  "\<exists>s. j_Storage (resolveJob c job) = Some s \<and> st_FileMode s \<noteq> [] \<and> st_DirMode s \<noteq> []"
  unfolding resolveJob_def
  by (cases "resolve_databases c job") (simp add: resolve_storage_def Let_def)

lemma resolved_checksum: "j_Checksum (resolveJob c job) \<noteq> []"
proof -
  have "j_Checksum (resolve_checksum c j) \<noteq> []" for j
    by (simp add: resolve_checksum_def split: option.split)
  then show ?thesis
    unfolding resolveJob_def by (cases "resolve_databases c job") simp
qed

lemma databases_frame:
  "j_Encryption (fst (resolve_databases c job)) = j_Encryption job"
  "j_EncryptionType (fst (resolve_databases c job)) = j_EncryptionType job"
  by (simp_all add: resolve_databases_def resolve_connection_def resolve_db_profile_def Let_def
      split: option.split)

lemma resolved_encryption:
  "j_EncryptionType (resolveJob c job) =
     (case lookup_profile (c_EncryptionProfiles c) (j_Encryption job) of
        Some prof \<Rightarrow> if j_Encryption job = [] then j_EncryptionType job else en_Type prof
      | None \<Rightarrow> j_EncryptionType job)"
proof -
  obtain job1 conn where d: "resolve_databases c job = (job1, conn)" by fastforce
  then have same: "j_Encryption job1 = j_Encryption job" "j_EncryptionType job1 = j_EncryptionType job"
    using databases_frame [of c job] by simp_all
  have sched: "j_Encryption (resolve_schedule job1) = j_Encryption job" "j_EncryptionType (resolve_schedule job1) = j_EncryptionType job"
    using same by (simp_all add: resolve_schedule_def Let_def split: option.split)
  show ?thesis
    unfolding resolveJob_def d prod.case by (simp add: resolve_encryption_def sched split: option.split)
qed

section \<open>Properties\<close>

definition sample_job :: job_config where
  "sample_job = \<lparr>j_Name = ''nightly'', j_Type = ''mysql'', j_Host = ''db1'', j_Port = 3306, j_User = ''root'',
     j_Pass = [], j_Databases = None, j_Schedule = None, j_Blackout = None, j_Compression = None,
     j_Checksum = [], j_Storage = None, j_TLS = None, j_Backup = None, j_Maintenance = [],
     j_Encryption = ''age'', j_Version = 0, j_InfluxMode = [], j_Connectivity = None, j_AuthSource = [],
     j_Retention = None, j_Archive = None, j_Hooks = None, j_Progress = None, j_SplitDB = False,
     j_DatabaseRef = [], j_StorageRef = [], j_BackupRef = [], j_ArchiveRef = [], j_EncryptionType = [],
     j_EncryptionIdentity = [], j_EncryptionIdentities = [], j_MaintenanceCfg = None, j_RunID = [],
     j_unset = {}, j_splitDBSet = False\<rparr>"

definition sample_config :: main_config where
  "sample_config = \<lparr>c_Defaults = None, c_Jobs = [sample_job], c_Connections = None, c_Databases = None,
     c_StorageProfiles = None, c_BackupProfiles = None, c_MaintenanceProfiles = None,
     c_EncryptionProfiles = None, c_ArchiveProfiles = None\<rparr>"

text \<open>
  (C39) Whatever the job leaves out, the resolved job has a compression, a storage, TLS, a
  backup and a connectivity section, a checksum type and file modes, so the runner never
  follows a nil pointer to them.
\<close>

theorem resolved_job_complete:
  "j_Compression (resolveJob c job) \<noteq> None \<and> j_TLS (resolveJob c job) \<noteq> None \<and>
   j_Backup (resolveJob c job) \<noteq> None \<and> j_Connectivity (resolveJob c job) \<noteq> None \<and>
   j_Checksum (resolveJob c job) \<noteq> [] \<and>
   (\<exists>s. j_Storage (resolveJob c job) = Some s \<and> st_FileMode s \<noteq> [] \<and> st_DirMode s \<noteq> [])"
  using resolved_parts resolved_storage resolved_checksum by blast

text \<open>
  Connection data given in the job itself is never replaced by a profile.
\<close>

theorem job_connection_wins:
  assumes "j_Type job \<noteq> []" and "j_Host job \<noteq> []" and "j_User job \<noteq> []" and "j_Port job \<noteq> 0"
  shows "j_Type (resolveJob c job) = j_Type job \<and> j_Host (resolveJob c job) = j_Host job \<and>
    j_User (resolveJob c job) = j_User job \<and> j_Port (resolveJob c job) = j_Port job"
  using assms by (simp add: resolveJob_connection resolve_databases_keeps)

theorem job_connection_wins_witness:
  "j_Type (resolveJob sample_config sample_job) = ''mysql'' \<and> j_Host (resolveJob sample_config sample_job) = ''db1''"
  using job_connection_wins [of sample_job sample_config] by (simp add: sample_job_def)

text \<open>
  A job that names an encryption type directly, as the validation allows, and not a
  profile, is resolved without any encryption type: its backups are written in the clear.
\<close>

theorem named_encryption_ignored:
  assumes "lookup_profile (c_EncryptionProfiles c) (j_Encryption job) = None" and "j_EncryptionType job = []"
  shows "j_EncryptionType (resolveJob c job) = []"
  using assms by (simp add: resolved_encryption)

theorem named_encryption_ignored_witness:
  "ValidateWithEncryptionProfiles Supported None None None (resolveJob sample_config sample_job) =
     Inr (resolveJob sample_config sample_job) \<and>
   j_Encryption sample_job = ''age'' \<and> j_EncryptionType (resolveJob sample_config sample_job) = []"
proof (intro conjI)
  show "ValidateWithEncryptionProfiles Supported None None None (resolveJob sample_config sample_job) =
     Inr (resolveJob sample_config sample_job)" by code_simp
  show "j_Encryption sample_job = ''age''" by (simp add: sample_job_def)
  show "j_EncryptionType (resolveJob sample_config sample_job) = []"
    by (rule named_encryption_ignored) (simp_all add: sample_job_def sample_config_def lookup_profile_def)
qed

text \<open>
  A job that refers to a storage profile by name gets an empty storage section of its
  own, and the merge then leaves out the URL, the account, the keys, the password and the
  TLS settings of the profile, so a WebDAV or Azure profile loses its address.
\<close>

theorem storage_reference_loses_address:
  assumes "j_StorageRef job = name" and "name \<noteq> []" and "j_Storage job = Some no_storage"
    and "lookup_profile (c_StorageProfiles c) name = Some prof"
  shows "\<exists>s. j_Storage (resolve_storage_profile c job) = Some s \<and> st_Backend s = st_Backend prof \<and>
    st_URL s = [] \<and> st_Pass s = [] \<and> st_Account s = [] \<and> st_Key s = [] \<and> st_TLS s = None"
  using assms by (simp add: resolve_storage_profile_def mergeStorage_def no_storage_def)

theorem storage_reference_loses_address_witness:
  "\<exists>s. j_Storage (resolve_storage_profile
      (sample_config\<lparr>c_StorageProfiles := Some [(''dav'', no_storage\<lparr>st_Backend := ''webdav'', st_URL := ''https://d''\<rparr>)]\<rparr>)
      (sample_job\<lparr>j_StorageRef := ''dav'', j_Storage := Some no_storage\<rparr>)) = Some s \<and>
     st_Backend s = ''webdav'' \<and> st_URL s = []"
proof -
  let ?p = "no_storage\<lparr>st_Backend := ''webdav'', st_URL := ''https://d''\<rparr>"
  let ?c = "sample_config\<lparr>c_StorageProfiles := Some [(''dav'', ?p)]\<rparr>"
  let ?j = "sample_job\<lparr>j_StorageRef := ''dav'', j_Storage := Some no_storage\<rparr>"
  have "\<exists>s. j_Storage (resolve_storage_profile ?c ?j) = Some s \<and> st_Backend s = st_Backend ?p \<and>
    st_URL s = [] \<and> st_Pass s = [] \<and> st_Account s = [] \<and> st_Key s = [] \<and> st_TLS s = None"
    by (rule storage_reference_loses_address [of _ "''dav''"]) (simp_all add: lookup_profile_def)
  then show ?thesis by auto
qed

end
