(* ===== verification/Compress.thy ===== *)
theory Compress
  imports Prelude "HOL-Library.Word"
begin

text \<open>
  Compression and checksums (\<open>internal/compress/compress.go\<close>,
  \<open>internal/checksum/checksum.go\<close>): the tables of names and extensions, the levels, and
  the writer that cuts its input into segments, compresses them concurrently and writes
  the results in order. The compressors and hash functions themselves are library code.

  The workers of the writer finish in any order, so \<open>collect\<close> is modelled on the list
  of results in the order in which they arrive. The lemmas show that the segments are
  those of the input, that every order of arrival gives the same output, and that after an
  error nothing but a prefix of that output has been written.
\<close>

section \<open>Tables\<close>

datatype compress_type = CNone | Gzip | Bzip2 | XZip | Zstd

definition compress_name :: "compress_type \<Rightarrow> string" where
  "compress_name t =
     (case t of CNone \<Rightarrow> ''none'' | Gzip \<Rightarrow> ''gz'' | Bzip2 \<Rightarrow> ''bz'' | XZip \<Rightarrow> ''xz'' | Zstd \<Rightarrow> ''zstd'')"

definition compress_Extension :: "compress_type \<Rightarrow> string" where
  "compress_Extension t =
     (case t of Bzip2 \<Rightarrow> ''.bz2'' | Gzip \<Rightarrow> ''.gz'' | XZip \<Rightarrow> ''.xz'' | Zstd \<Rightarrow> ''.zst'' | CNone \<Rightarrow> [])"

definition FromExtension :: "string \<Rightarrow> compress_type" where
  "FromExtension ext =
     (let e = to_lower ext
      in if e = ''.bz'' \<or> e = ''.bz2'' then Bzip2
         else if e = ''.gz'' then Gzip
         else if e = ''.xz'' then XZip
         else if e = ''.zst'' \<or> e = ''.zstd'' then Zstd
         else CNone)"

definition compress_Parse :: "string \<Rightarrow> compress_type" where
  "compress_Parse s =
     (let t = to_lower s
      in if t = ''bz'' \<or> t = ''bzip'' \<or> t = ''bzip2'' then Bzip2
         else if t = ''gz'' \<or> t = ''gzip'' then Gzip
         else if t = ''xz'' \<or> t = ''xzip'' then XZip
         else if t = ''zst'' \<or> t = ''zstd'' then Zstd
         else CNone)"

text \<open>How a compressor is set up: the level in force and, for the segmented writer, its workers.\<close>

datatype compress_plan =
    Plain
  | Stream int
  | Segmented int int
  | StreamWorkers int int

record compress_options =
  co_Threads :: int
  co_Rsyncable :: bool

definition Compress_plan :: "compress_type \<Rightarrow> int \<Rightarrow> compress_options \<Rightarrow> compress_plan" where
  "Compress_plan t level opts =
     (let nine = (if level < 1 \<or> level > 9 then 3 else level);
          nineteen = (if level < 1 \<or> level > 19 then 3 else level);
          threads = (if co_Threads opts < 1 then 1 else co_Threads opts)
      in case t of
           CNone \<Rightarrow> Plain
         | XZip \<Rightarrow> Plain
         | Bzip2 \<Rightarrow> Stream nine
         | Gzip \<Rightarrow> if co_Rsyncable opts \<or> co_Threads opts > 1 then Segmented threads nine else Stream nine
         | Zstd \<Rightarrow>
             if co_Rsyncable opts then Segmented threads nineteen
             else if co_Threads opts \<ge> 1 then StreamWorkers (co_Threads opts) nineteen
             else Stream nineteen)"

datatype checksum_type = SumNone | MD5 | SHA1

definition checksum_Parse :: "string \<Rightarrow> checksum_type" where
  "checksum_Parse s =
     (let t = to_lower s
      in if t = ''md5'' then MD5 else if t = ''sha1'' \<or> t = ''sha-1'' then SHA1 else SumNone)"

section \<open>The segmented writer\<close>

type_synonym byte = "8 word"

text \<open>An \<open>io.Writer\<close> with its state; the second result is the error of the write.\<close>

type_synonym ('o, 'e) sink = "'o \<Rightarrow> byte list \<Rightarrow> 'o \<times> 'e option"

definition buffer_sink :: "(byte list, 'e) sink" where
  "buffer_sink out p = (out @ p, None)"

definition rsyncSegmentSize :: nat where
  "rsyncSegmentSize = 2 ^ 20"

text \<open>
  \<open>cur\<close> is the segment being filled, \<open>segs\<close> the segments submitted so far in the order of
  their sequence numbers, which \<open>submit\<close> counts from 0.
\<close>

record chunk_writer =
  cw_cur :: "byte list"
  cw_segs :: "byte list list"
  cw_closed :: bool

definition new_chunk_writer :: chunk_writer where
  "new_chunk_writer = \<lparr>cw_cur = [], cw_segs = [], cw_closed = False\<rparr>"

definition submit :: "chunk_writer \<Rightarrow> chunk_writer" where
  "submit w = w\<lparr>cw_segs := cw_segs w @ [cw_cur w], cw_cur := []\<rparr>"

function chunk_fill :: "nat \<Rightarrow> chunk_writer \<Rightarrow> byte list \<Rightarrow> chunk_writer" where
  "chunk_fill sz w p =
     (if p = [] then w
      else let room = sz - length (cw_cur w); n = min room (length p);
               w1 = w\<lparr>cw_cur := cw_cur w @ take n p\<rparr>;
               w2 = (if length (cw_cur w1) = sz then submit w1 else w1)
           in if n = 0 then w else chunk_fill sz w2 (drop n p))"
  by pat_completeness auto
termination
  by (relation "measure (\<lambda>(_, _, p). length p)") auto

declare chunk_fill.simps [simp del]

definition chunk_Write :: "nat \<Rightarrow> chunk_writer \<Rightarrow> byte list \<Rightarrow> chunk_writer \<times> nat option" where
  "chunk_Write sz w p = (if cw_closed w then (w, None) else (chunk_fill sz w p, Some (length p)))"

definition chunk_Close :: "chunk_writer \<Rightarrow> chunk_writer" where
  "chunk_Close w =
     (if cw_closed w then w
      else let w1 = w\<lparr>cw_closed := True\<rparr> in if cw_cur w1 \<noteq> [] then submit w1 else w1)"

text \<open>The result of one worker, and the state of \<open>collect\<close>.\<close>

record 'e chunk_result =
  cr_seq :: nat
  cr_buf :: "byte list"
  cr_err :: "'e option"

record ('o, 'e) collector =
  cl_out :: 'o
  cl_next :: nat
  cl_pending :: "nat \<rightharpoonup> byte list"
  cl_err :: "'e option"

text \<open>
  Writing the results that wait for their turn. Each round removes one of them, so as many
  rounds as there are results at most suffice; \<open>n\<close> bounds them.
\<close>

fun flush_pending :: "nat \<Rightarrow> ('o, 'e) sink \<Rightarrow> ('o, 'e) collector \<Rightarrow> ('o, 'e) collector" where
  "flush_pending 0 wr c = c"
| "flush_pending (Suc n) wr c =
     (case cl_pending c (cl_next c) of
        None \<Rightarrow> c
      | Some b \<Rightarrow>
          (case wr (cl_out c) b of
             (out', Some e) \<Rightarrow> c\<lparr>cl_out := out', cl_err := Some e\<rparr>
           | (out', None) \<Rightarrow>
               flush_pending n wr (c\<lparr>cl_out := out', cl_pending := (cl_pending c)(cl_next c := None),
                 cl_next := cl_next c + 1\<rparr>)))"

definition collect_step ::
  "nat \<Rightarrow> ('o, 'e) sink \<Rightarrow> 'e chunk_result \<Rightarrow> ('o, 'e) collector \<Rightarrow> ('o, 'e) collector" where
  "collect_step n wr res c =
     (if cl_err c \<noteq> None then c
      else case cr_err res of
             Some e \<Rightarrow> c\<lparr>cl_err := Some e\<rparr>
           | None \<Rightarrow>
               if cr_seq res = cl_next c
               then (case wr (cl_out c) (cr_buf res) of
                       (out', Some e) \<Rightarrow> c\<lparr>cl_out := out', cl_err := Some e\<rparr>
                     | (out', None) \<Rightarrow> flush_pending n wr (c\<lparr>cl_out := out', cl_next := cl_next c + 1\<rparr>))
               else c\<lparr>cl_pending := (cl_pending c)(cr_seq res \<mapsto> cr_buf res)\<rparr>)"

definition collect :: "('o, 'e) sink \<Rightarrow> 'o \<Rightarrow> 'e chunk_result list \<Rightarrow> ('o, 'e) collector" where
  "collect wr out results =
     fold (collect_step (length results) wr) results
       \<lparr>cl_out = out, cl_next = 0, cl_pending = Map.empty, cl_err = None\<rparr>"

text \<open>What the worker of segment \<open>i\<close> sends; \<open>enc\<close> is the compressor of a segment.\<close>

definition work :: "(byte list \<Rightarrow> byte list) \<Rightarrow> byte list list \<Rightarrow> nat \<Rightarrow> 'e chunk_result" where
  "work enc segs i = \<lparr>cr_seq = i, cr_buf = enc (segs ! i), cr_err = None\<rparr>"

section \<open>Segments\<close>

definition chunk_inv :: "nat \<Rightarrow> chunk_writer \<Rightarrow> bool" where
  "chunk_inv sz w \<longleftrightarrow> length (cw_cur w) < sz \<and> (\<forall>s \<in> set (cw_segs w). length s = sz)"

definition chunk_data :: "chunk_writer \<Rightarrow> byte list" where
  "chunk_data w = concat (cw_segs w) @ cw_cur w"

lemma chunk_data_submit [simp]: "chunk_data (submit w) = chunk_data w"
  by (simp add: chunk_data_def submit_def)

lemma chunk_fill_spec:
  "chunk_inv sz w \<Longrightarrow> chunk_inv sz (chunk_fill sz w p) \<and>
     chunk_data (chunk_fill sz w p) = chunk_data w @ p \<and> cw_closed (chunk_fill sz w p) = cw_closed w"
proof (induction sz w p rule: chunk_fill.induct)
  case (1 sz w p)
  show ?case
  proof (cases "p = []")
    case True
    with 1 show ?thesis by (simp add: chunk_fill.simps)
  next
    case False
    define n where "n = min (sz - length (cw_cur w)) (length p)"
    define w1 where "w1 = w\<lparr>cw_cur := cw_cur w @ take n p\<rparr>"
    define w2 where "w2 = (if length (cw_cur w1) = sz then submit w1 else w1)"
    have n: "n \<noteq> 0" "n \<le> length p" "n \<le> sz - length (cw_cur w)"
      using False "1.prems" by (auto simp: n_def chunk_inv_def)
    have step: "chunk_fill sz w p = chunk_fill sz w2 (drop n p)"
      using False n(1) by (subst chunk_fill.simps) (simp add: Let_def n_def w1_def w2_def)
    have inv: "chunk_inv sz w2"
      using "1.prems" n by (auto simp: chunk_inv_def w2_def w1_def submit_def)
    have data: "chunk_data w2 = chunk_data w @ take n p" "cw_closed w2 = cw_closed w"
      by (simp_all add: w2_def w1_def chunk_data_def submit_def)
    from "1.IH" [OF False refl n_def w1_def w2_def n(1) inv] show ?thesis unfolding step using data by simp
  qed
qed

text \<open>Everything that was written, in any pieces, and then closed.\<close>

definition chunked :: "nat \<Rightarrow> byte list list \<Rightarrow> byte list list" where
  "chunked sz ps = cw_segs (chunk_Close (fold (\<lambda>p w. fst (chunk_Write sz w p)) ps new_chunk_writer))"

lemma chunk_writes_spec:
  assumes "chunk_inv sz w" and "\<not> cw_closed w" and "w' = fold (\<lambda>p w. fst (chunk_Write sz w p)) ps w"
  shows "chunk_inv sz w' \<and> \<not> cw_closed w' \<and> chunk_data w' = chunk_data w @ concat ps"
  using assms(1,2) unfolding assms(3)
proof (induction ps arbitrary: w)
  case (Cons p ps)
  have "fst (chunk_Write sz w p) = chunk_fill sz w p" using Cons.prems(2) by (simp add: chunk_Write_def)
  with Cons chunk_fill_spec [OF Cons.prems(1), of p] show ?case by simp
qed simp

lemma chunked_spec:
  assumes "0 < sz"
  shows "concat (chunked sz ps) = concat ps" and "\<forall>s \<in> set (chunked sz ps). 0 < length s \<and> length s \<le> sz"
    and "\<forall>s \<in> set (butlast (chunked sz ps)). length s = sz"
proof -
  let ?w = "fold (\<lambda>p w. fst (chunk_Write sz w p)) ps new_chunk_writer"
  have w: "chunk_inv sz ?w" "\<not> cw_closed ?w" "chunk_data ?w = concat ps"
    using chunk_writes_spec [of sz new_chunk_writer ?w ps] assms
    by (auto simp: new_chunk_writer_def chunk_inv_def chunk_data_def)
  have eq: "chunked sz ps = (if cw_cur ?w = [] then cw_segs ?w else cw_segs ?w @ [cw_cur ?w])"
    using w(2) by (simp add: chunked_def chunk_Close_def submit_def)
  show "concat (chunked sz ps) = concat ps" using w(3) by (cases "cw_cur ?w = []") (simp_all add: eq chunk_data_def)
  show "\<forall>s \<in> set (chunked sz ps). 0 < length s \<and> length s \<le> sz"
    using w(1) assms by (auto simp: eq chunk_inv_def)
  show "\<forall>s \<in> set (butlast (chunked sz ps)). length s = sz"
    using w(1) by (auto simp: eq chunk_inv_def dest: in_set_butlastD)
qed

section \<open>Reassembly\<close>

text \<open>
  The state of \<open>collect\<close> after the results with the numbers \<open>S\<close> have arrived: the output
  is that of the first \<open>next\<close> buffers, and the later ones that arrived are pending.
\<close>

definition collected :: "byte list list \<Rightarrow> nat set \<Rightarrow> (byte list, 'e) collector \<Rightarrow> bool" where
  "collected bufs S c \<longleftrightarrow> cl_out c = concat (take (cl_next c) bufs) \<and> {..<cl_next c} \<subseteq> S \<and>
     cl_pending c = (\<lambda>j. if j \<in> S \<and> cl_next c \<le> j then Some (bufs ! j) else None)"

lemma flush_collected:
  assumes "collected bufs S c" and "cl_err c = None" and "S \<subseteq> {..<length bufs}"
    and "card {j \<in> S. cl_next c \<le> j} \<le> n"
  shows "collected bufs S (flush_pending n buffer_sink c) \<and> cl_err (flush_pending n buffer_sink c) = None \<and>
    cl_next (flush_pending n buffer_sink c) \<notin> S"
  using assms
proof (induction n arbitrary: c)
  case 0
  then have "{j \<in> S. cl_next c \<le> j} = {}" using finite_subset [OF "0.prems"(3)] by simp
  with 0 show ?case by auto
next
  case (Suc n)
  have fin: "finite S" using finite_subset [OF Suc.prems(3)] by simp
  show ?case
  proof (cases "cl_next c \<in> S")
    case False
    with Suc.prems(1,2) show ?thesis by (simp add: collected_def)
  next
    case True
    let ?c = "c\<lparr>cl_out := cl_out c @ bufs ! cl_next c, cl_pending := (cl_pending c)(cl_next c := None),
                 cl_next := cl_next c + 1\<rparr>"
    have step: "flush_pending (Suc n) buffer_sink c = flush_pending n buffer_sink ?c"
      using True Suc.prems(1) by (simp add: collected_def buffer_sink_def)
    have "cl_next c < length bufs" using True Suc.prems(3) by auto
    then have coll: "collected bufs S ?c"
      using Suc.prems(1) True by (auto simp: collected_def take_Suc_conv_app_nth lessThan_Suc fun_eq_iff)
    have "{j \<in> S. cl_next c \<le> j} = insert (cl_next c) {j \<in> S. cl_next c + 1 \<le> j}" using True by auto
    then have "card {j \<in> S. cl_next ?c \<le> j} \<le> n" using Suc.prems(4) fin by (simp add: card_insert_if)
    from Suc.IH [OF coll _ Suc.prems(3) this] Suc.prems(2) show ?thesis unfolding step by simp
  qed
qed

lemma collect_step_collected:
  assumes "collected bufs S c" and "cl_err c = None" and "cl_next c \<notin> S"
    and "insert i S \<subseteq> {..<length bufs}" and "i \<notin> S" and "length bufs \<le> n"
    and c'_def: "c' = collect_step n buffer_sink \<lparr>cr_seq = i, cr_buf = bufs ! i, cr_err = None\<rparr> c"
  shows "collected bufs (insert i S) c' \<and> cl_err c' = None \<and> cl_next c' \<notin> insert i S"
proof (cases "i = cl_next c")
  case True
  let ?c = "c\<lparr>cl_out := cl_out c @ bufs ! i, cl_next := cl_next c + 1\<rparr>"
  have c': "c' = flush_pending n buffer_sink ?c"
    using assms(2) True by (simp add: c'_def collect_step_def buffer_sink_def)
  have "Suc i \<le> j \<longleftrightarrow> i \<le> j" if "j \<in> S" for j
    using that assms(5) by (cases "j = i") auto
  then have "collected bufs (insert i S) ?c"
    using assms(1,4) True by (auto simp: collected_def take_Suc_conv_app_nth lessThan_Suc fun_eq_iff)
  moreover have "card {j \<in> insert i S. cl_next ?c \<le> j} \<le> n"
    using card_mono [of "{..<length bufs}" "{j \<in> insert i S. cl_next ?c \<le> j}"] assms(4,6) by force
  ultimately show ?thesis unfolding c' using assms(2,4) by (intro flush_collected) simp_all
next
  case False
  have "\<not> i < cl_next c" using assms(1,5) by (auto simp: collected_def)
  with False assms(1,2,3) show ?thesis
    by (auto simp: c'_def collect_step_def collected_def fun_eq_iff)
qed

lemma collect_fold:
  assumes "collected bufs S c" and "cl_err c = None" and "cl_next c \<notin> S" and "length bufs \<le> n"
    and "distinct is" and "set is \<inter> S = {}" and "set is \<union> S \<subseteq> {..<length bufs}"
    and c'_def: "c' = fold (collect_step n buffer_sink)
    (map (\<lambda>i. \<lparr>cr_seq = i, cr_buf = bufs ! i, cr_err = None\<rparr>) is) c"
  shows "collected bufs (set is \<union> S) c' \<and> cl_err c' = None \<and> cl_next c' \<notin> set is \<union> S"
  using assms(1-7) unfolding c'_def
proof (induction "is" arbitrary: S c)
  case (Cons i js)
  let ?c = "collect_step n buffer_sink \<lparr>cr_seq = i, cr_buf = bufs ! i, cr_err = None\<rparr> c"
  have one: "collected bufs (insert i S) ?c \<and> cl_err ?c = None \<and> cl_next ?c \<notin> insert i S"
    using Cons.prems by (intro collect_step_collected [where S = S and c = c]) auto
  from Cons.IH [of "insert i S" ?c] one Cons.prems show ?case by auto
qed simp

text \<open>Whatever errors occur, what was written is the output of the first \<open>next\<close> buffers.\<close>

definition written_upto :: "byte list list \<Rightarrow> (byte list, 'e) collector \<Rightarrow> bool" where
  "written_upto bufs c \<longleftrightarrow> cl_out c = concat (take (cl_next c) bufs) \<and> cl_next c \<le> length bufs \<and>
     (\<forall>j b. cl_pending c j = Some b \<longrightarrow> j < length bufs \<and> b = bufs ! j)"

lemma flush_written: "written_upto bufs c \<Longrightarrow> written_upto bufs (flush_pending n buffer_sink c)"
proof (induction n arbitrary: c)
  case (Suc n)
  show ?case
  proof (cases "cl_pending c (cl_next c)")
    case (Some b)
    let ?c = "c\<lparr>cl_out := cl_out c @ b, cl_pending := (cl_pending c)(cl_next c := None), cl_next := cl_next c + 1\<rparr>"
    from Some Suc.prems have "cl_next c < length bufs" "b = bufs ! cl_next c" by (auto simp: written_upto_def)
    with Suc.prems have "written_upto bufs ?c" by (simp add: written_upto_def take_Suc_conv_app_nth)
    then have "written_upto bufs (flush_pending n buffer_sink ?c)" by (rule Suc.IH)
    with Some show ?thesis by (simp add: buffer_sink_def [of "cl_out c"])
  qed (use Suc.prems in simp)
qed simp

lemma collect_step_written:
  assumes "written_upto bufs c" and "cr_err res = None \<Longrightarrow> cr_seq res < length bufs \<and> cr_buf res = bufs ! cr_seq res"
  shows "written_upto bufs (collect_step n buffer_sink res c)"
proof -
  consider "cl_err c \<noteq> None \<or> cr_err res \<noteq> None" | "cl_err c = None" "cr_err res = None" "cr_seq res = cl_next c"
    | "cl_err c = None" "cr_err res = None" "cr_seq res \<noteq> cl_next c" by blast
  then show ?thesis
  proof cases
    case 2
    let ?c = "c\<lparr>cl_out := cl_out c @ cr_buf res, cl_next := cl_next c + 1\<rparr>"
    have "written_upto bufs ?c"
      using assms 2 by (auto simp: written_upto_def take_Suc_conv_app_nth)
    then show ?thesis using 2 flush_written by (simp add: collect_step_def buffer_sink_def)
  qed (use assms in \<open>auto simp: collect_step_def written_upto_def split: if_splits\<close>)
qed

lemma collect_written:
  assumes "\<And>r. r \<in> set rs \<Longrightarrow> cr_err r = None \<Longrightarrow> cr_seq r < length bufs \<and> cr_buf r = bufs ! cr_seq r"
  shows "written_upto bufs (collect buffer_sink [] rs)"
proof -
  have "written_upto bufs (fold (collect_step n buffer_sink) rs c)" if "written_upto bufs c" for n and c :: "(byte list, 'a) collector"
    using assms that
  proof (induction rs arbitrary: c)
    case (Cons r rs)
    have "written_upto bufs (collect_step n buffer_sink r c)"
      by (rule collect_step_written [OF Cons.prems(2)]) (use Cons.prems(1) in simp)
    then have "written_upto bufs (fold (collect_step n buffer_sink) rs (collect_step n buffer_sink r c))"
      by (rule Cons.IH [rotated]) (rule Cons.prems(1), simp_all)
    then show ?case by simp
  qed simp
  then show ?thesis unfolding collect_def by this (simp add: written_upto_def)
qed

lemma flush_err: "cl_err c \<noteq> None \<Longrightarrow> cl_err (collect_step n wr r c) \<noteq> None"
  by (simp add: collect_step_def)

lemma collect_err:
  assumes "r \<in> set rs" and "cr_err r \<noteq> None"
  shows "cl_err (collect wr out rs) \<noteq> None"
proof -
  have keep: "cl_err c \<noteq> None \<Longrightarrow> cl_err (fold (collect_step n wr) xs c) \<noteq> None" for n xs c
    by (induction xs arbitrary: c) (simp_all only: fold.simps comp_apply id_apply flush_err simp_thms)
  obtain xs ys where rs: "rs = xs @ r # ys" using assms(1) by (auto simp: in_set_conv_decomp)
  have "cl_err (collect_step n wr r c) \<noteq> None" for n c using assms(2) by (auto simp: collect_step_def)
  then show ?thesis unfolding collect_def rs by (simp only: fold_append fold.simps comp_apply) (rule keep)
qed

section \<open>Properties\<close>

text \<open>
  (C26) The parallel writer gives the same output in whatever order its workers finish:
  the compressed segments in the order of the input, and no error. The segments put
  together are the data written, in whatever pieces it was written.
\<close>

theorem chunks_reassembled:
  fixes c :: "(byte list, 'e) collector"
  assumes "0 < sz" and "distinct is" and "set is = {..<length (chunked sz ps)}"
    and "c = collect buffer_sink [] (map (work enc (chunked sz ps)) is)"
  shows "cl_out c = concat (map enc (chunked sz ps)) \<and> cl_err c = None \<and> concat (chunked sz ps) = concat ps"
proof -
  let ?bufs = "map enc (chunked sz ps)"
  have len: "length is = length ?bufs" using assms(2,3) distinct_card [of "is"] by simp
  have res: "map (work enc (chunked sz ps)) is = map (\<lambda>i. \<lparr>cr_seq = i, cr_buf = ?bufs ! i, cr_err = None\<rparr>) is"
    using assms(3) by (auto simp: work_def)
  have "collected ?bufs (set is \<union> {}) c \<and> cl_err c = None \<and> cl_next c \<notin> set is \<union> {}"
    unfolding assms(4) collect_def res using assms(2,3) len
    by (intro collect_fold [where c = "\<lparr>cl_out = [], cl_next = 0, cl_pending = Map.empty, cl_err = None\<rparr>" and S = "{}"])
      (auto simp: collected_def fun_eq_iff)
  then have "collected ?bufs {..<length ?bufs} c" "cl_err c = None" "length ?bufs \<le> cl_next c"
    using assms(3) by auto
  then show ?thesis using chunked_spec(1) [OF assms(1)] by (auto simp: collected_def)
qed

theorem chunks_reassembled_witness:
  "cl_out (collect buffer_sink [] (map (work rev [[1, 2], [3, 4], [5]]) [2, 0, 1]) :: (byte list, nat) collector)
     = [2, 1, 4, 3, 5]"
proof -
  have segs: "chunked 2 [[1, 2, 3], [4, 5]] = [[1, 2], [3, 4], [5]]"
    by (simp add: chunked_def chunk_Write_def chunk_fill.simps chunk_Close_def submit_def new_chunk_writer_def Let_def)
  have "set [2, 0, 1] = {..<length (chunked 2 [[1, 2, 3], [4, 5]])}" unfolding segs by auto
  from chunks_reassembled [OF _ _ this refl, of rev, where 'e = nat] show ?thesis unfolding segs by simp
qed

text \<open>
  When a worker fails, the parallel writer reports an error, and what it has written
  by then is the output of the leading segments, nothing out of order.
\<close>

theorem chunk_error_reported:
  assumes "\<And>r. r \<in> set rs \<Longrightarrow> cr_err r = None \<Longrightarrow> cr_seq r < length bufs \<and> cr_buf r = bufs ! cr_seq r"
    and "r \<in> set rs" and "cr_err r = Some (e :: 'e)"
  shows "cl_err (collect buffer_sink [] rs) \<noteq> None \<and>
    (\<exists>n \<le> length bufs. cl_out (collect buffer_sink [] rs) = concat (take n bufs))"
proof -
  have "cl_err (collect buffer_sink [] rs) \<noteq> None" by (rule collect_err [OF assms(2)]) (simp add: assms(3))
  moreover have "written_upto bufs (collect buffer_sink [] rs)" by (rule collect_written) (rule assms(1))
  ultimately show ?thesis unfolding written_upto_def by blast
qed

theorem chunk_error_reported_witness:
  "cl_err (collect buffer_sink []
     [\<lparr>cr_seq = 1, cr_buf = [7], cr_err = None\<rparr>, \<lparr>cr_seq = 0, cr_buf = [], cr_err = Some ''full''\<rparr>]) \<noteq> None"
proof -
  let ?rs = "[\<lparr>cr_seq = 1, cr_buf = [7], cr_err = None\<rparr>, \<lparr>cr_seq = 0, cr_buf = [], cr_err = Some ''full''\<rparr>]"
  have "cr_seq r < length [[6], [7]] \<and> cr_buf r = [[6], [7]] ! cr_seq r" if "r \<in> set ?rs" "cr_err r = None" for r
    using that by auto
  from chunk_error_reported [of ?rs "[[6], [7]]", OF this, of "\<lparr>cr_seq = 0, cr_buf = [], cr_err = Some ''full''\<rparr>" "''full''"]
  show ?thesis by simp
qed

end
