(* ===== verification/Encryption.thy ===== *)
theory Encryption
  imports Compress
begin

text \<open>
  Encryption (\<open>internal/encrypt/encrypt.go\<close>, \<open>decrypt.go\<close>,
  \<open>supported/encrypt/backend/openssl.go\<close>): the registry of encryptors with names, aliases,
  extensions and magic strings, the detection of the encryption of a stream, and the stream
  format of \<open>openssl enc\<close>, which the program implements itself: a header with the salt,
  AES in CBC mode, PKCS7 padding. The block cipher and the key derivation are library code
  and parameters here. Age and OpenPGP streams are produced by libraries.

  The registry is a list without repeated names; a lookup in the map of the source tries the
  entries in an arbitrary order, here in the order of the list.

  The lemmas show that what \<open>blockWriter\<close> writes, in whatever pieces, \<open>blockReader\<close> reads
  back, in whatever pieces.
\<close>

section \<open>Registry\<close>

record encryptor_spec =
  es_Name :: string
  es_Aliases :: "string list"
  es_Extension :: string
  es_Magic :: "string list"

type_synonym encryptors = "encryptor_spec list"

definition RegisterEncryptor :: "encryptors \<Rightarrow> encryptor_spec \<Rightarrow> encryptors option" where
  "RegisterEncryptor reg spec =
     (if es_Name spec = [] then None
      else if es_Name spec \<in> set (map es_Name reg) then None
      else Some (reg @ [spec]))"

definition LookupEncryptor :: "encryptors \<Rightarrow> string \<Rightarrow> encryptor_spec option" where
  "LookupEncryptor reg name0 =
     (if name0 = [] then None
      else let name = to_lower name0
           in find (\<lambda>spec. es_Name spec = name \<or> name \<in> set (es_Aliases spec)) reg)"

definition Encryptors :: "encryptors \<Rightarrow> string list" where
  "Encryptors reg = map es_Name reg"

definition recognizesAlias :: "string \<Rightarrow> string \<Rightarrow> string list \<Rightarrow> bool" where
  "recognizesAlias s canonical aliases \<longleftrightarrow>
     (let t = to_lower (trim_space s) in t = canonical \<or> t \<in> set aliases)"

text \<open>An encryption type is its name; the empty name is no encryption.\<close>

definition encrypt_Parse :: "encryptors \<Rightarrow> string \<Rightarrow> string" where
  "encrypt_Parse reg s =
     (case LookupEncryptor reg s of
        Some spec \<Rightarrow> es_Name spec
      | None \<Rightarrow>
          if recognizesAlias s ''gpg'' [''pgp'', ''openpgp''] then ''gpg''
          else if recognizesAlias s ''openssl'' [''aes-256-cbc'', ''aes256''] then ''openssl''
          else [])"

definition encrypt_Extension :: "encryptors \<Rightarrow> string \<Rightarrow> string" where
  "encrypt_Extension reg t =
     (case LookupEncryptor reg t of
        Some spec \<Rightarrow> es_Extension spec
      | None \<Rightarrow> if t = ''gpg'' then ''.gpg'' else if t = ''openssl'' then ''.enc'' else [])"

datatype encrypt_error = UnknownEncryptionType string | PassphraseRequired | BadHeader | ShortHeader | InvalidPadding
  | Unavailable string

definition encrypt_New :: "encryptors \<Rightarrow> (encryptor_spec \<Rightarrow> encrypt_error + 'enc) \<Rightarrow> 'enc \<Rightarrow> string \<Rightarrow> encrypt_error + 'enc" where
  "encrypt_New reg new nilEncrypt t =
     (if t = [] then Inr nilEncrypt
      else case LookupEncryptor reg t of
             None \<Rightarrow> Inl (UnknownEncryptionType t)
           | Some spec \<Rightarrow> new spec)"

section \<open>Detection\<close>

definition bytes_of :: "string \<Rightarrow> byte list" where
  "bytes_of s = map (\<lambda>c. word_of_nat (of_char c)) s"

definition Detect :: "encryptors \<Rightarrow> byte list \<Rightarrow> string" where
  "Detect reg stream =
     (let head = take 64 stream
      in case find (\<lambda>spec. list_ex (\<lambda>m. prefix (bytes_of m) head) (es_Magic spec)) reg of
           Some spec \<Rightarrow> es_Name spec
         | None \<Rightarrow>
             if prefix (bytes_of ''-----BEGIN PGP'') head then ''gpg''
             else if prefix (bytes_of ''Salted__'') head then ''openssl''
             else if head \<noteq> [] \<and> bit (hd head) 7 then ''gpg''
             else [])"

section \<open>CBC mode\<close>

text \<open>\<open>BlockSize\<close> of AES.\<close>

definition aes_block :: nat where
  "aes_block = 16"

type_synonym block_fun = "byte list \<Rightarrow> byte list"

definition xor_bytes :: "byte list \<Rightarrow> byte list \<Rightarrow> byte list" where
  "xor_bytes xs ys = map2 (xor) xs ys"

text \<open>\<open>CryptBlocks\<close> of the two modes on a multiple of the block size; the chaining value comes back.\<close>

function cbc_encrypt :: "block_fun \<Rightarrow> byte list \<Rightarrow> byte list \<Rightarrow> byte list \<times> byte list" where
  "cbc_encrypt E iv xs =
     (if length xs < aes_block then ([], iv)
      else let c = E (xor_bytes (take aes_block xs) iv)
           in case cbc_encrypt E c (drop aes_block xs) of (rest, iv') \<Rightarrow> (c @ rest, iv'))"
  by pat_completeness auto
termination
  by (relation "measure (\<lambda>(_, _, xs). length xs)") (auto simp: aes_block_def)

declare cbc_encrypt.simps [simp del]

definition cbc_decrypt1 :: "block_fun \<Rightarrow> byte list \<Rightarrow> byte list \<Rightarrow> byte list \<times> byte list" where
  "cbc_decrypt1 D iv c = (xor_bytes (D c) iv, c)"

section \<open>The writer\<close>

record 'o block_writer =
  bw_iv :: "byte list"
  bw_dst :: 'o
  bw_pending :: "byte list"
  bw_closed :: bool

definition bw_Write ::
  "block_fun \<Rightarrow> ('o, 'e) sink \<Rightarrow> 'o block_writer \<Rightarrow> byte list \<Rightarrow> 'o block_writer \<times> ('e + nat)" where
  "bw_Write E wr w p =
     (let pending = bw_pending w @ p;
          full = length pending - length pending mod aes_block
      in if full > 0
         then (case cbc_encrypt E (bw_iv w) (take full pending) of
                 (chunk, iv) \<Rightarrow>
                   (case wr (bw_dst w) chunk of
                      (out, Some e) \<Rightarrow> (w\<lparr>bw_iv := iv, bw_dst := out, bw_pending := chunk @ drop full pending\<rparr>, Inl e)
                    | (out, None) \<Rightarrow>
                        (w\<lparr>bw_iv := iv, bw_dst := out, bw_pending := drop full pending\<rparr>, Inr (length p))))
         else (w\<lparr>bw_pending := pending\<rparr>, Inr (length p)))"

definition bw_Close ::
  "block_fun \<Rightarrow> ('o, 'e) sink \<Rightarrow> 'o block_writer \<Rightarrow> 'o block_writer \<times> 'e option" where
  "bw_Close E wr w =
     (if bw_closed w then (w, None)
      else let pad0 = aes_block - length (bw_pending w) mod aes_block;
               pad = (if pad0 = 0 then aes_block else pad0);
               padded = bw_pending w @ replicate pad (word_of_nat pad)
           in case cbc_encrypt E (bw_iv w) padded of
                (chunk, iv) \<Rightarrow>
                  (case wr (bw_dst w) chunk of
                     (out, err) \<Rightarrow> (w\<lparr>bw_closed := True, bw_iv := iv, bw_dst := out\<rparr>, err)))"

text \<open>
  \<open>Encrypt\<close>: the header and the writer behind it. \<open>kdf\<close> is PBKDF2 with the fixed number of
  rounds; the first 32 bytes are the key and the next 16 the initial chaining value. \<open>aes\<close>
  gives the two directions of the block cipher for a key.
\<close>

definition openssl_salt_len :: nat where
  "openssl_salt_len = 8"

definition openssl_Encrypt ::
  "(byte list \<Rightarrow> block_fun) \<Rightarrow> (string \<Rightarrow> byte list \<Rightarrow> byte list) \<Rightarrow> ('o, 'e) sink \<Rightarrow> byte list \<Rightarrow> string \<Rightarrow> 'o \<Rightarrow>
   'e + block_fun \<times> 'o block_writer" where
  "openssl_Encrypt aesE kdf wr salt passphrase out =
     (let keyiv = kdf passphrase salt
      in case wr out (bytes_of ''Salted__'' @ salt) of
           (_, Some e) \<Rightarrow> Inl e
         | (out', None) \<Rightarrow>
             Inr (aesE (take 32 keyiv),
               \<lparr>bw_iv = take 16 (drop 32 keyiv), bw_dst = out', bw_pending = [], bw_closed = False\<rparr>))"

definition newOpenSSL :: "string \<Rightarrow> encrypt_error + string" where
  "newOpenSSL passphrase = (if passphrase = [] then Inl PassphraseRequired else Inr passphrase)"

section \<open>The reader\<close>

record block_reader =
  br_iv :: "byte list"
  br_src :: "byte list"
  br_cur :: "byte list"
  br_next :: "byte list option"
  br_eof :: bool

text \<open>\<open>io.ReadFull\<close> of one block: the block and the rest, or nothing when too little is left.\<close>

definition read_block :: "byte list \<Rightarrow> (byte list \<times> byte list) option" where
  "read_block src = (if length src < aes_block then None else Some (take aes_block src, drop aes_block src))"

text \<open>The second half of \<open>refill\<close>, when \<open>b\<close> is the block in hand.\<close>

definition refill_with :: "block_fun \<Rightarrow> block_reader \<Rightarrow> byte list \<Rightarrow> block_reader \<times> encrypt_error option" where
  "refill_with D r b =
     (case cbc_decrypt1 D (br_iv r) b of
        (plain, iv) \<Rightarrow>
          (case read_block (br_src r) of
             None \<Rightarrow>
               (let pad = unat (last plain)
                in if pad < 1 \<or> pad > aes_block
                   then (r\<lparr>br_src := [], br_iv := iv, br_next := Some plain\<rparr>, Some InvalidPadding)
                   else (r\<lparr>br_src := [], br_iv := iv, br_next := Some plain,
                           br_cur := take (length plain - pad) plain, br_eof := True\<rparr>, None))
           | Some (nb, src) \<Rightarrow> (r\<lparr>br_src := src, br_iv := iv, br_cur := plain, br_next := Some nb\<rparr>, None)))"

definition refill :: "block_fun \<Rightarrow> block_reader \<Rightarrow> block_reader \<times> encrypt_error option" where
  "refill D r =
     (case br_next r of
        Some b \<Rightarrow> refill_with D r b
      | None \<Rightarrow>
          (case read_block (br_src r) of
             None \<Rightarrow> (r\<lparr>br_src := [], br_eof := True\<rparr>, None)
           | Some (b, src) \<Rightarrow> refill_with D (r\<lparr>br_src := src, br_next := Some b\<rparr>) b))"

text \<open>
  \<open>Read\<close> of at most \<open>n\<close> bytes: the bytes read, the end of the stream, or an error. The loop
  refills until there is something to return; \<open>fuel\<close> bounds its rounds, and
  \<open>read_fuel\<close> below is always enough.
\<close>

datatype read_result = Got "byte list" | EOF | Failed encrypt_error | Stuck

fun br_Read :: "nat \<Rightarrow> block_fun \<Rightarrow> block_reader \<Rightarrow> nat \<Rightarrow> block_reader \<times> read_result" where
  "br_Read 0 D r n = (r, Stuck)"
| "br_Read (Suc fuel) D r n =
     (if br_cur r \<noteq> [] then (r\<lparr>br_cur := drop n (br_cur r)\<rparr>, Got (take n (br_cur r)))
      else if br_eof r then (r, EOF)
      else case refill D r of
             (r', Some e) \<Rightarrow> (r', Failed e)
           | (r', None) \<Rightarrow> br_Read fuel D r' n)"

definition read_fuel :: "block_reader \<Rightarrow> nat" where
  "read_fuel r = length (br_src r) + 4"

text \<open>Reading a stream to its end with reads of the given sizes.\<close>

fun read_all :: "block_fun \<Rightarrow> block_reader \<Rightarrow> nat list \<Rightarrow> byte list \<Rightarrow> byte list \<times> read_result" where
  "read_all D r [] acc = (acc, Got [])"
| "read_all D r (n # ns) acc =
     (case br_Read (read_fuel r) D r n of
        (r', Got xs) \<Rightarrow> read_all D r' ns (acc @ xs)
      | (r', res) \<Rightarrow> (acc, res))"

definition DecryptOpenSSL ::
  "(byte list \<Rightarrow> block_fun) \<Rightarrow> (string \<Rightarrow> byte list \<Rightarrow> byte list) \<Rightarrow> string \<Rightarrow> byte list \<Rightarrow>
   encrypt_error + block_fun \<times> block_reader" where
  "DecryptOpenSSL aesD kdf passphrase src =
     (if passphrase = [] then Inl PassphraseRequired
      else if length src < 8 then Inl ShortHeader
      else if take 8 src \<noteq> bytes_of ''Salted__'' then Inl BadHeader
      else let rest = drop 8 src
           in if length rest < openssl_salt_len then Inl ShortHeader
              else let keyiv = kdf passphrase (take openssl_salt_len rest)
                   in Inr (aesD (take 32 keyiv),
                        \<lparr>br_iv = take 16 (drop 32 keyiv), br_src = drop openssl_salt_len rest, br_cur = [],
                          br_next = None, br_eof = False\<rparr>))"

section \<open>Lemmas on CBC mode\<close>

definition cbc_enc :: "block_fun \<Rightarrow> byte list \<Rightarrow> byte list \<Rightarrow> byte list" where
  "cbc_enc E iv xs = fst (cbc_encrypt E iv xs)"

definition cbc_iv :: "block_fun \<Rightarrow> byte list \<Rightarrow> byte list \<Rightarrow> byte list" where
  "cbc_iv E iv xs = snd (cbc_encrypt E iv xs)"

lemma cbc_short: "length xs < aes_block \<Longrightarrow> cbc_enc E iv xs = [] \<and> cbc_iv E iv xs = iv"
  by (simp add: cbc_enc_def cbc_iv_def cbc_encrypt.simps)

lemma cbc_block:
  assumes "length b = aes_block" and "c = E (xor_bytes b iv)"
  shows "cbc_enc E iv (b @ xs) = c @ cbc_enc E c xs" and "cbc_iv E iv (b @ xs) = cbc_iv E c xs"
  using assms by (simp_all add: cbc_enc_def cbc_iv_def cbc_encrypt.simps [of E iv "b @ xs"] Let_def split: prod.split)

lemma block_split:
  assumes "aes_block dvd length xs" and "xs \<noteq> []"
  obtains b ys where "xs = b @ ys" "length b = aes_block" "aes_block dvd length ys" "length ys < length xs"
proof
  have "aes_block \<le> length xs" using assms dvd_imp_le by auto
  then show "xs = take aes_block xs @ drop aes_block xs" "length (take aes_block xs) = aes_block"
    "length (drop aes_block xs) < length xs" using assms by (auto simp: aes_block_def)
  show "aes_block dvd length (drop aes_block xs)" using assms by (simp add: dvd_minus_self)
qed

lemma cbc_append:
  "aes_block dvd length xs \<Longrightarrow> cbc_enc E iv (xs @ ys) = cbc_enc E iv xs @ cbc_enc E (cbc_iv E iv xs) ys \<and>
     cbc_iv E iv (xs @ ys) = cbc_iv E (cbc_iv E iv xs) ys"
proof (induction "length xs" arbitrary: xs iv rule: less_induct)
  case less
  show ?case
  proof (cases "xs = []")
    case True
    then show ?thesis using cbc_short [of "[]" E iv] by (simp add: aes_block_def)
  next
    case False
    then obtain b zs where b: "xs = b @ zs" "length b = aes_block" "aes_block dvd length zs" "length zs < length xs"
      using block_split less.prems by metis
    note IH = less.hyps [OF b(4,3), of "E (xor_bytes b iv)"]
    show ?thesis
      using IH cbc_block [OF b(2) refl, of E iv "zs @ ys"] cbc_block [OF b(2) refl, of E iv zs] by (simp add: b(1))
  qed
qed

text \<open>A block cipher: both directions on blocks, the second undoing the first.\<close>

definition block_cipher :: "block_fun \<Rightarrow> block_fun \<Rightarrow> bool" where
  "block_cipher E D \<longleftrightarrow> (\<forall>b. length b = aes_block \<longrightarrow> length (E b) = aes_block \<and> D (E b) = b)"

lemma xor_bytes_length: "length xs = n \<Longrightarrow> length ys = n \<Longrightarrow> length (xor_bytes xs ys) = n"
  by (simp add: xor_bytes_def)

lemma xor_bytes_cancel: "length xs = length ys \<Longrightarrow> xor_bytes (xor_bytes xs ys) ys = xs"
  by (induction xs ys rule: list_induct2) (auto simp: xor_bytes_def xor.assoc)

lemma cbc_first:
  assumes "block_cipher E D" and "length iv = aes_block" and "length b = aes_block" and "c = E (xor_bytes b iv)"
  shows "length c = aes_block" and "cbc_decrypt1 D iv c = (b, c)"
  using assms xor_bytes_length [OF assms(3,2)] xor_bytes_cancel [of b iv]
  by (simp_all add: block_cipher_def cbc_decrypt1_def)

lemma cbc_enc_length:
  assumes "block_cipher E D" and "length iv = aes_block" and "aes_block dvd length xs"
  shows "length (cbc_enc E iv xs) = length xs"
  using assms(2,3)
proof (induction "length xs" arbitrary: xs iv rule: less_induct)
  case less
  show ?case
  proof (cases "xs = []")
    case True
    then show ?thesis using cbc_short [of xs E iv] by (simp add: aes_block_def)
  next
    case False
    then obtain b ys where xs: "xs = b @ ys" "length b = aes_block" "aes_block dvd length ys"
      using block_split less.prems(2) by metis
    note c = cbc_first(1) [OF assms(1) less.prems(1) xs(2) refl]
    have "length ys < length xs" using xs by (simp add: aes_block_def)
    from less.hyps [OF this c xs(3)] show ?thesis using xs(2) c cbc_block(1) [OF xs(2) refl] by (simp add: xs(1))
  qed
qed

section \<open>The writer\<close>

definition pad_len :: "byte list \<Rightarrow> nat" where
  "pad_len xs = aes_block - length xs mod aes_block"

definition padded :: "byte list \<Rightarrow> byte list" where
  "padded xs = xs @ replicate (pad_len xs) (word_of_nat (pad_len xs))"

lemma pad_len_bounds: "0 < pad_len xs" "pad_len xs \<le> aes_block"
  by (simp_all add: pad_len_def aes_block_def)

lemma padded_dvd: "aes_block dvd length (padded xs)"
proof -
  have "length xs + (aes_block - length xs mod aes_block) = length xs div aes_block * aes_block + aes_block"
    using div_mult_mod_eq [of "length xs" 16] mod_less_divisor [of 16 "length xs"]
    unfolding aes_block_def by linarith
  then show ?thesis by (simp add: padded_def pad_len_def)
qed

text \<open>After writing \<open>data\<close>: the whole blocks are out, encrypted; the rest is pending.\<close>

definition wrote :: "block_fun \<Rightarrow> byte list \<Rightarrow> byte list \<Rightarrow> byte list \<Rightarrow> (byte list) block_writer \<Rightarrow> bool" where
  "wrote E iv hdr data w \<longleftrightarrow> \<not> bw_closed w \<and> length (bw_pending w) < aes_block \<and>
     (\<exists>done. data = done @ bw_pending w \<and> aes_block dvd length done \<and>
        bw_dst w = hdr @ cbc_enc E iv done \<and> bw_iv w = cbc_iv E iv done)"

lemma cbc_encrypt_pair: "cbc_encrypt E iv xs = (cbc_enc E iv xs, cbc_iv E iv xs)"
  by (simp add: cbc_enc_def cbc_iv_def)

lemma whole_blocks: "aes_block dvd length (take (length q - length q mod aes_block) q)"
proof -
  have "length (take (length q - length q mod aes_block) q) = length q - length q mod aes_block" by simp
  then show ?thesis using dvd_minus_mod [of aes_block "length q"] by simp
qed

lemma bw_Write_wrote:
  assumes "wrote E iv hdr data w" and wr: "wr = buffer_sink"
  shows "wrote E iv hdr (data @ p) (fst (bw_Write E wr w p)) \<and>
    snd (bw_Write E wr w p) = Inr (length p)"
proof -
  obtain d where d: "data = d @ bw_pending w" "aes_block dvd length d"
      "bw_dst w = hdr @ cbc_enc E iv d" "bw_iv w = cbc_iv E iv d"
    and open_: "\<not> bw_closed w" "length (bw_pending w) < aes_block"
    using assms(1) by (auto simp: wrote_def)
  define q where "q = bw_pending w @ p"
  define full where "full = length q - length q mod aes_block"
  have len: "length q - full < aes_block" by (simp add: full_def aes_block_def)
  have dvd: "aes_block dvd length (take full q)" unfolding full_def by (rule whole_blocks)
  show ?thesis
  proof (cases "full > 0")
    case True
    let ?w = "w\<lparr>bw_iv := cbc_iv E (bw_iv w) (take full q), bw_dst := bw_dst w @ cbc_enc E (bw_iv w) (take full q),
                bw_pending := drop full q\<rparr>"
    have "bw_Write E wr w p = (?w, Inr (length p))"
      unfolding bw_Write_def Let_def q_def [symmetric] full_def [symmetric]
      using True by (simp add: cbc_encrypt_pair wr buffer_sink_def)
    moreover have "wrote E iv hdr ((d @ take full q) @ drop full q) ?w"
      unfolding wrote_def using d(2-4) dvd open_(1) len cbc_append [OF d(2), of E iv "take full q"]
      by (intro conjI exI [of _ "d @ take full q"]) simp_all
    moreover have "data @ p = (d @ take full q) @ drop full q"
      using append_take_drop_id [of full q] by (simp only: d(1) append_assoc q_def [symmetric])
    ultimately show ?thesis by (simp only: fst_conv snd_conv simp_thms)
  next
    case False
    then have "length q < aes_block" using len by simp
    moreover from False have "bw_Write E wr w p = (w\<lparr>bw_pending := q\<rparr>, Inr (length p))"
      unfolding bw_Write_def Let_def q_def [symmetric] full_def [symmetric] by simp
    ultimately show ?thesis using d open_ by (auto simp: wrote_def q_def intro!: exI [of _ d])
  qed
qed

lemma bw_writes_wrote:
  assumes "wrote E iv hdr data w"
  shows "wrote E iv hdr (data @ concat ps) (fold (\<lambda>p w. fst (bw_Write E buffer_sink w p)) ps w)"
  using assms
proof (induction ps arbitrary: data w)
  case (Cons p ps)
  from Cons.IH [OF conjunct1 [OF bw_Write_wrote [OF Cons.prems refl, of p]]] show ?case by simp
qed simp

lemma bw_Close_out:
  assumes "wrote E iv hdr data w"
  shows "bw_dst (fst (bw_Close E buffer_sink w)) = hdr @ cbc_enc E iv (padded data)"
proof -
  obtain d where d: "data = d @ bw_pending w" "aes_block dvd length d"
      "bw_dst w = hdr @ cbc_enc E iv d" "bw_iv w = cbc_iv E iv d"
    and open_: "\<not> bw_closed w" "length (bw_pending w) < aes_block"
    using assms by (auto simp: wrote_def)
  have "length data mod aes_block = length (bw_pending w) mod aes_block"
    using d(1,2) by (simp add: mod_add_left_eq [symmetric])
  then have pad: "padded data = d @ bw_pending w @ replicate (pad_len (bw_pending w)) (word_of_nat (pad_len (bw_pending w)))"
    by (simp add: padded_def pad_len_def d(1))
  have "pad_len (bw_pending w) \<noteq> 0" using pad_len_bounds(1) [of "bw_pending w"] by simp
  then have "bw_dst (fst (bw_Close E buffer_sink w)) = bw_dst w @ cbc_enc E (bw_iv w)
      (bw_pending w @ replicate (pad_len (bw_pending w)) (word_of_nat (pad_len (bw_pending w))))"
    using open_(1) by (simp add: bw_Close_def Let_def cbc_encrypt_pair buffer_sink_def pad_len_def)
  then show ?thesis using d(3,4) cbc_append [OF d(2)] by (simp add: pad)
qed

section \<open>The reader\<close>

definition unpad :: "byte list \<Rightarrow> byte list" where
  "unpad xs = take (length xs - unat (last xs)) xs"

definition good_pad :: "byte list \<Rightarrow> bool" where
  "good_pad xs \<longleftrightarrow> xs \<noteq> [] \<and> aes_block dvd length xs \<and> 1 \<le> unat (last xs) \<and> unat (last xs) \<le> aes_block"

lemma padded_good: "good_pad (padded xs)" "unpad (padded xs) = xs"
proof -
  have n: "unat (word_of_nat (pad_len xs) :: byte) = pad_len xs"
    using pad_len_bounds [of xs] by (simp add: unat_of_nat aes_block_def)
  have last: "last (padded xs) = word_of_nat (pad_len xs)"
    using pad_len_bounds(1) [of xs] by (simp add: padded_def)
  show "good_pad (padded xs)"
    using pad_len_bounds [of xs] padded_dvd [of xs] n last by (auto simp: good_pad_def padded_def)
  show "unpad (padded xs) = xs" using n last by (simp add: unpad_def padded_def)
qed

text \<open>
  \<open>reading E r R\<close>: the reader still has the plain text \<open>R\<close> to deliver. Before the end it
  holds the cipher text of the padded rest, with at most one block of it in hand.
\<close>

definition reading :: "block_fun \<Rightarrow> block_reader \<Rightarrow> byte list \<Rightarrow> bool" where
  "reading E r R \<longleftrightarrow>
     (if br_eof r then R = br_cur r
      else length (br_iv r) = aes_block \<and>
           (\<exists>P. good_pad P \<and> R = br_cur r @ unpad P \<and>
              (case br_next r of
                 None \<Rightarrow> br_src r = cbc_enc E (br_iv r) P
               | Some b \<Rightarrow> length b = aes_block \<and> b @ br_src r = cbc_enc E (br_iv r) P)))"

lemma refill_with_reading:
  assumes "block_cipher E D" and "length (br_iv r) = aes_block" and "good_pad P"
    and "length c = aes_block" and "c @ br_src r = cbc_enc E (br_iv r) P" and "\<not> br_eof r"
  shows "\<exists>r'. refill_with D r c = (r', None) \<and> reading E r' (unpad P) \<and> (br_eof r' \<or> br_cur r' \<noteq> [])"
proof -
  have "aes_block dvd length P" "P \<noteq> []" using assms(3) by (simp_all add: good_pad_def)
  then obtain b Q where P: "P = b @ Q" "length b = aes_block" "aes_block dvd length Q" using block_split by metis
  let ?c = "E (xor_bytes b (br_iv r))"
  note first = cbc_first [OF assms(1,2) P(2) refl]
  have eq: "c = ?c" "br_src r = cbc_enc E ?c Q"
    using assms(4,5) first(1) cbc_block(1) [OF P(2) refl, of E "br_iv r" Q] by (simp_all add: P(1))
  show ?thesis
  proof (cases "Q = []")
    case True
    then have src: "br_src r = []" using eq(2) cbc_short [of "[]" E ?c] by (simp add: aes_block_def)
    have "last P = last b" "P = b" using True P by simp_all
    then have "\<not> (unat (last b) < 1 \<or> unat (last b) > aes_block)" using assms(3) by (auto simp: good_pad_def)
    then have "refill_with D r c = (r\<lparr>br_src := [], br_iv := c, br_next := Some b,
        br_cur := take (length b - unat (last b)) b, br_eof := True\<rparr>, None)"
      using first(2) src by (simp add: refill_with_def eq(1) read_block_def aes_block_def Let_def)
    then show ?thesis using \<open>P = b\<close> by (simp add: reading_def unpad_def)
  next
    case False
    then obtain b' Q' where Q: "Q = b' @ Q'" "length b' = aes_block" using P(3) block_split by metis
    let ?c' = "E (xor_bytes b' ?c)"
    note second = cbc_first [OF assms(1) first(1) Q(2) refl]
    have src: "br_src r = ?c' @ cbc_enc E ?c' Q'" using eq(2) cbc_block(1) [OF Q(2) refl] by (simp add: Q(1))
    have good: "good_pad Q" using assms(3) P False by (auto simp: good_pad_def)
    have "unat (last Q) \<le> length Q" using good dvd_imp_le [of aes_block "length Q"] by (auto simp: good_pad_def)
    then have un: "unpad P = b @ unpad Q" using False by (simp add: unpad_def P(1))
    have "refill_with D r c = (r\<lparr>br_src := cbc_enc E ?c' Q', br_iv := c, br_cur := b, br_next := Some ?c'\<rparr>, None)"
      using first(2) second(1) by (simp add: refill_with_def eq(1) read_block_def src)
    moreover have "b \<noteq> []" using P(2) by (auto simp: aes_block_def)
    moreover have "?c' @ cbc_enc E ?c' Q' = cbc_enc E c Q" using cbc_block(1) [OF Q(2) refl, of E ?c Q'] by (simp add: Q(1) eq(1))
    ultimately show ?thesis using first(1) second(1) good un assms(6)
      by (auto simp: reading_def eq(1) intro!: exI [of _ Q])
  qed
qed

lemma refill_reading:
  assumes "block_cipher E D" and "reading E r R" and "\<not> br_eof r" and "br_cur r = []"
  shows "\<exists>r'. refill D r = (r', None) \<and> reading E r' R \<and> (br_eof r' \<or> br_cur r' \<noteq> [])"
proof -
  obtain P where iv: "length (br_iv r) = aes_block" and P: "good_pad P" "R = unpad P"
    and at: "case br_next r of None \<Rightarrow> br_src r = cbc_enc E (br_iv r) P
        | Some b \<Rightarrow> length b = aes_block \<and> b @ br_src r = cbc_enc E (br_iv r) P"
    using assms(2-4) by (auto simp: reading_def)
  show ?thesis
  proof (cases "br_next r")
    case (Some b)
    with refill_with_reading [OF assms(1) iv P(1), of b] at assms(3) P(2) show ?thesis by (simp add: refill_def)
  next
    case None
    have "aes_block dvd length P" "P \<noteq> []" using P(1) by (simp_all add: good_pad_def)
    then obtain b Q where Q: "P = b @ Q" "length b = aes_block" using block_split by metis
    let ?c = "E (xor_bytes b (br_iv r))"
    let ?r = "r\<lparr>br_src := cbc_enc E ?c Q, br_next := Some ?c\<rparr>"
    have c: "length ?c = aes_block" by (rule cbc_first(1) [OF assms(1) iv Q(2) refl])
    have src: "br_src r = ?c @ cbc_enc E ?c Q" using at None cbc_block(1) [OF Q(2) refl] by (simp add: Q(1))
    then have "refill D r = refill_with D ?r ?c" using c None by (simp add: refill_def read_block_def)
    with refill_with_reading [OF assms(1), of ?r P ?c] iv P c src at None assms(3) show ?thesis by simp
  qed
qed

lemma br_Read_reading:
  assumes "block_cipher E D" and "reading E r R" and "0 < n"
  shows "(R = [] \<and> (\<exists>r'. br_Read (read_fuel r) D r n = (r', EOF))) \<or>
    (\<exists>r' xs R'. xs \<noteq> [] \<and> R = xs @ R' \<and> br_Read (read_fuel r) D r n = (r', Got xs) \<and> reading E r' R')"
proof -
  have ready: "(R = [] \<and> (\<exists>r'. br_Read (Suc fuel) D s n = (r', EOF))) \<or>
    (\<exists>r' xs R'. xs \<noteq> [] \<and> R = xs @ R' \<and> br_Read (Suc fuel) D s n = (r', Got xs) \<and> reading E r' R')"
    if s: "reading E s R" "br_eof s \<or> br_cur s \<noteq> []" for s fuel
  proof (cases "br_cur s = []")
    case True
    with s show ?thesis by (simp add: reading_def)
  next
    case False
    let ?s = "s\<lparr>br_cur := drop n (br_cur s)\<rparr>"
    obtain R' where R: "R = br_cur s @ R'" using s by (auto simp: reading_def split: if_splits)
    have "reading E ?s (drop n (br_cur s) @ R')"
      using s(1) R by (auto simp: reading_def split: option.splits if_splits)
    moreover have "take n (br_cur s) \<noteq> []" "R = take n (br_cur s) @ drop n (br_cur s) @ R'"
      using False assms(3) R by auto
    ultimately show ?thesis
      by (intro disjI2 exI [of _ ?s] exI [of _ "take n (br_cur s)"] exI [of _ "drop n (br_cur s) @ R'"])
        (use False in simp)
  qed
  obtain fuel where fuel: "read_fuel r = Suc (Suc fuel)" by (simp add: read_fuel_def numeral_eq_Suc)
  show ?thesis
  proof (cases "br_eof r \<or> br_cur r \<noteq> []")
    case True
    with ready [OF assms(2)] show ?thesis unfolding fuel by blast
  next
    case False
    then obtain r' where r': "refill D r = (r', None)" "reading E r' R" "br_eof r' \<or> br_cur r' \<noteq> []"
      using refill_reading [OF assms(1,2)] by blast
    have "br_Read (read_fuel r) D r n = br_Read (Suc fuel) D r' n" using False r'(1) unfolding fuel by simp
    with ready [OF r'(2,3), of fuel] show ?thesis by simp
  qed
qed

lemma read_all_reading:
  assumes "block_cipher E D" and "reading E r R" and "\<forall>n \<in> set ns. 0 < n" and "length R < length ns"
  shows "read_all D r ns acc = (acc @ R, EOF)"
  using assms(2-4)
proof (induction ns arbitrary: r R acc)
  case (Cons n ns)
  from br_Read_reading [OF assms(1) Cons.prems(1), of n] Cons.prems(2)
  consider r' where "R = []" "br_Read (read_fuel r) D r n = (r', EOF)"
    | r' xs R' where "xs \<noteq> []" "R = xs @ R'" "br_Read (read_fuel r) D r n = (r', Got xs)" "reading E r' R'" by auto
  then show ?case
  proof cases
    case 2
    moreover have "length R' < length ns" using Cons.prems(3) 2 by (cases xs) auto
    ultimately show ?thesis using Cons.IH [OF 2(4), of "acc @ xs"] Cons.prems(2) by simp
  qed simp
qed simp

section \<open>Properties\<close>

text \<open>The stream that encrypting \<open>ps\<close>, written piece by piece, leaves in a buffer.\<close>

definition openssl_stream ::
  "(byte list \<Rightarrow> block_fun) \<Rightarrow> (string \<Rightarrow> byte list \<Rightarrow> byte list) \<Rightarrow> byte list \<Rightarrow> string \<Rightarrow> byte list list \<Rightarrow> byte list" where
  "openssl_stream aesE kdf salt passphrase ps =
     (let wr = (buffer_sink :: (byte list, unit) sink)
      in case openssl_Encrypt aesE kdf wr salt passphrase [] of
           Inl _ \<Rightarrow> []
         | Inr (E, w) \<Rightarrow> bw_dst (fst (bw_Close E wr (fold (\<lambda>p w. fst (bw_Write E wr w p)) ps w))))"

lemma openssl_stream_eq:
  "openssl_stream aesE kdf salt passphrase ps =
     bytes_of ''Salted__'' @ salt @
       cbc_enc (aesE (take 32 (kdf passphrase salt))) (take 16 (drop 32 (kdf passphrase salt))) (padded (concat ps))"
proof -
  let ?E = "aesE (take 32 (kdf passphrase salt))" and ?iv = "take 16 (drop 32 (kdf passphrase salt))"
  let ?h = "bytes_of ''Salted__'' @ salt"
  let ?w = "\<lparr>bw_iv = ?iv, bw_dst = ?h, bw_pending = [], bw_closed = False\<rparr> :: (byte list) block_writer"
  have "wrote ?E ?iv ?h [] ?w" using cbc_short [of "[]" ?E ?iv] by (simp add: wrote_def aes_block_def)
  from bw_Close_out [OF bw_writes_wrote [OF this]] show ?thesis
    by (simp add: openssl_stream_def openssl_Encrypt_def buffer_sink_def Let_def)
qed

lemma openssl_decrypts:
  assumes "\<And>k. block_cipher (aesE k) (aesD k)" and "\<And>p s. length (kdf p s) = 48"
    and "passphrase \<noteq> []" and "length salt = openssl_salt_len"
  shows "\<exists>D r. DecryptOpenSSL aesD kdf passphrase (openssl_stream aesE kdf salt passphrase ps) = Inr (D, r) \<and>
    length (concat ps) \<le> length (br_src r) \<and>
    (\<forall>ns. (\<forall>n \<in> set ns. 0 < n) \<longrightarrow> length (concat ps) < length ns \<longrightarrow> read_all D r ns [] = (concat ps, EOF))"
proof -
  let ?E = "aesE (take 32 (kdf passphrase salt))" and ?D = "aesD (take 32 (kdf passphrase salt))"
  let ?iv = "take 16 (drop 32 (kdf passphrase salt))"
  let ?r = "\<lparr>br_iv = ?iv, br_src = cbc_enc ?E ?iv (padded (concat ps)), br_cur = [], br_next = None, br_eof = False\<rparr>"
  have "length (bytes_of ''Salted__'') = 8" by (simp add: bytes_of_def)
  then have dec: "DecryptOpenSSL aesD kdf passphrase (openssl_stream aesE kdf salt passphrase ps) = Inr (?D, ?r)"
    using assms(3,4) by (simp add: DecryptOpenSSL_def openssl_stream_eq Let_def)
  have iv: "length ?iv = aes_block" using assms(2) by (simp add: aes_block_def)
  have "length (cbc_enc ?E ?iv (padded (concat ps))) = length (padded (concat ps))"
    using cbc_enc_length [OF assms(1) iv padded_dvd] .
  then have len: "length (concat ps) \<le> length (br_src ?r)" by (simp add: padded_def)
  have "reading ?E ?r (concat ps)"
    using assms(2) padded_good [of "concat ps"] by (auto simp: reading_def aes_block_def)
  from read_all_reading [OF assms(1) this, of _ "[]"] dec len show ?thesis by auto
qed

text \<open>
  (C10) What the OpenSSL writer encrypts, however it is cut into writes, the reader with the
  same passphrase gives back byte for byte, however it is cut into reads, and then reports
  the end of the stream. The block cipher is assumed to be inverted by its decryption, the
  key derivation to deliver 48 bytes.
\<close>

theorem openssl_roundtrip:
  assumes "\<And>k. block_cipher (aesE k) (aesD k)" and "\<And>p s. length (kdf p s) = 48"
    and "passphrase \<noteq> []" and "length salt = openssl_salt_len"
    and "\<forall>n \<in> set ns. 0 < n" and "length (concat ps) < length ns"
  shows "\<exists>D r. DecryptOpenSSL aesD kdf passphrase (openssl_stream aesE kdf salt passphrase ps) = Inr (D, r) \<and>
    read_all D r ns [] = (concat ps, EOF)"
proof -
  obtain D r where "DecryptOpenSSL aesD kdf passphrase (openssl_stream aesE kdf salt passphrase ps) = Inr (D, r)"
    and "\<forall>ns. (\<forall>n \<in> set ns. 0 < n) \<longrightarrow> length (concat ps) < length ns \<longrightarrow> read_all D r ns [] = (concat ps, EOF)"
    using openssl_decrypts [where aesE = aesE and aesD = aesD and kdf = kdf and ps = ps, OF assms(1,2,3,4)] by auto
  then show ?thesis using assms(5,6) by blast
qed

theorem openssl_roundtrip_witness:
  "\<exists>D r. DecryptOpenSSL (\<lambda>k. rev) (\<lambda>p s. replicate 48 7) ''pw''
      (openssl_stream (\<lambda>k. rev) (\<lambda>p s. replicate 48 7) (replicate 8 1) ''pw'' [[1, 2, 3], [], [4]]) = Inr (D, r) \<and>
    read_all D r [3, 1, 9, 2, 5] [] = ([1, 2, 3, 4], EOF)"
  using openssl_roundtrip [of "\<lambda>k. rev" "\<lambda>k. rev" "\<lambda>p s. replicate 48 7" "''pw''" "replicate 8 1" "[3, 1, 9, 2, 5]"
      "[[1, 2, 3], [], [4]]"]
  by (simp add: block_cipher_def openssl_salt_len_def)

definition age_spec :: encryptor_spec where
  "age_spec = \<lparr>es_Name = ''age'', es_Aliases = [], es_Extension = ''.age'', es_Magic = [''age-encryption.org/v1'']\<rparr>"

definition openssl_spec :: encryptor_spec where
  "openssl_spec = \<lparr>es_Name = ''openssl'', es_Aliases = [''aes-256-cbc'', ''aes256''], es_Extension = ''.enc'',
     es_Magic = [''Salted__'']\<rparr>"

text \<open>
  The first byte of an XZ file has its highest bit set, and so the detection takes an
  unencrypted backup compressed with XZ for an OpenPGP message, whatever encryptors of the
  two editions are registered.
\<close>

theorem xz_detected_as_openpgp:
  "Detect [age_spec] (0xFD # rest) = ''gpg'' \<and> Detect [age_spec, openssl_spec] (0xFD # rest) = ''gpg''"
  by (simp add: Detect_def age_spec_def openssl_spec_def bytes_of_def bit_numeral_word_iff)

end
