(* ===== verification/Runner.thy ===== *)
theory Runner
  imports Catalog ResolveJob Encryption
begin

text \<open>
  One backup run: \<open>Run\<close> of \<open>internal/scheduler/runner/runner.go\<close> with \<open>dumpTo\<close> of
  \<open>dump.go\<close>. A run splits a job that names several databases, decides the strategy, opens
  the storage, chooses the file name and the parent in the chain, lets the pipeline of dump,
  compression and encryption stream into the upload, and writes the sidecar.

  The database engines, the licence, the clock and the library behind the pipeline are
  parameters, the fields of \<open>run_env\<close>; what may differ from one part of a run to the next
  takes the state too. The pipeline delivers the bytes of the backup or the
  stage that failed; the pipe carries both to the upload. \<open>Panic\<close> stands for following a nil
  pointer. Hooks and outcomes are recorded as events; log output is left out.

  The lemmas show that a failed run or a dry run changes no file, that a run never replaces
  a file that is there, and what the sidecar of a finished run says.
\<close>

section \<open>Environment\<close>

text \<open>What a dump is asked for; the connection data of the job is passed along with it.\<close>

record dump_request =
  dr_Type :: string
  dr_Host :: string
  dr_DB :: string
  dr_Names :: "string list"
  dr_Globals :: bool
  dr_Tables :: "table_filter option"
  dr_SchemaOnly :: bool
  dr_Objects :: mysql_objects
  dr_Strategy :: string
  dr_Since :: string

record dump_data =
  dd_Content :: "sidecar content"
  dd_Raw :: int
  dd_Sum :: string
  dd_RawSum :: string

datatype run_error =
    TLSInvalid string
  | ListDatabasesFailed string
  | NoStoragePath
  | StrategyNeedsSplit string
  | StrategyNotSupported string string
  | EncryptionNotAvailable string
  | StorageNotAvailable string
  | StorageFailed storage_error
  | EncryptFailed encrypt_error
  | ConnectFailed string
  | StageFailed string string
  | UploadRefused storage_error
  | Panic

datatype run_event =
    Hook string string string "(string \<times> string) list"
  | Link string string
  | Outcome bool

record 's run_env =
  v_now :: "'s \<Rightarrow> job_config \<Rightarrow> gotime"
  v_dry :: bool
  v_cancel_list :: "'s \<Rightarrow> job_config \<Rightarrow> bool"
  v_cancel_upload :: "'s \<Rightarrow> job_config \<Rightarrow> bool"
  v_backends :: "((string \<times> string) list \<Rightarrow> storage_error + 's storage_api) registry"
  v_encryptors :: encryptors
  v_encryptor :: "job_config \<Rightarrow> encryptor_spec \<Rightarrow> encrypt_error option"
  v_tls :: "tls_config option \<Rightarrow> string option"
  v_databases :: "job_config \<Rightarrow> string + string list"
  v_allowIncr :: license_check
  v_allowEnc :: license_check
  v_allowStorage :: license_check
  v_incremental :: "string \<Rightarrow> bool"
  v_support :: "job_config \<Rightarrow> string \<Rightarrow> string option"
  v_duration :: "string \<Rightarrow> duration option"
  v_byTime :: "entry list \<Rightarrow> entry list"
  v_byPath :: "entry list \<Rightarrow> entry list"
  v_reach :: "job_config \<Rightarrow> string \<Rightarrow> string option"
  v_dump :: "'s \<Rightarrow> dump_request \<Rightarrow> dump_data \<times> (string \<times> string) option"
  v_server :: "job_config \<Rightarrow> string \<Rightarrow> server_meta option"
  v_protocol :: "job_config \<Rightarrow> string \<Rightarrow> string"
  v_position :: "job_config \<Rightarrow> string \<Rightarrow> string option"
  v_tool :: tool_meta
  v_session :: string
  v_runID :: "'s \<Rightarrow> job_config \<Rightarrow> string"
  v_duration_ms :: "job_config \<Rightarrow> int"
  v_describe :: "schedule option \<Rightarrow> string"
  v_json_len :: "sidecar \<Rightarrow> nat"

section \<open>Options and requests\<close>

definition Options :: "storage_config \<Rightarrow> (string \<times> string) list" where
  "Options c =
     [(''path'', st_Path c), (''file_mode'', st_FileMode c), (''dir_mode'', st_DirMode c),
      (''user'', st_User c), (''group'', st_Group c), (''bucket'', st_Bucket c),
      (''endpoint'', st_Endpoint c), (''region'', st_Region c), (''key_id'', st_KeyID c),
      (''key_secret'', st_KeySecret c), (''account'', st_Account c), (''key'', st_Key c),
      (''container'', st_Bucket c), (''url'', st_URL c), (''pass'', st_Pass c)] @
     (case st_TLS c of
        None \<Rightarrow> []
      | Some t \<Rightarrow>
          if tls_Enable t
          then [(''tls_ca_file'', tls_CAFile t), (''tls_cert_file'', tls_CertFile t),
                (''tls_key_file'', tls_KeyFile t),
                (''tls_verify'', if VerifyCerts (Some t) then ''true'' else ''false''),
                (''tls_version'', tls_Version t)]
          else [])"

definition dump_names :: "job_config \<Rightarrow> string \<Rightarrow> string list" where
  "dump_names job dbName =
     (case j_Databases job of
        Some d \<Rightarrow> if dl_Include d \<noteq> [] then dl_Include d else split_char (CHR '','') dbName
      | None \<Rightarrow> split_char (CHR '','') dbName)"

definition dumpTo :: "job_config \<Rightarrow> string \<Rightarrow> table_filter option \<Rightarrow> bool \<Rightarrow> dump_request" where
  "dumpTo job dbName tableFilter schemaOnly =
     \<lparr>dr_Type = j_Type job, dr_Host = j_Host job, dr_DB = dbName, dr_Names = dump_names job dbName,
      dr_Globals = contains dbName ''__globals__'', dr_Tables = tableFilter, dr_SchemaOnly = schemaOnly,
      dr_Objects = ResolveMysqlObjects (j_Databases job), dr_Strategy = ''full'', dr_Since = []\<rparr>"

definition incremental_request :: "job_config \<Rightarrow> string \<Rightarrow> string \<Rightarrow> string \<Rightarrow> dump_request" where
  "incremental_request job dbName strat since =
     \<lparr>dr_Type = j_Type job, dr_Host = j_Host job, dr_DB = dbName, dr_Names = [], dr_Globals = False,
      dr_Tables = None, dr_SchemaOnly = False, dr_Objects = ResolveMysqlObjects (j_Databases job),
      dr_Strategy = strat, dr_Since = since\<rparr>"

section \<open>Deciding what to do\<close>

definition encryptionAllowed :: "license_check \<Rightarrow> string \<Rightarrow> license_check" where
  "encryptionAllowed allow encType = (if encType = [] \<or> encType = ''age'' then None else allow)"

definition resolveCompressionThreads :: "int \<Rightarrow> int" where
  "resolveCompressionThreads requested = (if requested < 0 then 1 else requested)"

definition job_includes :: "job_config \<Rightarrow> string list" where
  "job_includes job = (case j_Databases job of None \<Rightarrow> [] | Some d \<Rightarrow> dl_Include d)"

definition job_db_name :: "job_config \<Rightarrow> string" where
  "job_db_name job = join '','' (job_includes job)"

text \<open>The strategy the job asks for, with the two exceptions that come before all else.\<close>

definition wanted_strategy :: "job_config \<Rightarrow> string \<Rightarrow> run_error + string" where
  "wanted_strategy job dbName =
     (let s0 = EffectiveStrategy (case j_Backup job of None \<Rightarrow> no_backup | Some b \<Rightarrow> b);
          strat = (if dbName = ''__globals__'' \<and> s0 \<noteq> ''full'' then ''full'' else s0)
      in if strat \<noteq> ''full'' \<and> hasAllToken (job_includes job) \<and> \<not> j_SplitDB job
         then Inl (StrategyNeedsSplit strat) else Inr strat)"

text \<open>The list of databases of a dump that is not split; nothing when none is left.\<close>

definition kept_databases :: "'s run_env \<Rightarrow> job_config \<Rightarrow> run_error + job_config option" where
  "kept_databases v job =
     (case j_Databases job of
        None \<Rightarrow> Inr (Some job)
      | Some d \<Rightarrow>
          if \<not> j_SplitDB job \<and> hasAllToken (dl_Include d) \<and> (dl_Exclude d \<noteq> [] \<or> length (dl_Include d) > 1)
          then (case v_databases v job of
                  Inl err \<Rightarrow> Inl (ListDatabasesFailed err)
                | Inr allDBs \<Rightarrow>
                    (let kept = expandAllInclude allDBs (Some d)
                     in if kept = [] then Inr None
                        else Inr (Some (job\<lparr>j_Databases := Some (d\<lparr>dl_Include := kept\<rparr>)\<rparr>))))
          else Inr (Some job))"

definition check_features :: "'s run_env \<Rightarrow> string \<Rightarrow> string \<Rightarrow> run_error option" where
  "check_features v encType backend =
     (case encryptionAllowed (v_allowEnc v) encType of
        Some err \<Rightarrow> Some (EncryptionNotAvailable encType)
      | None \<Rightarrow>
          if to_lower backend \<in> set [''azure'', ''gcs''] \<and> v_allowStorage v \<noteq> None
          then Some (StorageNotAvailable backend) else None)"

text \<open>The strategy after asking the licence and the engine.\<close>

definition possible_strategy :: "'s run_env \<Rightarrow> job_config \<Rightarrow> string \<Rightarrow> string \<Rightarrow> run_error + string" where
  "possible_strategy v job dbName strat =
     (if strat = ''full'' \<or> dbName = [] then Inr strat
      else if v_allowIncr v \<noteq> None then Inr ''full''
      else if \<not> v_incremental v (j_Type job) then Inl (StrategyNotSupported strat (j_Type job))
      else if v_support v job dbName \<noteq> None then Inr ''full''
      else Inr strat)"

text \<open>The strategy after looking at the chain, with the depth of the chain.\<close>

definition chain_strategy ::
  "'s run_env \<Rightarrow> 's storage_api \<Rightarrow> 's \<Rightarrow> job_config \<Rightarrow> string \<Rightarrow> gotime \<Rightarrow> string \<Rightarrow> string \<times> int" where
  "chain_strategy v st s job dbName now strat =
     (if strat = ''full'' then (strat, 0)
      else let chain = chainInfo (v_byTime v) st s (j_Type job) dbName (j_Host job)
           in (if shouldResetChain (v_duration v) now (j_Backup job) chain \<noteq> None then ''full'' else strat,
               ch_Depth chain))"

definition anchor_strategy ::
  "'s run_env \<Rightarrow> 's storage_api \<Rightarrow> 's \<Rightarrow> job_config \<Rightarrow> string \<Rightarrow> string \<Rightarrow> string \<times> string" where
  "anchor_strategy v st s job dbName strat =
     (if strat \<noteq> ''full'' \<and> positionAnchored (j_Type job)
      then let since = findLastPosition (v_byPath v) st s (j_Type job) dbName (j_Host job) strat
           in (if since = [] then ''full'' else strat, since)
      else (strat, []))"

section \<open>The name of the new backup\<close>

definition backup_name :: "'s run_env \<Rightarrow> job_config \<Rightarrow> string \<Rightarrow> string \<Rightarrow> string \<Rightarrow> gotime \<Rightarrow> string" where
  "backup_name v job dbName strat encType now =
     expandFilename (case j_Backup job of None \<Rightarrow> [] | Some b \<Rightarrow> bk_Filename b) job dbName strat now @
     FormatExtension (j_Type job) @
     compress_Extension (compress_Parse (case j_Compression job of None \<Rightarrow> [] | Some c \<Rightarrow> cp_Type c)) @
     (if encType \<noteq> [] then encrypt_Extension (v_encryptors v) encType else [])"

text \<open>The names taken: every file, and every file that a sidecar in the storage belongs to.\<close>

definition taken_names :: "entry list \<Rightarrow> string \<Rightarrow> bool" where
  "taken_names es c \<longleftrightarrow> list_ex (\<lambda>e. e_Path e = c \<or> trim_suffix (e_Path e) ''.json'' = c) es"

definition free_name :: "'s storage_api \<Rightarrow> 's \<Rightarrow> bool \<Rightarrow> string \<Rightarrow> string" where
  "free_name st s cancelled name =
     (case api_List st s cancelled [] of
        Inl _ \<Rightarrow> name
      | Inr es \<Rightarrow> UniqueBackupName name (taken_names es))"

definition base_file :: "'s storage_api \<Rightarrow> 's \<Rightarrow> job_config \<Rightarrow> string \<Rightarrow> string \<Rightarrow> string" where
  "base_file st s job dbName strat =
     (if strat = ''full'' then []
      else if strat = ''differential'' then findLastFullBackup st s (j_Type job) dbName (j_Host job)
      else findLastChainParent st s (j_Type job) dbName (j_Host job))"

section \<open>The plan of a run\<close>

record run_plan =
  pl_Now :: gotime
  pl_DB :: string
  pl_Configured :: string
  pl_Strategy :: string
  pl_Depth :: int
  pl_Since :: string
  pl_Enc :: string
  pl_Name :: string
  pl_Base :: string

definition open_storage :: "'s run_env \<Rightarrow> storage_config \<Rightarrow> storage_error + 's storage_api option" where
  "open_storage v sto =
     (if v_dry v then Inr None
      else case storage_New (v_backends v) (st_Backend sto) (Options sto) of
             Inl err \<Rightarrow> Inl err
           | Inr st \<Rightarrow> Inr (Some st))"

text \<open>The plan without a storage: a dry run, which looks at the chain of a storage that is nil.\<close>

definition plan_dry :: "'s run_env \<Rightarrow> 's \<Rightarrow> job_config \<Rightarrow> string \<Rightarrow> string \<Rightarrow> string \<Rightarrow> string \<Rightarrow> run_error + run_plan" where
  "plan_dry v s job dbName configured strat encType =
     (if strat \<noteq> ''full'' then Inl Panic
      else Inr \<lparr>pl_Now = v_now v s job, pl_DB = dbName, pl_Configured = configured, pl_Strategy = strat,
             pl_Depth = 0, pl_Since = [], pl_Enc = encType,
             pl_Name = backup_name v job dbName strat encType (v_now v s job), pl_Base = []\<rparr>)"

definition plan_on ::
  "'s run_env \<Rightarrow> 's storage_api \<Rightarrow> 's \<Rightarrow> job_config \<Rightarrow> string \<Rightarrow> string \<Rightarrow> string \<Rightarrow> string \<Rightarrow> run_plan" where
  "plan_on v st s job dbName configured strat0 encType =
     (let now = v_now v s job;
          (strat1, depth) = chain_strategy v st s job dbName now strat0;
          (strat, since) = anchor_strategy v st s job dbName strat1
      in \<lparr>pl_Now = now, pl_DB = dbName, pl_Configured = configured, pl_Strategy = strat, pl_Depth = depth,
          pl_Since = since, pl_Enc = encType,
          pl_Name = free_name st s (v_cancel_list v s job) (backup_name v job dbName strat encType now),
          pl_Base = base_file st s job dbName strat\<rparr>)"

text \<open>All that a run decides before anything is written; no plan when no database is left.\<close>

definition with_backup :: "job_config \<Rightarrow> job_config" where
  "with_backup job = job\<lparr>j_Backup := Some (case j_Backup job of None \<Rightarrow> no_backup | Some b \<Rightarrow> b)\<rparr>"

definition plan_strategy ::
  "'s run_env \<Rightarrow> 's \<Rightarrow> storage_config \<Rightarrow> string \<Rightarrow> string \<Rightarrow> job_config \<Rightarrow>
   run_error + (job_config \<times> 's storage_api option \<times> run_plan)" where
  "plan_strategy v s sto dbName configured job =
     (let encType = encrypt_Parse (v_encryptors v) (j_EncryptionType job)
      in case check_features v encType (st_Backend sto) of
           Some err \<Rightarrow> Inl err
         | None \<Rightarrow>
             (case open_storage v sto of
                Inl err \<Rightarrow> Inl (StorageFailed err)
              | Inr st \<Rightarrow>
                  (case possible_strategy v job dbName configured of
                     Inl err \<Rightarrow> Inl err
                   | Inr strat \<Rightarrow>
                       (case st of
                          None \<Rightarrow>
                            (case plan_dry v s job dbName configured strat encType of
                               Inl err \<Rightarrow> Inl err
                             | Inr pl \<Rightarrow> Inr (job, None, pl))
                        | Some h \<Rightarrow> Inr (job, Some h, plan_on v h s job dbName configured strat encType)))))"

definition plan_run ::
  "'s run_env \<Rightarrow> 's \<Rightarrow> storage_config \<Rightarrow> job_config \<Rightarrow>
   run_error + (job_config \<times> 's storage_api option \<times> run_plan) option" where
  "plan_run v s sto job0 =
     (let job = with_backup job0; dbName = job_db_name job0
      in if st_Path sto = [] \<and> equal_fold (st_Backend sto) ''filesystem'' then Inl NoStoragePath
         else case wanted_strategy job dbName of
                Inl err \<Rightarrow> Inl err
              | Inr configured \<Rightarrow>
                  (case kept_databases v job of
                     Inl err \<Rightarrow> Inl err
                   | Inr None \<Rightarrow> Inr None
                   | Inr (Some job1) \<Rightarrow>
                       (case plan_strategy v s sto dbName configured job1 of
                          Inl err \<Rightarrow> Inl err
                        | Inr plan \<Rightarrow> Inr (Some plan))))"

section \<open>The sidecar\<close>

definition compress_opts :: "compress_type \<Rightarrow> compression_config \<Rightarrow> int \<times> bool" where
  "compress_opts ct cp =
     (if ct = XZip \<or> ct = Bzip2
      then if cp_Threads cp > 1 \<or> cp_Rsyncable cp then (0, False) else (cp_Threads cp, cp_Rsyncable cp)
      else (resolveCompressionThreads (cp_Threads cp), cp_Rsyncable cp))"

definition sidecar_tables :: "job_config \<Rightarrow> table_meta option" where
  "sidecar_tables job =
     (case j_Databases job of
        None \<Rightarrow> None
      | Some d \<Rightarrow>
          (case dl_Tables d of
             None \<Rightarrow> None
           | Some tf \<Rightarrow>
               let tm = \<lparr>tb_Include = tf_Include tf, tb_Exclude = tf_Exclude tf,
                         tb_SchemaOnly = (if so_All (tf_SchemaOnly tf) then [''*''] else so_Tables (tf_SchemaOnly tf))\<rparr>
               in if tb_Include tm \<noteq> [] \<or> tb_Exclude tm \<noteq> [] \<or> tb_SchemaOnly tm \<noteq> [] then Some tm else None))"

definition sidecar_encryption :: "job_config \<Rightarrow> string \<Rightarrow> encryption_meta option" where
  "sidecar_encryption job encType =
     (if encType = [] then None
      else Some \<lparr>em_Type = encType,
             em_Recipients = (if j_EncryptionIdentity job \<noteq> [] then [] else j_EncryptionIdentities job),
             em_Passphrase = (j_EncryptionIdentity job \<noteq> []), em_Key = [], em_Hash = []\<rparr>)"

definition sidecar_server :: "'s run_env \<Rightarrow> job_config \<Rightarrow> string \<Rightarrow> server_meta option" where
  "sidecar_server v job dbName =
     (case v_server v job dbName of
        Some m \<Rightarrow> if sm_Engine m \<noteq> [] \<or> sm_Version m \<noteq> [] then Some m else None
      | None \<Rightarrow> None)"

definition sidecar_position :: "'s run_env \<Rightarrow> job_config \<Rightarrow> run_plan \<Rightarrow> string" where
  "sidecar_position v job pl =
     (if v_dry v \<or> pl_Configured pl = ''full'' \<or> v_allowIncr v \<noteq> None then []
      else case v_position v job (pl_DB pl) of None \<Rightarrow> [] | Some pos \<Rightarrow> pos)"

definition schema_only_job :: "job_config \<Rightarrow> bool" where
  "schema_only_job job = (case j_Backup job of None \<Rightarrow> False | Some b \<Rightarrow> bk_SchemaOnly b)"

definition run_sidecar ::
  "'s run_env \<Rightarrow> string \<Rightarrow> job_config \<Rightarrow> compression_config \<Rightarrow> run_plan \<Rightarrow> dump_data \<Rightarrow> int \<Rightarrow> sidecar" where
  "run_sidecar v trigger job cp pl d n =
     (let ct = compress_Parse (cp_Type cp); low = to_lower (j_Type job)
      in \<lparr>sc_Format = ''dbbackup.sidecar'', sc_SchemaVersion = 2, sc_Tool = Some (v_tool v),
          sc_Job = (if j_Name job \<noteq> [] then Some \<lparr>jm_Name = j_Name job, jm_Schedule = v_describe v (j_Schedule job)\<rparr>
                    else None),
          sc_Trigger = trigger, sc_SessionID = v_session v, sc_RunID = j_RunID job, sc_Status = ''ok'',
          sc_DurationMs = v_duration_ms v job, sc_RawSize = dd_Raw d, sc_FileName = pl_Name pl,
          sc_Strategy = pl_Strategy pl, sc_Protocol = v_protocol v job (pl_DB pl),
          sc_SchemaOnly = schema_only_job job, sc_Tables = sidecar_tables job,
          sc_Notes = (if schema_only_job job \<and> (has_prefix low ''mongo'' \<or> has_prefix low ''redis'')
                      then [''schema_only ignored for '' @ j_Type job @ '' (no schema)''] else []),
          sc_Base = pl_Base pl, sc_Position = sidecar_position v job pl, sc_Type = j_Type job, sc_DB = pl_DB pl,
          sc_Host = j_Host job, sc_Server = sidecar_server v job (pl_DB pl),
          sc_Timestamp = format_rfc3339 (pl_Now pl),
          sc_Checksums = [(''compressed_'' @ j_Checksum job, dd_Sum d), (''uncompressed_'' @ j_Checksum job, dd_RawSum d)],
          sc_Size = n, sc_Compress = compress_name ct, sc_CompressLevel = cp_Level cp,
          sc_CompressThreads = fst (compress_opts ct cp), sc_Rsyncable = cp_Rsyncable cp,
          sc_ChainDepth = pl_Depth pl, sc_Encryption = sidecar_encryption job (pl_Enc pl)\<rparr>)"

section \<open>Carrying out the plan\<close>

definition hook_events :: "job_config \<Rightarrow> string \<Rightarrow> string \<Rightarrow> (string \<times> string) list \<Rightarrow> run_event list" where
  "hook_events job action dbName extra =
     (case j_Hooks job of
        None \<Rightarrow> []
      | Some h \<Rightarrow>
          map (\<lambda>c. Hook action c dbName extra)
            (if action = ''pre'' then hk_Pre h else if action = ''post'' then hk_Post h else []))"

definition createLatestSymlink :: "job_config \<Rightarrow> storage_config \<Rightarrow> string \<Rightarrow> string \<Rightarrow> run_event list" where
  "createLatestSymlink job sto dbName filename =
     (if (case j_Backup job of None \<Rightarrow> True | Some b \<Rightarrow> bk_CreateLatest b \<noteq> Some True) then []
      else if \<not> equal_fold (st_Backend sto) ''filesystem'' then []
      else case defaultFilenameTokens (j_Type job) (j_Host job) dbName of
             (dbTok, hostTok) \<Rightarrow>
               [Link (''latest-'' @ joinNonEmpty ''_''
                  [j_Type job, replacer [('','', ''_''), (''/'', ''_'')] dbTok, hostTok]) filename])"

definition run_request :: "job_config \<Rightarrow> run_plan \<Rightarrow> dump_request" where
  "run_request job pl =
     (if pl_Strategy pl = ''full''
      then dumpTo job (pl_DB pl) (case j_Databases job of None \<Rightarrow> None | Some d \<Rightarrow> dl_Tables d) (schema_only_job job)
      else incremental_request job (pl_DB pl) (pl_Strategy pl) (pl_Since pl))"

text \<open>The upload reads the pipe: what the pipeline wrote, or the error it closed the pipe with.\<close>

definition pipe_reader :: "dump_data \<times> (string \<times> string) option \<Rightarrow> sidecar reader" where
  "pipe_reader p = (case p of (d, None) \<Rightarrow> Data (dd_Content d) | (_, Some _) \<Rightarrow> ReadFails)"

definition upload_error :: "(string \<times> string) option \<Rightarrow> storage_error \<Rightarrow> run_error" where
  "upload_error failure err =
     (case (failure, err) of
        (Some (stage, msg), ReadError) \<Rightarrow> StageFailed stage msg
      | _ \<Rightarrow> UploadRefused err)"

definition store_backup ::
  "'s run_env \<Rightarrow> string \<Rightarrow> 's storage_api \<Rightarrow> 's \<Rightarrow> job_config \<Rightarrow> storage_config \<Rightarrow> compression_config \<Rightarrow> run_plan \<Rightarrow>
   's \<times> run_event list \<times> run_error option" where
  "store_backup v trigger h s job sto cp pl =
     (let p = v_dump v s (run_request job pl);
          cancelled = (v_cancel_list v s job \<or> v_cancel_upload v s job)
      in case api_Upload h s cancelled (nanos (pl_Now pl)) (pl_Name pl) (pipe_reader p) of
           (s1, Inl err) \<Rightarrow> (s1, [], Some (upload_error (snd p) err))
         | (s1, Inr n0) \<Rightarrow>
             (let n = (if n0 = 0 then content_size (dd_Content (fst p)) else n0);
                  links = createLatestSymlink job sto (pl_DB pl) (pl_Name pl)
              in if checksum_Parse (j_Checksum job) = SumNone then (s1, links, None)
                 else (fst (WriteSidecar h (v_json_len v) (nanos (pl_Now pl)) s1 (pl_Name pl)
                         (run_sidecar v trigger job cp pl (fst p) n)), links, None)))"

definition execute ::
  "'s run_env \<Rightarrow> string \<Rightarrow> 's \<Rightarrow> job_config \<Rightarrow> storage_config \<Rightarrow> compression_config \<Rightarrow> 's storage_api option \<Rightarrow> run_plan \<Rightarrow>
   's \<times> run_event list \<times> run_error option" where
  "execute v trigger s job sto cp st pl =
     (case encrypt_New (v_encryptors v)
             (\<lambda>spec. case v_encryptor v job spec of Some err \<Rightarrow> Inl err | None \<Rightarrow> Inr ()) () (pl_Enc pl) of
        Inl err \<Rightarrow> (s, [], Some (EncryptFailed err))
      | Inr _ \<Rightarrow>
          (case if MethodOf (j_Connectivity job) = ''none'' then None else v_reach v job (pl_DB pl) of
             Some err \<Rightarrow> (s, [], Some (ConnectFailed err))
           | None \<Rightarrow>
               (case st of
                  Some h \<Rightarrow> store_backup v trigger h s job sto cp pl
                | None \<Rightarrow>
                    (s, [], map_option (\<lambda>(stage, msg). StageFailed stage msg) (snd (v_dump v s (run_request job pl)))))))"

text \<open>A job that is not split any more, from the compression on; the hooks after it see the status.\<close>

definition run_one :: "'s run_env \<Rightarrow> string \<Rightarrow> 's \<Rightarrow> job_config \<Rightarrow> 's \<times> run_event list \<times> run_error option" where
  "run_one v trigger s job =
     (case (j_Compression job, j_Storage job) of
        (Some cp, Some sto) \<Rightarrow>
          (case plan_run v s sto job of
             Inl err \<Rightarrow> (s, [], Some err)
           | Inr None \<Rightarrow> (s, [], None)
           | Inr (Some (job1, st, pl)) \<Rightarrow>
               (case execute v trigger s job1 sto cp st pl of
                  (s', evs, err) \<Rightarrow>
                    (s', evs @ hook_events job1 ''post'' (pl_DB pl)
                       [(''DBB_STATUS'', if err = None then ''ok'' else ''failed''), (''DBB_FILENAME'', pl_Name pl)], err)))
      | _ \<Rightarrow> (s, [], Some Panic))"

section \<open>Splitting\<close>

definition only_databases :: "string list \<Rightarrow> database_list" where
  "only_databases names = \<lparr>dl_Include = names, dl_Exclude = [], dl_Tables = None, dl_Routines = None, dl_Events = None,
     dl_Triggers = None, dl_Views = None, dl_RawBlobs = None\<rparr>"

definition globals_mixed :: "job_config \<Rightarrow> bool" where
  "globals_mixed job \<longleftrightarrow> length (job_includes job) > 1 \<and> containsGlobals (job_includes job)"

definition globals_parts :: "job_config \<Rightarrow> job_config list" where
  "globals_parts job =
     (let rest = filter (\<lambda>d. \<not> contains d ''__globals__'') (job_includes job)
      in (if rest \<noteq> [] then [job\<lparr>j_Databases := Some (only_databases rest)\<rparr>] else []) @
         [job\<lparr>j_Databases := Some (only_databases [''__globals__''])\<rparr>])"

definition splitting :: "job_config \<Rightarrow> bool" where
  "splitting job \<longleftrightarrow> j_SplitDB job \<and> j_Databases job \<noteq> None \<and> shouldSplitDatabases (job_includes job)"

definition split_part :: "job_config \<Rightarrow> database_list \<Rightarrow> string \<Rightarrow> job_config" where
  "split_part job d name =
     job\<lparr>j_Databases := Some (only_databases [name]
            \<lparr>dl_Routines := dl_Routines d, dl_Events := dl_Events d, dl_Triggers := dl_Triggers d,
             dl_Views := dl_Views d, dl_RawBlobs := dl_RawBlobs d\<rparr>),
         j_SplitDB := False\<rparr>"

definition split_parts :: "'s run_env \<Rightarrow> job_config \<Rightarrow> run_error + job_config list" where
  "split_parts v job =
     (let d = (case j_Databases job of None \<Rightarrow> only_databases [] | Some d \<Rightarrow> d)
      in case (if hasAllToken (dl_Include d)
               then (case v_databases v job of
                       Inl err \<Rightarrow> Inl (ListDatabasesFailed err)
                     | Inr allDBs \<Rightarrow> Inr (expandAllInclude allDBs (Some d)))
               else Inr (splitDatabaseList (dl_Include d))) of
           Inl err \<Rightarrow> Inl err
         | Inr dbs \<Rightarrow>
             Inr (map (split_part job d) dbs @
                  (if hasAllToken (dl_Include d) \<and> has_prefix (to_lower (j_Type job)) ''postgres''
                   then [job\<lparr>j_Databases := Some (only_databases [''__globals__'']), j_SplitDB := False\<rparr>] else [])))"

text \<open>One run after the other, up to the first that fails.\<close>

fun run_seq :: "('s \<Rightarrow> 'j \<Rightarrow> 's \<times> run_event list \<times> run_error option) \<Rightarrow> 'j list \<Rightarrow> 's \<Rightarrow>
    's \<times> run_event list \<times> run_error option" where
  "run_seq f [] s = (s, [], None)"
| "run_seq f (j # js) s =
     (case f s j of
        (s1, evs, Some err) \<Rightarrow> (s1, evs, Some err)
      | (s1, evs, None) \<Rightarrow> (case run_seq f js s1 of (s2, evs', r) \<Rightarrow> (s2, evs @ evs', r)))"

lemma run_seq_cong [fundef_cong]:
  "js = js' \<Longrightarrow> s = s' \<Longrightarrow> (\<And>s j. j \<in> set js' \<Longrightarrow> f s j = g s j) \<Longrightarrow> run_seq f js s = run_seq g js' s'"
  by (induction js' arbitrary: js s s') (auto split: prod.splits option.splits)

definition with_run_id :: "'s run_env \<Rightarrow> 's \<Rightarrow> job_config \<Rightarrow> job_config" where
  "with_run_id v s job = (if j_RunID job = [] then job\<lparr>j_RunID := v_runID v s job\<rparr> else job)"

definition run_depth :: "job_config \<Rightarrow> nat" where
  "run_depth job = (if globals_mixed job then 2 else if splitting job then 1 else 0)"

text \<open>\<open>Run\<close>; the outcome is recorded at the end, also when the run panics, as a success then.\<close>

definition with_outcome :: "'s \<times> run_event list \<times> run_error option \<Rightarrow> 's \<times> run_event list \<times> run_error option" where
  "with_outcome r = (case r of (s, evs, err) \<Rightarrow> (s, evs @ [Outcome (err = None \<or> err = Some Panic)], err))"

lemma no_globals_token: "\<not> hasAllToken [''__globals__'']"
  by (simp add: hasAllToken_def) code_simp

lemma includes_simps [simp]:
  "job_includes (with_run_id v s job) = job_includes job"
  "job_includes (job\<lparr>j_Databases := Some d\<rparr>) = dl_Include d"
  "job_includes (job\<lparr>j_SplitDB := b\<rparr>) = job_includes job"
  "dl_Include (only_databases xs) = xs"
  by (simp_all add: job_includes_def with_run_id_def only_databases_def)

lemma globals_parts_depth: "j \<in> set (globals_parts job) \<Longrightarrow> run_depth j < 2"
  by (auto simp: globals_parts_def run_depth_def globals_mixed_def containsGlobals_def list_ex_iff Let_def split: if_splits)

lemma split_part_depth: "run_depth (split_part job d name) = 0"
  by (simp add: run_depth_def split_part_def globals_mixed_def splitting_def job_includes_def only_databases_def)

lemma single_depth: "run_depth (job\<lparr>j_Databases := Some (only_databases [name]), j_SplitDB := False\<rparr>) = 0"
  by (simp add: run_depth_def globals_mixed_def splitting_def)

lemma split_parts_depth: "split_parts v job = Inr js \<Longrightarrow> j \<in> set js \<Longrightarrow> run_depth j = 0"
  by (auto simp: split_parts_def Let_def split_part_depth single_depth split: sum.splits if_splits)

lemma run_depth_id [simp]: "run_depth (with_run_id v s job) = run_depth job"
  by (simp add: run_depth_def globals_mixed_def splitting_def with_run_id_def job_includes_def)

function Run :: "'s run_env \<Rightarrow> string \<Rightarrow> 's \<Rightarrow> job_config \<Rightarrow> 's \<times> run_event list \<times> run_error option" where
  "Run v trigger s job0 =
     (let job = with_run_id v s job0
      in with_outcome
        (if globals_mixed job then run_seq (Run v trigger) (globals_parts job) s
         else case v_tls v (j_TLS job) of
                Some err \<Rightarrow> (s, [], Some (TLSInvalid err))
              | None \<Rightarrow>
                  if splitting job
                  then (case split_parts v job of
                          Inl err \<Rightarrow> (s, [], Some err)
                        | Inr js \<Rightarrow> run_seq (Run v trigger) js s)
                  else (case run_one v trigger s job of
                          (s', evs, err) \<Rightarrow> (s', hook_events job ''pre'' (job_db_name job) [] @ evs, err))))"
  by pat_completeness auto
termination
proof (relation "measure (\<lambda>(_, _, _, job). run_depth job)")
  show "wf (measure (\<lambda>(v :: 's run_env, t :: string, s :: 's, job). run_depth job))" by simp
next
  fix v :: "'s run_env" and trigger :: string and s s' :: 's and job0 job j
  assume "job = with_run_id v s job0" "globals_mixed job" "j \<in> set (globals_parts job)"
  then show "((v, trigger, s', j), v, trigger, s, job0) \<in> measure (\<lambda>(_, _, _, job). run_depth job)"
    using globals_parts_depth [of j job] run_depth_id [of v s job0] run_depth_def [of job]
    by (simp del: run_depth_id)
next
  fix v :: "'s run_env" and trigger :: string and s s' :: 's and job0 job js j
  assume "job = with_run_id v s job0" "\<not> globals_mixed job" "splitting job"
    "split_parts v job = Inr js" "j \<in> set js"
  then show "((v, trigger, s', j), v, trigger, s, job0) \<in> measure (\<lambda>(_, _, _, job). run_depth job)"
    using split_parts_depth [of v job js j] run_depth_id [of v s job0] run_depth_def [of job]
    by (simp del: run_depth_id)
qed

declare Run.simps [simp del]

section \<open>The plan\<close>

lemma plan_dry_name: "plan_dry v s job dbName configured strat encType = Inr pl \<Longrightarrow> pl_Strategy pl = ''full''"
  by (auto simp: plan_dry_def split: if_splits)

lemma plan_on_name:
  "pl_Name (plan_on v st s job dbName configured strat encType) =
     free_name st s (v_cancel_list v s job)
       (backup_name v job (pl_DB (plan_on v st s job dbName configured strat encType))
          (pl_Strategy (plan_on v st s job dbName configured strat encType))
          (pl_Enc (plan_on v st s job dbName configured strat encType))
          (pl_Now (plan_on v st s job dbName configured strat encType)))"
  by (simp add: plan_on_def Let_def case_prod_beta)

text \<open>A run with a storage follows \<open>plan_on\<close>, and the storage is the one the job names.\<close>

lemma plan_run_on:
  assumes "plan_run v s sto job = Inr (Some (job1, Some st, pl))"
  shows "storage_New (v_backends v) (st_Backend sto) (Options sto) = Inr st"
    and "\<exists>dbName configured strat encType. pl = plan_on v st s job1 dbName configured strat encType"
    and "\<not> v_dry v"
  using assms
  by (auto simp: plan_run_def plan_strategy_def open_storage_def Let_def
      split: if_splits sum.splits option.splits)

text \<open>What is left to take: the wanted name, or a number for it.\<close>

definition name_left :: "entry list \<Rightarrow> string \<Rightarrow> bool" where
  "name_left es name \<longleftrightarrow> \<not> taken_names es name \<or>
     list_ex (\<lambda>n. IsBackupFile (numbered_name name n) \<and> \<not> taken_names es (numbered_name name n)) [2..<1000]"

lemma free_name_not_taken:
  assumes "api_List st s False [] = Inr es" and "name_left es name"
  shows "\<not> taken_names es (free_name st s False name)"
proof -
  have "free_name st s False name = UniqueBackupName name (taken_names es)"
    by (simp add: free_name_def assms(1))
  moreover have "\<exists>n \<in> {2..<1000}. IsBackupFile (numbered_name name n) \<and> \<not> taken_names es (numbered_name name n)"
    if "taken_names es name"
    using assms(2) that unfolding name_left_def list_ex_iff set_upt by blast
  ultimately show ?thesis using unique_name_cases [of "taken_names es" name] by metis
qed

lemma not_taken:
  assumes "\<not> taken_names es c" and "e \<in> set es"
  shows "e_Path e \<noteq> c" and "e_Path e \<noteq> SidecarName c"
proof -
  have "e_Path e \<noteq> c" "trim_suffix (e_Path e) ''.json'' \<noteq> c" using assms by (auto simp: taken_names_def list_ex_iff)
  moreover have "trim_suffix (c @ ''.json'') ''.json'' = c" by (simp add: trim_suffix_def suffix_def)
  ultimately show "e_Path e \<noteq> c" "e_Path e \<noteq> SidecarName c" unfolding SidecarName_def by metis+
qed

section \<open>Runs on a storage\<close>

text \<open>A storage whose listing fails only when it holds nothing, as a directory does.\<close>

locale run_storage = catalog upload download list_entries remove contents inv apart ok_name
  for upload :: "'h \<Rightarrow> 's \<Rightarrow> bool \<Rightarrow> int \<Rightarrow> string \<Rightarrow> sidecar reader \<Rightarrow> 's \<times> (storage_error + int)"
    and download :: "'h \<Rightarrow> 's \<Rightarrow> bool \<Rightarrow> string \<Rightarrow> storage_error + sidecar reader"
    and list_entries :: "'h \<Rightarrow> 's \<Rightarrow> bool \<Rightarrow> string \<Rightarrow> storage_error + entry list"
    and remove :: "'h \<Rightarrow> 's \<Rightarrow> bool \<Rightarrow> string \<Rightarrow> 's \<times> storage_error option"
    and contents :: "'h \<Rightarrow> 's \<Rightarrow> string \<Rightarrow> sidecar content option"
    and inv :: "'h \<Rightarrow> 's \<Rightarrow> bool"
    and apart :: "'h \<Rightarrow> 'h \<Rightarrow> bool"
    and ok_name :: "string \<Rightarrow> bool" +
  assumes list_failed: "inv h s \<Longrightarrow> list_entries h s False [] = Inl e \<Longrightarrow> contents h s p = None"
    and upload_cancelled: "\<exists>s' e. upload h s True now p r = (s', Inl e)"
begin

text \<open>A failed upload is a failed run, and it changes no file.\<close>

lemma store_failed:
  assumes "inv h s" and "ok_name (pl_Name pl)" and "store_backup v trigger (api h) s job sto cp pl = (s', evs, Some err)"
  shows "inv h s'" and "contents h s' = contents h s"
  using assms(3) upload_err [OF assms(1,2)]
  by (auto simp: store_backup_def Let_def split: prod.splits sum.splits if_splits)

lemma store_done:
  assumes "inv h s" and "ok_name (pl_Name pl)" and "store_backup v trigger (api h) s job sto cp pl = (s', evs, None)"
    and "p = v_dump v s (run_request job pl)"
  obtains s1 n where
    "\<not> v_cancel_list v s job" "snd p = None" "inv h s1" "contents h s1 = (contents h s)(pl_Name pl \<mapsto> dd_Content (fst p))"
    "s' = (if checksum_Parse (j_Checksum job) = SumNone then s1
           else fst (WriteSidecar (api h) (v_json_len v) (nanos (pl_Now pl)) s1 (pl_Name pl)
                       (run_sidecar v trigger job cp pl (fst p) n)))"
proof -
  let ?c = "v_cancel_list v s job \<or> v_cancel_upload v s job"
  obtain s1 n0 where up: "upload h s ?c (nanos (pl_Now pl)) (pl_Name pl) (pipe_reader p) = (s1, Inr n0)"
    and s': "\<exists>n. s' = (if checksum_Parse (j_Checksum job) = SumNone then s1
           else fst (WriteSidecar (api h) (v_json_len v) (nanos (pl_Now pl)) s1 (pl_Name pl)
                       (run_sidecar v trigger job cp pl (fst p) n)))"
    using assms(3,4) by (auto simp: store_backup_def Let_def split: prod.splits sum.splits if_splits)
  then obtain n where n: "s' = (if checksum_Parse (j_Checksum job) = SumNone then s1
           else fst (WriteSidecar (api h) (v_json_len v) (nanos (pl_Now pl)) s1 (pl_Name pl)
                       (run_sidecar v trigger job cp pl (fst p) n)))" by blast
  have live: "\<not> ?c" using up upload_cancelled [of h s "nanos (pl_Now pl)" "pl_Name pl" "pipe_reader p"] by auto
  have "inv h s1" "snd p = None" "contents h s1 = (contents h s)(pl_Name pl \<mapsto> dd_Content (fst p))"
    using upload_ok [OF assms(1,2) up] by (auto simp: pipe_reader_def split: prod.splits option.splits)
  with live n that show ?thesis by blast
qed

lemma written_sidecar:
  assumes "inv h s" and "ok_name p" and "q \<noteq> SidecarName p"
  shows "contents h (fst (WriteSidecar (api h) jl now s p sc)) q = contents h s q"
    and "inv h (fst (WriteSidecar (api h) jl now s p sc))"
proof -
  obtain s' x where up: "upload h s False now (SidecarName p) (Data (Json sc (jl sc))) = (s', x)" by fastforce
  then have "fst (WriteSidecar (api h) jl now s p sc) = s'" by (simp add: WriteSidecar_def split: sum.splits)
  with upload_contents [OF assms(1) ok_sidecar [OF assms(2)] up] assms(3)
  show "contents h (fst (WriteSidecar (api h) jl now s p sc)) q = contents h s q"
    "inv h (fst (WriteSidecar (api h) jl now s p sc))" by blast+
qed

text \<open>The backup is stored under its name, and at most its sidecar changes beside it.\<close>

lemma store_frame:
  assumes "inv h s" and "ok_name (pl_Name pl)" and "store_backup v trigger (api h) s job sto cp pl = (s', evs, None)"
  shows "inv h s'" and "q \<noteq> pl_Name pl \<Longrightarrow> q \<noteq> SidecarName (pl_Name pl) \<Longrightarrow> contents h s' q = contents h s q"
    and "contents h s' (pl_Name pl) = Some (dd_Content (fst (v_dump v s (run_request job pl))))"
proof -
  let ?p = "v_dump v s (run_request job pl)"
  obtain s1 n where s1: "inv h s1" "contents h s1 = (contents h s)(pl_Name pl \<mapsto> dd_Content (fst ?p))"
    "s' = (if checksum_Parse (j_Checksum job) = SumNone then s1
           else fst (WriteSidecar (api h) (v_json_len v) (nanos (pl_Now pl)) s1 (pl_Name pl)
                       (run_sidecar v trigger job cp pl (fst ?p) n)))"
    using store_done [OF assms refl] by metis
  have "pl_Name pl \<noteq> SidecarName (pl_Name pl)" by (simp add: SidecarName_def)
  note side = written_sidecar [OF s1(1) assms(2)]
  show "inv h s'" using side(2) [OF \<open>pl_Name pl \<noteq> _\<close>] s1(1,3) by simp
  show "contents h s' (pl_Name pl) = Some (dd_Content (fst ?p))"
    using side(1) [OF \<open>pl_Name pl \<noteq> _\<close>] s1(2,3) by simp
  show "contents h s' q = contents h s q" if "q \<noteq> pl_Name pl" "q \<noteq> SidecarName (pl_Name pl)"
    using side(1) [OF that(2)] s1(2,3) that(1) by simp
qed

text \<open>Nothing that is there is replaced when a name was left.\<close>

lemma store_keeps:
  assumes "inv h s" and "ok_name (pl_Name pl)" and "store_backup v trigger (api h) s job sto cp pl = (s', evs, err)"
    and "pl_Name pl = free_name (api h) s (v_cancel_list v s job) name"
    and "\<And>es. list_entries h s False [] = Inr es \<Longrightarrow> name_left es name"
    and "contents h s q = Some d"
  shows "contents h s' q = Some d"
proof (cases err)
  case (Some e)
  with store_failed [OF assms(1,2)] assms(3,6) show ?thesis by metis
next
  case None
  note fin = assms(3) [unfolded None]
  have live: "\<not> v_cancel_list v s job" using store_done [OF assms(1,2) fin refl] by metis
  obtain es where es: "list_entries h s False [] = Inr es"
    using list_failed [OF assms(1)] assms(6) by (cases "list_entries h s False []") auto
  then have free: "\<not> taken_names es (pl_Name pl)"
    using free_name_not_taken [of "api h" s es name] assms(4,5) live by simp
  obtain e where "e \<in> set es" "q = e_Path e"
    using list_ok [OF assms(1) es] assms(6) by blast
  then have "q \<noteq> pl_Name pl" "q \<noteq> SidecarName (pl_Name pl)" using not_taken [OF free] by metis+
  with store_frame(2) [OF assms(1,2) fin] assms(6) show ?thesis by metis
qed

end

lemma fs_list_failed:
  assumes "fs_inv base s" and "fs_List base s False [] = Inl e"
  shows "fs_contents base s p = None"
proof (rule ccontr)
  assume "fs_contents base s p \<noteq> None"
  then have at: "file_at s (base @ comps p) \<noteq> None" by (auto simp: fs_contents_def split: if_splits)
  have base: "wf_fs s" "list_all ok_comp base" "file_at s base = None" using assms(1) by (auto simp: fs_inv_def)
  have "is_dir s base" using wf_fsD(4) [OF base(1) at, of base] by (simp add: strict_prefix_def)
  with assms(2) base(3) path_join_empty [OF base(2)] show False by (simp add: fs_List_def)
qed

interpretation fsr: run_storage fs_Upload fs_Download fs_List fs_Delete fs_contents fs_inv fs_apart fs_name
proof unfold_locales
  show "fs_contents h s p = None" if "fs_inv h s" "fs_List h s False [] = Inl e" for h s e p
    using fs_list_failed [OF that] .
  show "\<exists>s' e. fs_Upload h s True now p r = (s', Inl e)" for h and s :: "sidecar fs" and now p r
    by (simp add: fs_Upload_def)
qed

text \<open>A chain that counts a full backup has met one.\<close>

lemma chain_loop_full:
  "ch_LastFull (chain_loop st s es c) \<noteq> ch_LastFull c \<Longrightarrow>
     \<exists>e \<in> set es. \<exists>sc. ReadSidecar st s (e_Path e) = Some sc \<and> sc_Strategy sc = ''full''"
  by (induction es arbitrary: c) (fastforce split: option.splits if_splits)+

lemma chain_full:
  assumes "ch_LastFull (chainInfo srt st s dbType dbName host) \<noteq> 0" and "\<And>es. set (srt es) = set es"
  shows "\<exists>es e sc. api_List st s False [] = Inr es \<and> e \<in> set es \<and> has_prefix (e_Path e) (backupPrefix dbType dbName host) \<and>
    ReadSidecar st s (e_Path e) = Some sc \<and> sc_Strategy sc = ''full''"
proof (cases "api_List st s False []")
  case (Inl e)
  with assms(1) show ?thesis by (simp add: chainInfo_def)
next
  case (Inr es)
  with assms(1) chain_loop_full [of st s _ "\<lparr>ch_Depth = 0, ch_LastFull = 0\<rparr>"] show ?thesis
    by (fastforce simp: chainInfo_def assms(2))
qed

section \<open>Properties of a run\<close>

text \<open>The cases of a run whose plan is made.\<close>

lemma run_one_planned:
  assumes "j_Compression job = Some cp" and "j_Storage job = Some sto" and "plan_run v s sto job = Inr (Some (job1, st, pl))"
    and "run_one v trigger s job = (s', evs, err)"
  obtains evs' where "execute v trigger s job1 sto cp st pl = (s', evs', err)"
    and "evs = evs' @ hook_events job1 ''post'' (pl_DB pl)
      [(''DBB_STATUS'', if err = None then ''ok'' else ''failed''), (''DBB_FILENAME'', pl_Name pl)]"
  using assms by (auto simp: run_one_def split: prod.splits)

lemma execute_cases:
  assumes "execute v trigger s job sto cp (Some h) pl = (s', evs, err)"
  shows "s' = s \<and> err \<noteq> None \<or> store_backup v trigger h s job sto cp pl = (s', evs, err)"
  using assms by (auto simp: execute_def split: sum.splits option.splits)

lemma run_one_unchanged:
  assumes "run_one v trigger s job = (s', evs, err)"
    and "\<And>cp sto job1 st pl. j_Compression job = Some cp \<Longrightarrow> j_Storage job = Some sto \<Longrightarrow>
      plan_run v s sto job = Inr (Some (job1, Some st, pl)) \<Longrightarrow> False"
  shows "s' = s"
proof -
  have dry: "s1 = s" if "execute v trigger s job1 sto cp None pl = (s1, e1, r1)" for job1 sto cp pl s1 e1 r1
    using that by (auto simp: execute_def split: sum.splits option.splits)
  show ?thesis
    using assms dry by (fastforce simp: run_one_def split: option.splits sum.splits prod.splits)
qed

text \<open>What holds of every single run and composes holds of a run with all its parts.\<close>

lemma run_seq_closed:
  assumes "run_seq f js s = (s', evs, err)" and "\<And>s. R s s" and "\<And>s t u. R s t \<Longrightarrow> R t u \<Longrightarrow> R s u"
    and "\<And>s j s' evs err. j \<in> set js \<Longrightarrow> f s j = (s', evs, err) \<Longrightarrow> R s s'"
  shows "R s s'"
  using assms(1,4)
proof (induction js arbitrary: s evs)
  case Nil
  then show ?case using assms(2) by simp
next
  case (Cons j js)
  obtain s1 e1 r1 where f: "f s j = (s1, e1, r1)" by (metis prod_cases3)
  then have step: "R s s1" using Cons.prems(2) by (meson list.set_intros(1))
  show ?case
  proof (cases r1)
    case None
    with f Cons.prems(1) obtain evs' where "run_seq f js s1 = (s', evs', err)" by (auto split: prod.splits)
    then have "R s1 s'" using Cons.IH Cons.prems(2) by (meson list.set_intros(2))
    with step show ?thesis using assms(3) by blast
  next
    case (Some e)
    with f Cons.prems(1) step show ?thesis by simp
  qed
qed

lemma run_closed:
  assumes "Run v trigger s job = (s', evs, err)" and "\<And>s. R s s" and "\<And>s t u. R s t \<Longrightarrow> R t u \<Longrightarrow> R s u"
    and "\<And>s j s' evs err. run_one v trigger s j = (s', evs, err) \<Longrightarrow> R s s'"
  shows "R s s'"
  using assms(1)
proof (induction "run_depth job" arbitrary: s job s' evs err rule: less_induct)
  case less
  let ?job = "with_run_id v s job"
  have parts: "R s s'" if "run_seq (Run v trigger) js s = (s', e, err)" "\<And>j. j \<in> set js \<Longrightarrow> run_depth j < run_depth job" for js e
    by (rule run_seq_closed [where R = R, OF that(1)]) (use assms(2,3) less.hyps that(2) in blast)+
  have depth: "globals_mixed ?job \<Longrightarrow> run_depth job = 2"
    "\<not> globals_mixed ?job \<Longrightarrow> splitting ?job \<Longrightarrow> run_depth job = 1"
    using run_depth_id [of v s job] run_depth_def [of ?job] by simp_all
  consider e where "globals_mixed ?job" "run_seq (Run v trigger) (globals_parts ?job) s = (s', e, err)"
    | js e where "\<not> globals_mixed ?job" "splitting ?job" "split_parts v ?job = Inr js" "run_seq (Run v trigger) js s = (s', e, err)"
    | "s' = s" | e where "run_one v trigger s ?job = (s', e, err)"
    using less.prems unfolding Run.simps [of v trigger s job] Let_def with_outcome_def
    by (auto split: if_splits option.splits sum.splits prod.splits)
  then show ?case
  proof cases
    case 1
    show ?thesis by (rule parts [OF 1(2)]) (simp add: depth(1) [OF 1(1)] globals_parts_depth)
  next
    case 2
    show ?thesis by (rule parts [OF 2(4)]) (simp add: depth(2) [OF 2(1,2)] split_parts_depth [OF 2(3)])
  next
    case 3
    then show ?thesis using assms(2) by simp
  next
    case 4
    then show ?thesis using assms(4) by blast
  qed
qed

lemma dry_run_same:
  assumes "Run v trigger s job = (s', evs, err)" and "v_dry v"
  shows "s' = s"
proof -
  have "s = s'"
  proof (rule run_closed [where R = "(=)", OF assms(1)])
    fix s j s' evs err assume one: "run_one v trigger s j = (s', evs, err)"
    have "s' = s" by (rule run_one_unchanged [OF one]) (auto dest: plan_run_on(3) simp: assms(2))
    then show "s = s'" by simp
  qed simp_all
  then show ?thesis by simp
qed

text \<open>A small filesystem on which runs are tried: a redis server without databases to name.\<close>

definition lab :: "bool \<Rightarrow> sidecar fs run_env" where
  "lab dry = \<lparr>
     v_now = (\<lambda>_ _. \<lparr>nanos = 1704240000 * ns_second, zone = utc\<rparr>), v_dry = dry,
     v_cancel_list = (\<lambda>_ _. False), v_cancel_upload = (\<lambda>_ _. False),
     v_backends = [(''filesystem'', \<lambda>opts. Inr (fs_api (case map_of opts ''path'' of Some p \<Rightarrow> comps p | None \<Rightarrow> [])))],
     v_encryptors = [], v_encryptor = (\<lambda>_ _. None), v_tls = (\<lambda>_. None), v_databases = (\<lambda>_. Inr [''a'', ''b'']),
     v_allowIncr = None, v_allowEnc = None, v_allowStorage = None, v_incremental = (\<lambda>_. True),
     v_support = (\<lambda>_ _. None), v_duration = (\<lambda>_. None), v_byTime = (\<lambda>es. es), v_byPath = (\<lambda>es. es),
     v_reach = (\<lambda>_ _. None),
     v_dump = (\<lambda>_ _. (\<lparr>dd_Content = Bytes ''data'', dd_Raw = 9, dd_Sum = ''c'', dd_RawSum = ''r''\<rparr>, None)),
     v_server = (\<lambda>_ _. None), v_protocol = (\<lambda>_ _. []), v_position = (\<lambda>_ _. None),
     v_tool = \<lparr>tm_Name = ''db-backup'', tm_Edition = [], tm_Hostname = [], tm_Version = []\<rparr>, v_session = ''s1'',
     v_runID = (\<lambda>_ _. ''r1''), v_duration_ms = (\<lambda>_. 5), v_describe = (\<lambda>_. []), v_json_len = (\<lambda>_. 2)\<rparr>"

definition lab_storage :: storage_config where
  "lab_storage = \<lparr>st_Backend = ''filesystem'', st_Bucket = [], st_Path = ''backup'', st_Endpoint = [], st_Region = [],
     st_KeyID = [], st_KeySecret = [], st_Account = [], st_Key = [], st_URL = [], st_Pass = [], st_FileMode = [],
     st_DirMode = [], st_User = [], st_Group = [], st_TLS = None, st_unset = {}\<rparr>"

definition lab_job :: "string \<Rightarrow> database_list option \<Rightarrow> job_config" where
  "lab_job strategy dbs = \<lparr>j_Name = ''nightly'', j_Type = ''redis'', j_Host = [], j_Port = 0, j_User = [], j_Pass = [],
     j_Databases = dbs, j_Schedule = None, j_Blackout = None,
     j_Compression = Some \<lparr>cp_Type = [], cp_Level = 0, cp_Threads = 0, cp_Rsyncable = False\<rparr>, j_Checksum = ''md5'',
     j_Storage = Some lab_storage, j_TLS = None, j_Backup = Some (no_backup\<lparr>bk_Strategy := strategy\<rparr>), j_Maintenance = [],
     j_Encryption = [], j_Version = 0, j_InfluxMode = [], j_Connectivity = None, j_AuthSource = [], j_Retention = None,
     j_Archive = None, j_Hooks = None, j_Progress = None, j_SplitDB = True, j_DatabaseRef = [], j_StorageRef = [],
     j_BackupRef = [], j_ArchiveRef = [], j_EncryptionType = [], j_EncryptionIdentity = [], j_EncryptionIdentities = [],
     j_MaintenanceCfg = None, j_RunID = [], j_unset = {}, j_splitDBSet = False\<rparr>"



lemma run_one_failed:
  assumes "fs_inv base s" and "run_one v trigger s job = (s', evs, Some err)"
    and "\<And>sto job1 st pl. j_Storage job = Some sto \<Longrightarrow> plan_run v s sto job = Inr (Some (job1, Some st, pl)) \<Longrightarrow>
      st = fs_api base \<and> fs_name (pl_Name pl)"
  shows "fs_contents base s' = fs_contents base s"
proof (cases "\<exists>cp sto job1 st pl. j_Compression job = Some cp \<and> j_Storage job = Some sto \<and>
    plan_run v s sto job = Inr (Some (job1, Some st, pl))")
  case True
  then obtain cp sto job1 st pl where plan: "j_Compression job = Some cp" "j_Storage job = Some sto"
    "plan_run v s sto job = Inr (Some (job1, Some st, pl))" by blast
  from run_one_planned [OF this assms(2)] obtain evs' where
    ex: "execute v trigger s job1 sto cp (Some st) pl = (s', evs', Some err)" by metis
  then consider "s' = s" | "store_backup v trigger st s job1 sto cp pl = (s', evs', Some err)"
    using execute_cases [OF ex] by fast
  then show ?thesis
    using fsr.store_failed(2) [OF assms(1)] assms(3) [OF plan(2,3)] unfolding fs_api_mk by cases blast+
next
  case False
  then have "s' = s" using run_one_unchanged [OF assms(2)] by blast
  then show ?thesis by simp
qed

text \<open>A check of the plan by evaluation, for the concrete runs below.\<close>

definition plan_checked :: "(job_config \<Rightarrow> run_plan \<Rightarrow> bool) \<Rightarrow> 's run_env \<Rightarrow> 's \<Rightarrow> job_config \<Rightarrow> bool" where
  "plan_checked P v s job =
     (case j_Storage job of
        None \<Rightarrow> True
      | Some sto \<Rightarrow> (case plan_run v s sto job of Inr (Some (job1, _, pl)) \<Rightarrow> P job1 pl | _ \<Rightarrow> True))"

lemma plan_checkedD:
  "plan_checked P v s job \<Longrightarrow> j_Storage job = Some sto \<Longrightarrow> plan_run v s sto job = Inr (Some (job1, st, pl)) \<Longrightarrow> P job1 pl"
  by (simp add: plan_checked_def)

lemma lab_opened:
  "storage_New (v_backends (lab dry)) (st_Backend lab_storage) (Options lab_storage) = Inr (fs_api [''backup''])"
  by (simp add: lab_def lab_storage_def storage_New_def LookupBackend_def Options_def comps_def)

lemma lab_job_storage: "j_Storage (lab_job strategy dbs) = Some lab_storage"
  by (simp add: lab_job_def)

definition failing_lab :: "sidecar fs run_env" where
  "failing_lab = (lab False)\<lparr>v_dump := (\<lambda>_ _. (\<lparr>dd_Content = Bytes ''da'', dd_Raw = 2, dd_Sum = [], dd_RawSum = []\<rparr>,
     Some (''dump'', ''connection lost'')))\<rparr>"

lemma lab_plan:
  assumes "plan_checked P v s (lab_job strategy dbs)" and "v_backends v = v_backends (lab False)"
    and "j_Storage (lab_job strategy dbs) = Some sto" and plan: "plan_run v s sto (lab_job strategy dbs) = Inr (Some (job1, Some st, pl))"
  shows "st = fs_api [''backup'']" and "P job1 pl"
proof -
  show "P job1 pl" by (rule plan_checkedD [OF assms(1,3) plan])
  have "sto = lab_storage" using assms(3) by (simp add: lab_job_storage)
  with plan_run_on(1) [OF plan] assms(2) lab_opened [of False] show "st = fs_api [''backup'']" by simp
qed

text \<open>
  (C3) A run that fails leaves every file of the storage as it was: nothing partial stays
  behind, whether the dump, the compression, the encryption, the connection or the upload
  failed. The job names one database; the parts of a split job are such runs.
\<close>

theorem failed_run_changes_no_file:
  assumes "fs_inv base s" and "run_one v trigger s job = (s', evs, Some err)"
    and "\<And>sto job1 st pl. j_Storage job = Some sto \<Longrightarrow> plan_run v s sto job = Inr (Some (job1, Some st, pl)) \<Longrightarrow>
      st = fs_api base \<and> fs_name (pl_Name pl)"
  shows "fs_contents base s' = fs_contents base s"
  by (rule run_one_failed [OF assms])

theorem failed_run_changes_no_file_witness:
  "snd (snd (run_one failing_lab ''manual'' shelf (lab_job [] None))) = Some (StageFailed ''dump'' ''connection lost'') \<and>
   fs_contents [''backup''] (fst (run_one failing_lab ''manual'' shelf (lab_job [] None))) = fs_contents [''backup''] shelf"
proof -
  let ?run = "run_one failing_lab ''manual'' shelf (lab_job [] None)"
  have failed: "snd (snd ?run) = Some (StageFailed ''dump'' ''connection lost'')" by code_simp
  obtain s' evs err where run: "?run = (s', evs, err)" by (metis prod_cases3)
  have "plan_checked (\<lambda>_ pl. fs_name (pl_Name pl)) failing_lab shelf (lab_job [] None)" by code_simp
  then have "st = fs_api [''backup''] \<and> fs_name (pl_Name pl)"
    if "j_Storage (lab_job [] None) = Some sto" "plan_run failing_lab shelf sto (lab_job [] None) = Inr (Some (job1, Some st, pl))"
    for sto job1 st pl
    using lab_plan [OF _ _ that] by (simp add: failing_lab_def)
  with failed_run_changes_no_file [OF shelf_inv(1), of failing_lab "''manual''" "lab_job [] None" s' evs] run failed
  show ?thesis by simp
qed



text \<open>
  (C4) A run that succeeds has stored exactly what the pipeline delivered, under the planned
  name, and the pipeline had not failed; with a checksum configured, the sidecar read back
  describes that backup and names its parent, unless the storage refused the sidecar.
\<close>

theorem finished_run_recorded:
  assumes "fs_inv base s" and "run_one v trigger s job = (s', evs, None)" and "j_Storage job = Some sto"
    and "plan_run v s sto job = Inr (Some (job1, Some (fs_api base), pl))" and "fs_name (pl_Name pl)"
  shows "snd (v_dump v s (run_request job1 pl)) = None \<and>
    fs_contents base s' (pl_Name pl) = Some (dd_Content (fst (v_dump v s (run_request job1 pl)))) \<and>
    (checksum_Parse (j_Checksum job1) \<noteq> SumNone \<longrightarrow>
      (\<exists>sc s1. s' = fst (WriteSidecar (fs_api base) (v_json_len v) (nanos (pl_Now pl)) s1 (pl_Name pl) sc) \<and>
        sc_FileName sc = pl_Name pl \<and> sc_Base sc = pl_Base pl \<and> sc_Strategy sc = pl_Strategy pl \<and>
        (snd (WriteSidecar (fs_api base) (v_json_len v) (nanos (pl_Now pl)) s1 (pl_Name pl) sc) = None \<longrightarrow>
           ReadSidecar (fs_api base) s' (pl_Name pl) = Some sc)))"
proof -
  obtain cp where cp: "j_Compression job = Some cp" using assms(2,3) by (cases "j_Compression job") (auto simp: run_one_def)
  from run_one_planned [OF this assms(3,4,2)] obtain evs' where
    ex: "execute v trigger s job1 sto cp (Some (fs_api base)) pl = (s', evs', None)" by metis
  then have store: "store_backup v trigger (fsc.api base) s job1 sto cp pl = (s', evs', None)"
    using execute_cases [OF ex] unfolding fs_api_mk by simp
  let ?p = "v_dump v s (run_request job1 pl)"
  note stored = fsr.store_done [OF assms(1,5) store refl] and framed = fsr.store_frame(3) [OF assms(1,5) store]
  obtain s1 n where s1: "snd ?p = None" "fs_inv base s1"
    "s' = (if checksum_Parse (j_Checksum job1) = SumNone then s1
           else fst (WriteSidecar (fs_api base) (v_json_len v) (nanos (pl_Now pl)) s1 (pl_Name pl)
                       (run_sidecar v trigger job1 cp pl (fst ?p) n)))"
    by (rule stored [folded fs_api_mk]) (rule that)
  let ?sc = "run_sidecar v trigger job1 cp pl (fst ?p) n"
  have "ReadSidecar (fs_api base) s' (pl_Name pl) = Some ?sc"
    if "checksum_Parse (j_Checksum job1) \<noteq> SumNone"
      "snd (WriteSidecar (fs_api base) (v_json_len v) (nanos (pl_Now pl)) s1 (pl_Name pl) ?sc) = None"
    using fsc.sidecar_written(1) [OF s1(2) assms(5), of "v_json_len v" "nanos (pl_Now pl)" ?sc s'] that s1(3)
    unfolding fs_api_mk by (metis prod.collapse)
  moreover have "sc_FileName ?sc = pl_Name pl" "sc_Base ?sc = pl_Base pl" "sc_Strategy ?sc = pl_Strategy pl"
    by (simp_all add: run_sidecar_def Let_def)
  ultimately show ?thesis using s1(1,3) framed by (intro conjI impI exI [of _ ?sc] exI [of _ s1]) simp_all
qed

theorem finished_run_recorded_witness:
  "fs_contents [''backup''] (fst (run_one (lab False) ''manual'' shelf (lab_job [] None)))
     ''redis-full-20240103-000000.redis'' = Some (Bytes ''data'')"
proof -
  let ?run = "run_one (lab False) ''manual'' shelf (lab_job [] None)" and ?plan = "plan_run (lab False) shelf lab_storage (lab_job [] None)"
  have "snd (snd ?run) = None" by code_simp
  then obtain s' evs where run: "?run = (s', evs, None)" by (metis prod.collapse)
  let ?P = "\<lambda>_ pl. pl_Name pl = ''redis-full-20240103-000000.redis'' \<and> fs_name (pl_Name pl)"
  have "plan_checked ?P (lab False) shelf (lab_job [] None)" by code_simp
  have "(case ?plan of Inr (Some (_, Some _, _)) \<Rightarrow> True | _ \<Rightarrow> False)" by code_simp
  then obtain job1 st pl where plan: "?plan = Inr (Some (job1, Some st, pl))"
    by (auto split: sum.splits option.splits prod.splits)
  note pl = lab_plan [of ?P, OF \<open>plan_checked _ _ _ _\<close> refl lab_job_storage plan]
  then have name: "pl_Name pl = ''redis-full-20240103-000000.redis''" "fs_name (pl_Name pl)" by blast+
  note recorded = finished_run_recorded [OF shelf_inv(1) run lab_job_storage plan [unfolded pl(1)] name(2)]
  have "fst (v_dump (lab False) shelf r) = \<lparr>dd_Content = Bytes ''data'', dd_Raw = 9, dd_Sum = ''c'', dd_RawSum = ''r''\<rparr>" for r
    by (simp add: lab_def)
  with recorded name(1) run show ?thesis by simp
qed

text \<open>
  (C27) An incremental or differential backup is planned only on top of a full one: the
  storage lists a backup of the same database and host whose sidecar says it is full.
\<close>

theorem incremental_needs_full:
  assumes "plan_run v s sto job = Inr (Some (job1, Some st, pl))" and "pl_Strategy pl \<noteq> ''full''"
    and "\<And>es. set (v_byTime v es) = set es"
  shows "\<exists>es e sc. api_List st s False [] = Inr es \<and> e \<in> set es \<and>
    has_prefix (e_Path e) (backupPrefix (j_Type job1) (pl_DB pl) (j_Host job1)) \<and>
    ReadSidecar st s (e_Path e) = Some sc \<and> sc_Strategy sc = ''full''"
proof -
  obtain db configured strat encType where pl: "pl = plan_on v st s job1 db configured strat encType"
    using plan_run_on(2) [OF assms(1)] by metis
  let ?chain = "chainInfo (v_byTime v) st s (j_Type job1) db (j_Host job1)"
  have "shouldResetChain (v_duration v) (v_now v s job1) (j_Backup job1) ?chain = None"
    using assms(2) by (auto simp: pl plan_on_def Let_def chain_strategy_def anchor_strategy_def split: if_splits prod.splits)
  then have "ch_LastFull ?chain \<noteq> 0" by (auto simp: shouldResetChain_def)
  then show ?thesis using chain_full [of "v_byTime v", OF _ assms(3)]
    by (simp add: pl plan_on_def Let_def case_prod_beta)
qed

definition shelf_full :: "sidecar fs" where
  "shelf_full = shelf\<lparr>fs_files := ([''backup'', ''redis-full-20240102-000000.redis.json''],
     \<lparr>f_data = Json (run_sidecar (lab False) ''manual'' (lab_job [] None) \<lparr>cp_Type = [], cp_Level = 0, cp_Threads = 0, cp_Rsyncable = False\<rparr>
        \<lparr>pl_Now = zero_time, pl_DB = [], pl_Configured = ''full'', pl_Strategy = ''full'', pl_Depth = 0, pl_Since = [],
         pl_Enc = [], pl_Name = ''redis-full-20240102-000000.redis'', pl_Base = []\<rparr>
        \<lparr>dd_Content = Bytes ''two'', dd_Raw = 3, dd_Sum = [], dd_RawSum = []\<rparr> 3) 2, f_mtime = 2\<rparr>) # fs_files shelf\<rparr>"

theorem incremental_needs_full_witness:
  "\<exists>es e sc. fs_List [''backup''] shelf_full False [] = Inr es \<and> e \<in> set es \<and>
    ReadSidecar (fs_api [''backup'']) shelf_full (e_Path e) = Some sc \<and> sc_Strategy sc = ''full''"
proof -
  let ?plan = "plan_run (lab False) shelf_full lab_storage (lab_job ''incremental'' None)"
  let ?P = "\<lambda>_ pl. pl_Strategy pl \<noteq> ''full''"
  have check: "plan_checked ?P (lab False) shelf_full (lab_job ''incremental'' None)" by code_simp
  have "(case ?plan of Inr (Some (_, Some _, _)) \<Rightarrow> True | _ \<Rightarrow> False)" by code_simp
  then obtain job1 st pl where plan: "?plan = Inr (Some (job1, Some st, pl))"
    by (auto split: sum.splits option.splits prod.splits)
  note pl = lab_plan [of ?P, OF check refl lab_job_storage plan]
  have "set (v_byTime (lab False) es) = set es" for es by (simp add: lab_def)
  from incremental_needs_full [OF plan pl(2) this] show ?thesis unfolding pl(1) by (auto simp: fs_api_def)
qed

text \<open>
  A dry run of a job whose strategy is incremental or differential follows a nil
  storage: it looks at the chain although the storage was not opened.
\<close>

theorem dry_incremental_panics:
  assumes "v_dry v" and "j_Compression job = Some cp" and "j_Storage job = Some sto" and "st_Path sto \<noteq> []"
    and "wanted_strategy (with_backup job) (job_db_name job) = Inr configured"
    and "kept_databases v (with_backup job) = Inr (Some job1)"
    and "check_features v (encrypt_Parse (v_encryptors v) (j_EncryptionType job1)) (st_Backend sto) = None"
    and "possible_strategy v job1 (job_db_name job) configured = Inr strat" and "strat \<noteq> ''full''"
  shows "run_one v trigger s job = (s, [], Some Panic)"
  using assms by (simp add: run_one_def plan_run_def plan_strategy_def open_storage_def plan_dry_def Let_def)

theorem dry_incremental_panics_witness:
  "run_one (lab True) ''manual'' shelf (lab_job ''incremental'' (Some (only_databases [''x'']))) = (shelf, [], Some Panic)"
proof (rule dry_incremental_panics)
  let ?job = "lab_job ''incremental'' (Some (only_databases [''x'']))"
  show "v_dry (lab True)" by (simp add: lab_def)
  show "j_Compression ?job = Some \<lparr>cp_Type = [], cp_Level = 0, cp_Threads = 0, cp_Rsyncable = False\<rparr>"
    and "j_Storage ?job = Some lab_storage" by (simp_all add: lab_job_def)
  show "st_Path lab_storage \<noteq> []" by (simp add: lab_storage_def)
  show "wanted_strategy (with_backup ?job) (job_db_name ?job) = Inr ''incremental''" by code_simp
  show "kept_databases (lab True) (with_backup ?job) = Inr (Some ?job)"
    by (simp add: kept_databases_def with_backup_def lab_job_def)
  show "check_features (lab True) (encrypt_Parse (v_encryptors (lab True)) (j_EncryptionType ?job)) (st_Backend lab_storage) = None"
    by code_simp
  show "possible_strategy (lab True) ?job (job_db_name ?job) ''incremental'' = Inr ''incremental''" by code_simp
  show "''incremental'' \<noteq> ''full''" by simp
qed

text \<open>
  The parts of a split job lose its table filter: whatever \<open>databases.tables\<close> says,
  the dump of each database is asked for without a filter.
\<close>

theorem split_drops_table_filter:
  assumes "splitting job" and "split_parts v job = Inr js" and "j \<in> set js" and "pl_Strategy pl = ''full''"
  shows "dr_Tables (run_request j pl) = None"
proof -
  have "\<exists>d. j_Databases j = Some d \<and> dl_Tables d = None"
    using assms(2,3) by (auto simp: split_parts_def Let_def split_part_def only_databases_def split: sum.splits if_splits)
  then show ?thesis using assms(4) by (auto simp: run_request_def dumpTo_def)
qed

definition filtered_list :: database_list where
  "filtered_list = (only_databases [''a'', ''b''])\<lparr>dl_Tables := Some \<lparr>tf_Include = [''t''], tf_Exclude = [],
     tf_SchemaOnly = \<lparr>so_All = False, so_Tables = []\<rparr>\<rparr>\<rparr>"

theorem split_drops_table_filter_witness:
  "dr_Tables (run_request (split_part (lab_job [] (Some filtered_list)) filtered_list ''a'')
     \<lparr>pl_Now = zero_time, pl_DB = ''a'', pl_Configured = ''full'', pl_Strategy = ''full'', pl_Depth = 0, pl_Since = [],
      pl_Enc = [], pl_Name = [], pl_Base = []\<rparr>) = None"
proof (rule split_drops_table_filter)
  let ?job = "lab_job [] (Some filtered_list)"
  show "splitting ?job" by code_simp
  show "split_parts (lab False) ?job = Inr (map (split_part ?job filtered_list) [''a'', ''b''])"
    by (simp add: split_parts_def Let_def lab_job_def filtered_list_def only_databases_def hasAllToken_def splitDatabaseList_def
        equal_fold_def to_lower_def lower_char_def trim_space_def is_space_def)
qed simp_all

end
