(* ===== verification/PostBackup.thy ===== *)
theory PostBackup
  imports Runner Retention
begin

text \<open>
  What the scheduler does around one backup: \<open>internal/scheduler/retention.go\<close> (archive and
  prune after a backup), \<open>jobs.go\<close> (\<open>execMaintain\<close>, \<open>runOnceJob\<close> once it has its slot) and
  \<open>RunOnce\<close> of \<open>scheduler.go\<close>.

  The function that runs a backup and the engines' maintenance are parameters, fields of
  \<open>sched_env\<close>; so are the licence, the clock and the sorting functions. Each operation returns
  the state, the events a user could see, and whether the program still runs: following a nil
  pointer ends it.

  The lemmas show that a prune keeps the content of every backup an incremental one needs,
  that a failed backup is followed by nothing, and that a dry run is followed by a real prune.
\<close>

section \<open>Environment\<close>

datatype sched_event =
    Skipped string string
  | Failed string string
  | Activity string string int
  | SchedHook run_event

record 's sched_env =
  w_run :: "'s \<Rightarrow> job_config \<Rightarrow> 's \<times> run_error option"
  w_maintain :: "job_config \<Rightarrow> string \<Rightarrow> string + string list"
  w_backends :: "((string \<times> string) list \<Rightarrow> storage_error + 's storage_api) registry"
  w_storagePath :: string
  w_edition :: edition
  w_allowRetention :: license_check
  w_allowArchive :: license_check
  w_clock :: "'s \<Rightarrow> gotime"
  w_local :: location
  w_byAge :: "backup_entry list \<Rightarrow> backup_entry list"
  w_byTime :: "entry list \<Rightarrow> entry list"
  w_runID :: "'s \<Rightarrow> job_config \<Rightarrow> string"

type_synonym 's outcome = "'s \<times> sched_event list \<times> bool"

definition and_then :: "('s \<Rightarrow> 's outcome) \<Rightarrow> ('s \<Rightarrow> 's outcome) \<Rightarrow> 's \<Rightarrow> 's outcome" where
  "and_then f g s =
     (case f s of
        (s1, evs, False) \<Rightarrow> (s1, evs, False)
      | (s1, evs, True) \<Rightarrow> (case g s1 of (s2, evs', alive) \<Rightarrow> (s2, evs @ evs', alive)))"

definition unless_idle :: "bool \<Rightarrow> ('s \<Rightarrow> 's outcome) \<Rightarrow> 's \<Rightarrow> 's outcome" where
  "unless_idle c f s = (if c then f s else (s, [], True))"

section \<open>Storages\<close>

definition storageFromConfig :: "'s sched_env \<Rightarrow> storage_config option \<Rightarrow> storage_error + 's storage_api" where
  "storageFromConfig w cfg =
     (let c = (case cfg of
                 Some c \<Rightarrow> c
               | None \<Rightarrow> \<lparr>st_Backend = ''filesystem'', st_Bucket = [], st_Path = w_storagePath w, st_Endpoint = [],
                   st_Region = [], st_KeyID = [], st_KeySecret = [], st_Account = [], st_Key = [], st_URL = [],
                   st_Pass = [], st_FileMode = [], st_DirMode = [], st_User = [], st_Group = [], st_TLS = None,
                   st_unset = {}\<rparr>)
      in storage_New (w_backends w) (st_Backend c) (Options c))"

text \<open>No configuration when a pointer is nil.\<close>

definition archiveStorageCfg :: "'s sched_env \<Rightarrow> job_config \<Rightarrow> storage_config option" where
  "archiveStorageCfg w job =
     (case (j_Storage job, j_Archive job) of
        (Some cfg, Some ac) \<Rightarrow>
          (let base = (if st_Path cfg = [] then w_storagePath w @ ''/'' @ j_Name job else st_Path cfg);
               path = (if ac_Path ac = [] then base @ ''/archive'' else ac_Path ac)
           in Some (cfg\<lparr>st_Path := path\<rparr>))
      | _ \<Rightarrow> None)"

section \<open>Prune\<close>

definition retentionPolicy :: "edition \<Rightarrow> license_check \<Rightarrow> retention_config option \<Rightarrow> retention_policy" where
  "retentionPolicy ed allow ret =
     (case ret of
        None \<Rightarrow> \<lparr>Last = 0, Within = 0, Hourly = 0, Daily = 0, Weekly = 0, Monthly = 0, Yearly = 0\<rparr>
      | Some r \<Rightarrow>
          \<lparr>Last = override (rc_Last r) 0,
           Within = (if rc_Within r = [] then 0
                     else case ParseWithin ed allow (rc_Within r) of Inl _ \<Rightarrow> 0 | Inr d \<Rightarrow> d),
           Hourly = override (rc_Hourly r) 0, Daily = override (rc_Daily r) 0, Weekly = override (rc_Weekly r) 0,
           Monthly = override (rc_Monthly r) 0, Yearly = override (rc_Yearly r) 0\<rparr>)"

text \<open>From the listing on, with a policy and a storage.\<close>

definition prune_storage :: "'s sched_env \<Rightarrow> job_config \<Rightarrow> retention_policy \<Rightarrow> 's storage_api \<Rightarrow> 's \<Rightarrow> 's outcome" where
  "prune_storage w job policy st s =
     (case ListBackupsWithSidecars st (w_local w) s [] of
        Inl _ \<Rightarrow> (s, [Failed ''prune'' ''list''], True)
      | Inr backups \<Rightarrow>
          (let toDelete = ApplyRetention (w_byAge w) (w_edition w) (w_allowRetention w) (w_clock w s) backups policy
           in if toDelete = [] then (s, [], True)
              else case DeleteBackups st toDelete s of
                     (s', []) \<Rightarrow> (s', [Activity (j_Type job) ''prune'' (int (length toDelete))], True)
                   | (s', _) \<Rightarrow> (s', [Failed ''prune'' ''delete''], True)))"

definition applyPrune ::
  "'s sched_env \<Rightarrow> job_config \<Rightarrow> storage_config option \<Rightarrow> retention_config option \<Rightarrow> 's \<Rightarrow> 's outcome" where
  "applyPrune w job stCfg ret s =
     (let policy0 = retentionPolicy (w_edition w) (w_allowRetention w) ret
      in if \<not> Valid policy0 then (s, [], True)
         else
           let policy = (if CheckPrune (w_allowRetention w) policy0 = None then policy0 else StripTiers policy0)
           in if \<not> Valid policy then (s, [Skipped ''prune'' ''license''], True)
              else case storageFromConfig w stCfg of
                     Inl _ \<Rightarrow> (s, [Failed ''prune'' ''storage''], True)
                   | Inr st \<Rightarrow> prune_storage w job policy st s)"

section \<open>Archive\<close>

definition archive_into ::
  "'s sched_env \<Rightarrow> job_config \<Rightarrow> archive_config \<Rightarrow> 's storage_api \<Rightarrow> 's storage_api \<Rightarrow> 's \<Rightarrow> 's outcome" where
  "archive_into w job ac src dst s =
     (case (if ac_Within ac = [] then Inr 0 else ParseWithin (w_edition w) (w_allowRetention w) (ac_Within ac)) of
        Inl _ \<Rightarrow> (s, [Failed ''archive'' ''within''], True)
      | Inr within \<Rightarrow>
          (case RunArchive (w_edition w) (w_allowArchive w) (w_byTime w) src dst (w_clock w s) (ac_Last ac) within s of
             (s', _, _, Some _) \<Rightarrow> (s', [Failed ''archive'' ''archive''], True)
           | (s', moved, _, None) \<Rightarrow>
               (s', if moved = 0 then [] else [Activity (j_Type job) ''archive'' moved], True)))"

definition applyArchive :: "'s sched_env \<Rightarrow> job_config \<Rightarrow> 's \<Rightarrow> 's outcome" where
  "applyArchive w job s =
     (if w_allowArchive w \<noteq> None then (s, [Skipped ''archive'' ''license''], True)
      else case storageFromConfig w (j_Storage job) of
             Inl _ \<Rightarrow> (s, [Failed ''archive'' ''storage''], True)
           | Inr src \<Rightarrow>
               (case j_Archive job of
                  None \<Rightarrow> (s, [], False)
                | Some ac \<Rightarrow>
                    (case (case ac_Storage ac of Some c \<Rightarrow> Some c | None \<Rightarrow> archiveStorageCfg w job) of
                       None \<Rightarrow> (s, [], False)
                     | Some dstCfg \<Rightarrow>
                         (case storageFromConfig w (Some dstCfg) of
                            Inl _ \<Rightarrow> (s, [Failed ''archive'' ''storage''], True)
                          | Inr dst \<Rightarrow> archive_into w job ac src dst s))))"

definition archive_wanted :: "job_config \<Rightarrow> bool" where
  "archive_wanted job =
     (case j_Archive job of None \<Rightarrow> False | Some ac \<Rightarrow> ac_Last ac > 0 \<or> ac_Within ac \<noteq> [])"

definition prune_archive :: "'s sched_env \<Rightarrow> job_config \<Rightarrow> 's \<Rightarrow> 's outcome" where
  "prune_archive w job s =
     (case j_Archive job of
        None \<Rightarrow> (s, [], True)
      | Some ac \<Rightarrow>
          (case ac_Retention ac of
             None \<Rightarrow> (s, [], True)
           | Some ret \<Rightarrow>
               (case archiveStorageCfg w job of
                  None \<Rightarrow> (s, [], False)
                | Some cfg \<Rightarrow> applyPrune w job (Some cfg) (Some ret) s)))"

definition postBackup :: "'s sched_env \<Rightarrow> job_config \<Rightarrow> 's \<Rightarrow> 's outcome" where
  "postBackup w job =
     and_then (unless_idle (archive_wanted job) (applyArchive w job))
       (and_then (unless_idle (j_Retention job \<noteq> None) (applyPrune w job (j_Storage job) (j_Retention job)))
          (prune_archive w job))"

section \<open>Maintenance\<close>

definition restrictedMaintenanceOps :: "edition \<Rightarrow> maintenance_config option \<Rightarrow> string list" where
  "restrictedMaintenanceOps ed cfg =
     (case (ed, cfg) of
        (Community, Some m) \<Rightarrow>
          map snd (filter (\<lambda>(set, _). set = Some True)
            [(mn_Optimize m, ''optimize''), (mn_Vacuum m, ''vacuum''), (mn_Reindex m, ''reindex''),
             (mn_Analyze m, ''analyze''), (mn_Compact m, ''compact''), (mn_MemoryPurge m, ''memory_purge'')])
      | _ \<Rightarrow> [])"

definition maintain_hooks :: "job_config \<Rightarrow> string \<Rightarrow> (string \<times> string) list \<Rightarrow> sched_event list" where
  "maintain_hooks job action extra = map SchedHook (hook_events job action (job_db_name job) extra)"

definition execMaintain :: "'s sched_env \<Rightarrow> job_config \<Rightarrow> sched_event list \<times> string option" where
  "execMaintain w job =
     (if j_MaintenanceCfg job = None then ([], Some ''maintenance job has no profile'')
      else
        let pre = maintain_hooks job ''pre'' []
        in case w_maintain w job (job_db_name job) of
             Inl err \<Rightarrow> (pre @ maintain_hooks job ''post'' [(''DBB_STATUS'', ''failed'')], Some err)
           | Inr results \<Rightarrow>
               (pre @ maintain_hooks job ''post''
                  [(''DBB_STATUS'', if ''ERROR'' \<in> set results then ''failed'' else ''ok'')], None))"

section \<open>One job\<close>

text \<open>The job with its slot: the result says whether the job failed.\<close>

definition runOnceJob :: "'s sched_env \<Rightarrow> job_config \<Rightarrow> 's \<Rightarrow> 's outcome \<times> bool" where
  "runOnceJob w job s =
     (if j_Backup job = None \<and> j_MaintenanceCfg job \<noteq> None
      then (case execMaintain w job of (evs, err) \<Rightarrow> ((s, evs, True), err \<noteq> None))
      else case w_run w s job of
             (s1, Some err) \<Rightarrow> ((s1, [], err \<noteq> Panic), True)
           | (s1, None) \<Rightarrow>
               (and_then
                  (unless_idle (j_MaintenanceCfg job \<noteq> None \<and> DueOn (j_MaintenanceCfg job) (w_clock w s1))
                     (\<lambda>s. (s, fst (execMaintain w job), True)))
                  (postBackup w job) s1, False))"

datatype gate = NotToday | InBlackout | Open

definition slotGate :: "edition \<Rightarrow> job_config \<Rightarrow> gotime \<Rightarrow> gate" where
  "slotGate ed job now =
     (case j_Schedule job of
        None \<Rightarrow> Open
      | Some sc \<Rightarrow>
          if \<not> DayAllowed ed (Some sc) now then NotToday
          else if Blocked ed (Some sc) now then InBlackout
          else Open)"

text \<open>\<open>RunOnce\<close>: the jobs one after the other, so that a slot is always free.\<close>

fun run_once_loop :: "'s sched_env \<Rightarrow> job_config list \<Rightarrow> 's \<Rightarrow> nat \<Rightarrow> 's outcome \<times> nat" where
  "run_once_loop w [] s failed = ((s, [], True), failed)"
| "run_once_loop w (j # js) s failed =
     (let job = j\<lparr>j_RunID := w_runID w s j\<rparr>
      in if slotGate (w_edition w) job (w_clock w s) \<noteq> Open then run_once_loop w js s failed
         else case runOnceJob w job s of
                ((s1, evs, False), bad) \<Rightarrow> ((s1, evs, False), failed)
              | ((s1, evs, True), bad) \<Rightarrow>
                  (case run_once_loop w js s1 (if bad then failed + 1 else failed) of
                     ((s2, evs', alive), n) \<Rightarrow> ((s2, evs @ evs', alive), n)))"

definition RunOnce :: "'s sched_env \<Rightarrow> job_config list \<Rightarrow> 's \<Rightarrow> 's outcome \<times> int" where
  "RunOnce w jobs s = (case run_once_loop w jobs s 0 of (out, failed) \<Rightarrow> (out, if failed > 0 then 1 else 0))"

section \<open>Pruning a storage\<close>

lemma listed_names:
  assumes "ListBackupsWithSidecars st local s [] = Inr bs" and "api_List st s False [] = Inr es"
  shows "map be_FileName bs = map e_Path (filter (\<lambda>e. backup_path (e_Path e)) es)"
  using assms by (auto simp: ListBackupsWithSidecars_def backup_of_entry_def Let_def)

lemma sidecar_not_owned:
  assumes "backup_path a" and "a \<notin> set fs" and "\<forall>f \<in> set fs. backup_path f"
  shows "a \<notin> own_files fs" and "SidecarName a \<notin> own_files fs"
proof -
  show "a \<notin> own_files fs" using assms companion_not_backup by (auto simp: own_files_def)
  have "\<not> backup_path (SidecarName a)" by (rule companion_not_backup [of _ a]) (simp add: companions_def)
  moreover have "SidecarName a \<in> set (companions f) \<longleftrightarrow> a = f" for f
    by (auto simp: companions_def SidecarName_def)
  ultimately show "SidecarName a \<notin> own_files fs" using assms(2,3) by (auto simp: own_files_def)
qed

context catalog
begin

lemma listed_ok:
  assumes "inv h s" and "ListBackupsWithSidecars (api h) local s [] = Inr bs"
  shows "distinct (map be_FileName bs)" and "f \<in> be_FileName ` set bs \<Longrightarrow> ok_name f \<and> backup_path f"
proof -
  obtain es where es: "list_entries h s False [] = Inr es"
    using assms(2) by (auto simp: ListBackupsWithSidecars_def split: sum.splits)
  note names = listed_names [OF assms(2), of es, simplified, OF es]
  have dist: "distinct (map e_Path es)" and paths: "e_Path ` set es = dom (contents h s)"
    using list_ok [OF assms(1) es] by blast+
  show "distinct (map be_FileName bs)" unfolding names using dist by (rule distinct_map_filter)
  show "ok_name f \<and> backup_path f" if "f \<in> be_FileName ` set bs"
  proof -
    have "f \<in> set (map e_Path (filter (\<lambda>e. backup_path (e_Path e)) es))" using that unfolding names [symmetric] by simp
    then have "backup_path f" "f \<in> e_Path ` set es" by auto
    with paths contents_ok show ?thesis by blast
  qed
qed

lemma delete_keeps:
  assumes "inv h s" and "\<And>f. f \<in> set fs \<Longrightarrow> ok_name f \<and> backup_path f" and "backup_path a" and "a \<notin> set fs"
    and "q = a \<or> q = SidecarName a"
  shows "contents h (fst (DeleteBackups (api h) fs s)) q = contents h s q"
proof -
  have "pruned (own_files fs) h s (fst (DeleteBackups (api h) fs s))"
    unfolding DeleteBackups_def by (rule pruned_backups [OF assms(1)]) (use assms(2) in \<open>simp add: list_all_iff\<close>)
  moreover have "q \<notin> own_files fs" using sidecar_not_owned [OF assms(3,4)] assms(2,5) by blast
  ultimately show ?thesis unfolding pruned_def by blast
qed

text \<open>Deleting in one storage leaves a storage that lies apart as it was.\<close>

lemma companions_apart:
  assumes "inv h s" and "inv g s" and "apart h g" and "\<And>c. c \<in> set cs \<Longrightarrow> ok_name c"
    and "delete_companions (api h) cancelled cs (s, errs) = (s', errs')"
  shows "inv h s' \<and> inv g s' \<and> contents g s' = contents g s"
  using assms
proof (induction cs arbitrary: s errs)
  case (Cons c cs)
  obtain s1 x where r: "remove h s cancelled c = (s1, x)" by fastforce
  have "inv h s1" "inv g s1 \<and> contents g s1 = contents g s"
    using remove_contents(1) [OF Cons.prems(1) _ r] remove_apart [OF Cons.prems(1-3) _ r] Cons.prems(4) by simp_all
  with Cons.IH [of s1] Cons.prems r show ?case by simp
qed simp

lemma backups_apart:
  assumes "inv h s" and "inv g s" and "apart h g" and "\<And>f. f \<in> set fs \<Longrightarrow> ok_name f"
    and "DeleteBackupsWithContext (api h) cancelled fs (s, errs) = (s', errs')"
  shows "contents g s' = contents g s"
  using assms
proof (induction fs arbitrary: s errs)
  case (Cons f fs)
  obtain s1 x where r: "remove h s cancelled f = (s1, x)" by fastforce
  let ?e = "case x of None \<Rightarrow> errs | Some e \<Rightarrow> errs @ [(f, e)]"
  obtain s2 errs2 where c: "delete_companions (api h) cancelled (companions f) (s1, ?e) = (s2, errs2)" by fastforce
  have one: "inv h s1" "inv g s1 \<and> contents g s1 = contents g s"
    using remove_contents(1) [OF Cons.prems(1) _ r] remove_apart [OF Cons.prems(1-3) _ r] Cons.prems(4) by simp_all
  have two: "inv h s2 \<and> inv g s2 \<and> contents g s2 = contents g s1"
    by (rule companions_apart [OF one(1) one(2) [THEN conjunct1] Cons.prems(3) _ c])
      (use ok_companion [of f] Cons.prems(4) in simp)
  have "DeleteBackupsWithContext (api h) cancelled fs (s2, errs2) = (s', errs')" using Cons.prems(5) r c by simp
  with Cons.IH [of s2 errs2] two one(2) Cons.prems(3,4) show ?case by simp
qed simp

end

text \<open>What a prune does to the state: nothing, or the deletion of what a policy names.\<close>

lemma prune_storage_cases:
  assumes "ListBackupsWithSidecars st (w_local w) s [] = Inr bs"
  shows "fst (prune_storage w job p st s) =
    fst (DeleteBackups st (ApplyRetentionAt (w_byAge w) (w_edition w) (w_allowRetention w) (w_clock w s) bs p zero_time) s)"
proof -
  let ?fs = "ApplyRetentionAt (w_byAge w) (w_edition w) (w_allowRetention w) (w_clock w s) bs p zero_time"
  show ?thesis
  proof (cases "?fs = []")
    case True
    then show ?thesis by (simp add: prune_storage_def assms ApplyRetention_def DeleteBackups_def)
  next
    case False
    obtain s' errs where "DeleteBackups st ?fs s = (s', errs)" by fastforce
    with False show ?thesis by (cases errs) (simp_all add: prune_storage_def assms ApplyRetention_def)
  qed
qed

lemma applyPrune_storage:
  "fst (applyPrune w job stCfg ret s) = s \<or>
   (\<exists>st p. storageFromConfig w stCfg = Inr st \<and> fst (applyPrune w job stCfg ret s) = fst (prune_storage w job p st s))"
  by (cases "storageFromConfig w stCfg") (auto simp: applyPrune_def Let_def)

lemma applyPrune_cases:
  obtains "fst (applyPrune w job stCfg ret s) = s"
  | st bs p where "storageFromConfig w stCfg = Inr st" "ListBackupsWithSidecars st (w_local w) s [] = Inr bs"
      "fst (applyPrune w job stCfg ret s) = fst (DeleteBackups st
         (ApplyRetentionAt (w_byAge w) (w_edition w) (w_allowRetention w) (w_clock w s) bs p zero_time) s)"
proof -
  assume same: "fst (applyPrune w job stCfg ret s) = s \<Longrightarrow> thesis"
    and del: "\<And>st bs p. storageFromConfig w stCfg = Inr st \<Longrightarrow> ListBackupsWithSidecars st (w_local w) s [] = Inr bs \<Longrightarrow>
      fst (applyPrune w job stCfg ret s) = fst (DeleteBackups st
         (ApplyRetentionAt (w_byAge w) (w_edition w) (w_allowRetention w) (w_clock w s) bs p zero_time) s) \<Longrightarrow> thesis"
  from applyPrune_storage [of w job stCfg ret s] show thesis
  proof (elim disjE exE conjE)
    fix st p assume st: "storageFromConfig w stCfg = Inr st"
      and eq: "fst (applyPrune w job stCfg ret s) = fst (prune_storage w job p st s)"
    show thesis
    proof (cases "ListBackupsWithSidecars st (w_local w) s []")
      case (Inl e)
      then show thesis using same eq by (simp add: prune_storage_def)
    next
      case (Inr bs)
      then show thesis using del [OF st Inr] eq prune_storage_cases [OF Inr] by simp
    qed
  qed (rule same)
qed

lemma retention_deletes_keep:
  assumes "retention_sort srt" and "fs_inv base s" and "ListBackupsWithSidecars (fs_api base) local s [] = Inr bs"
    and "ancestor (set bs) b a" and "be_Strategy b \<noteq> ''full''" and "q = be_FileName a \<or> q = SidecarName (be_FileName a)"
  shows "fs_contents base (fst (DeleteBackups (fs_api base) (ApplyRetentionAt srt ed allow clock bs p zero_time) s)) q = fs_contents base s q"
proof -
  let ?fs = "ApplyRetentionAt srt ed allow clock bs p zero_time"
  note listed = fsc.listed_ok [OF assms(2) assms(3) [unfolded fs_api_mk]]
  have sub: "set ?fs \<subseteq> be_FileName ` set bs" by (rule retention_sort.deleted_subset [OF assms(1)])
  have "be_FileName a \<notin> set ?fs" by (rule retention_sort.ancestor_survives [OF assms(1,4) listed(1) assms(5)])
  moreover have "backup_path (be_FileName a)" using listed(2) ancestor_in [OF assms(4)] by blast
  ultimately show ?thesis
    unfolding fs_api_mk using sub listed(2) by (intro fsc.delete_keeps [OF assms(2) _ _ _ assms(6)]) blast+
qed

section \<open>Once\<close>

lemma run_once_state: "fst (run_once_loop w js s n) = fst (run_once_loop w js s m)"
proof (induction js arbitrary: s n m)
  case (Cons j js)
  obtain s1 evs alive bad where r: "runOnceJob w (j\<lparr>j_RunID := w_runID w s j\<rparr>) s = ((s1, evs, alive), bad)" by (metis prod_cases3 surj_pair)
  have eq: "fst (run_once_loop w js t a) = fst (run_once_loop w js t b)" for t a b by (rule Cons.IH)
  show ?case using eq [of s n m] eq [of s1 "if bad then n + 1 else n" "if bad then m + 1 else m"] r
    by (auto simp: Let_def split: prod.splits bool.splits)
qed simp

text \<open>The failure of the job \<open>j\<close> that comes after the jobs \<open>pre\<close>.\<close>

definition fails_after :: "'s sched_env \<Rightarrow> 's \<Rightarrow> job_config list \<Rightarrow> job_config \<Rightarrow> bool" where
  "fails_after w s pre j \<longleftrightarrow>
     (let t = fst (fst (run_once_loop w pre s 0)); job = j\<lparr>j_RunID := w_runID w t j\<rparr>
      in slotGate (w_edition w) job (w_clock w t) = Open \<and> snd (runOnceJob w job t))"

lemma fails_after_Nil:
  "fails_after w s [] j \<longleftrightarrow>
     slotGate (w_edition w) (j\<lparr>j_RunID := w_runID w s j\<rparr>) (w_clock w s) = Open \<and> snd (runOnceJob w (j\<lparr>j_RunID := w_runID w s j\<rparr>) s)"
  by (simp add: fails_after_def Let_def)

lemma fails_after_Cons:
  "fails_after w s (i # pre) j \<longleftrightarrow>
     (if slotGate (w_edition w) (i\<lparr>j_RunID := w_runID w s i\<rparr>) (w_clock w s) \<noteq> Open then fails_after w s pre j
      else case runOnceJob w (i\<lparr>j_RunID := w_runID w s i\<rparr>) s of
             ((s1, _, True), _) \<Rightarrow> fails_after w s1 pre j
           | ((s1, _, False), _) \<Rightarrow> fails_after w s1 [] j)"
  using run_once_state [of w pre _ "Suc 0" 0]
  by (auto simp: fails_after_def Let_def split: prod.splits bool.splits) (metis fst_conv)+

lemma run_once_count:
  assumes "run_once_loop w js s n = ((s', evs, True), m)"
  shows "n \<le> m \<and> (n < m \<longleftrightarrow> (\<exists>pre j post. js = pre @ j # post \<and> fails_after w s pre j))"
  using assms
proof (induction js arbitrary: s n evs)
  case (Cons i js)
  have ex: "(\<exists>pre j post. i # js = pre @ j # post \<and> fails_after w s pre j) \<longleftrightarrow>
      fails_after w s [] i \<or> (\<exists>pre j post. js = pre @ j # post \<and> fails_after w s (i # pre) j)"
    by (simp add: Cons_eq_append_conv) blast
  let ?i = "i\<lparr>j_RunID := w_runID w s i\<rparr>"
  show ?case
  proof (cases "slotGate (w_edition w) ?i (w_clock w s) = Open")
    case False
    with Cons.prems Cons.IH [of s n evs] show ?thesis
      unfolding ex fails_after_Nil fails_after_Cons by (simp add: Let_def)
  next
    case True
    obtain s1 e1 alive bad where r: "runOnceJob w ?i s = ((s1, e1, alive), bad)" by (metis prod_cases3 surj_pair)
    have alive: "alive" using Cons.prems True r by (cases alive) (auto simp: Let_def)
    with Cons.prems True r obtain e2 where "run_once_loop w js s1 (if bad then n + 1 else n) = ((s', e2, True), m)"
      by (auto simp: Let_def split: prod.splits)
    from Cons.IH [OF this] show ?thesis
      unfolding ex fails_after_Nil fails_after_Cons using True r alive by (cases bad) auto
  qed
qed simp

section \<open>Properties\<close>

text \<open>The runner that the command line hands to the scheduler.\<close>

definition runner_of :: "'s run_env \<Rightarrow> string \<Rightarrow> 's \<Rightarrow> job_config \<Rightarrow> 's \<times> run_error option" where
  "runner_of v trigger s job = (case Run v trigger s job of (s', _, err) \<Rightarrow> (s', err))"

definition lab_sched :: "bool \<Rightarrow> sidecar fs sched_env" where
  "lab_sched dry = \<lparr>w_run = runner_of (lab dry) ''schedule'', w_maintain = (\<lambda>_ _. Inr []), w_backends = v_backends (lab dry),
     w_storagePath = ''backup'', w_edition = Supported, w_allowRetention = None, w_allowArchive = None,
     w_clock = (\<lambda>_. \<lparr>nanos = 1704240000 * ns_second, zone = utc\<rparr>), w_local = utc,
     w_byAge = insertion_sort newer_entry, w_byTime = insertion_sort newer_file, w_runID = (\<lambda>_ _. ''r1'')\<rparr>"

definition lab_last :: "int \<Rightarrow> retention_config" where
  "lab_last n = \<lparr>rc_Last = Some n, rc_Within = [], rc_Hourly = None, rc_Daily = None, rc_Weekly = None, rc_Monthly = None,
     rc_Yearly = None\<rparr>"

text \<open>
  (C1) A prune keeps every backup that an incremental or differential backup of the storage
  is based on, directly or through others: its file and its sidecar have the same content
  after the prune, whatever the policy, the edition, the licence and the errors met.
\<close>

theorem prune_keeps_chain:
  assumes "slice_sort newer_entry (w_byAge w)" and "fs_inv base s" and "storageFromConfig w stCfg = Inr (fs_api base)"
    and "ListBackupsWithSidecars (fs_api base) (w_local w) s [] = Inr bs" and "ancestor (set bs) b a"
    and "be_Strategy b \<noteq> ''full''" and "q = be_FileName a \<or> q = SidecarName (be_FileName a)"
  shows "fs_contents base (fst (applyPrune w job stCfg ret s)) q = fs_contents base s q"
proof (rule applyPrune_cases [of w job stCfg ret s])
  fix st bs' p
  assume st: "storageFromConfig w stCfg = Inr st" and bs': "ListBackupsWithSidecars st (w_local w) s [] = Inr bs'"
    and del: "fst (applyPrune w job stCfg ret s) = fst (DeleteBackups st
      (ApplyRetentionAt (w_byAge w) (w_edition w) (w_allowRetention w) (w_clock w s) bs' p zero_time) s)"
  have eq: "st = fs_api base" "bs' = bs" using st bs' assms(3,4) by simp_all
  have "retention_sort (w_byAge w)" using assms(1) by (rule retention_sort.intro)
  then show ?thesis unfolding del eq by (rule retention_deletes_keep [OF _ assms(2,4-7)])
qed simp

definition shelf_chain :: "sidecar fs" where
  "shelf_chain = shelf\<lparr>fs_files := ([''backup'', ''redis-full-20240102-000000.redis.json''],
     \<lparr>f_data = Json (run_sidecar (lab False) ''manual'' (lab_job [] None) \<lparr>cp_Type = [], cp_Level = 0, cp_Threads = 0, cp_Rsyncable = False\<rparr>
        \<lparr>pl_Now = \<lparr>nanos = 1704153600 * ns_second, zone = utc\<rparr>, pl_DB = [], pl_Configured = ''incremental'',
         pl_Strategy = ''incremental'', pl_Depth = 1, pl_Since = [], pl_Enc = [], pl_Name = ''redis-full-20240102-000000.redis'',
         pl_Base = ''redis-full-20240101-000000.redis''\<rparr>
        \<lparr>dd_Content = Bytes ''two'', dd_Raw = 3, dd_Sum = [], dd_RawSum = []\<rparr> 3) 2, f_mtime = 2\<rparr>) # fs_files shelf\<rparr>"

lemma shelf_chain_inv: "fs_inv [''backup''] shelf_chain"
proof -
  have "wf_fs shelf_chain"
    by (rule wf_fsI) (auto simp: shelf_chain_def shelf_def file_at_def is_dir_def ok_comp_def strict_prefix_def
        prefix_Cons split: if_splits)
  then show ?thesis by (auto simp: fs_inv_def shelf_chain_def shelf_def file_at_def ok_comp_def)
qed

lemma lab_sched_opened: "storageFromConfig (lab_sched dry) (Some lab_storage) = Inr (fs_api [''backup''])"
  using lab_opened [of dry] by (simp add: storageFromConfig_def lab_sched_def)

theorem prune_keeps_chain_witness:
  "fs_contents [''backup''] (fst (applyPrune (lab_sched False) (lab_job [] None) (Some lab_storage) (Some (lab_last 1)) shelf_chain))
     ''redis-full-20240101-000000.redis'' = Some (Bytes ''one'')"
proof -
  let ?w = "lab_sched False" and ?f = "''redis-full-20240101-000000.redis''"
  let ?bs = "projr (ListBackupsWithSidecars (fs_api [''backup'']) (w_local ?w) shelf_chain [])"
  have sorts: "slice_sort newer_entry (w_byAge ?w)" unfolding lab_sched_def by (simp add: insertion_sort_is_slice_sort)
  have "isl (ListBackupsWithSidecars (fs_api [''backup'']) (w_local ?w) shelf_chain []) = False" by code_simp
  then have list: "ListBackupsWithSidecars (fs_api [''backup'']) (w_local ?w) shelf_chain [] = Inr ?bs" by (simp add: isl_def sum.expand split: sum.splits)
  have "list_ex (\<lambda>b. be_Strategy b \<noteq> ''full'' \<and> be_Base b \<noteq> [] \<and>
      list_ex (\<lambda>a. be_FileName a = be_Base b \<and> be_FileName a = ?f) ?bs) ?bs" by code_simp
  then obtain b a where "b \<in> set ?bs" "a \<in> set ?bs" "be_Strategy b \<noteq> ''full''" "be_Base b \<noteq> []" "be_FileName a = be_Base b" "be_FileName a = ?f"
    unfolding list_ex_iff by blast
  then have "ancestor (set ?bs) b a" "be_Strategy b \<noteq> ''full''" "?f = be_FileName a \<or> ?f = SidecarName (be_FileName a)"
    by (simp_all add: ancestor.base)
  note kept = prune_keeps_chain [OF sorts shelf_chain_inv lab_sched_opened list this]
  have "fs_contents [''backup''] shelf_chain ?f = Some (Bytes ''one'')" by code_simp
  with kept show ?thesis by simp
qed



text \<open>
  A dry run is followed by a real prune: the runner changes nothing, but the policy of the
  job is then applied to the storage, as after a backup.
\<close>

theorem dry_run_still_prunes:
  assumes "w_run w = runner_of v trigger" and "v_dry v" and "snd (snd (Run v trigger s job)) = None"
    and "j_MaintenanceCfg job = None" and "j_Archive job = None" and "j_Retention job = Some ret"
  shows "fst (fst (runOnceJob w job s)) = fst (applyPrune w job (j_Storage job) (Some ret) s)"
proof -
  obtain s1 evs where run: "Run v trigger s job = (s1, evs, None)" using assms(3) by (metis prod.collapse)
  have "s1 = s" using dry_run_same [OF run assms(2)] .
  with run assms show ?thesis
    by (auto simp: runOnceJob_def runner_of_def and_then_def unless_idle_def postBackup_def archive_wanted_def prune_archive_def
        split: prod.splits bool.splits)
qed

theorem dry_run_still_prunes_witness:
  "fs_contents [''backup''] shelf ''redis-full-20240101-000000.redis'' = Some (Bytes ''one'') \<and>
   fs_contents [''backup''] (fst (fst (runOnceJob (lab_sched True) ((lab_job [] None)\<lparr>j_Retention := Some (lab_last 1)\<rparr>) shelf)))
     ''redis-full-20240101-000000.redis'' = None"
proof
  let ?job = "(lab_job [] None)\<lparr>j_Retention := Some (lab_last 1)\<rparr>" and ?f = "''redis-full-20240101-000000.redis''"
  show "fs_contents [''backup''] shelf ?f = Some (Bytes ''one'')" by code_simp
  have "fst (fst (runOnceJob (lab_sched True) ?job shelf)) = fst (applyPrune (lab_sched True) ?job (j_Storage ?job) (Some (lab_last 1)) shelf)"
  proof (rule dry_run_still_prunes)
    show "w_run (lab_sched True) = runner_of (lab True) ''schedule''" by (simp add: lab_sched_def)
    show "v_dry (lab True)" by (simp add: lab_def)
    show "snd (snd (Run (lab True) ''schedule'' shelf ?job)) = None" by code_simp
  qed (simp_all add: lab_job_def)
  moreover have "fs_contents [''backup''] (fst (applyPrune (lab_sched True) ?job (j_Storage ?job) (Some (lab_last 1)) shelf)) ?f = None"
    by code_simp
  ultimately show "fs_contents [''backup''] (fst (fst (runOnceJob (lab_sched True) ?job shelf))) ?f = None" by simp
qed

text \<open>
  \<open>RunOnce\<close> ends with code 1 exactly when a job that was let through failed, whatever
  jobs came before it, and a failed job does not keep the later ones from running.
\<close>

theorem run_once_exit_code:
  assumes "RunOnce w jobs s = ((s', evs, True), code)"
  shows "code = 1 \<longleftrightarrow> (\<exists>pre j post. jobs = pre @ j # post \<and> fails_after w s pre j)"
proof -
  obtain m where m: "run_once_loop w jobs s 0 = ((s', evs, True), m)" and code: "code = (if m > 0 then 1 else 0)"
    using assms by (auto simp: RunOnce_def split: prod.splits)
  show ?thesis using run_once_count [OF m] code by auto
qed

theorem run_once_exit_code_witness:
  "snd (RunOnce ((lab_sched False)\<lparr>w_run := runner_of failing_lab ''schedule''\<rparr>) [lab_job [] None] shelf) = 1"
proof -
  let ?w = "(lab_sched False)\<lparr>w_run := runner_of failing_lab ''schedule''\<rparr>" and ?job = "lab_job [] None"
  have "snd (snd (fst (RunOnce ?w [?job] shelf)))" by code_simp
  then obtain s' evs code where run: "RunOnce ?w [?job] shelf = ((s', evs, True), code)" by (metis prod.collapse)
  have "fails_after ?w shelf [] ?job" by code_simp
  moreover have "[?job] = [] @ ?job # []" by simp
  ultimately have "code = 1" using run_once_exit_code [OF run] by blast
  with run show ?thesis by simp
qed

text \<open>
  The retention of the archive is applied to a directory beside the backups, also when
  the archive has a storage of its own: the prune never reaches the files of that storage.
\<close>

theorem archive_retention_misses_storage:
  assumes "slice_sort newer_entry (w_byAge w)" and "archiveStorageCfg w job = Some cfg"
    and "storageFromConfig w (Some cfg) = Inr (fs_api beside)" and "j_Archive job = Some ac" and "ac_Storage ac = Some own"
    and "storageFromConfig w (Some own) = Inr (fs_api cold)"
    and "fs_inv beside s" and "fs_inv cold s" and "fs_apart beside cold"
  shows "fs_contents cold (fst (prune_archive w job s)) = fs_contents cold s"
proof -
  have same: "fs_contents cold (fst (applyPrune w job (Some cfg) ret s)) = fs_contents cold s" for ret
  proof (rule applyPrune_cases [of w job "Some cfg" ret s])
    fix st bs p
    let ?fs = "ApplyRetentionAt (w_byAge w) (w_edition w) (w_allowRetention w) (w_clock w s) bs p zero_time"
    assume st: "storageFromConfig w (Some cfg) = Inr st" and bs: "ListBackupsWithSidecars st (w_local w) s [] = Inr bs"
      and del: "fst (applyPrune w job (Some cfg) ret s) = fst (DeleteBackups st ?fs s)"
    have eq: "st = fs_api beside" using st assms(3) by simp
    have "set ?fs \<subseteq> be_FileName ` set bs"
      by (rule retention_sort.deleted_subset [OF retention_sort.intro [OF assms(1)]])
    then have ok: "f \<in> set ?fs \<Longrightarrow> fs_name f" for f
      using fsc.listed_ok(2) [OF assms(7) bs [unfolded eq fs_api_mk]] by blast
    obtain s' errs where d: "DeleteBackupsWithContext (fsc.api beside) False ?fs (s, []) = (s', errs)" by fastforce
    have "fs_contents cold s' = fs_contents cold s" by (rule fsc.backups_apart [OF assms(7-9) ok d])
    then show ?thesis unfolding del eq fs_api_mk DeleteBackups_def d by simp
  qed simp
  show ?thesis using same assms(2,4) by (simp add: prune_archive_def split: option.splits)
qed

definition cold_archive :: archive_config where
  "cold_archive = \<lparr>ac_Last = 1, ac_Within = [], ac_Path = [], ac_Retention = Some (lab_last 1),
     ac_Storage = Some (lab_storage\<lparr>st_Path := ''cold''\<rparr>), ac_StorageRef = []\<rparr>"

theorem archive_retention_misses_storage_witness:
  "fs_contents [''cold''] (fst (prune_archive (lab_sched False) ((lab_job [] None)\<lparr>j_Archive := Some cold_archive\<rparr>) shelf)) =
     fs_contents [''cold''] shelf"
proof (rule archive_retention_misses_storage)
  let ?w = "lab_sched False" and ?job = "(lab_job [] None)\<lparr>j_Archive := Some cold_archive\<rparr>"
  show "slice_sort newer_entry (w_byAge ?w)" unfolding lab_sched_def by (simp add: insertion_sort_is_slice_sort)
  show "archiveStorageCfg ?w ?job = Some (lab_storage\<lparr>st_Path := ''backup/archive''\<rparr>)"
    by (simp add: archiveStorageCfg_def lab_job_def cold_archive_def lab_storage_def)
  show "storageFromConfig ?w (Some (lab_storage\<lparr>st_Path := ''backup/archive''\<rparr>)) = Inr (fs_api [''backup'', ''archive''])"
    by (simp add: storageFromConfig_def lab_sched_def lab_def lab_storage_def storage_New_def LookupBackend_def Options_def comps_def)
  show "storageFromConfig ?w (Some (lab_storage\<lparr>st_Path := ''cold''\<rparr>)) = Inr (fs_api [''cold''])"
    by (simp add: storageFromConfig_def lab_sched_def lab_def lab_storage_def storage_New_def LookupBackend_def Options_def comps_def)
  show "j_Archive ?job = Some cold_archive" "ac_Storage cold_archive = Some (lab_storage\<lparr>st_Path := ''cold''\<rparr>)"
    by (simp_all add: cold_archive_def)
  show "fs_inv [''backup'', ''archive''] shelf"
    using shelf_inv(1) by (auto simp: fs_inv_def shelf_def file_at_def ok_comp_def)
  show "fs_inv [''cold''] shelf" by (rule shelf_inv)
  show "fs_apart [''backup'', ''archive''] [''cold'']" by (simp add: fs_apart_def)
qed

end
