(* ===== verification/Scheduler.thy ===== *)
theory Scheduler
  imports Cron Runner
begin

text \<open>
  The scheduler's concurrent loop: \<open>Run\<close> of \<open>internal/scheduler/scheduler.go\<close> and \<open>runJob\<close> and the
  slots of \<open>runOnceJob\<close> of \<open>jobs.go\<close>. Every job is a goroutine; its place in \<open>runJob\<close> is a
  \<open>phase\<close>, and the channel of slots, the cancelled context and the clock are shared.

  A step of the system lets time pass, delivers the signal, or moves one job. A job that is
  past its checks carries the instants at which the day and the blackouts were looked up. What
  the backup itself does is the matter of the other theories: here it takes some time and ends.

  The lemmas are invariants of the reachable states: never more backups run than there are
  slots, a backup runs only for a job that was let through, a signal can always end the
  program when every recurring job has a wait, and a job without a wait keeps it from ending.
\<close>

section \<open>Waiting for the first run\<close>

definition startupStagger :: duration where
  "startupStagger = 100 * 1000000"

definition starts_at_begin :: "edition \<Rightarrow> schedule option \<Rightarrow> bool" where
  "starts_at_begin ed s =
     (case s of
        None \<Rightarrow> False
      | Some sc \<Rightarrow> FirstWait ed s = None \<and> Cron sc = [] \<and> \<not> Interval sc > 0 \<and> Begin sc \<noteq> [])"

text \<open>The wait before the first run; \<open>None\<close> is the panic of a division by zero.\<close>

definition initial_wait :: "edition \<Rightarrow> schedule option \<Rightarrow> gotime \<Rightarrow> duration option" where
  "initial_wait ed s now =
     (case s of
        None \<Rightarrow> Some 0
      | Some sc \<Rightarrow>
          (case FirstWait ed s of
             Some d \<Rightarrow> Some d
           | None \<Rightarrow>
               if Cron sc \<noteq> [] then nextJobDurationAt s now
               else if Interval sc > 0 then
                 (case timeAnchorWait s now of Some d \<Rightarrow> Some d | None \<Rightarrow> nextJobDurationAt s now)
               else if Begin sc \<noteq> [] then Some (parseBeginAt (Begin sc) now)
               else if Time sc \<noteq> [] then nextJobDurationAt s now
               else Some 0))"

definition first_wait :: "edition \<Rightarrow> schedule option \<Rightarrow> nat \<Rightarrow> gotime \<Rightarrow> duration option" where
  "first_wait ed s idx now =
     map_option (\<lambda>d. if d = 0 then int idx * startupStagger else d) (initial_wait ed s now)"

text \<open>The wait of one turn of the loop: computed anew, and replaced by the first wait in the first turn.\<close>

definition loop_wait :: "edition \<Rightarrow> schedule option \<Rightarrow> bool \<Rightarrow> duration \<Rightarrow> gotime \<Rightarrow> duration option" where
  "loop_wait ed s isFirst fw now =
     (let computed =
        (if isFirst \<and> s \<noteq> None then
           (case FirstWait ed s of
              Some d \<Rightarrow> Some d
            | None \<Rightarrow>
                (case s of
                   Some sc \<Rightarrow>
                     if starts_at_begin ed s \<and> Begin sc \<noteq> [] then Some (parseBeginAt (Begin sc) now)
                     else nextJobDurationAt s now
                 | None \<Rightarrow> nextJobDurationAt s now))
         else nextJobDurationAt s now)
      in map_option (\<lambda>d. if isFirst then fw else d) computed)"

section \<open>Phases\<close>

datatype phase =
    Starting
  | AtLoop bool duration
  | Sleeping int
  | Awake
  | DayOk int
  | Arriving int int
  | Waiting int int
  | Running int int
  | Stopped
  | Crashed

text \<open>What follows a turn of the loop that did not end in a signal.\<close>

definition next_turn :: "schedule option \<Rightarrow> phase" where
  "next_turn s = (if IsRecurring s then AtLoop False 0 else Stopped)"

inductive thread_step :: "edition \<Rightarrow> schedule option \<Rightarrow> nat \<Rightarrow> gotime \<Rightarrow> bool \<Rightarrow> phase \<Rightarrow> phase \<Rightarrow> bool"
  for ed s idx now cancelled where
  start: "thread_step ed s idx now cancelled Starting
    (case first_wait ed s idx now of None \<Rightarrow> Crashed | Some w \<Rightarrow> AtLoop True w)"
| loop: "thread_step ed s idx now cancelled (AtLoop isFirst w)
    (case loop_wait ed s isFirst w now of
       None \<Rightarrow> Crashed
     | Some d \<Rightarrow> if d > 0 then Sleeping (nanos now + d) else Awake)"
| wake: "t \<le> nanos now \<Longrightarrow> thread_step ed s idx now cancelled (Sleeping t) Awake"
| stop: "cancelled \<Longrightarrow> thread_step ed s idx now cancelled (Sleeping t) Stopped"
| day: "thread_step ed s idx now cancelled Awake
    (if s \<noteq> None \<and> \<not> DayAllowed ed s now then next_turn s else DayOk (nanos now))"
| blackout: "thread_step ed s idx now cancelled (DayOk d)
    (if s \<noteq> None \<and> Blocked ed s now then next_turn s else Arriving d (nanos now))"

section \<open>The system\<close>

record sched_state =
  ss_clock :: int
  ss_cancelled :: bool
  ss_taken :: nat
  ss_failed :: nat
  ss_phases :: "phase list"

definition slot_free :: "nat \<Rightarrow> nat \<Rightarrow> bool" where
  "slot_free cap taken \<longleftrightarrow> cap = 0 \<or> taken < cap"

definition take_slot :: "nat \<Rightarrow> nat \<Rightarrow> nat" where
  "take_slot cap taken = (if cap = 0 then taken else taken + 1)"

definition give_slot :: "nat \<Rightarrow> nat \<Rightarrow> nat" where
  "give_slot cap taken = (if cap = 0 then taken else taken - 1)"

abbreviation sched_now :: "location \<Rightarrow> sched_state \<Rightarrow> gotime" where
  "sched_now loc s \<equiv> \<lparr>nanos = ss_clock s, zone = loc\<rparr>"

inductive sched_step ::
  "edition \<Rightarrow> location \<Rightarrow> nat \<Rightarrow> job_config list \<Rightarrow> sched_state \<Rightarrow> sched_state \<Rightarrow> bool"
  for ed loc cap jobs where
  tick: "d > 0 \<Longrightarrow> sched_step ed loc cap jobs s (s\<lparr>ss_clock := ss_clock s + d\<rparr>)"
| signal: "sched_step ed loc cap jobs s (s\<lparr>ss_cancelled := True\<rparr>)"
| thread: "i < length (ss_phases s) \<Longrightarrow>
    thread_step ed (j_Schedule (jobs ! i)) i (sched_now loc s) (ss_cancelled s) (ss_phases s ! i) p \<Longrightarrow>
    sched_step ed loc cap jobs s (s\<lparr>ss_phases := (ss_phases s)[i := p]\<rparr>)"
| acquire: "i < length (ss_phases s) \<Longrightarrow> ss_phases s ! i \<in> {Arriving d b, Waiting d b} \<Longrightarrow> slot_free cap (ss_taken s) \<Longrightarrow>
    sched_step ed loc cap jobs s
      (s\<lparr>ss_taken := take_slot cap (ss_taken s), ss_phases := (ss_phases s)[i := Running d b]\<rparr>)"
| queue: "i < length (ss_phases s) \<Longrightarrow> ss_phases s ! i = Arriving d b \<Longrightarrow> \<not> slot_free cap (ss_taken s) \<Longrightarrow>
    sched_step ed loc cap jobs s (s\<lparr>ss_phases := (ss_phases s)[i := Waiting d b]\<rparr>)"
| leave: "i < length (ss_phases s) \<Longrightarrow> ss_phases s ! i = Waiting d b \<Longrightarrow> ss_cancelled s \<Longrightarrow>
    sched_step ed loc cap jobs s (s\<lparr>ss_phases := (ss_phases s)[i := next_turn (j_Schedule (jobs ! i))]\<rparr>)"
| finish: "i < length (ss_phases s) \<Longrightarrow> ss_phases s ! i = Running d b \<Longrightarrow>
    sched_step ed loc cap jobs s
      (s\<lparr>ss_taken := give_slot cap (ss_taken s), ss_phases := (ss_phases s)[i := next_turn (j_Schedule (jobs ! i))]\<rparr>)"

definition sched_init :: "job_config list \<Rightarrow> int \<Rightarrow> sched_state" where
  "sched_init jobs t = \<lparr>ss_clock = t, ss_cancelled = False, ss_taken = 0, ss_failed = 0,
     ss_phases = replicate (length jobs) Starting\<rparr>"

inductive sched_reach ::
  "edition \<Rightarrow> location \<Rightarrow> nat \<Rightarrow> job_config list \<Rightarrow> sched_state \<Rightarrow> sched_state \<Rightarrow> bool"
  for ed loc cap jobs s where
  refl: "sched_reach ed loc cap jobs s s"
| step: "sched_reach ed loc cap jobs s t \<Longrightarrow> sched_step ed loc cap jobs t u \<Longrightarrow> sched_reach ed loc cap jobs s u"

text \<open>
  \<open>Run\<close> returns when all jobs have returned and, with a recurring job, only after a signal;
  its code is that of the count of failures.
\<close>

definition run_returns :: "job_config list \<Rightarrow> sched_state \<Rightarrow> bool" where
  "run_returns jobs s \<longleftrightarrow>
     (if list_ex (\<lambda>j. IsRecurring (j_Schedule j)) jobs then ss_cancelled s else True) \<and>
     list_all (\<lambda>p. p = Stopped) (ss_phases s)"

definition run_code :: "sched_state \<Rightarrow> int" where
  "run_code s = (if ss_failed s > 0 then 1 else 0)"

inductive_cases thread_stepE: "thread_step ed s idx now cancelled p q"

inductive_cases sched_stepE: "sched_step ed loc cap jobs s t"

section \<open>Slots\<close>

definition is_running :: "phase \<Rightarrow> bool" where
  "is_running p = (case p of Running _ _ \<Rightarrow> True | _ \<Rightarrow> False)"

definition running :: "sched_state \<Rightarrow> nat" where
  "running s = length (filter is_running (ss_phases s))"

lemma filter_update:
  "i < length xs \<Longrightarrow> length (filter P (xs[i := x])) + (if P (xs ! i) then 1 else 0) =
     length (filter P xs) + (if P x then 1 else 0)"
proof (induction xs arbitrary: i)
  case (Cons y ys)
  show ?case
  proof (cases i)
    case (Suc j)
    with Cons.IH [of j] Cons.prems show ?thesis by simp
  qed simp
qed simp

lemma running_update:
  assumes "i < length (ss_phases s)"
  shows "running (s\<lparr>ss_phases := (ss_phases s)[i := p]\<rparr>) + (if is_running (ss_phases s ! i) then 1 else 0) =
    running s + (if is_running p then 1 else 0)"
  using filter_update [OF assms] by (simp add: running_def)

lemma not_running [simp]:
  "\<not> is_running Starting" "\<not> is_running (AtLoop f w)" "\<not> is_running (Sleeping t)" "\<not> is_running Awake"
  "\<not> is_running (DayOk d)" "\<not> is_running (Arriving d b)" "\<not> is_running (Waiting d b)" "\<not> is_running Stopped"
  "\<not> is_running Crashed" "is_running (Running d b)" "\<not> is_running (next_turn sc)"
  by (simp_all add: is_running_def next_turn_def)

lemma thread_not_running:
  "thread_step ed s idx now cancelled p q \<Longrightarrow> \<not> is_running p \<and> \<not> is_running q"
  by (induction rule: thread_step.induct) (auto split: option.splits)

definition slots_inv :: "nat \<Rightarrow> sched_state \<Rightarrow> bool" where
  "slots_inv cap s \<longleftrightarrow> cap = 0 \<or> ss_taken s = running s \<and> ss_taken s \<le> cap"

lemma slots_step:
  assumes "sched_step ed loc cap jobs s t" and "slots_inv cap s"
  shows "slots_inv cap t"
  using assms
proof (cases rule: sched_step.cases)
  case (thread i p)
  with running_update [of i s p] thread_not_running assms(2) show ?thesis by (force simp: slots_inv_def)
next
  case (acquire i d b)
  with running_update [of i s "Running d b"] assms(2) show ?thesis
    by (auto simp: slots_inv_def slot_free_def take_slot_def running_def)
next
  case (finish i d b)
  with running_update [of i s "next_turn (j_Schedule (jobs ! i))"] assms(2) show ?thesis
    by (auto simp: slots_inv_def give_slot_def running_def)
next
  case (queue i d b)
  with running_update [of i s "Waiting d b"] assms(2) show ?thesis by (auto simp: slots_inv_def)
next
  case (leave i d b)
  with running_update [of i s "next_turn (j_Schedule (jobs ! i))"] assms(2) show ?thesis by (auto simp: slots_inv_def)
qed (use assms(2) in \<open>simp_all add: slots_inv_def running_def\<close>)

text \<open>An invariant of the initial state and of every step holds in every state that is reached.\<close>

lemma reach_invariant:
  assumes "sched_reach ed loc cap jobs s t" and "P s" and "\<And>t u. sched_step ed loc cap jobs t u \<Longrightarrow> P t \<Longrightarrow> P u"
  shows "P t"
  using assms by (induction rule: sched_reach.induct) auto

lemma reach_trans:
  assumes "sched_reach ed loc cap jobs t u" and "sched_reach ed loc cap jobs s t"
  shows "sched_reach ed loc cap jobs s u"
  using assms by (induction rule: sched_reach.induct) (auto intro: sched_reach.step)

lemma reach_length: "sched_reach ed loc cap jobs s t \<Longrightarrow> length (ss_phases t) = length (ss_phases s)"
  by (rule reach_invariant [where P = "\<lambda>t. length (ss_phases t) = length (ss_phases s)"]) (auto elim!: sched_stepE)

section \<open>Admission\<close>

text \<open>What the instants in a phase promise, at the clock \<open>now\<close>.\<close>

definition admitted :: "edition \<Rightarrow> location \<Rightarrow> schedule option \<Rightarrow> int \<Rightarrow> int \<Rightarrow> int \<Rightarrow> bool" where
  "admitted ed loc s d b now \<longleftrightarrow> d \<le> b \<and> b \<le> now \<and>
     DayAllowed ed s \<lparr>nanos = d, zone = loc\<rparr> \<and> \<not> Blocked ed s \<lparr>nanos = b, zone = loc\<rparr>"

definition phase_ok :: "edition \<Rightarrow> location \<Rightarrow> schedule option \<Rightarrow> int \<Rightarrow> phase \<Rightarrow> bool" where
  "phase_ok ed loc s now p =
     (case p of
        DayOk d \<Rightarrow> d \<le> now \<and> DayAllowed ed s \<lparr>nanos = d, zone = loc\<rparr>
      | Arriving d b \<Rightarrow> admitted ed loc s d b now
      | Waiting d b \<Rightarrow> admitted ed loc s d b now
      | Running d b \<Rightarrow> admitted ed loc s d b now
      | _ \<Rightarrow> True)"

lemma phase_ok_simps [simp]:
  "phase_ok ed loc s now (next_turn sc)" "phase_ok ed loc s now Awake" "phase_ok ed loc s now Stopped"
  "phase_ok ed loc s now Crashed" "phase_ok ed loc s now (Sleeping t)" "phase_ok ed loc s now (AtLoop f w)"
  "phase_ok ed loc s now Starting"
  by (simp_all add: phase_ok_def next_turn_def)

lemma phase_ok_later: "phase_ok ed loc s now p \<Longrightarrow> now \<le> now' \<Longrightarrow> phase_ok ed loc s now' p"
  by (auto simp: phase_ok_def admitted_def split: phase.splits)

lemma thread_phase_ok:
  assumes "thread_step ed s idx now cancelled p q" and "phase_ok ed (zone now) s (nanos now) p"
  shows "phase_ok ed (zone now) s (nanos now) q"
proof -
  have eta: "\<lparr>nanos = nanos now, zone = zone now\<rparr> = now" by simp
  from assms(1) show ?thesis
  proof (cases rule: thread_step.cases)
  case day
  have "DayAllowed ed s now" if "s = None" using that by (simp add: DayAllowed_def)
  then have "phase_ok ed (zone now) s (nanos now) (DayOk (nanos now))" if "\<not> (s \<noteq> None \<and> \<not> DayAllowed ed s now)"
    using that by (auto simp: phase_ok_def eta)
  with day show ?thesis by simp
next
  case (blackout d)
  have "\<not> Blocked ed s now" if "s = None" using that by (simp add: Blocked_def)
  then have "phase_ok ed (zone now) s (nanos now) (Arriving d (nanos now))" if "\<not> (s \<noteq> None \<and> Blocked ed s now)"
    using that assms(2) blackout(1) by (auto simp: phase_ok_def admitted_def eta)
  with blackout show ?thesis by simp
qed (auto split: option.splits)
qed

definition admission_inv :: "edition \<Rightarrow> location \<Rightarrow> job_config list \<Rightarrow> sched_state \<Rightarrow> bool" where
  "admission_inv ed loc jobs s \<longleftrightarrow>
     (\<forall>i < length (ss_phases s). phase_ok ed loc (j_Schedule (jobs ! i)) (ss_clock s) (ss_phases s ! i))"

lemma admission_update:
  assumes "admission_inv ed loc jobs s" and "phase_ok ed loc (j_Schedule (jobs ! i)) (ss_clock s) p"
    and "ss_phases t = (ss_phases s)[i := p]" and "ss_clock t = ss_clock s"
  shows "admission_inv ed loc jobs t"
  using assms by (cases "i < length (ss_phases s)") (auto simp: admission_inv_def nth_list_update list_update_beyond)

lemma admission_step:
  assumes "sched_step ed loc cap jobs s t" and "admission_inv ed loc jobs s"
  shows "admission_inv ed loc jobs t"
  using assms(1)
proof (cases rule: sched_step.cases)
  case (tick d)
  with assms(2) show ?thesis by (auto simp: admission_inv_def intro: phase_ok_later)
next
  case signal
  with assms(2) show ?thesis by (simp add: admission_inv_def)
next
  case (thread i p)
  with assms(2) have "phase_ok ed loc (j_Schedule (jobs ! i)) (ss_clock s) p"
    using thread_phase_ok [OF thread(3)] by (simp add: admission_inv_def)
  then show ?thesis by (rule admission_update [OF assms(2)]) (simp_all add: thread)
next
  case (acquire i d b)
  with assms(2) have "phase_ok ed loc (j_Schedule (jobs ! i)) (ss_clock s) (Running d b)"
    by (force simp: admission_inv_def phase_ok_def)
  then show ?thesis by (rule admission_update [OF assms(2)]) (simp_all add: acquire)
next
  case (queue i d b)
  with assms(2) have "phase_ok ed loc (j_Schedule (jobs ! i)) (ss_clock s) (Waiting d b)"
    by (force simp: admission_inv_def phase_ok_def)
  then show ?thesis by (rule admission_update [OF assms(2)]) (simp_all add: queue)
next
  case (leave i d b)
  then show ?thesis by (intro admission_update [OF assms(2)]) simp_all
next
  case (finish i d b)
  then show ?thesis by (intro admission_update [OF assms(2)]) simp_all
qed

section \<open>Ending\<close>

text \<open>A schedule that always knows its next run, and always later when it recurs.\<close>

definition live_schedule :: "schedule option \<Rightarrow> bool" where
  "live_schedule s \<longleftrightarrow> (\<forall>now. \<exists>d. nextJobDurationAt s now = Some d \<and> (IsRecurring s \<longrightarrow> d > 0))"

lemma live_waits:
  assumes "live_schedule s"
  shows "first_wait ed s idx now \<noteq> None" and "loop_wait ed s f w now \<noteq> None"
    and "IsRecurring s \<Longrightarrow> \<exists>d > 0. loop_wait ed s False w now = Some d"
proof -
  obtain d where d: "nextJobDurationAt s now = Some d" "IsRecurring s \<Longrightarrow> d > 0" using assms unfolding live_schedule_def by blast
  show "first_wait ed s idx now \<noteq> None" using d by (auto simp: first_wait_def initial_wait_def split: option.splits)
  show "loop_wait ed s f w now \<noteq> None" using d by (auto simp: loop_wait_def Let_def split: option.splits)
  show "\<exists>d > 0. loop_wait ed s False w now = Some d" if "IsRecurring s" using d that by (auto simp: loop_wait_def)
qed

lemma no_crash_thread:
  "thread_step ed s idx now cancelled p q \<Longrightarrow> live_schedule s \<Longrightarrow> q \<noteq> Crashed"
  by (induction rule: thread_step.induct) (auto simp: next_turn_def live_waits split: option.splits)

lemma no_crash_step:
  assumes "sched_step ed loc cap jobs s t" and "\<And>i. i < length (ss_phases s) \<Longrightarrow> live_schedule (j_Schedule (jobs ! i))"
    and "Crashed \<notin> set (ss_phases s)"
  shows "Crashed \<notin> set (ss_phases t)"
proof -
  have upd: "Crashed \<notin> set ((ss_phases s)[i := q])" if "q \<noteq> Crashed" for i q
    using that assms(3) set_update_subset_insert [of "ss_phases s" i q] by auto
  show ?thesis
    using assms(1)
  proof (cases rule: sched_step.cases)
    case (thread i q)
    with no_crash_thread [OF thread(3) assms(2)] upd show ?thesis by simp
  qed (use assms(3) upd in \<open>auto simp: next_turn_def\<close>)
qed

text \<open>\<open>stoppable i s\<close>: from \<open>s\<close> the job \<open>i\<close> can come to its end while the others stay where they are.\<close>

definition stoppable :: "edition \<Rightarrow> location \<Rightarrow> nat \<Rightarrow> job_config list \<Rightarrow> nat \<Rightarrow> sched_state \<Rightarrow> bool" where
  "stoppable ed loc cap jobs i s \<longleftrightarrow>
     (\<exists>t. sched_reach ed loc cap jobs s t \<and> ss_cancelled t \<and> ss_phases t = (ss_phases s)[i := Stopped])"

lemma stoppable_step:
  assumes "sched_step ed loc cap jobs s s'" and "ss_phases s' = (ss_phases s)[i := p]" and "stoppable ed loc cap jobs i s'"
  shows "stoppable ed loc cap jobs i s"
proof -
  from assms(3) obtain t where t: "sched_reach ed loc cap jobs s' t" "ss_cancelled t" "ss_phases t = (ss_phases s')[i := Stopped]"
    by (auto simp: stoppable_def)
  have "sched_reach ed loc cap jobs s t"
    by (rule reach_trans [OF t(1)]) (rule sched_reach.step [OF sched_reach.refl assms(1)])
  with t assms(2) show ?thesis by (auto simp: stoppable_def)
qed

lemma stoppable_thread:
  assumes "thread_step ed (j_Schedule (jobs ! i)) i (sched_now loc s) (ss_cancelled s) (ss_phases s ! i) p"
    and "i < length (ss_phases s)" and "stoppable ed loc cap jobs i (s\<lparr>ss_phases := (ss_phases s)[i := p]\<rparr>)"
  shows "stoppable ed loc cap jobs i s"
  by (rule stoppable_step [OF sched_step.thread [OF assms(2,1)] _ assms(3)]) simp

lemma stop_stopped:
  "ss_cancelled s \<Longrightarrow> ss_phases s ! i = Stopped \<Longrightarrow> stoppable ed loc cap jobs i s"
  unfolding stoppable_def by (rule exI [of _ s]) (metis list_update_id sched_reach.refl)

lemma stop_sleeping:
  assumes "ss_cancelled s" and "i < length (ss_phases s)" and "ss_phases s ! i = Sleeping t"
  shows "stoppable ed loc cap jobs i s"
  by (rule stoppable_thread [of _ _ _ _ _ Stopped])
    (use assms in \<open>auto intro: thread_step.stop stop_stopped\<close>)

lemma stop_next_turn:
  assumes "ss_cancelled s" and "i < length (ss_phases s)" and "ss_phases s ! i = next_turn (j_Schedule (jobs ! i))"
    and "live_schedule (j_Schedule (jobs ! i))"
  shows "stoppable ed loc cap jobs i s"
proof (cases "IsRecurring (j_Schedule (jobs ! i))")
  case False
  with assms show ?thesis by (intro stop_stopped) (simp_all add: next_turn_def)
next
  case True
  obtain d where d: "d > 0" "loop_wait ed (j_Schedule (jobs ! i)) False 0 (sched_now loc s) = Some d"
    using live_waits(3) [OF assms(4) True] by blast
  have "thread_step ed (j_Schedule (jobs ! i)) i (sched_now loc s) (ss_cancelled s) (ss_phases s ! i) (Sleeping (ss_clock s + d))"
    using thread_step.loop [of ed "j_Schedule (jobs ! i)" i "sched_now loc s" "ss_cancelled s" False 0] d True assms(3)
    by (simp add: next_turn_def)
  then show ?thesis
    by (rule stoppable_thread) (use assms in \<open>auto intro: stop_sleeping\<close>)
qed

lemma stop_running:
  assumes "ss_cancelled s" and "i < length (ss_phases s)" and "ss_phases s ! i = Running d b"
    and "live_schedule (j_Schedule (jobs ! i))"
  shows "stoppable ed loc cap jobs i s"
  by (rule stoppable_step [OF sched_step.finish [OF assms(2,3)]]) (use assms in \<open>auto intro: stop_next_turn\<close>)

lemma stop_arriving:
  assumes "ss_cancelled s" and "i < length (ss_phases s)" and "ss_phases s ! i \<in> {Arriving d b, Waiting d b}"
    and "live_schedule (j_Schedule (jobs ! i))"
  shows "stoppable ed loc cap jobs i s"
proof -
  have waiting: "stoppable ed loc cap jobs i u" if "ss_cancelled u" "i < length (ss_phases u)" "ss_phases u ! i = Waiting d b" for u
    by (rule stoppable_step [OF sched_step.leave [OF that(2,3,1)]]) (use assms(4) that in \<open>auto intro: stop_next_turn\<close>)
  show ?thesis
  proof (cases "slot_free cap (ss_taken s)")
    case True
    show ?thesis
      by (rule stoppable_step [OF sched_step.acquire [OF assms(2,3) True]]) (use assms in \<open>auto intro: stop_running\<close>)
  next
    case False
    have "stoppable ed loc cap jobs i s" if "ss_phases s ! i = Arriving d b"
      by (rule stoppable_step [OF sched_step.queue [OF assms(2) that False]]) (use assms in \<open>auto intro: waiting\<close>)
    with waiting [OF assms(1,2)] assms(3) show ?thesis by blast
  qed
qed

lemma stop_either:
  assumes "thread_step ed (j_Schedule (jobs ! i)) i (sched_now loc s) (ss_cancelled s) (ss_phases s ! i) p"
    and "p = next_turn (j_Schedule (jobs ! i)) \<or> stoppable ed loc cap jobs i (s\<lparr>ss_phases := (ss_phases s)[i := p]\<rparr>)"
    and "ss_cancelled s" and "i < length (ss_phases s)" and "live_schedule (j_Schedule (jobs ! i))"
  shows "stoppable ed loc cap jobs i s"
proof (rule stoppable_thread [OF assms(1,4)])
  show "stoppable ed loc cap jobs i (s\<lparr>ss_phases := (ss_phases s)[i := p]\<rparr>)"
    using assms(2)
  proof
    assume "p = next_turn (j_Schedule (jobs ! i))"
    with assms show ?thesis by (intro stop_next_turn) simp_all
  qed
qed

lemma stop_day_ok:
  assumes "ss_cancelled s" and "i < length (ss_phases s)" and "ss_phases s ! i = DayOk d"
    and "live_schedule (j_Schedule (jobs ! i))"
  shows "stoppable ed loc cap jobs i s"
proof (rule stop_either [OF _ _ assms(1,2,4)])
  let ?p = "if j_Schedule (jobs ! i) \<noteq> None \<and> Blocked ed (j_Schedule (jobs ! i)) (sched_now loc s)
    then next_turn (j_Schedule (jobs ! i)) else Arriving d (nanos (sched_now loc s))"
  show "thread_step ed (j_Schedule (jobs ! i)) i (sched_now loc s) (ss_cancelled s) (ss_phases s ! i) ?p"
    unfolding assms(3) by (rule thread_step.blackout)
  have "stoppable ed loc cap jobs i (s\<lparr>ss_phases := (ss_phases s)[i := Arriving d (ss_clock s)]\<rparr>)"
    using assms by (intro stop_arriving [of _ _ d "ss_clock s"]) simp_all
  then show "?p = next_turn (j_Schedule (jobs ! i)) \<or> stoppable ed loc cap jobs i (s\<lparr>ss_phases := (ss_phases s)[i := ?p]\<rparr>)" by simp
qed

lemma stop_awake:
  assumes "ss_cancelled s" and "i < length (ss_phases s)" and "ss_phases s ! i = Awake"
    and "live_schedule (j_Schedule (jobs ! i))"
  shows "stoppable ed loc cap jobs i s"
proof (rule stop_either [OF _ _ assms(1,2,4)])
  let ?p = "if j_Schedule (jobs ! i) \<noteq> None \<and> \<not> DayAllowed ed (j_Schedule (jobs ! i)) (sched_now loc s)
    then next_turn (j_Schedule (jobs ! i)) else DayOk (nanos (sched_now loc s))"
  show "thread_step ed (j_Schedule (jobs ! i)) i (sched_now loc s) (ss_cancelled s) (ss_phases s ! i) ?p"
    unfolding assms(3) by (rule thread_step.day)
  have "stoppable ed loc cap jobs i (s\<lparr>ss_phases := (ss_phases s)[i := DayOk (ss_clock s)]\<rparr>)"
    using assms by (intro stop_day_ok [of _ _ "ss_clock s"]) simp_all
  then show "?p = next_turn (j_Schedule (jobs ! i)) \<or> stoppable ed loc cap jobs i (s\<lparr>ss_phases := (ss_phases s)[i := ?p]\<rparr>)" by simp
qed

lemma stop_loop:
  assumes "ss_cancelled s" and "i < length (ss_phases s)" and "ss_phases s ! i = AtLoop f w"
    and "live_schedule (j_Schedule (jobs ! i))"
  shows "stoppable ed loc cap jobs i s"
proof -
  obtain d where d: "loop_wait ed (j_Schedule (jobs ! i)) f w (sched_now loc s) = Some d"
    using live_waits(2) [OF assms(4)] by blast
  note turn = thread_step.loop [of ed "j_Schedule (jobs ! i)" i "sched_now loc s" "ss_cancelled s" f w]
  show ?thesis
  proof (cases "d > 0")
    case True
    with turn d have "thread_step ed (j_Schedule (jobs ! i)) i (sched_now loc s) (ss_cancelled s) (ss_phases s ! i) (Sleeping (ss_clock s + d))"
      using assms(3) by simp
    then show ?thesis by (rule stoppable_thread) (use assms in \<open>auto intro: stop_sleeping\<close>)
  next
    case False
    with turn d have "thread_step ed (j_Schedule (jobs ! i)) i (sched_now loc s) (ss_cancelled s) (ss_phases s ! i) Awake"
      using assms(3) by simp
    then show ?thesis by (rule stoppable_thread) (use assms in \<open>auto intro: stop_awake\<close>)
  qed
qed

lemma stop_any:
  assumes "ss_cancelled s" and "i < length (ss_phases s)" and "ss_phases s ! i \<noteq> Crashed"
    and "live_schedule (j_Schedule (jobs ! i))"
  shows "stoppable ed loc cap jobs i s"
proof (cases "ss_phases s ! i")
  case Starting
  obtain w where w: "first_wait ed (j_Schedule (jobs ! i)) i (sched_now loc s) = Some w"
    using live_waits(1) [OF assms(4)] by blast
  have "thread_step ed (j_Schedule (jobs ! i)) i (sched_now loc s) (ss_cancelled s) (ss_phases s ! i) (AtLoop True w)"
    using thread_step.start [of ed "j_Schedule (jobs ! i)" i "sched_now loc s" "ss_cancelled s"] w Starting by simp
  then show ?thesis by (rule stoppable_thread) (use assms in \<open>auto intro: stop_loop\<close>)
qed (use assms in \<open>auto intro: stop_loop stop_sleeping stop_awake stop_day_ok stop_running stop_stopped
      stop_arriving [where d = d and b = b for d b]\<close>)

lemma stop_first:
  assumes "ss_cancelled s" and "Crashed \<notin> set (ss_phases s)" and "k \<le> length (ss_phases s)"
    and "\<And>i. i < length (ss_phases s) \<Longrightarrow> live_schedule (j_Schedule (jobs ! i))"
  shows "\<exists>t. sched_reach ed loc cap jobs s t \<and> ss_cancelled t \<and> ss_phases t = replicate k Stopped @ drop k (ss_phases s)"
  using assms(3)
proof (induction k)
  case 0
  show ?case using assms(1) by (intro exI [of _ s]) (simp add: sched_reach.refl)
next
  case (Suc k)
  then obtain t where t: "sched_reach ed loc cap jobs s t" "ss_cancelled t" "ss_phases t = replicate k Stopped @ drop k (ss_phases s)"
    by auto
  have k: "k < length (ss_phases s)" using Suc.prems by simp
  have "ss_phases t ! k = ss_phases s ! k" "k < length (ss_phases t)" using k t(3) by (simp_all add: nth_append)
  moreover have "ss_phases s ! k \<noteq> Crashed" using assms(2) k by (metis nth_mem)
  ultimately have "stoppable ed loc cap jobs k t" using stop_any [OF t(2)] assms(4) [OF k] by simp
  then obtain u where u: "sched_reach ed loc cap jobs t u" "ss_cancelled u" "ss_phases u = (ss_phases t)[k := Stopped]"
    by (auto simp: stoppable_def)
  have "ss_phases u = replicate (Suc k) Stopped @ drop (Suc k) (ss_phases s)"
    using k unfolding u(3) t(3) by (simp add: list_update_append Cons_nth_drop_Suc [symmetric] replicate_app_Cons_same)
  with reach_trans [OF u(1) t(1)] u(2) show ?case by blast
qed

section \<open>Jobs without a wait\<close>

definition busy :: "phase \<Rightarrow> bool" where
  "busy p =
     (case p of
        Sleeping _ \<Rightarrow> False
      | Stopped \<Rightarrow> False
      | Crashed \<Rightarrow> False
      | AtLoop isFirst w \<Rightarrow> isFirst \<longrightarrow> w = 0
      | _ \<Rightarrow> True)"

definition waitless :: "edition \<Rightarrow> schedule option \<Rightarrow> bool" where
  "waitless ed s \<longleftrightarrow> IsRecurring s \<and> FirstWait ed s = None \<and>
     (\<forall>now. initial_wait ed s now = Some 0 \<and> nextJobDurationAt s now = Some 0)"

lemma busy_next: "IsRecurring s \<Longrightarrow> busy (next_turn s)"
  by (simp add: next_turn_def busy_def)

lemma busy_thread:
  assumes "thread_step ed s 0 now cancelled p q" and "waitless ed s" and "busy p"
  shows "busy q"
  using assms(1)
proof (cases rule: thread_step.cases)
  case start
  with assms(2) show ?thesis by (simp add: waitless_def first_wait_def busy_def)
next
  case (loop isFirst w)
  obtain sc where sc: "s = Some sc" using assms(2) by (cases s) (auto simp: waitless_def IsRecurring_def)
  have at_begin: "Begin sc \<noteq> [] \<longrightarrow> parseBeginAt (Begin sc) now = 0" if "starts_at_begin ed s"
    using assms(2) that by (auto simp: waitless_def sc starts_at_begin_def initial_wait_def dest: spec [of _ now])
  have "loop_wait ed s isFirst w now = Some (if isFirst then w else 0)"
    using assms(2) at_begin by (auto simp: waitless_def loop_wait_def sc)
  with loop assms(3) show ?thesis by (auto simp: busy_def)
qed (use assms(2,3) in \<open>auto simp: busy_def waitless_def dest: busy_next [unfolded busy_def]\<close>)

lemma busy_step:
  assumes "sched_step ed loc cap jobs s t" and "waitless ed (j_Schedule (jobs ! 0))" and "busy (ss_phases s ! 0)"
  shows "busy (ss_phases t ! 0)"
proof -
  have rec: "busy (next_turn (j_Schedule (jobs ! 0)))" using assms(2) busy_next by (simp add: waitless_def)
  from assms(1) show ?thesis
  proof (cases rule: sched_step.cases)
    case (thread i p)
    with assms(2,3) busy_thread show ?thesis by (cases i) (auto simp: thread)
  next
    case (acquire i d b)
    with assms(3) show ?thesis by (cases i) (auto simp: busy_def)
  next
    case (queue i d b)
    with assms(3) show ?thesis by (cases i) (auto simp: busy_def)
  next
    case (leave i d b)
    with assms(3) rec show ?thesis by (cases i) auto
  next
    case (finish i d b)
    with assms(3) rec show ?thesis by (cases i) auto
  qed (use assms(3) in simp_all)
qed

lemma impossible_cron_waitless:
  assumes "s = Some sc" and "Cron sc = ''0 0 30 2 *''" and "Start sc = []"
  shows "waitless ed s"
  using assms impossible_date_wait
  by (auto simp: waitless_def IsRecurring_def FirstWait_def firstWait_def initial_wait_def nextJobDurationAt_def split: edition.splits)

section \<open>Scripts\<close>

text \<open>An executable account of the steps, for concrete runs.\<close>

datatype move = Tick int | Thread nat | Acquire nat | Queue nat | Finish nat

fun thread_next :: "edition \<Rightarrow> schedule option \<Rightarrow> nat \<Rightarrow> gotime \<Rightarrow> phase \<Rightarrow> phase option" where
  "thread_next ed s idx now Starting =
     Some (case first_wait ed s idx now of None \<Rightarrow> Crashed | Some w \<Rightarrow> AtLoop True w)"
| "thread_next ed s idx now (AtLoop isFirst w) =
     Some (case loop_wait ed s isFirst w now of
             None \<Rightarrow> Crashed
           | Some d \<Rightarrow> if d > 0 then Sleeping (nanos now + d) else Awake)"
| "thread_next ed s idx now (Sleeping t) = (if t \<le> nanos now then Some Awake else None)"
| "thread_next ed s idx now Awake =
     Some (if s \<noteq> None \<and> \<not> DayAllowed ed s now then next_turn s else DayOk (nanos now))"
| "thread_next ed s idx now (DayOk d) =
     Some (if s \<noteq> None \<and> Blocked ed s now then next_turn s else Arriving d (nanos now))"
| "thread_next ed s idx now _ = None"

lemma thread_next_step:
  assumes "thread_next ed s idx now p = Some q"
  shows "thread_step ed s idx now cancelled p q"
proof (cases p)
  case Starting
  show ?thesis unfolding Starting
    by (rule subst [OF assms [unfolded Starting thread_next.simps option.inject]]) (rule thread_step.start)
next
  case (AtLoop f w)
  show ?thesis unfolding AtLoop
    by (rule subst [OF assms [unfolded AtLoop thread_next.simps option.inject]]) (rule thread_step.loop)
next
  case Awake
  show ?thesis unfolding Awake
    by (rule subst [OF assms [unfolded Awake thread_next.simps option.inject]]) (rule thread_step.day)
next
  case (DayOk d)
  show ?thesis unfolding DayOk
    by (rule subst [OF assms [unfolded DayOk thread_next.simps option.inject]]) (rule thread_step.blackout)
qed (use assms in \<open>auto intro: thread_step.wake split: if_splits\<close>)

definition apply_move :: "edition \<Rightarrow> location \<Rightarrow> nat \<Rightarrow> job_config list \<Rightarrow> move \<Rightarrow> sched_state \<Rightarrow> sched_state option" where
  "apply_move ed loc cap jobs m s =
     (let ps = ss_phases s
      in case m of
           Tick d \<Rightarrow> if d > 0 then Some (s\<lparr>ss_clock := ss_clock s + d\<rparr>) else None
         | Thread i \<Rightarrow>
             if i < length ps
             then map_option (\<lambda>p. s\<lparr>ss_phases := ps[i := p]\<rparr>) (thread_next ed (j_Schedule (jobs ! i)) i (sched_now loc s) (ps ! i))
             else None
         | Acquire i \<Rightarrow>
             if i < length ps \<and> slot_free cap (ss_taken s)
             then (case ps ! i of
                     Arriving d b \<Rightarrow> Some (s\<lparr>ss_taken := take_slot cap (ss_taken s), ss_phases := ps[i := Running d b]\<rparr>)
                   | Waiting d b \<Rightarrow> Some (s\<lparr>ss_taken := take_slot cap (ss_taken s), ss_phases := ps[i := Running d b]\<rparr>)
                   | _ \<Rightarrow> None)
             else None
         | Queue i \<Rightarrow>
             if i < length ps \<and> \<not> slot_free cap (ss_taken s)
             then (case ps ! i of Arriving d b \<Rightarrow> Some (s\<lparr>ss_phases := ps[i := Waiting d b]\<rparr>) | _ \<Rightarrow> None)
             else None
         | Finish i \<Rightarrow>
             if i < length ps
             then (case ps ! i of
                     Running d b \<Rightarrow> Some (s\<lparr>ss_taken := give_slot cap (ss_taken s),
                        ss_phases := ps[i := next_turn (j_Schedule (jobs ! i))]\<rparr>)
                   | _ \<Rightarrow> None)
             else None)"

lemma apply_move_step: "apply_move ed loc cap jobs m s = Some t \<Longrightarrow> sched_step ed loc cap jobs s t"
  by (cases m) (auto simp: apply_move_def Let_def intro: sched_step.intros thread_next_step split: if_splits phase.splits)

fun script :: "edition \<Rightarrow> location \<Rightarrow> nat \<Rightarrow> job_config list \<Rightarrow> move list \<Rightarrow> sched_state \<Rightarrow> sched_state option" where
  "script ed loc cap jobs [] s = Some s"
| "script ed loc cap jobs (m # ms) s =
     (case apply_move ed loc cap jobs m s of None \<Rightarrow> None | Some t \<Rightarrow> script ed loc cap jobs ms t)"

lemma script_reach: "script ed loc cap jobs ms s = Some t \<Longrightarrow> sched_reach ed loc cap jobs s t"
proof (induction ms arbitrary: s)
  case Nil
  then show ?case by (simp add: sched_reach.refl)
next
  case (Cons m ms)
  then obtain u where u: "apply_move ed loc cap jobs m s = Some u" "script ed loc cap jobs ms u = Some t"
    by (auto split: option.splits)
  have "sched_reach ed loc cap jobs s u" by (rule sched_reach.step [OF sched_reach.refl apply_move_step [OF u(1)]])
  with Cons.IH [OF u(2)] reach_trans show ?case by blast
qed

section \<open>Properties\<close>

lemma init_slots: "slots_inv cap (sched_init jobs t0)"
  by (simp add: slots_inv_def sched_init_def running_def)

lemma init_admission: "admission_inv ed loc jobs (sched_init jobs t0)"
  by (simp add: admission_inv_def sched_init_def)

text \<open>Two jobs for one slot: the second may not run between 22:00 and 23:00.\<close>

definition late_schedule :: schedule where
  "late_schedule = empty_schedule\<lparr>Blackouts := Some [\<lparr>bo_Begin = ''2200'', bo_End = ''2300'', bo_Days = no_days\<rparr>]\<rparr>"

definition late_jobs :: "job_config list" where
  "late_jobs = [lab_job [] None, (lab_job [] None)\<lparr>j_Schedule := Some late_schedule\<rparr>]"

definition late_start :: int where
  "late_start = 79140 * ns_second"

definition late_moves :: "move list" where
  "late_moves = replicate 4 (Thread 0) @ [Acquire 0, Thread 1, Thread 1, Tick 100000000] @ replicate 3 (Thread 1) @
     [Queue 1, Tick (120 * ns_second), Finish 0, Acquire 1]"

text \<open>
  (C7) Never more backups run than the configured number of slots, in every state the
  scheduler can reach, whatever the order of events.
\<close>

theorem running_within_slots:
  assumes "sched_reach ed loc cap jobs (sched_init jobs t0) s" and "cap > 0"
  shows "running s \<le> cap"
proof -
  have "slots_inv cap s"
    by (rule reach_invariant [where P = "slots_inv cap", OF assms(1) init_slots]) (rule slots_step)
  with assms(2) show ?thesis by (auto simp: slots_inv_def)
qed

theorem running_within_slots_witness:
  "running (the (script Supported utc 1 late_jobs late_moves (sched_init late_jobs late_start))) \<le> 1"
proof -
  let ?run = "script Supported utc 1 late_jobs late_moves (sched_init late_jobs late_start)"
  have "(case ?run of None \<Rightarrow> False | Some _ \<Rightarrow> True)" by code_simp
  then have "?run = Some (the ?run)" by (simp split: option.splits)
  from running_within_slots [OF script_reach [OF this]] show ?thesis by simp
qed

text \<open>
  (C8) A backup runs only for a job that was let through: at an instant before the run its day
  was allowed, and at an instant after that no blackout held.
\<close>

theorem running_was_admitted:
  assumes "sched_reach ed loc cap jobs (sched_init jobs t0) s" and "i < length jobs" and "ss_phases s ! i = Running d b"
  shows "d \<le> b \<and> b \<le> ss_clock s \<and> DayAllowed ed (j_Schedule (jobs ! i)) \<lparr>nanos = d, zone = loc\<rparr> \<and>
    \<not> Blocked ed (j_Schedule (jobs ! i)) \<lparr>nanos = b, zone = loc\<rparr>"
proof -
  have "length (ss_phases s) = length jobs" using reach_length [OF assms(1)] by (simp add: sched_init_def)
  moreover have "admission_inv ed loc jobs s"
    by (rule reach_invariant [where P = "admission_inv ed loc jobs", OF assms(1) init_admission]) (rule admission_step)
  ultimately have "phase_ok ed loc (j_Schedule (jobs ! i)) (ss_clock s) (Running d b)"
    using assms(2,3) by (metis admission_inv_def)
  then show ?thesis by (simp add: phase_ok_def admitted_def)
qed

theorem running_was_admitted_witness:
  "\<not> Blocked Supported (Some late_schedule) \<lparr>nanos = late_start + 100000000, zone = utc\<rparr>"
proof -
  let ?run = "script Supported utc 1 late_jobs late_moves (sched_init late_jobs late_start)"
  have "(case ?run of None \<Rightarrow> False | Some s \<Rightarrow> ss_phases s ! 1 = Running (late_start + 100000000) (late_start + 100000000))" by code_simp
  then obtain s where s: "?run = Some s" "ss_phases s ! 1 = Running (late_start + 100000000) (late_start + 100000000)"
    by (auto split: option.splits)
  have "1 < length late_jobs" by (simp add: late_jobs_def)
  from running_was_admitted [OF script_reach [OF s(1)] this s(2)] show ?thesis
    by (simp add: late_jobs_def)
qed

text \<open>
  A job that waits for a slot is not checked again: it can start in the middle of its own
  blackout window.
\<close>

theorem queued_job_starts_in_blackout:
  "\<exists>s d b. sched_reach Supported utc 1 late_jobs (sched_init late_jobs late_start) s \<and> ss_phases s ! 1 = Running d b \<and>
     Blocked Supported (j_Schedule (late_jobs ! 1)) (sched_now utc s)"
proof -
  let ?run = "script Supported utc 1 late_jobs late_moves (sched_init late_jobs late_start)"
  have "(case ?run of None \<Rightarrow> False | Some s \<Rightarrow> is_running (ss_phases s ! 1) \<and>
      Blocked Supported (j_Schedule (late_jobs ! 1)) (sched_now utc s))" by code_simp
  then obtain s where s: "?run = Some s" "is_running (ss_phases s ! 1)" "Blocked Supported (j_Schedule (late_jobs ! 1)) (sched_now utc s)"
    by (auto split: option.splits)
  from s(2) obtain d b where "ss_phases s ! 1 = Running d b" by (auto simp: is_running_def split: phase.splits)
  with s script_reach [OF s(1)] show ?thesis by blast
qed



text \<open>
  A first job whose cron expression names a day that no year has, which validation
  accepts, never sleeps: it runs backup after backup, it never sees the signal, and the
  program never ends.
\<close>

theorem impossible_cron_never_ends:
  assumes "sched_reach ed loc cap (job # jobs) (sched_init (job # jobs) t0) s"
    and "j_Schedule job = Some sc" and "Cron sc = ''0 0 30 2 *''" and "Start sc = []"
  shows "ss_phases s ! 0 \<noteq> Sleeping t \<and> \<not> run_returns (job # jobs) s"
proof -
  have idle: "waitless ed (j_Schedule ((job # jobs) ! 0))" using impossible_cron_waitless [OF assms(2-4)] by simp
  have "busy (ss_phases s ! 0)"
    by (rule reach_invariant [where P = "\<lambda>s. busy (ss_phases s ! 0)", OF assms(1)])
      (simp_all add: sched_init_def busy_def busy_step [OF _ idle, unfolded busy_def])
  moreover have "ss_phases s \<noteq> []" using reach_length [OF assms(1)] by (auto simp: sched_init_def)
  ultimately show ?thesis by (cases "ss_phases s") (auto simp: busy_def run_returns_def)
qed

theorem impossible_cron_never_ends_witness:
  "\<not> run_returns [(lab_job [] None)\<lparr>j_Schedule := Some (empty_schedule\<lparr>Cron := ''0 0 30 2 *''\<rparr>)\<rparr>]
     (sched_init [(lab_job [] None)\<lparr>j_Schedule := Some (empty_schedule\<lparr>Cron := ''0 0 30 2 *''\<rparr>)\<rparr>] 0)"
proof -
  let ?job = "(lab_job [] None)\<lparr>j_Schedule := Some (empty_schedule\<lparr>Cron := ''0 0 30 2 *''\<rparr>)\<rparr>"
  have "ss_phases (sched_init [?job] 0) ! 0 \<noteq> Sleeping 0 \<and> \<not> run_returns [?job] (sched_init [?job] 0)"
    by (rule impossible_cron_never_ends [where sc = "empty_schedule\<lparr>Cron := ''0 0 30 2 *''\<rparr>", OF sched_reach.refl [of Community utc 1]])
      (simp_all add: empty_schedule_def)
  then show ?thesis by (rule conjunct2)
qed

text \<open>
  The scheduler always ends with code 0: a job that fails in the loop is not counted, so
  that no state that is reached has a failure to report.
\<close>

theorem scheduler_code_zero:
  assumes "sched_reach ed loc cap jobs (sched_init jobs t0) s"
  shows "run_code s = 0"
proof -
  have "ss_failed s = 0"
    by (rule reach_invariant [where P = "\<lambda>s. ss_failed s = 0", OF assms]) (auto simp: sched_init_def elim!: sched_stepE)
  then show ?thesis by (simp add: run_code_def)
qed

theorem scheduler_code_zero_witness: "run_code (sched_init late_jobs late_start) = 0"
  by (rule scheduler_code_zero [OF sched_reach.refl])

end
