(* ===== verification/TextCodec.thy ===== *)
theory TextCodec
  imports Prelude "HOL-Library.Char_ord" "HOL-Library.List_Lexorder"
begin

text \<open>
  The text conventions that the dumps of the database engines share: escaping by a chain of
  \<open>strings.ReplaceAll\<close> calls, reading a dump line by line (\<open>bufio.Reader.ReadString\<close> and
  \<open>bufio.Scanner\<close>), the byte-wise order of strings behind \<open>sort.Strings\<close>, hexadecimal text and \<open>encoding/base64\<close>. The lemmas say that a chain of
  replacements acts character by character, that lines are read back as they were written
  and that base64 text is decoded to the bytes it was made of.
\<close>

section \<open>Go library functions\<close>

definition upper_char :: "char \<Rightarrow> char" where
  "upper_char c =
     (if (97::int) \<le> of_char c \<and> of_char c \<le> (122::int) then char_of (of_char c - 32 :: int) else c)"

definition to_upper :: "string \<Rightarrow> string" where
  "to_upper s = map upper_char s"

definition nl :: char where "nl = CHR 0x0A"
definition cr :: char where "cr = CHR 0x0D"
definition tab :: char where "tab = CHR 0x09"
definition quot :: char where "quot = CHR 0x22"
definition bslash :: char where "bslash = CHR 0x5C"
definition squote :: char where "squote = CHR 0x27"

lemmas char_names = nl_def cr_def tab_def quot_def bslash_def

text \<open>\<open>strings.Index\<close>: the position of the first occurrence.\<close>

fun str_index :: "string \<Rightarrow> string \<Rightarrow> nat option" where
  "str_index [] p = (if p = [] then Some 0 else None)"
| "str_index (x # xs) p = (if has_prefix (x # xs) p then Some 0 else map_option Suc (str_index xs p))"

text \<open>\<open>strings.ReplaceAll\<close> of a non-empty string, from left to right without overlap.\<close>

function str_replace :: "string \<Rightarrow> string \<Rightarrow> string \<Rightarrow> string" where
  "str_replace old new [] = []"
| "str_replace old new (x # xs) =
     (if old \<noteq> [] \<and> has_prefix (x # xs) old then new @ str_replace old new (drop (length old) (x # xs))
      else x # str_replace old new xs)"
  by pat_completeness auto
termination
  by (relation "measure (\<lambda>(_, _, s). length s)") auto

text \<open>
  The lines that \<open>ReadString\<close> with a line feed delivers, without their line feed: a last
  piece that is empty is not delivered.
\<close>

definition go_lines :: "string \<Rightarrow> string list" where
  "go_lines s = (let ps = split_char nl s in if last ps = [] then butlast ps else ps)"

definition drop_cr :: "string \<Rightarrow> string" where
  "drop_cr l = trim_suffix l [cr]"

text \<open>
  \<open>bufio.Scanner\<close> with \<open>ScanLines\<close> and a buffer of \<open>cap\<close> bytes: the lines before the first
  one that does not fit into the buffer with its line feed, and whether there was such a line.
\<close>

definition scanner_lines :: "nat \<Rightarrow> string \<Rightarrow> string list \<times> bool" where
  "scanner_lines cap s =
     (map drop_cr (takeWhile (\<lambda>l. length l < cap) (go_lines s)), list_ex (\<lambda>l. cap \<le> length l) (go_lines s))"

section \<open>Result rows of a query\<close>

text \<open>
  The rows of a query of \<open>database/sql\<close> or \<open>pgx\<close>: the query fails, or each row is scanned or
  fails to scan, and after the last row \<open>rows.Err\<close> reports whether the iteration broke off.
\<close>

type_synonym 'r rows = "string + (string + 'r) list \<times> string option"

fun scan_rows :: "(string + 'r) list \<Rightarrow> string option \<Rightarrow> string + 'r list" where
  "scan_rows [] (Some e) = Inl e"
| "scan_rows [] None = Inr []"
| "scan_rows (Inl e # rs) err = Inl e"
| "scan_rows (Inr r # rs) err = (case scan_rows rs err of Inl e \<Rightarrow> Inl e | Inr xs \<Rightarrow> Inr (r # xs))"

definition all_rows :: "'r rows \<Rightarrow> string + 'r list" where
  "all_rows q = (case q of Inl e \<Rightarrow> Inl e | Inr (rs, err) \<Rightarrow> scan_rows rs err)"

section \<open>Writing\<close>

text \<open>Writing one part after another; the first error ends the dump.\<close>

type_synonym written = "string \<times> string option"

definition then_write :: "written \<Rightarrow> (unit \<Rightarrow> written) \<Rightarrow> written" where
  "then_write a b = (case a of (out, Some e) \<Rightarrow> (out, Some e) | (out, None) \<Rightarrow> (case b () of (out', e) \<Rightarrow> (out @ out', e)))"

fun write_all :: "('a \<Rightarrow> written) \<Rightarrow> 'a list \<Rightarrow> written" where
  "write_all f [] = ([], None)"
| "write_all f (x # xs) = then_write (f x) (\<lambda>_. write_all f xs)"

text \<open>Rows that are written while they are scanned.\<close>

fun write_scanned :: "('r \<Rightarrow> string) \<Rightarrow> (string + 'r) list \<Rightarrow> string option \<Rightarrow> written" where
  "write_scanned f [] err = ([], err)"
| "write_scanned f (Inl e # rs) err = ([], Some e)"
| "write_scanned f (Inr r # rs) err = (case write_scanned f rs err of (out, e) \<Rightarrow> (f r @ out, e))"

definition write_query :: "('r \<Rightarrow> string) \<Rightarrow> 'r rows \<Rightarrow> written" where
  "write_query f q = (case q of Inl e \<Rightarrow> ([], Some e) | Inr (rs, err) \<Rightarrow> write_scanned f rs err)"

section \<open>Chains of replacements\<close>

text \<open>A function from characters to strings, applied to every character of a string.\<close>

definition each_char :: "(char \<Rightarrow> string) \<Rightarrow> string \<Rightarrow> string" where
  "each_char f s = concat (map f s)"

lemma each_char_simps [simp]:
  "each_char f [] = []" "each_char f (c # s) = f c @ each_char f s"
  "each_char f (s @ t) = each_char f s @ each_char f t"
  by (simp_all add: each_char_def)

lemma replace_char_each: "replace_char c by s = each_char (\<lambda>x. if x = c then by else [x]) s"
  by (simp add: replace_char_def each_char_def)

lemma replace_char_simps [simp]:
  "replace_char c by [] = []"
  "replace_char c by (x # s) = (if x = c then by else [x]) @ replace_char c by s"
  "replace_char c by (s @ t) = replace_char c by s @ replace_char c by t"
  by (simp_all add: replace_char_def)

text \<open>A further replacement after a character-wise function is again character-wise.\<close>

lemma replace_char_after [go_string]:
  "replace_char c by (each_char f s) = each_char (\<lambda>x. replace_char c by (f x)) s"
  by (induction s) simp_all

lemma each_char_cong: "(\<And>c. c \<in> set s \<Longrightarrow> f c = g c) \<Longrightarrow> each_char f s = each_char g s"
  by (simp add: each_char_def cong: map_cong)

lemma set_each_char: "set (each_char f s) = (\<Union>c \<in> set s. set (f c))"
  by (auto simp: each_char_def)

text \<open>
  What the dump formats rely on of the way they escape text: the forms of the characters are not
  prefixes of one another, so that a text can be recovered, and a text stays on its line.
\<close>

locale line_escape =
  fixes esc :: "char \<Rightarrow> string"
  assumes prefix_free: "prefix (esc c) (esc d) \<Longrightarrow> c = d"
    and some_text: "esc c \<noteq> []"
    and no_line_feed: "nl \<notin> set (esc c)"
begin

lemma escape_inj: "each_char esc s = each_char esc t \<longleftrightarrow> s = t"
proof
  show "each_char esc s = each_char esc t \<Longrightarrow> s = t"
  proof (induction s arbitrary: t)
    case Nil then show ?case using some_text by (cases t) auto
  next
    case (Cons c s)
    then obtain d t' where t: "t = d # t'" using some_text by (cases t) auto
    with Cons.prems have eq: "esc c @ each_char esc s = esc d @ each_char esc t'" by simp
    then have "prefix (esc c) (esc d) \<or> prefix (esc d) (esc c)" by (metis prefixI prefix_same_cases)
    then have "c = d" using prefix_free by blast
    with eq t Cons.IH [of t'] show ?case by simp
  qed
qed simp

lemma escape_one_line: "nl \<notin> set (each_char esc s)"
  using no_line_feed by (simp add: set_each_char)

lemma escape_length: "length s \<le> length (each_char esc s)"
proof (induction s)
  case (Cons c s) then show ?case using some_text [of c] by (cases "esc c") auto
qed simp

end

section \<open>Lines\<close>

lemma split_char_sep [simp]: "c \<notin> set a \<Longrightarrow> split_char c (a @ c # b) = a # split_char c b"
  by (induction a) auto

lemma go_lines_Nil [simp]: "go_lines [] = []"
  by (simp add: go_lines_def)

lemma go_lines_line [simp]: "nl \<notin> set l \<Longrightarrow> go_lines (l @ nl # s) = l # go_lines s"
  by (simp add: go_lines_def Let_def)

lemma go_lines_last: "nl \<notin> set l \<Longrightarrow> l \<noteq> [] \<Longrightarrow> go_lines l = [l]"
  by (simp add: go_lines_def)

text \<open>Text made of whole lines.\<close>

definition unlines :: "string list \<Rightarrow> string" where
  "unlines ls = concat (map (\<lambda>l. l @ [nl]) ls)"

lemma unlines_simps [simp]:
  "unlines [] = []" "unlines (l # ls) = l @ nl # unlines ls"
  "unlines (ks @ ls) = unlines ks @ unlines ls"
  by (simp_all add: unlines_def)

lemma unlines_concat: "unlines (concat lss) = concat (map unlines lss)"
  by (induction lss) simp_all

lemma go_lines_unlines_append:
  "(\<And>l. l \<in> set ls \<Longrightarrow> nl \<notin> set l) \<Longrightarrow> go_lines (unlines ls @ s) = ls @ go_lines s"
  by (induction ls) simp_all

lemma go_lines_unlines: "(\<And>l. l \<in> set ls \<Longrightarrow> nl \<notin> set l) \<Longrightarrow> go_lines (unlines ls) = ls"
  using go_lines_unlines_append [of ls "[]"] by simp

lemma unlines_go_lines: "s = [] \<or> last s = nl \<Longrightarrow> unlines (go_lines s) = s"
proof (induction s rule: length_induct)
  case (1 s)
  show ?case
  proof (cases "nl \<in> set s")
    case True
    then obtain a b where s: "s = a @ nl # b" "nl \<notin> set a" using split_list_first by metis
    with 1 have "unlines (go_lines b) = b" by (cases b) auto
    with s show ?thesis by simp
  next
    case False
    with 1(2) show ?thesis by (cases s rule: rev_cases) auto
  qed
qed

lemma drop_cr_id: "l = [] \<or> last l \<noteq> cr \<Longrightarrow> drop_cr l = l"
  by (cases l rule: rev_cases) (auto simp: drop_cr_def trim_suffix_def suffix_def)

lemma scanner_lines_unlines:
  assumes "\<And>l. l \<in> set ls \<Longrightarrow> nl \<notin> set l \<and> (l = [] \<or> last l \<noteq> cr) \<and> length l < cap"
  shows "scanner_lines cap (unlines ls) = (ls, False)"
proof -
  have g: "go_lines (unlines ls) = ls" using assms by (intro go_lines_unlines) blast
  have t: "takeWhile (\<lambda>l. length l < cap) ls = ls" using assms by (simp add: takeWhile_eq_all_conv)
  have "map drop_cr ls = ls" using assms by (intro map_idI drop_cr_id) blast
  moreover have "\<not> list_ex (\<lambda>l. cap \<le> length l) ls" using assms by (auto simp: list_ex_iff not_le)
  ultimately show ?thesis unfolding scanner_lines_def g t by simp
qed

lemma join_snoc: "xs \<noteq> [] \<Longrightarrow> join sep (xs @ [x]) = join sep xs @ sep @ x"
  by (induction sep xs rule: join.induct) simp_all

section \<open>Trimming\<close>

lemma trim_space_last_nl: "trim_space (s @ [nl]) = trim_space s"
proof (cases "dropWhile is_space s")
  case Nil
  then have "\<forall>c \<in> set s. is_space c" by (simp add: dropWhile_eq_Nil_conv)
  moreover have "is_space nl" by (simp add: nl_def is_space_def)
  ultimately have "\<forall>c \<in> set (s @ [nl]). is_space c" by simp
  then have "dropWhile is_space (s @ [nl]) = []" unfolding dropWhile_eq_Nil_conv .
  with Nil show ?thesis unfolding trim_space_def by metis
next
  case (Cons c t)
  then have "\<exists>x \<in> set s. \<not> is_space x" by (metis dropWhile_eq_Nil_conv list.distinct(1))
  then have "dropWhile is_space (s @ [nl]) = dropWhile is_space s @ [nl]" by (auto simp: dropWhile_append1)
  then show ?thesis by (simp add: trim_space_def nl_def is_space_def)
qed

lemma trim_space_parts: "\<exists>a b. s = a @ trim_space s @ b \<and> list_all is_space a \<and> list_all is_space b"
proof -
  let ?t = "dropWhile is_space s"
  have "s = takeWhile is_space s @ ?t" by simp
  moreover have "?t = rev (dropWhile is_space (rev ?t)) @ rev (takeWhile is_space (rev ?t))"
    by (metis rev_append rev_rev_ident takeWhile_dropWhile_id)
  ultimately have "s = takeWhile is_space s @ trim_space s @ rev (takeWhile is_space (rev ?t))"
    unfolding trim_space_def by metis
  moreover have "list_all is_space (takeWhile is_space s)" "list_all is_space (rev (takeWhile is_space (rev ?t)))"
    by (auto simp: list_all_iff dest: set_takeWhileD)
  ultimately show ?thesis by blast
qed

lemma unlines_go_lines_open: "s \<noteq> [] \<Longrightarrow> last s \<noteq> nl \<Longrightarrow> unlines (go_lines s) = s @ [nl]"
proof (induction s rule: length_induct)
  case (1 s)
  show ?case
  proof (cases "nl \<in> set s")
    case True
    then obtain a b where s: "s = a @ nl # b" "nl \<notin> set a" using split_list_first by metis
    with 1 have "unlines (go_lines b) = b @ [nl]" by (cases b) auto
    with s show ?thesis by simp
  next
    case False
    with 1(2) show ?thesis by (simp add: go_lines_last)
  qed
qed

lemma split_char_sepless: "l \<in> set (split_char c s) \<Longrightarrow> c \<notin> set l"
  by (induction c s arbitrary: l rule: split_char.induct) (auto split: if_splits list.splits)

lemma go_lines_sepless: "l \<in> set (go_lines s) \<Longrightarrow> nl \<notin> set l"
  by (auto simp: go_lines_def Let_def split_char_sepless split: if_splits dest: in_set_butlastD)

lemma trim_space_white: "list_all is_space b \<Longrightarrow> trim_space (b @ s) = trim_space s"
  by (simp add: trim_space_def dropWhile_append2 list_all_iff)

lemma trim_space_empty: "trim_space s = [] \<longleftrightarrow> list_all is_space s"
proof
  assume "trim_space s = []"
  with trim_space_parts [of s] show "list_all is_space s" by auto
next
  assume "list_all is_space s"
  from trim_space_white [OF this, of "[]"] show "trim_space s = []" by (simp add: trim_space_def)
qed

section \<open>Hexadecimal text\<close>

definition hex_alphabet :: string where
  "hex_alphabet = ''0123456789abcdef''"

definition hex_char :: "nat \<Rightarrow> char" where
  "hex_char n = hex_alphabet ! n"

definition hex_byte :: "char \<Rightarrow> string" where
  "hex_byte c = [hex_char (of_char c div 16), hex_char (of_char c mod 16)]"

definition hex_encode :: "string \<Rightarrow> string" where
  "hex_encode s = each_char hex_byte s"

lemma hex_alphabet_length: "length hex_alphabet = 16" and hex_alphabet_distinct: "distinct hex_alphabet"
  by (simp_all add: hex_alphabet_def)

lemma hex_char_set: "n < 16 \<Longrightarrow> hex_char n \<in> set hex_alphabet"
  unfolding hex_char_def by (rule nth_mem) (simp add: hex_alphabet_length)

lemma hex_char_inj: "m < 16 \<Longrightarrow> n < 16 \<Longrightarrow> hex_char m = hex_char n \<Longrightarrow> m = n"
  unfolding hex_char_def by (simp add: nth_eq_iff_index_eq hex_alphabet_length hex_alphabet_distinct)

lemma byte_bound: "(of_char c :: nat) < 256"
  by (cases c) (auto simp: of_char_def horner_sum_bit_eq_take_bit split: prod.splits)

lemma byte_div_16: "(of_char c :: nat) div 16 < 16"
  using less_mult_imp_div_less [of "of_char c" 16 16] byte_bound [of c] by simp

lemma hex_encode_set: "set (hex_encode s) \<subseteq> set hex_alphabet"
  using hex_char_set byte_div_16 by (auto simp: hex_encode_def set_each_char hex_byte_def)

lemma hex_byte_inj: "hex_byte c = hex_byte d \<Longrightarrow> c = d"
proof -
  assume "hex_byte c = hex_byte d"
  then have "(of_char c :: nat) div 16 = of_char d div 16" "(of_char c :: nat) mod 16 = of_char d mod 16"
    using hex_char_inj byte_div_16 by (auto simp: hex_byte_def)
  then have "(of_char c :: nat) = of_char d" by (metis div_mult_mod_eq)
  then show "c = d" by simp
qed

interpretation hex: line_escape hex_byte
proof
  fix c d
  show "c = d" if "prefix (hex_byte c) (hex_byte d)"
    by (rule hex_byte_inj) (use that in \<open>simp add: hex_byte_def\<close>)
  show "hex_byte c \<noteq> []" by (simp add: hex_byte_def)
  have "set (hex_byte c) \<subseteq> set hex_alphabet" using hex_char_set byte_div_16 by (auto simp: hex_byte_def)
  moreover have "nl \<notin> set hex_alphabet" by (simp add: hex_alphabet_def char_names)
  ultimately show "nl \<notin> set (hex_byte c)" by blast
qed

lemma hex_encode_inj: "hex_encode s = hex_encode t \<longleftrightarrow> s = t"
  unfolding hex_encode_def by (rule hex.escape_inj)

section \<open>Base64\<close>

text \<open>
  \<open>encoding/base64\<close>: three bytes become four characters of the alphabet. The encodings with
  padding fill the last group with \<open>=\<close>, the raw ones leave it short. Line breaks are skipped
  when decoding.
\<close>

definition std_alphabet :: string where
  "std_alphabet = ''ABCDEFGHIJKLMNOPQRSTUVWXYZabcdefghijklmnopqrstuvwxyz0123456789+/''"

definition url_alphabet :: string where
  "url_alphabet = ''ABCDEFGHIJKLMNOPQRSTUVWXYZabcdefghijklmnopqrstuvwxyz0123456789-_''"

fun index_of :: "char \<Rightarrow> string \<Rightarrow> nat option" where
  "index_of c [] = None"
| "index_of c (x # xs) = (if x = c then Some 0 else map_option Suc (index_of c xs))"

definition sextets :: "nat \<Rightarrow> nat list" where
  "sextets n = [n div 262144, n div 4096 mod 64, n div 64 mod 64, n mod 64]"

definition octets :: "nat \<Rightarrow> string" where
  "octets n = [char_of (n div 65536), char_of (n div 256 mod 256), char_of (n mod 256)]"

fun b64_encode :: "string \<Rightarrow> string \<Rightarrow> string" where
  "b64_encode al [] = []"
| "b64_encode al [a] = map ((!) al) (take 2 (sextets (of_char a * 65536))) @ ''==''"
| "b64_encode al [a, b] = map ((!) al) (take 3 (sextets (of_char a * 65536 + of_char b * 256))) @ ''=''"
| "b64_encode al (a # b # c # s) =
     map ((!) al) (sextets (of_char a * 65536 + of_char b * 256 + of_char c)) @ b64_encode al s"

fun b64_group :: "string \<Rightarrow> string \<Rightarrow> nat option" where
  "b64_group al [] = Some 0"
| "b64_group al (c # cs) =
     (case (index_of c al, b64_group al cs) of
        (Some v, Some n) \<Rightarrow> Some (v * 64 ^ length cs + n) | _ \<Rightarrow> None)"

fun b64_decode_chars :: "string \<Rightarrow> bool \<Rightarrow> string \<Rightarrow> string option" where
  "b64_decode_chars al padded [] = Some []"
| "b64_decode_chars al padded [a] = None"
| "b64_decode_chars al padded [a, b] =
     (if padded then None else map_option (\<lambda>n. take 1 (octets (n * 4096))) (b64_group al [a, b]))"
| "b64_decode_chars al padded [a, b, c] =
     (if padded then None else map_option (\<lambda>n. take 2 (octets (n * 64))) (b64_group al [a, b, c]))"
| "b64_decode_chars al padded (a # b # c # d # s) =
     (if padded \<and> d = CHR ''='' then
        (if s \<noteq> [] then None
         else if c = CHR ''='' then map_option (\<lambda>n. take 1 (octets (n * 4096))) (b64_group al [a, b])
         else map_option (\<lambda>n. take 2 (octets (n * 64))) (b64_group al [a, b, c]))
      else case (b64_group al [a, b, c, d], b64_decode_chars al padded s) of
             (Some n, Some t) \<Rightarrow> Some (octets n @ t) | _ \<Rightarrow> None)"

definition b64_decode :: "string \<Rightarrow> bool \<Rightarrow> string \<Rightarrow> string option" where
  "b64_decode al padded s = b64_decode_chars al padded (filter (\<lambda>c. c \<noteq> nl \<and> c \<noteq> cr) s)"

lemma index_of_nth: "distinct al \<Longrightarrow> i < length al \<Longrightarrow> index_of (al ! i) al = Some i"
  by (induction al arbitrary: i) (auto simp: nth_Cons split: nat.splits)

lemma sextets_bound: "n < 2 ^ 24 \<Longrightarrow> v \<in> set (sextets n) \<Longrightarrow> v < 64"
  by (auto simp: sextets_def)

lemma sextets_value:
  "n div 262144 * 262144 + (n div 4096 mod 64 * 4096 + (n div 64 mod 64 * 64 + n mod 64)) = (n::nat)"
proof -
  have n: "n = n div 64 * 64 + n mod 64" by simp
  have a: "n div 64 = n div 4096 * 64 + n div 64 mod 64"
    using div_mult_mod_eq [of "n div 64" 64] by (simp add: div_mult2_eq [symmetric])
  have b: "n div 4096 = n div 262144 * 64 + n div 4096 mod 64"
    using div_mult_mod_eq [of "n div 4096" 64] by (simp add: div_mult2_eq [symmetric])
  from n a b show ?thesis by linarith
qed

lemma octets_value:
  "octets (of_char a * 65536 + of_char b * 256 + of_char c) = [a, b, c]"
proof -
  let ?a = "of_char a :: nat" and ?b = "of_char b :: nat" and ?c = "of_char c :: nat"
  have n: "?a * 65536 + ?b * 256 + ?c = ?c + 256 * (?b + 256 * ?a)" by simp
  have low: "(x + 256 * y) div 256 = y \<and> (x + 256 * y) mod 256 = x" if "x < 256" for x y :: nat
    using that by simp
  have "(?c + 256 * (?b + 256 * ?a)) div 256 = ?b + 256 * ?a" "(?c + 256 * (?b + 256 * ?a)) mod 256 = ?c"
    using low [OF byte_bound] by blast+
  moreover have "(?b + 256 * ?a) div 256 = ?a" "(?b + 256 * ?a) mod 256 = ?b" using low [OF byte_bound] by blast+
  moreover have "m div 65536 = m div 256 div 256" for m :: nat by (simp add: div_mult2_eq [symmetric])
  ultimately show ?thesis unfolding octets_def n by simp
qed

lemma sextets_chars:
  assumes "length al = 64" and "distinct al" and "n < 2 ^ 24"
  shows "b64_group al (map ((!) al) (sextets n)) = Some n"
    and "n mod 64 = 0 \<Longrightarrow> map_option (\<lambda>k. k * 64) (b64_group al (map ((!) al) (take 3 (sextets n)))) = Some n"
    and "n mod 4096 = 0 \<Longrightarrow> map_option (\<lambda>k. k * 4096) (b64_group al (map ((!) al) (take 2 (sextets n)))) = Some n"
proof -
  have i: "v \<in> set (sextets n) \<Longrightarrow> index_of (al ! v) al = Some v" for v
    using sextets_bound [OF assms(3)] assms(1,2) by (simp add: index_of_nth)
  show "b64_group al (map ((!) al) (sextets n)) = Some n"
    using i sextets_value [of n] by (simp add: sextets_def)
  have v: "n div 262144 * 262144 + (n div 4096 mod 64 * 4096 + n div 64 mod 64 * 64) = n" if "n mod 64 = 0"
    using sextets_value [of n] that by simp
  then show "map_option (\<lambda>k. k * 64) (b64_group al (map ((!) al) (take 3 (sextets n)))) = Some n" if "n mod 64 = 0"
    using i that by (simp add: sextets_def algebra_simps)
  have "n mod 64 = 0 \<and> n div 64 mod 64 = 0" if "n mod 4096 = 0"
    using that by (auto elim!: dvdE simp flip: dvd_eq_mod_eq_0)
  with v show "map_option (\<lambda>k. k * 4096) (b64_group al (map ((!) al) (take 2 (sextets n)))) = Some n" if "n mod 4096 = 0"
    using i that by (simp add: sextets_def algebra_simps)
qed

lemma std_alphabet_ok: "length std_alphabet = 64" "distinct std_alphabet"
  and url_alphabet_ok: "length url_alphabet = 64" "distinct url_alphabet"
  by (simp_all add: std_alphabet_def url_alphabet_def)

lemma group_bound:
  "(of_char a * 65536 :: nat) < 2 ^ 24"
  "(of_char a * 65536 + of_char b * 256 :: nat) < 2 ^ 24"
  "(of_char a * 65536 + of_char b * 256 + of_char c :: nat) < 2 ^ 24"
proof -
  have "x < 256 \<Longrightarrow> y < 256 \<Longrightarrow> z < 256 \<Longrightarrow> x * 65536 + y * 256 + z < (2::nat) ^ 24" for x y z :: nat by simp
  from this [OF byte_bound byte_bound byte_bound] show
    three: "(of_char a * 65536 + of_char b * 256 + of_char c :: nat) < 2 ^ 24" .
  then show "(of_char a * 65536 + of_char b * 256 :: nat) < 2 ^ 24" "(of_char a * 65536 :: nat) < 2 ^ 24" by linarith+
qed

lemma b64_encode_set:
  assumes "length al = 64"
  shows "set (b64_encode al s) \<subseteq> set al \<union> {CHR ''=''}"
proof -
  have mem: "x \<in> set (map ((!) al) (take k (sextets n))) \<Longrightarrow> n < 2 ^ 24 \<Longrightarrow> x \<in> set al" for x k n
    using sextets_bound assms by (auto dest!: in_set_takeD)
  have all: "x \<in> set (map ((!) al) (sextets n)) \<Longrightarrow> n < 2 ^ 24 \<Longrightarrow> x \<in> set al" for x n
    using mem [of x 4] by (simp add: sextets_def)
  show ?thesis using assms mem all
  proof (induction al s rule: b64_encode.induct)
    case (2 al a) then show ?case using group_bound(1) [of a] by fastforce
  next
    case (3 al a b) then show ?case using group_bound(2) [of a b] by fastforce
  next
    case (4 al a b c s) then show ?case using group_bound(3) [of a b c] by fastforce
  qed simp
qed

lemma b64_roundtrip:
  assumes "length al = 64" and "distinct al" and "CHR ''='' \<notin> set al" and "nl \<notin> set al" and "cr \<notin> set al"
  shows "b64_decode al True (b64_encode al s) = Some s"
proof -
  have "c \<in> set (b64_encode al s) \<Longrightarrow> c \<noteq> nl \<and> c \<noteq> cr" for c
    using b64_encode_set [OF assms(1), of s] assms(4,5) by (auto simp: nl_def cr_def)
  then have f: "filter (\<lambda>c. c \<noteq> nl \<and> c \<noteq> cr) (b64_encode al s) = b64_encode al s" by (simp add: filter_id_conv)
  have neq: "al ! v \<noteq> CHR ''=''" if "v \<in> set (sextets n)" "n < 2 ^ 24" for v n
    using sextets_bound [OF that(2,1)] assms(1,3) nth_mem [of v al] by metis
  have "b64_decode_chars al True (b64_encode al s) = Some s" using assms(1-3) neq
  proof (induction al s rule: b64_encode.induct)
    case (2 al a)
    define n where "n = (of_char a * 65536 :: nat)"
    obtain w x y z where s: "sextets n = [w, x, y, z]" by (simp add: sextets_def)
    have "n mod 4096 = 0" by (simp add: n_def)
    then obtain k where "b64_group al [al ! w, al ! x] = Some k" "k * 4096 = n"
      using sextets_chars(3) [OF 2(1,2), of n] group_bound(1) [of a] s by (auto simp: n_def simp del: b64_group.simps)
    then show ?case using octets_value [of a "char_of (0::nat)" "char_of (0::nat)"] s
      by (simp add: n_def [symmetric] del: b64_group.simps)
  next
    case (3 al a b)
    define n where "n = (of_char a * 65536 + of_char b * 256 :: nat)"
    obtain w x y z where s: "sextets n = [w, x, y, z]" by (simp add: sextets_def)
    have "n = 64 * (of_char a * 1024 + of_char b * 4)" by (simp add: n_def)
    then have "n mod 64 = 0" by simp
    then obtain k where "b64_group al [al ! w, al ! x, al ! y] = Some k" "k * 64 = n"
      using sextets_chars(2) [OF 3(1,2), of n] group_bound(2) [of a b] s by (auto simp: n_def simp del: b64_group.simps)
    moreover have "al ! y \<noteq> CHR ''=''" using 3(4) [of y n] group_bound(2) [of a b] s by (simp add: n_def)
    ultimately show ?case using octets_value [of a b "char_of (0::nat)"] s
      by (simp add: n_def [symmetric] del: b64_group.simps)
  next
    case (4 al a b c s)
    define n where "n = (of_char a * 65536 + of_char b * 256 + of_char c :: nat)"
    obtain w x y z where g: "sextets n = [w, x, y, z]" by (simp add: sextets_def)
    have "b64_group al [al ! w, al ! x, al ! y, al ! z] = Some n"
      using sextets_chars(1) [OF 4(2,3), of n] group_bound(3) [of a b c] g by (simp add: n_def del: b64_group.simps)
    moreover have "al ! z \<noteq> CHR ''=''" using 4(5) [of z n] group_bound(3) [of a b c] g by (simp add: n_def)
    ultimately show ?case using octets_value [of a b c] g 4 by (simp add: n_def [symmetric] del: b64_group.simps)
  qed simp
  with f show ?thesis by (simp add: b64_decode_def)
qed

lemma std_alphabet_chars: "CHR ''='' \<notin> set std_alphabet" "nl \<notin> set std_alphabet" "cr \<notin> set std_alphabet"
  by (simp_all add: std_alphabet_def char_names)

lemmas std_b64_roundtrip = b64_roundtrip [OF std_alphabet_ok std_alphabet_chars]

end
