(* ===== verification/EngineCommon.thy ===== *)
theory EngineCommon
  imports TextCodec Config Regex
begin

text \<open>
  What the database engines share (\<open>internal/database/common\<close>): lists of database names, the
  version of a server and the warning before a restore, the protocol a backup was taken with,
  which maintenance operations run, and the connectivity check with its retries.

  The check is a loop that may wait for ever: it has a value only when it returns. What the
  server answers at each attempt, the clock and the cancellation are parameters.
\<close>

section \<open>Names of databases\<close>

definition ConnDB :: "string \<Rightarrow> string \<Rightarrow> string" where
  "ConnDB dbName fallback =
     (let first = trim_space (hd (split_char (CHR '','') dbName))
      in if equal_fold first ''all'' \<or> has_prefix first ''__globals__'' \<or> first = [] then fallback else first)"

definition DBNamesList :: "string \<Rightarrow> string list" where
  "DBNamesList dbName = (if dbName = [] then [] else map trim_space (split_char (CHR '','') dbName))"

definition FirstDBName :: "string \<Rightarrow> string" where
  "FirstDBName dbName =
     (let name = trim_space (hd (split_char (CHR '','') dbName))
      in if equal_fold name ''all'' \<or> name = [] then [] else name)"

section \<open>Versions of servers\<close>

record server_version =
  sv_Engine :: string
  sv_Version :: string
  sv_Arch :: string
  sv_Raw :: string

definition sv_Display :: "server_version \<Rightarrow> string" where
  "sv_Display s = trim_space (sv_Engine s @ '' '' @ sv_Version s) @ (if sv_Arch s = [] then [] else '' '' @ sv_Arch s)"

definition numPrefixRe :: "rx list" where
  "numPrefixRe = [BeginText, Rep is_digit 1 None, Many [Lit ''.'', Rep is_digit 1 None]]"

definition archRe :: "rx list" where
  "archRe = [Alt (map (\<lambda>a. [LitFold a]) [''x86_64'', ''amd64'', ''x64'', ''aarch64'', ''arm64'', ''ppc64le'', ''ppc64'',
     ''s390x'', ''s390'', ''riscv64'', ''i386'', ''sparc64''])]"

definition FindString :: "rx list \<Rightarrow> string \<Rightarrow> string" where
  "FindString es s = (case rx_find es s of Some m \<Rightarrow> m_text m | None \<Rightarrow> [])"

definition NumericPrefix :: "string \<Rightarrow> string" where
  "NumericPrefix s = FindString numPrefixRe (trim_space s)"

definition NormalizeArch :: "string \<Rightarrow> string" where
  "NormalizeArch s =
     (let a = to_lower (trim_space s)
      in if a \<in> {''x86_64'', ''amd64'', ''x64''} then ''amd64'' else if a \<in> {''aarch64'', ''arm64''} then ''arm64'' else a)"

definition ArchFromRaw :: "string \<Rightarrow> string" where
  "ArchFromRaw raw = NormalizeArch (FindString archRe raw)"

definition Major :: "string \<Rightarrow> string" where
  "Major version = hd (split_char (CHR ''.'') (NumericPrefix version))"

datatype compat = Compatible | EngineMismatch string string | Downgrade string string string

definition ServerCompatWarning :: "string \<Rightarrow> string \<Rightarrow> string \<Rightarrow> string \<Rightarrow> compat" where
  "ServerCompatWarning dumpEngine dumpVersion targetEngine targetVersion =
     (if dumpEngine = [] \<or> targetEngine = [] then Compatible
      else if \<not> equal_fold dumpEngine targetEngine then EngineMismatch dumpEngine targetEngine
      else if Major dumpVersion = [] \<or> Major targetVersion = [] then Compatible
      else case (atoi (Major dumpVersion), atoi (Major targetVersion)) of
             (Some di, Some ti) \<Rightarrow> if ti < di then Downgrade dumpEngine dumpVersion targetVersion else Compatible
           | _ \<Rightarrow> Compatible)"

definition plain_version :: "string \<Rightarrow> string \<Rightarrow> server_version" where
  "plain_version engine raw = \<lparr>sv_Engine = engine, sv_Version = NumericPrefix raw, sv_Arch = [], sv_Raw = raw\<rparr>"

definition postgres_ParseServerVersion :: "string \<Rightarrow> server_version" where
  "postgres_ParseServerVersion raw =
     \<lparr>sv_Engine = ''postgres'', sv_Version = NumericPrefix (trim_space (trim_prefix (trim_space raw) ''PostgreSQL'')),
      sv_Arch = ArchFromRaw raw, sv_Raw = raw\<rparr>"

definition mysql_ParseServerVersion :: "string \<Rightarrow> server_version" where
  "mysql_ParseServerVersion raw = plain_version (if contains (to_lower raw) ''mariadb'' then ''mariadb'' else ''mysql'') raw"

text \<open>The last line of the answer that names the version counts.\<close>

definition redis_ParseServerVersion :: "string \<Rightarrow> server_version" where
  "redis_ParseServerVersion info =
     fold (\<lambda>line sv. let l = trim_space (trim_suffix line [cr])
                     in if has_prefix l ''redis_version:'' then sv\<lparr>sv_Version := NumericPrefix (trim_prefix l ''redis_version:'')\<rparr> else sv)
       (split_char nl info) \<lparr>sv_Engine = ''redis'', sv_Version = [], sv_Arch = [], sv_Raw = info\<rparr>"

definition sqlite_ParseServerVersion :: "string \<Rightarrow> string \<Rightarrow> server_version" where
  "sqlite_ParseServerVersion raw goarch = (plain_version ''sqlite'' raw)\<lparr>sv_Arch := NormalizeArch goarch\<rparr>"

definition mssqlYearRe :: "rx list" where
  "mssqlYearRe = [LitFold ''SQL Server '', Grp 1 [Rep is_digit 1 None]]"

definition mssql_ParseServerVersion :: "string \<Rightarrow> server_version" where
  "mssql_ParseServerVersion raw =
     (let first = hd (split_char nl raw)
      in \<lparr>sv_Engine = ''mssql'',
          sv_Version = (case rx_find mssqlYearRe first of Some m \<Rightarrow> m_cap 1 m | None \<Rightarrow> NumericPrefix (trim_space first)),
          sv_Arch = ArchFromRaw raw, sv_Raw = raw\<rparr>)"

definition influx_ParseServerVersion :: "string \<Rightarrow> server_version" where
  "influx_ParseServerVersion raw =
     \<lparr>sv_Engine = ''influx'', sv_Version = NumericPrefix (trim_prefix (trim_prefix (trim_space raw) ''v'') ''V''),
      sv_Arch = [], sv_Raw = raw\<rparr>"

section \<open>The protocol of a backup\<close>

text \<open>The process-wide map, as its entries; \<open>RecordBackupProtocol\<close> clears it when it has grown past 128.\<close>

definition ProtocolKey :: "string \<Rightarrow> int \<Rightarrow> string \<Rightarrow> string \<Rightarrow> string" where
  "ProtocolKey host port user db =
     trim_space host @ ''|'' @ itoa port @ ''|'' @ trim_space user @ ''|'' @
     join '','' (filter (\<lambda>n. n \<noteq> []) (map trim_space (split_char (CHR '','') db)))"

definition RecordBackupProtocol :: "string \<Rightarrow> string \<Rightarrow> (string \<times> string) list \<Rightarrow> (string \<times> string) list" where
  "RecordBackupProtocol key protocol ps =
     (if key = [] \<or> protocol = [] then ps
      else (key, protocol) # filter (\<lambda>p. fst p \<noteq> key) (if length ps > 128 then [] else ps))"

definition TakeBackupProtocol :: "string \<Rightarrow> (string \<times> string) list \<Rightarrow> string \<times> (string \<times> string) list" where
  "TakeBackupProtocol key ps =
     (case map_of ps key of Some p \<Rightarrow> p | None \<Rightarrow> [], filter (\<lambda>p. fst p \<noteq> key) ps)"

text \<open>A recorded protocol is taken once, with the spaces around the parts of the key ignored.\<close>

lemma protocol_taken_once:
  assumes "key \<noteq> []" and "protocol \<noteq> []"
  shows "fst (TakeBackupProtocol key (RecordBackupProtocol key protocol ps)) = protocol"
    and "fst (TakeBackupProtocol key (snd (TakeBackupProtocol key (RecordBackupProtocol key protocol ps)))) = []"
  using assms by (auto simp: TakeBackupProtocol_def RecordBackupProtocol_def map_of_eq_None_iff split: option.splits dest!: map_of_SomeD)

lemma protocol_bound: "length ps \<le> 129 \<Longrightarrow> length (RecordBackupProtocol key protocol ps) \<le> 129"
  by (auto simp: RecordBackupProtocol_def not_less intro: order_trans [OF length_filter_le])

section \<open>Maintenance operations\<close>

record maintenance_cfg =
  mc_Schedule :: string
  mc_Optimize :: "bool option"
  mc_Vacuum :: "bool option"
  mc_Reindex :: "bool option"
  mc_Analyze :: "bool option"
  mc_CheckTables :: "bool option"
  mc_Compact :: "bool option"
  mc_MemoryPurge :: "bool option"

text \<open>\<open>licensed\<close> is whether the licence allows maintenance.\<close>

definition maintenance_Enabled :: "bool \<Rightarrow> string \<Rightarrow> maintenance_cfg \<Rightarrow> bool" where
  "maintenance_Enabled licensed op cfg =
     (if op \<noteq> ''check_tables'' \<and> \<not> licensed then False
      else if op = ''analyze'' then override (mc_Analyze cfg) True
      else if op = ''check_tables'' then override (mc_CheckTables cfg) True
      else if op = ''compact'' then override (mc_Compact cfg) True
      else if op = ''memory_purge'' then override (mc_MemoryPurge cfg) True
      else if op = ''reindex'' then override (mc_Reindex cfg) True
      else if op = ''optimize'' then override (mc_Optimize cfg) True
      else if op = ''vacuum'' then override (mc_Vacuum cfg) True
      else False)"

section \<open>The connectivity check\<close>

text \<open>
  The outcome of attempt \<open>n\<close> is \<open>fn n\<close>, \<open>clock n\<close> is the time in seconds when it has ended and
  \<open>cancelled n\<close> whether the context ends during it or the wait behind it.
\<close>

datatype conn_error = CheckCancelled | NotReachable nat string | ConnectError string | NoCheck

record conn_world =
  cw_clock :: "nat \<Rightarrow> int"
  cw_cancelled :: "nat \<Rightarrow> bool"
  cw_waitCancelled :: "nat \<Rightarrow> bool"

partial_function (option) retryLoop ::
  "conn_world \<Rightarrow> int option \<Rightarrow> (nat \<Rightarrow> string option) \<Rightarrow> nat \<Rightarrow> conn_error option option" where
  "retryLoop w deadline fn n =
     (if cw_cancelled w n then Some (Some CheckCancelled)
      else case fn n of
             None \<Rightarrow> Some None
           | Some e \<Rightarrow>
               if deadline \<noteq> None \<and> cw_clock w n > the deadline then Some (Some (NotReachable n e))
               else if cw_waitCancelled w n then Some (Some CheckCancelled)
               else retryLoop w deadline fn (Suc n))"

definition WithConnectivity ::
  "conn_world \<Rightarrow> connectivity_config option \<Rightarrow> (nat \<Rightarrow> string option) option \<Rightarrow> string option \<Rightarrow>
    (nat \<Rightarrow> string option) option \<Rightarrow> conn_error option option" where
  "WithConnectivity w cfg probe connect ping =
     (case cfg of
        None \<Rightarrow>
          (case connect of
             Some e \<Rightarrow> Some (Some (ConnectError e))
           | None \<Rightarrow> (case ping of None \<Rightarrow> Some None | Some p \<Rightarrow> Some (map_option ConnectError (p 1))))
      | Some c \<Rightarrow>
          if \<not> Connectivity_IsEnabled cfg \<or> MethodOf cfg = ''none'' then Some (map_option ConnectError connect)
          else
            (let deadline = (if cn_Timeout c > 0 then Some (cn_Timeout c) else None)
             in case connect of
                  Some e \<Rightarrow> Some (Some (ConnectError e))
                | None \<Rightarrow>
                    if MethodOf cfg = ''simple'' then
                      (case probe of None \<Rightarrow> Some None | Some p \<Rightarrow> retryLoop w deadline p 1)
                    else (case ping of None \<Rightarrow> Some (Some NoCheck) | Some p \<Rightarrow> retryLoop w deadline p 1)))"

text \<open>Attempts that fail before the deadline are followed by another one.\<close>

lemma retryLoop_skip:
  assumes "\<And>i. n \<le> i \<Longrightarrow> i < k \<Longrightarrow> \<not> cw_cancelled w i \<and> \<not> cw_waitCancelled w i \<and> fn i \<noteq> None \<and>
      (deadline = None \<or> cw_clock w i \<le> the deadline)" and "n \<le> k"
  shows "retryLoop w deadline fn n = retryLoop w deadline fn k"
  using assms
proof (induction "k - n" arbitrary: n)
  case (Suc m)
  then have "n < k" by simp
  with Suc(3) [of n] have "retryLoop w deadline fn n = retryLoop w deadline fn (Suc n)"
    by (subst retryLoop.simps) auto
  also have "\<dots> = retryLoop w deadline fn k" by (rule Suc(1)) (use Suc \<open>n < k\<close> in auto)
  finally show ?case .
qed simp

lemma retryLoop_succeeds:
  assumes "\<And>i. n \<le> i \<Longrightarrow> i < k \<Longrightarrow> \<not> cw_cancelled w i \<and> \<not> cw_waitCancelled w i \<and> fn i \<noteq> None \<and>
      (deadline = None \<or> cw_clock w i \<le> the deadline)" and "n \<le> k" and "fn k = None" and "\<not> cw_cancelled w k"
  shows "retryLoop w deadline fn n = Some None"
  by (subst retryLoop_skip [OF assms(1,2)]) (auto simp: retryLoop.simps [of _ _ _ k] assms(3,4))

lemma retryLoop_gives_up:
  assumes "\<And>i. \<not> cw_cancelled w i \<and> \<not> cw_waitCancelled w i \<and> fn i \<noteq> None" and "n \<le> k" and "cw_clock w k > d"
  shows "\<exists>m e. n \<le> m \<and> m \<le> k \<and> cw_clock w m > d \<and> retryLoop w (Some d) fn n = Some (Some (NotReachable m e))"
proof -
  define m where "m = (LEAST i. n \<le> i \<and> cw_clock w i > d)"
  have m: "n \<le> m" "cw_clock w m > d" "m \<le> k"
    using LeastI [of "\<lambda>i. n \<le> i \<and> cw_clock w i > d" k] Least_le [of "\<lambda>i. n \<le> i \<and> cw_clock w i > d" k] assms(2,3)
    unfolding m_def by blast+
  have "cw_clock w i \<le> d" if "n \<le> i" "i < m" for i using not_less_Least [of i "\<lambda>i. n \<le> i \<and> cw_clock w i > d"] that
    unfolding m_def by auto
  then have "retryLoop w (Some d) fn n = retryLoop w (Some d) fn m" using assms(1) m(1) by (intro retryLoop_skip) auto
  moreover obtain e where "fn m = Some e" using assms(1) [of m] by auto
  ultimately have "retryLoop w (Some d) fn n = Some (Some (NotReachable m e))"
    using m(2) assms(1) [of m] by (simp add: retryLoop.simps [of _ _ _ m])
  with m show ?thesis by blast
qed

end
