(* ===== verification/RestoreCmd.thy ===== *)
theory RestoreCmd
  imports Runner EngineCommon
begin

text \<open>
  The restore of a backup: \<open>retention/unpack.go\<close>, which undoes encryption and compression, the
  restore section of the configuration (\<open>config/config.go\<close> and \<open>supported/config/restore.go\<close>), and
  the command \<open>cmdRestore\<close> of \<open>cmd/dbb/restore.go\<close>, which collects its settings from flags,
  profiles, jobs, sidecars and file names, resolves the chain of an incremental backup and hands
  the backups of the chain to the database engine, oldest first.

  A stream is what a reader delivers and the error after it, if any. The decryption of age and
  OpenPGP and the decompressors are fields of \<open>unpack_env\<close>; the database engine is the field
  \<open>re_restoreTo\<close> of \<open>restore_env\<close> and works on a state of its own. A secret that is never
  resolved makes the command not return, which is the value \<open>None\<close>. The dialogue of
  \<open>interactiveRestore\<close> is not modelled: the command ends with \<open>Dialogue\<close> where it is entered.
\<close>

section \<open>Opening a backup\<close>

type_synonym stream = "byte list \<times> string option"

record decrypt_opts =
  do_EncryptionType :: string
  do_AgePass :: string
  do_GPGPass :: string
  do_OpenSSLPass :: string
  do_Identity :: string
  do_FallbackPass :: string
  do_FallbackID :: string

record unpack_env =
  ue_encryptors :: encryptors
  ue_read :: "string \<Rightarrow> string option"
  ue_getenv :: "string \<Rightarrow> string"
  ue_agePassphrase :: "string \<Rightarrow> stream \<Rightarrow> string + stream"
  ue_age :: "string list \<Rightarrow> stream \<Rightarrow> string + stream"
  ue_openPGP :: "string list \<Rightarrow> string \<Rightarrow> stream \<Rightarrow> string + stream"
  ue_aes :: "byte list \<Rightarrow> block_fun"
  ue_kdf :: "string \<Rightarrow> byte list \<Rightarrow> byte list"
  ue_decompress :: "compress_type \<Rightarrow> stream \<Rightarrow> string + stream"

datatype open_error =
    UnknownEncryptionOption string
  | NoOpensslPassphrase
  | UnsupportedEncryption string
  | DecryptFailed string
  | OpensslFailed encrypt_error
  | DecompressFailed string

fun firstNonEmpty :: "string list \<Rightarrow> string" where
  "firstNonEmpty [] = []"
| "firstNonEmpty (v # vs) = (if v \<noteq> [] then v else firstNonEmpty vs)"

definition passFor :: "decrypt_opts \<Rightarrow> string \<Rightarrow> string" where
  "passFor opts t =
     (if t = ''age'' then firstNonEmpty [do_AgePass opts, do_FallbackPass opts]
      else if t = ''gpg'' then firstNonEmpty [do_GPGPass opts, do_FallbackPass opts]
      else if t = ''openssl'' then firstNonEmpty [do_OpenSSLPass opts, do_FallbackPass opts]
      else [])"

text \<open>A reader whose head cannot be read counts as not encrypted.\<close>

definition detect_stream :: "encryptors \<Rightarrow> stream \<Rightarrow> string" where
  "detect_stream reg r = (if length (fst r) < 64 \<and> snd r \<noteq> None then [] else Detect reg (fst r))"

definition resolveType :: "encryptors \<Rightarrow> stream \<Rightarrow> encryption_meta option \<Rightarrow> decrypt_opts \<Rightarrow> open_error + string" where
  "resolveType reg r meta opts =
     (if do_EncryptionType opts \<noteq> [] \<and> to_lower (do_EncryptionType opts) \<noteq> ''auto'' then
        (let t = encrypt_Parse reg (do_EncryptionType opts)
         in if t = [] then Inl (UnknownEncryptionOption (do_EncryptionType opts)) else Inr t)
      else case meta of
             Some m \<Rightarrow> if em_Type m \<noteq> [] then Inr (encrypt_Parse reg (em_Type m)) else Inr (detect_stream reg r)
           | None \<Rightarrow> Inr (detect_stream reg r))"

text \<open>
  Reading the OpenSSL reader to its end in the pieces of \<open>io.Copy\<close>. Every read delivers a byte or
  ends, and there are no more bytes than the source has.
\<close>

definition drain :: "block_fun \<Rightarrow> block_reader \<Rightarrow> stream" where
  "drain D r =
     (case read_all D r (replicate (Suc (length (br_src r))) 32768) [] of
        (xs, EOF) \<Rightarrow> (xs, None)
      | (xs, _) \<Rightarrow> (xs, Some ''openssl''))"

text \<open>A source of the storage that fails delivers nothing before, and OpenSSL misses its header there.\<close>

definition decrypted :: "unpack_env \<Rightarrow> string \<Rightarrow> stream \<Rightarrow> decrypt_opts \<Rightarrow> (open_error + stream) option" where
  "decrypted u t r opts =
     (if t = [] then Some (Inr r)
      else Option.bind (ResolveSecret (ue_read u) (ue_getenv u) (passFor opts t)) (\<lambda>pass.
             Option.bind (ResolveSecret (ue_read u) (ue_getenv u) (firstNonEmpty [do_Identity opts, do_FallbackID opts])) (\<lambda>id.
               let ids = (if id \<noteq> [] then [id] else []);
                   wrap = case_sum (\<lambda>e. Inl (DecryptFailed e)) Inr
               in Some (if t = ''age'' then
                          wrap (if pass \<noteq> [] then ue_agePassphrase u pass r else ue_age u ids r)
                        else if t = ''gpg'' then wrap (ue_openPGP u ids pass r)
                        else if t = ''openssl'' then
                          (if pass = [] then Inl NoOpensslPassphrase
                           else case DecryptOpenSSL (ue_aes u) (ue_kdf u) pass (fst r) of
                                  Inl e \<Rightarrow> Inl (OpensslFailed e)
                                | Inr (D, br) \<Rightarrow> Inr (drain D br))
                        else Inl (UnsupportedEncryption t)))))"

definition backup_compression :: "string \<Rightarrow> string \<Rightarrow> compress_type" where
  "backup_compression name compressType =
     (let base = fold (\<lambda>ext b. trim_suffix b ext) [''.age'', ''.gpg'', ''.enc''] name
      in compress_Parse (if compressType = [] then compress_name (FromExtension (path_ext base)) else compressType))"

definition decompressed :: "unpack_env \<Rightarrow> stream \<Rightarrow> string \<Rightarrow> string \<Rightarrow> open_error + stream" where
  "decompressed u br name compressType =
     (let ct = backup_compression name compressType
      in if ct = CNone then Inr br
         else case ue_decompress u ct br of Inl e \<Rightarrow> Inl (DecompressFailed e) | Inr s \<Rightarrow> Inr s)"

definition OpenBackup ::
  "unpack_env \<Rightarrow> stream \<Rightarrow> encryption_meta option \<Rightarrow> decrypt_opts \<Rightarrow> string \<Rightarrow> string \<Rightarrow> (open_error + stream) option" where
  "OpenBackup u r meta opts name compressType =
     (case resolveType (ue_encryptors u) r meta opts of
        Inl e \<Rightarrow> Some (Inl e)
      | Inr t \<Rightarrow>
          map_option (\<lambda>res. case res of Inl e \<Rightarrow> Inl e | Inr br \<Rightarrow> decompressed u br name compressType)
            (decrypted u t r opts))"

section \<open>The restore section\<close>

record restore_config =
  rc_File :: string
  rc_Base :: string
  rc_Connection :: string
  rc_StorageRef :: string
  rc_ProfileRef :: string
  rc_Identity :: string
  rc_Passphrase :: string
  rc_CreateDB :: "bool option"
  rc_Type :: string
  rc_Host :: string
  rc_Port :: int
  rc_User :: string
  rc_Pass :: string
  rc_AuthSource :: string
  rc_TLS :: "tls_config option"
  rc_Storage :: "storage_config option"

text \<open>The configuration with its restore section and the profiles of it.\<close>

record full_config = main_config +
  c_Restore :: "restore_config option"
  c_RestoreProfiles :: "restore_config profiles"

definition mergeRestore :: "restore_config \<Rightarrow> restore_config \<Rightarrow> restore_config" where
  "mergeRestore dst src = dst\<lparr>
     rc_File := firstNonEmpty [rc_File dst, rc_File src],
     rc_Base := firstNonEmpty [rc_Base dst, rc_Base src],
     rc_Connection := firstNonEmpty [rc_Connection dst, rc_Connection src],
     rc_StorageRef := firstNonEmpty [rc_StorageRef dst, rc_StorageRef src],
     rc_Identity := firstNonEmpty [rc_Identity dst, rc_Identity src],
     rc_Passphrase := firstNonEmpty [rc_Passphrase dst, rc_Passphrase src],
     rc_CreateDB := (if rc_CreateDB dst = None then rc_CreateDB src else rc_CreateDB dst)\<rparr>"

definition resolveRestore ::
  "(string \<Rightarrow> string option) \<Rightarrow> (string \<Rightarrow> string) \<Rightarrow> full_config \<Rightarrow> restore_config \<Rightarrow> restore_config option" where
  "resolveRestore read env c r0 =
     (let r1 = (if rc_ProfileRef r0 = [] then r0
                else case lookup_profile (c_RestoreProfiles c) (rc_ProfileRef r0) of
                       None \<Rightarrow> r0 | Some prof \<Rightarrow> mergeRestore r0 prof);
          r2 = (if rc_Connection r1 = [] then r1
                else case lookup_profile (c_Connections c) (rc_Connection r1) of
                       None \<Rightarrow> r1
                     | Some conn \<Rightarrow> r1\<lparr>rc_Type := cc_Type conn, rc_Host := cc_Host conn, rc_Port := cc_Port conn,
                         rc_User := cc_User conn, rc_Pass := cc_Pass conn, rc_AuthSource := cc_AuthSource conn,
                         rc_TLS := (case cc_TLS conn of None \<Rightarrow> rc_TLS r1 | Some t \<Rightarrow> Some t)\<rparr>);
          r3 = (if rc_StorageRef r2 = [] then r2
                else case lookup_profile (c_StorageProfiles c) (rc_StorageRef r2) of
                       None \<Rightarrow> r2 | Some prof \<Rightarrow> r2\<lparr>rc_Storage := Some prof\<rparr>)
      in Option.bind (ResolveSecret read env (rc_Pass r3)) (\<lambda>p.
         Option.bind (ResolveSecret read env (rc_Identity r3)) (\<lambda>i.
         Option.bind (ResolveSecret read env (rc_Passphrase r3)) (\<lambda>w.
           Some (r3\<lparr>rc_Pass := p, rc_Identity := i, rc_Passphrase := w\<rparr>)))))"

text \<open>The hook of the Supported edition; the Community edition leaves the section as it is.\<close>

definition ResolveRestore ::
  "edition \<Rightarrow> (string \<Rightarrow> string option) \<Rightarrow> (string \<Rightarrow> string) \<Rightarrow> full_config \<Rightarrow> restore_config \<Rightarrow> restore_config option" where
  "ResolveRestore ed read env c r = (if ed = Supported then resolveRestore read env c r else Some r)"

text \<open>The section of the file was resolved when the file was loaded.\<close>

definition EffectiveRestore ::
  "edition \<Rightarrow> (string \<Rightarrow> string option) \<Rightarrow> (string \<Rightarrow> string) \<Rightarrow> full_config \<Rightarrow> string \<Rightarrow> restore_config option option" where
  "EffectiveRestore ed read env c profileName =
     (if profileName \<noteq> [] then
        (case lookup_profile (c_RestoreProfiles c) profileName of
           None \<Rightarrow> Some None
         | Some prof \<Rightarrow> map_option Some (ResolveRestore ed read env c prof))
      else Some (c_Restore c))"

section \<open>The chain of a backup\<close>

text \<open>
  The backups to restore, oldest first. The base on the command line counts for the backup
  itself, the sidecars for all others; the walk ends after 64 steps.
\<close>

fun chain_walk :: "'s storage_api \<Rightarrow> 's \<Rightarrow> string \<Rightarrow> string \<Rightarrow> nat \<Rightarrow> string \<Rightarrow> string list \<Rightarrow> string list" where
  "chain_walk st s file basePath 0 cur order = order"
| "chain_walk st s file basePath (Suc n) cur order =
     (let base0 = (if cur = file \<and> basePath \<noteq> [] then basePath
                   else case ReadSidecar st s cur of Some sc \<Rightarrow> sc_Base sc | None \<Rightarrow> []);
          base = trim_suffix base0 ''.json''
      in if base = [] \<or> base = cur then order
         else chain_walk st s file basePath n base (base # order))"

definition restore_order :: "'s storage_api \<Rightarrow> 's \<Rightarrow> string \<Rightarrow> string \<Rightarrow> string list" where
  "restore_order st s file basePath = chain_walk st s file basePath 64 file [file]"

text \<open>What is taken for the encryption of a file: its sidecar, its extension or the passphrase at hand.\<close>

definition meta_of_type :: "string \<Rightarrow> encryption_meta" where
  "meta_of_type t = \<lparr>em_Type = t, em_Recipients = [], em_Passphrase = False, em_Key = [], em_Hash = []\<rparr>"

definition restore_meta :: "'s storage_api \<Rightarrow> 's \<Rightarrow> decrypt_opts \<Rightarrow> string \<Rightarrow> encryption_meta option" where
  "restore_meta st s opts gf =
     (let m1 = (case ReadSidecar st s gf of Some sc \<Rightarrow> sc_Encryption sc | None \<Rightarrow> None);
          ext = path_ext gf;
          m2 = (if m1 = None \<and> (ext = ''.age'' \<or> ext = ''.gpg'' \<or> ext = ''.enc'')
                then Some (meta_of_type (trim_prefix ext ''.'')) else m1)
      in if m2 \<noteq> None then m2
         else if do_GPGPass opts \<noteq> [] then Some (meta_of_type ''gpg'')
         else if do_OpenSSLPass opts \<noteq> [] then Some (meta_of_type ''openssl'')
         else None)"

section \<open>Handing the chain to the engine\<close>

record restore_target =
  rt_Type :: string
  rt_Host :: string
  rt_Port :: int
  rt_User :: string
  rt_Pass :: string
  rt_Name :: string
  rt_AuthSource :: string
  rt_TLS :: "tls_config option"
  rt_CreateDB :: bool

datatype restore_error =
    NeedsConfig string
  | ConfigError string
  | NoRestoreProfile string
  | RestoreNotAllowed string
  | NoSuchJob string
  | NilStorage
  | StorageArg string
  | TLSError string
  | BackendNotAllowed string string
  | StorageError storage_error
  | GlobFailed glob_error
  | FileRequired
  | TypeRequired
  | DownloadFailed string storage_error
  | OpenFailed open_error
  | CopyFailed string
  | EngineFailed string string

text \<open>
  \<open>re_restoreTo\<close> is \<open>database.RestoreTo\<close>; \<open>re_chain\<close> is the \<open>RestoreChain\<close> of the engine, for the
  engines that have one, on the decoded files and their names.
\<close>

record ('s, 'd) restore_env =
  re_unpack :: unpack_env
  re_json :: "sidecar \<Rightarrow> string"
  re_restoreTo :: "restore_target \<Rightarrow> stream \<Rightarrow> 'd \<Rightarrow> 'd \<times> string option"
  re_chain :: "string \<Rightarrow> ((byte list \<times> string) list \<Rightarrow> restore_target \<Rightarrow> 'd \<Rightarrow> 'd \<times> string option) option"
  re_serverVersion :: "restore_target \<Rightarrow> string \<Rightarrow> server_version option"
  re_backends :: "((string \<times> string) list \<Rightarrow> storage_error + 's storage_api) registry"
  re_config :: "(string + full_config) option"
  re_storageProfile :: "string \<Rightarrow> string + storage_config"
  re_edition :: edition
  re_allowRestore :: license_check
  re_allowStorage :: license_check
  re_tls :: "tls_config option \<Rightarrow> string option"
  re_defaultPort :: "string \<Rightarrow> int"
  re_terminal :: "string option"

definition stream_of :: "(sidecar \<Rightarrow> string) \<Rightarrow> sidecar reader \<Rightarrow> stream" where
  "stream_of json r =
     (case r of Data (Bytes b) \<Rightarrow> (bytes_of b, None) | Data (Json sc _) \<Rightarrow> (bytes_of (json sc), None)
      | ReadFails \<Rightarrow> ([], Some ''read''))"

text \<open>The compression given on the command line is that of the last backup only.\<close>

definition open_file ::
  "('s, 'd) restore_env \<Rightarrow> 's storage_api \<Rightarrow> 's \<Rightarrow> encryption_meta option \<Rightarrow> decrypt_opts \<Rightarrow> string \<Rightarrow> bool \<Rightarrow> string \<Rightarrow>
   (restore_error + stream) option" where
  "open_file e st s meta opts compressType isMain gf =
     (case api_Download st s False gf of
        Inl err \<Rightarrow> Some (Inl (DownloadFailed gf err))
      | Inr rc \<Rightarrow>
          map_option (case_sum (\<lambda>err. Inl (OpenFailed err)) Inr)
            (OpenBackup (re_unpack e) (stream_of (re_json e) rc) meta opts gf (if isMain then compressType else [])))"

fun restore_each ::
  "('s, 'd) restore_env \<Rightarrow> 's storage_api \<Rightarrow> 's \<Rightarrow> decrypt_opts \<Rightarrow> string \<Rightarrow> restore_target \<Rightarrow> string list \<Rightarrow> 'd \<Rightarrow>
   ('d \<times> restore_error option) option" where
  "restore_each e st s opts ctype target [] d = Some (d, None)"
| "restore_each e st s opts ctype target (gf # rest) d =
     Option.bind (open_file e st s (restore_meta st s opts gf) opts ctype (rest = []) gf) (\<lambda>opened.
       case opened of
         Inl err \<Rightarrow> Some (d, Some err)
       | Inr decoded \<Rightarrow>
           (case re_restoreTo e target decoded d of
              (d', Some err) \<Rightarrow> Some (d', Some (EngineFailed gf err))
            | (d', None) \<Rightarrow> restore_each e st s opts ctype target rest d'))"

text \<open>Engines with a chain of their own get all files of it, decoded to temporary files.\<close>

fun decode_chain ::
  "('s, 'd) restore_env \<Rightarrow> 's storage_api \<Rightarrow> 's \<Rightarrow> decrypt_opts \<Rightarrow> string \<Rightarrow> string list \<Rightarrow>
   (restore_error + (byte list \<times> string) list) option" where
  "decode_chain e st s opts ctype [] = Some (Inr [])"
| "decode_chain e st s opts ctype (gf # rest) =
     Option.bind (open_file e st s (case ReadSidecar st s gf of Some sc \<Rightarrow> sc_Encryption sc | None \<Rightarrow> None)
                    opts ctype (rest = []) gf) (\<lambda>opened.
       case opened of
         Inl err \<Rightarrow> Some (Inl err)
       | Inr (bs, Some err) \<Rightarrow> Some (Inl (CopyFailed err))
       | Inr (bs, None) \<Rightarrow>
           map_option (case_sum Inl (\<lambda>more. Inr ((bs, gf) # more))) (decode_chain e st s opts ctype rest))"

definition run_restore ::
  "('s, 'd) restore_env \<Rightarrow> 's storage_api \<Rightarrow> 's \<Rightarrow> decrypt_opts \<Rightarrow> string \<Rightarrow> restore_target \<Rightarrow> string list \<Rightarrow> 'd \<Rightarrow>
   ('d \<times> restore_error option) option" where
  "run_restore e st s opts ctype target order d =
     (case re_chain e (rt_Type target) of
        None \<Rightarrow> restore_each e st s opts ctype target order d
      | Some restoreChain \<Rightarrow>
          map_option (\<lambda>decoded. case decoded of
              Inl err \<Rightarrow> (d, Some err)
            | Inr files \<Rightarrow> (case restoreChain files target d of
                              (d', err) \<Rightarrow> (d', map_option (EngineFailed []) err)))
            (decode_chain e st s opts ctype order))"

text \<open>The database that is asked for the version of the server, and the warning that is printed.\<close>

definition probe_db :: "string \<Rightarrow> string \<Rightarrow> string \<Rightarrow> string" where
  "probe_db dbType dbName authSource =
     (let t = to_lower dbType
      in if t \<in> {''postgres'', ''postgresql'', ''cockroach'', ''cockroachdb''} then ''postgres''
         else if t \<in> {''mysql'', ''mariadb''} then ''information_schema''
         else if t \<in> {''mongo'', ''mongodb''} then (if authSource = [] then ''admin'' else authSource)
         else if t \<in> {''mssql'', ''sqlserver''} then ''master'' else dbName)"

definition warnRestoreServerCompat ::
  "('s, 'd) restore_env \<Rightarrow> 's storage_api \<Rightarrow> 's \<Rightarrow> string \<Rightarrow> restore_target \<Rightarrow> compat" where
  "warnRestoreServerCompat e st s file target =
     (case ReadSidecar st s file of
        None \<Rightarrow> Compatible
      | Some sc \<Rightarrow>
          (case sc_Server sc of
             None \<Rightarrow> Compatible
           | Some srv \<Rightarrow>
               (case re_serverVersion e target (probe_db (rt_Type target) (rt_Name target) (rt_AuthSource target)) of
                  None \<Rightarrow> Compatible
                | Some v \<Rightarrow>
                    if sv_Engine v = [] \<and> sv_Version v = [] then Compatible
                    else ServerCompatWarning (sm_Engine srv) (sm_Version srv) (sv_Engine v) (sv_Version v))))"

section \<open>The settings of a restore\<close>

text \<open>The flags as parsed; \<open>rf_given\<close> are the names of those on the command line, the others have their defaults.\<close>

record restore_flags =
  rf_given :: "string list"
  rf_type :: string
  rf_host :: string
  rf_port :: int
  rf_user :: string
  rf_pass :: string
  rf_name :: string
  rf_authSource :: string
  rf_file :: string
  rf_base :: string
  rf_storagePath :: string
  rf_storageProfile :: string
  rf_profile :: string
  rf_createDB :: bool
  rf_compress :: string
  rf_encryption :: string
  rf_agePass :: string
  rf_gpgPass :: string
  rf_identity :: string
  rf_opensslPass :: string
  rf_dryRun :: bool
  rf_nonInteractive :: bool
  rf_args :: "string list"

definition default_flags :: "string \<Rightarrow> restore_flags" where
  "default_flags storagePath =
     \<lparr>rf_given = [], rf_type = [], rf_host = ''localhost'', rf_port = 0, rf_user = [], rf_pass = [], rf_name = [],
       rf_authSource = [], rf_file = [], rf_base = [], rf_storagePath = storagePath, rf_storageProfile = [],
       rf_profile = [], rf_createDB = True, rf_compress = [], rf_encryption = ''auto'', rf_agePass = [],
       rf_gpgPass = [], rf_identity = [], rf_opensslPass = [], rf_dryRun = False, rf_nonInteractive = False,
       rf_args = []\<rparr>"

text \<open>The variables of \<open>cmdRestore\<close> that are filled from several sources.\<close>

record restore_plan =
  rp_Type :: string
  rp_Host :: string
  rp_Port :: int
  rp_User :: string
  rp_Pass :: string
  rp_Name :: string
  rp_AuthSource :: string
  rp_File :: string
  rp_Base :: string
  rp_StoragePath :: string
  rp_TLS :: "tls_config option"
  rp_Storage :: "storage_config option"
  rp_Identity :: string
  rp_Passphrase :: string
  rp_CreateDB :: bool

definition plan_of_flags :: "restore_flags \<Rightarrow> string \<Rightarrow> restore_plan" where
  "plan_of_flags f pass =
     \<lparr>rp_Type = rf_type f, rp_Host = rf_host f, rp_Port = rf_port f, rp_User = rf_user f, rp_Pass = pass,
       rp_Name = rf_name f, rp_AuthSource = rf_authSource f, rp_File = rf_file f, rp_Base = rf_base f,
       rp_StoragePath = rf_storagePath f, rp_TLS = None, rp_Storage = None, rp_Identity = [], rp_Passphrase = [],
       rp_CreateDB = rf_createDB f\<rparr>"

text \<open>A text is filled in when its flag is not on the command line and it is still empty.\<close>

definition fill :: "restore_flags \<Rightarrow> string \<Rightarrow> string \<Rightarrow> string \<Rightarrow> string" where
  "fill f flag cur new = (if flag \<notin> set (rf_given f) \<and> cur = [] then new else cur)"

definition from_profile :: "restore_flags \<Rightarrow> restore_config \<Rightarrow> restore_plan \<Rightarrow> restore_plan" where
  "from_profile f r p = p\<lparr>
     rp_CreateDB := (case rc_CreateDB r of Some b \<Rightarrow> if ''create-db'' \<notin> set (rf_given f) then b else rp_CreateDB p
                     | None \<Rightarrow> rp_CreateDB p),
     rp_File := fill f ''file'' (rp_File p) (rc_File r),
     rp_Base := fill f ''base'' (rp_Base p) (rc_Base r),
     rp_Type := fill f ''type'' (rp_Type p) (rc_Type r),
     rp_Host := fill f ''host'' (rp_Host p) (rc_Host r),
     rp_Port := (if ''port'' \<notin> set (rf_given f) \<and> rp_Port p = 0 then rc_Port r else rp_Port p),
     rp_User := fill f ''user'' (rp_User p) (rc_User r),
     rp_Pass := fill f ''pass'' (rp_Pass p) (rc_Pass r),
     rp_TLS := (case rc_TLS r of Some t \<Rightarrow> Some t | None \<Rightarrow> rp_TLS p),
     rp_Storage := (case rc_Storage r of Some sto \<Rightarrow> Some sto | None \<Rightarrow> rp_Storage p),
     rp_StoragePath := (case rc_Storage r of Some sto \<Rightarrow> st_Path sto | None \<Rightarrow> rp_StoragePath p),
     rp_Identity := rc_Identity r, rp_Passphrase := rc_Passphrase r,
     rp_AuthSource := fill f ''auth-source'' (rp_AuthSource p) (rc_AuthSource r)\<rparr>"

text \<open>A job given by name replaces what the flags said, and its storage is dereferenced.\<close>

definition from_job ::
  "('s, 'd) restore_env \<Rightarrow> job_config \<Rightarrow> restore_plan \<Rightarrow> (restore_error + restore_plan) option" where
  "from_job e job p =
     (case j_Storage job of
        None \<Rightarrow> Some (Inl NilStorage)
      | Some sto \<Rightarrow>
          map_option (\<lambda>pass. Inr (p\<lparr>
              rp_Type := j_Type job, rp_Host := j_Host job,
              rp_Port := (if j_Port job = 0 then re_defaultPort e (j_Type job) else j_Port job),
              rp_User := j_User job,
              rp_Name := (case j_Databases job of None \<Rightarrow> [] | Some dl \<Rightarrow> join '','' (dl_Include dl)),
              rp_StoragePath := st_Path sto, rp_Pass := pass, rp_TLS := j_TLS job, rp_Storage := Some sto,
              rp_AuthSource := j_AuthSource job\<rparr>))
            (if rp_Pass p = [] then ResolveSecret (ue_read (re_unpack e)) (ue_getenv (re_unpack e)) (j_Pass job)
             else Some (rp_Pass p)))"

definition from_config ::
  "('s, 'd) restore_env \<Rightarrow> restore_flags \<Rightarrow> full_config \<Rightarrow> restore_plan \<Rightarrow> (restore_error + restore_plan) option" where
  "from_config e f cfg p =
     Option.bind (EffectiveRestore (re_edition e) (ue_read (re_unpack e)) (ue_getenv (re_unpack e)) cfg (rf_profile f))
       (\<lambda>r. case r of
          Some rc \<Rightarrow>
            (case re_allowRestore e of
               Some err \<Rightarrow> Some (Inl (RestoreNotAllowed err))
             | None \<Rightarrow> Some (Inr (from_profile f rc p)))
        | None \<Rightarrow>
            if rf_profile f \<noteq> [] then Some (Inl (NoRestoreProfile (rf_profile f)))
            else (case rf_args f of
                    [] \<Rightarrow> Some (Inr p)
                  | jobName # _ \<Rightarrow>
                      map_option (case_sum Inl (\<lambda>p'. if rp_Type p' = [] then Inl (NoSuchJob jobName) else Inr p'))
                        (case find (\<lambda>job. j_Name job = jobName) (c_Jobs cfg) of
                           None \<Rightarrow> Some (Inr p)
                         | Some job \<Rightarrow> from_job e job p)))"

text \<open>Without a profile the storage is the filesystem at the path; a profile needs a configuration.\<close>

definition ResolveStorageArg :: "('s, 'd) restore_env \<Rightarrow> string \<Rightarrow> string \<Rightarrow> string + storage_config" where
  "ResolveStorageArg e profile path =
     (if profile \<noteq> [] then
        (if re_config e = None then Inl ''--storage-profile requires -c <config>'' else re_storageProfile e profile)
      else Inr (no_storage\<lparr>st_Backend := ''filesystem'', st_Path := path\<rparr>))"

definition with_storage_profile ::
  "('s, 'd) restore_env \<Rightarrow> restore_flags \<Rightarrow> restore_plan \<Rightarrow> restore_error + restore_plan" where
  "with_storage_profile e f p =
     (if rf_storageProfile f = [] then Inr p
      else case ResolveStorageArg e (rf_storageProfile f) (rp_StoragePath p) of
             Inl err \<Rightarrow> Inl (StorageArg err)
           | Inr sc \<Rightarrow> Inr (p\<lparr>rp_Storage := Some sc, rp_StoragePath := st_Path sc\<rparr>))"

definition open_restore_storage ::
  "('s, 'd) restore_env \<Rightarrow> restore_flags \<Rightarrow> restore_plan \<Rightarrow> restore_error + 's storage_api" where
  "open_restore_storage e f p =
     (case (case rp_Storage p of Some sc \<Rightarrow> Inr sc | None \<Rightarrow> ResolveStorageArg e (rf_storageProfile f) (rp_StoragePath p)) of
        Inl err \<Rightarrow> Inl (StorageArg err)
      | Inr sc \<Rightarrow>
          if to_lower (st_Backend sc) \<in> {''azure'', ''gcs''} \<and> re_allowStorage e \<noteq> None
          then Inl (BackendNotAllowed (st_Backend sc) (the (re_allowStorage e)))
          else (case storage_New (re_backends e) (st_Backend sc) (Options sc) of
                  Inl err \<Rightarrow> Inl (StorageError err) | Inr st \<Rightarrow> Inr st))"

definition glob_file :: "'s storage_api \<Rightarrow> 's \<Rightarrow> restore_plan \<Rightarrow> restore_error + restore_plan" where
  "glob_file st s p =
     (if IsGlobPattern (rp_File p) then
        (case ResolveGlobFile st s (rp_File p) of
           Inl err \<Rightarrow> Inl (GlobFailed err) | Inr path \<Rightarrow> Inr (p\<lparr>rp_File := path\<rparr>))
      else Inr p)"

text \<open>What the backup itself says of where it came from, first by its sidecar and then by its name.\<close>

definition from_backup :: "'s storage_api \<Rightarrow> 's \<Rightarrow> restore_flags \<Rightarrow> restore_plan \<Rightarrow> restore_plan" where
  "from_backup st s f p =
     (if rp_File p = [] then p
      else let p1 = (case ReadSidecar st s (rp_File p) of
                       None \<Rightarrow> p
                     | Some sc \<Rightarrow> p\<lparr>rp_Type := fill f ''type'' (rp_Type p) (sc_Type sc),
                                    rp_Name := fill f ''name'' (rp_Name p) (sc_DB sc),
                                    rp_Host := fill f ''host'' (rp_Host p) (sc_Host sc)\<rparr>)
           in case ParseBackupFilename (rp_File p) of
                None \<Rightarrow> p1
              | Some bi \<Rightarrow> p1\<lparr>rp_Type := fill f ''type'' (rp_Type p1) (bi_Type bi),
                              rp_Name := fill f ''name'' (rp_Name p1) (bi_DBName bi),
                              rp_Host := fill f ''host'' (rp_Host p1) (bi_Host bi)\<rparr>)"

definition decrypt_opts_of :: "restore_flags \<Rightarrow> restore_plan \<Rightarrow> decrypt_opts" where
  "decrypt_opts_of f p =
     \<lparr>do_EncryptionType = rf_encryption f, do_AgePass = rf_agePass f,
       do_GPGPass = firstNonEmpty [rf_gpgPass f, rp_Passphrase p],
       do_OpenSSLPass = firstNonEmpty [rf_opensslPass f, rp_Passphrase p],
       do_Identity = firstNonEmpty [rf_identity f, rp_Identity p],
       do_FallbackPass = rp_Passphrase p, do_FallbackID = rp_Identity p\<rparr>"

definition target_of :: "('s, 'd) restore_env \<Rightarrow> restore_plan \<Rightarrow> restore_target" where
  "target_of e p =
     \<lparr>rt_Type = rp_Type p, rt_Host = rp_Host p,
       rt_Port = (if rp_Port p = 0 then re_defaultPort e (rp_Type p) else rp_Port p),
       rt_User = rp_User p, rt_Pass = rp_Pass p, rt_Name = rp_Name p, rt_AuthSource = rp_AuthSource p,
       rt_TLS = rp_TLS p, rt_CreateDB = rp_CreateDB p\<rparr>"

section \<open>The command\<close>

datatype restore_outcome =
    RestoreFailed restore_error
  | Dialogue
  | WouldRestore string restore_target string
  | Restored compat nat

definition plan_restore ::
  "('s, 'd) restore_env \<Rightarrow> restore_flags \<Rightarrow> (restore_error + restore_plan) option" where
  "plan_restore e f =
     Option.bind (ResolveSecret (ue_read (re_unpack e)) (ue_getenv (re_unpack e)) (rf_pass f)) (\<lambda>pass.
       map_option (case_sum Inl (\<lambda>p. case with_storage_profile e f p of
             Inl err \<Rightarrow> Inl err
           | Inr p1 \<Rightarrow> (case re_tls e (rp_TLS p1) of Some err \<Rightarrow> Inl (TLSError err) | None \<Rightarrow> Inr p1)))
         (case re_config e of
            None \<Rightarrow> Some (case rf_args f of [] \<Rightarrow> Inr (plan_of_flags f pass) | job # _ \<Rightarrow> Inl (NeedsConfig job))
          | Some (Inl err) \<Rightarrow> Some (Inl (ConfigError err))
          | Some (Inr cfg) \<Rightarrow> from_config e f cfg (plan_of_flags f pass)))"

definition restore_planned ::
  "('s, 'd) restore_env \<Rightarrow> restore_flags \<Rightarrow> 's storage_api \<Rightarrow> 's \<Rightarrow> restore_plan \<Rightarrow> 'd \<Rightarrow> ('d \<times> restore_outcome) option" where
  "restore_planned e f st s p d =
     (if rp_File p = [] \<and> rp_Type p = [] \<and> rf_args f = [] then
        Some (d, if rf_nonInteractive f then RestoreFailed FileRequired else Dialogue)
      else if rp_File p = [] then
        Some (d, case re_terminal e of
            Some answer \<Rightarrow> if \<not> rf_nonInteractive f \<and> re_config e = None \<and> to_lower (trim_space answer) \<in> {''y'', ''yes''}
                           then Dialogue else RestoreFailed FileRequired
          | None \<Rightarrow> RestoreFailed FileRequired)
      else if rp_Type p = [] then Some (d, RestoreFailed TypeRequired)
      else let target = target_of e p
           in if rf_dryRun f then Some (d, WouldRestore (rp_File p) target (rp_Base p))
              else let order = restore_order st s (rp_File p) (rp_Base p)
                   in map_option (\<lambda>(d', err). (d', case err of
                          Some x \<Rightarrow> RestoreFailed x
                        | None \<Rightarrow> Restored (warnRestoreServerCompat e st s (last order) target) (length order)))
                        (run_restore e st s (decrypt_opts_of f p) (rf_compress f) target order d))"

definition cmdRestore ::
  "('s, 'd) restore_env \<Rightarrow> restore_flags \<Rightarrow> 's \<Rightarrow> 'd \<Rightarrow> ('d \<times> restore_outcome) option" where
  "cmdRestore e f s d =
     Option.bind (plan_restore e f) (\<lambda>planned.
       case planned of
         Inl err \<Rightarrow> Some (d, RestoreFailed err)
       | Inr p \<Rightarrow>
           (case open_restore_storage e f p of
              Inl err \<Rightarrow> Some (d, RestoreFailed err)
            | Inr st \<Rightarrow>
                (case glob_file st s p of
                   Inl err \<Rightarrow> Some (d, RestoreFailed err)
                 | Inr p1 \<Rightarrow> restore_planned e f st s (from_backup st s f p1) d)))"

section \<open>Opening undoes the pipeline of a backup\<close>

lemma compress_Parse_name [simp]: "compress_Parse (compress_name t) = t"
  by (cases t) (simp_all add: compress_Parse_def compress_name_def Let_def to_lower_def lower_char_def)

text \<open>The extension of a name that ends with one.\<close>

lemma path_ext_append:
  assumes "CHR ''.'' \<notin> set e" and "CHR ''/'' \<notin> set e"
  shows "path_ext (stem @ CHR ''.'' # e) = CHR ''.'' # e"
proof -
  have e: "\<forall>c \<in> set (rev e). c \<noteq> CHR ''/''" "\<forall>c \<in> set (rev e). c \<noteq> CHR ''.''" using assms by auto
  have "takeWhile (\<lambda>c. c \<noteq> CHR ''/'') (rev (stem @ CHR ''.'' # e)) =
      rev e @ CHR ''.'' # takeWhile (\<lambda>c. c \<noteq> CHR ''/'') (rev stem)"
    using e(1) takeWhile_append2 [of "rev e" "\<lambda>c. c \<noteq> CHR ''/''"] by auto
  moreover have "takeWhile (\<lambda>c. c \<noteq> CHR ''.'') (rev e @ CHR ''.'' # t) = rev e" for t
    using e(2) takeWhile_append2 [of "rev e" "\<lambda>c. c \<noteq> CHR ''.''"] by auto
  ultimately show ?thesis by (simp add: path_ext_def Let_def)
qed

definition backup_stem :: "compress_type \<Rightarrow> string \<Rightarrow> bool" where
  "backup_stem ct stem \<longleftrightarrow> ct = CNone \<longrightarrow> FromExtension (path_ext stem) = CNone"

lemma stem_compression:
  assumes "backup_stem ct stem"
  shows "FromExtension (path_ext (stem @ compress_Extension ct)) = ct"
proof (cases "ct = CNone")
  case False
  then obtain e where "compress_Extension ct = CHR ''.'' # e" "CHR ''.'' \<notin> set e" "CHR ''/'' \<notin> set e"
      "FromExtension (CHR ''.'' # e) = ct"
    by (cases ct) (auto simp: compress_Extension_def FromExtension_def Let_def to_lower_def lower_char_def)
  then show ?thesis using path_ext_append by metis
qed (use assms in \<open>simp add: backup_stem_def compress_Extension_def\<close>)

lemma backup_compression_enc:
  assumes "backup_stem ct stem"
  shows "backup_compression (stem @ compress_Extension ct @ ''.enc'') [] = ct"
proof -
  have "fold (\<lambda>ext b. trim_suffix b ext) [''.age'', ''.gpg'', ''.enc''] (stem @ compress_Extension ct @ ''.enc'') =
      stem @ compress_Extension ct"
    by (simp add: trim_suffix_def suffix_def)
  then show ?thesis using stem_compression [OF assms] by (simp add: backup_compression_def Let_def)
qed

lemma drain_complete:
  assumes "\<forall>ns. (\<forall>n \<in> set ns. 0 < n) \<longrightarrow> length xs < length ns \<longrightarrow> read_all D r ns [] = (xs, EOF)"
    and "length xs \<le> length (br_src r)"
  shows "drain D r = (xs, None)"
proof -
  let ?ns = "replicate (Suc (length (br_src r))) (32768 :: nat)"
  have "\<forall>n \<in> set ?ns. 0 < n" "length xs < length ?ns" using assms(2) by auto
  then have "read_all D r ?ns [] = (xs, EOF)" using assms(1) by blast
  then show ?thesis by (simp add: drain_def)
qed

definition compressed :: "(compress_type \<Rightarrow> byte list \<Rightarrow> byte list) \<Rightarrow> compress_type \<Rightarrow> byte list \<Rightarrow> byte list" where
  "compressed pack ct data = (if ct = CNone then data else pack ct data)"

lemma decompressed_enc:
  assumes "backup_stem ct stem" and "ct \<noteq> CNone \<Longrightarrow> ue_decompress u ct (pack ct data, None) = Inr (data, None)"
  shows "decompressed u (compressed pack ct data, None) (stem @ compress_Extension ct @ ''.enc'') [] = Inr (data, None)"
  using assms by (simp add: decompressed_def backup_compression_enc compressed_def Let_def)

text \<open>
  (C11) A backup that was compressed and then encrypted with OpenSSL is opened as what was dumped: the
  type of the encryption is known from the sidecar, the compression from the name, and the
  passphrase may be given as a reference to a file or a variable. The decompressor undoes the
  compressor, the block cipher is inverted by its decryption, and the key derivation delivers
  48 bytes.
\<close>

theorem backup_opened:
  assumes "\<And>k. block_cipher (aesE k) (ue_aes u k)" and "\<And>p s. length (ue_kdf u p s) = 48"
    and "ct \<noteq> CNone \<Longrightarrow> ue_decompress u ct (pack ct data, None) = Inr (data, None)"
    and "to_lower (do_EncryptionType opts) = ''auto''" and "encrypt_Parse (ue_encryptors u) (em_Type meta) = ''openssl''" and "em_Type meta \<noteq> []"
    and "ResolveSecret (ue_read u) (ue_getenv u) (passFor opts ''openssl'') = Some pass" and "pass \<noteq> []"
    and "ResolveSecret (ue_read u) (ue_getenv u) (firstNonEmpty [do_Identity opts, do_FallbackID opts]) = Some identity"
    and "length salt = openssl_salt_len" and "backup_stem ct stem" and "concat ps = compressed pack ct data"
  shows "OpenBackup u (openssl_stream aesE (ue_kdf u) salt pass ps, None) (Some meta) opts (stem @ compress_Extension ct @ ''.enc'') [] =
    Some (Inr (data, None))"
proof -
  obtain D r where dec: "DecryptOpenSSL (ue_aes u) (ue_kdf u) pass (openssl_stream aesE (ue_kdf u) salt pass ps) = Inr (D, r)"
    and drained: "drain D r = (concat ps, None)"
    using openssl_decrypts [where aesE = aesE and aesD = "ue_aes u" and kdf = "ue_kdf u" and ps = ps, OF assms(1,2,8,10)] drain_complete by auto
  have "decrypted u ''openssl'' (openssl_stream aesE (ue_kdf u) salt pass ps, None) opts = Some (Inr (compressed pack ct data, None))"
    using assms(7-9,12) dec drained by (simp add: decrypted_def Let_def)
  moreover have "resolveType (ue_encryptors u) r0 (Some meta) opts = Inr ''openssl''" for r0
    using assms(4-6) by (simp add: resolveType_def)
  ultimately show ?thesis
    using decompressed_enc [where pack = pack and data = data and u = u, OF assms(11,3)] by (simp add: OpenBackup_def)
qed

text \<open>A storage with a full and an incremental backup, and an engine that records what it gets.\<close>

definition demo_files :: "(string \<times> sidecar content) list" where
  "demo_files = [(''full'', Bytes ''A''), (''incr'', Bytes ''B''),
     (''incr.json'', Json (shelf_sidecar\<lparr>sc_Base := ''full'', sc_Encryption := None, sc_Server := None\<rparr>) 0)]"

definition demo_api :: "unit storage_api" where
  "demo_api = \<lparr>api_Upload = \<lambda>s _ _ _ _. (s, Inl NoData),
     api_Download = \<lambda>_ _ n. case map_of demo_files n of Some c \<Rightarrow> Inr (Data c) | None \<Rightarrow> Inl NotExist,
     api_List = \<lambda>_ _ _. Inl NotExist, api_Delete = \<lambda>s _ _. (s, None)\<rparr>"

definition demo_unpack :: unpack_env where
  "demo_unpack = \<lparr>ue_encryptors = [age_spec, openssl_spec], ue_read = \<lambda>_. None, ue_getenv = \<lambda>_. [],
     ue_agePassphrase = \<lambda>_ _. Inl [], ue_age = \<lambda>_ _. Inl [], ue_openPGP = \<lambda>_ _ _. Inl [], ue_aes = \<lambda>_. rev,
     ue_kdf = \<lambda>_ _. replicate 48 7, ue_decompress = \<lambda>_ r. Inr (rev (fst r), snd r)\<rparr>"

definition demo_env :: "(unit, byte list list) restore_env" where
  "demo_env = \<lparr>re_unpack = demo_unpack, re_json = \<lambda>_. [], re_restoreTo = \<lambda>_ r d. (d @ [fst r], None), re_chain = \<lambda>_. None,
     re_serverVersion = \<lambda>_ _. None, re_backends = [(''filesystem'', \<lambda>_. Inr demo_api)], re_config = None,
     re_storageProfile = \<lambda>_. Inl [], re_edition = Supported, re_allowRestore = None, re_allowStorage = None,
     re_tls = \<lambda>_. None, re_defaultPort = \<lambda>_. 5432, re_terminal = None\<rparr>"

definition demo_plan :: restore_plan where
  "demo_plan = (plan_of_flags (default_flags []) [])\<lparr>rp_File := ''incr'', rp_Type := ''postgres''\<rparr>"

theorem backup_opened_witness:
  "OpenBackup demo_unpack (openssl_stream (\<lambda>_. rev) (ue_kdf demo_unpack) (replicate 8 1) ''pw'' [[3, 2, 1]], None) (Some (meta_of_type ''openssl''))
     (decrypt_opts_of (default_flags []) (demo_plan\<lparr>rp_Passphrase := ''pw''\<rparr>)) (''db.sql'' @ compress_Extension Gzip @ ''.enc'') [] =
   Some (Inr ([1, 2, 3], None))"
proof (rule backup_opened [where pack = "\<lambda>_. rev" and identity = "[]"])
  show "block_cipher rev (ue_aes demo_unpack k)" for k by (simp add: block_cipher_def demo_unpack_def)
  show "ResolveSecret (ue_read demo_unpack) (ue_getenv demo_unpack)
      (passFor (decrypt_opts_of (default_flags []) (demo_plan\<lparr>rp_Passphrase := ''pw''\<rparr>)) ''openssl'') = Some ''pw''"
    by (subst ResolveSecret.simps) (simp add: passFor_def decrypt_opts_of_def default_flags_def demo_plan_def plan_of_flags_def)
  show "ResolveSecret (ue_read demo_unpack) (ue_getenv demo_unpack)
      (firstNonEmpty [do_Identity (decrypt_opts_of (default_flags []) (demo_plan\<lparr>rp_Passphrase := ''pw''\<rparr>)),
         do_FallbackID (decrypt_opts_of (default_flags []) (demo_plan\<lparr>rp_Passphrase := ''pw''\<rparr>))]) = Some []"
    by (subst ResolveSecret.simps) (simp add: decrypt_opts_of_def default_flags_def demo_plan_def plan_of_flags_def)
  show "to_lower (do_EncryptionType (decrypt_opts_of (default_flags []) (demo_plan\<lparr>rp_Passphrase := ''pw''\<rparr>))) = ''auto''"
    by (simp add: decrypt_opts_of_def default_flags_def to_lower_def lower_char_def)
  show "encrypt_Parse (ue_encryptors demo_unpack) (em_Type (meta_of_type ''openssl'')) = ''openssl''" by code_simp
qed (simp_all add: demo_unpack_def meta_of_type_def openssl_salt_len_def backup_stem_def compressed_def)

section \<open>The chain that is restored\<close>

text \<open>The backup that the sidecar of a backup names as its base.\<close>

definition base_of :: "'s storage_api \<Rightarrow> 's \<Rightarrow> string \<Rightarrow> string" where
  "base_of st s cur = trim_suffix (case ReadSidecar st s cur of Some sc \<Rightarrow> sc_Base sc | None \<Rightarrow> []) ''.json''"

text \<open>\<open>descends st s c bs\<close>: the ancestors of the backup \<open>c\<close> are \<open>bs\<close>, up to a backup without a base.\<close>

fun descends :: "'s storage_api \<Rightarrow> 's \<Rightarrow> string \<Rightarrow> string list \<Rightarrow> bool" where
  "descends st s c [] \<longleftrightarrow> base_of st s c = [] \<or> base_of st s c = c"
| "descends st s c (b # bs) \<longleftrightarrow> base_of st s c = b \<and> b \<noteq> [] \<and> b \<noteq> c \<and> descends st s b bs"

lemma chain_walk_descends:
  "descends st s c bs \<Longrightarrow> chain_walk st s file [] n c order = rev (take n bs) @ order"
proof (induction n arbitrary: c bs order)
  case (Suc n)
  show ?case
  proof (cases bs)
    case Nil
    with Suc.prems show ?thesis by (auto simp: base_of_def Let_def)
  next
    case (Cons b bs')
    then have b: "base_of st s c = b" "b \<noteq> []" "b \<noteq> c" "descends st s b bs'" using Suc.prems by simp_all
    then have "chain_walk st s file [] (Suc n) c order = chain_walk st s file [] n b (b # order)"
      by (simp add: base_of_def Let_def)
    with Suc.IH [OF b(4), of "b # order"] show ?thesis by (simp add: Cons)
  qed
qed simp

text \<open>The walk finds the whole chain when it is not longer than 64 links, and its newest 65 backups otherwise.\<close>

lemma restore_order_descends: "descends st s file bs \<Longrightarrow> restore_order st s file [] = rev (file # take 64 bs)"
  by (simp add: restore_order_def chain_walk_descends)

text \<open>Every backup of the list is opened and handed to the engine, which accepts it.\<close>

lemma restore_each_all:
  assumes "\<And>gf. gf \<in> set order \<Longrightarrow>
      open_file e st s (restore_meta st s opts gf) opts ctype (gf = last order) gf = Some (Inr (content gf))"
    and "\<And>gf d. gf \<in> set order \<Longrightarrow> snd (re_restoreTo e target (content gf) d) = None" and "distinct order"
  shows "restore_each e st s opts ctype target order d = Some (fold (\<lambda>gf d. fst (re_restoreTo e target (content gf) d)) order d, None)"
  using assms
proof (induction order arbitrary: d)
  case (Cons gf rest)
  have last: "(gf = last (gf # rest)) = (rest = [])" using Cons.prems(3) by (cases rest rule: rev_cases) auto
  obtain d' where d': "re_restoreTo e target (content gf) d = (d', None)" using Cons.prems(2) [of gf d] by (cases "re_restoreTo e target (content gf) d") simp
  have rest: "restore_each e st s opts ctype target rest d' = Some (fold (\<lambda>gf d. fst (re_restoreTo e target (content gf) d)) rest d', None)"
  proof (rule Cons.IH)
    fix g assume g: "g \<in> set rest"
    then have "last (gf # rest) = last rest" by auto
    with Cons.prems(1) [of g] g show "open_file e st s (restore_meta st s opts g) opts ctype (g = last rest) g = Some (Inr (content g))" by simp
  qed (use Cons.prems in auto)
  show ?case using Cons.prems(1) [of gf] last d' rest by simp
qed simp

lemma restore_planned_run:
  assumes "rp_File p \<noteq> []" and "rp_Type p \<noteq> []" and "\<not> rf_dryRun f"
    and "run_restore e st s (decrypt_opts_of f p) (rf_compress f) (target_of e p) (restore_order st s (rp_File p) (rp_Base p)) d = Some (d', None)"
  shows "\<exists>warning. restore_planned e f st s p d =
    Some (d', Restored warning (length (restore_order st s (rp_File p) (rp_Base p))))"
  using assms by (simp add: restore_planned_def Let_def)



section \<open>Where the restore departs from its intent\<close>

text \<open>
  Of a chain of more than 64 links the command restores the newest 65 backups only and not the
  full backup they are based on, and reports success when the engine accepts them.
\<close>

theorem long_chain_incomplete:
  assumes "descends st s file bs" and "64 < length bs" and "distinct (file # bs)"
  shows "last bs \<notin> set (restore_order st s file [])"
proof -
  have "bs = take 64 bs @ drop 64 bs" "drop 64 bs \<noteq> []" using assms(2) by simp_all
  then have "last bs \<in> set (drop 64 bs)" by (metis last_appendR last_in_set)
  moreover have "set (take 64 bs) \<inter> set (drop 64 bs) = {}" using assms(3) by (simp add: set_take_disj_set_drop_if_distinct)
  moreover have "file \<notin> set (drop 64 bs)" using assms(3) by (auto dest: in_set_dropD)
  ultimately show ?thesis using restore_order_descends [OF assms(1)] by auto
qed

definition gpg_spec :: encryptor_spec where
  "gpg_spec = \<lparr>es_Name = ''gpg'', es_Aliases = [''pgp'', ''openpgp''], es_Extension = ''.gpg'', es_Magic = [''-----BEGIN PGP'']\<rparr>"

lemma enc_is_no_type:
  assumes "set reg \<subseteq> {age_spec, gpg_spec, openssl_spec}"
  shows "encrypt_Parse reg ''enc'' = []"
proof -
  have "find (\<lambda>spec. es_Name spec = ''enc'' \<or> ''enc'' \<in> set (es_Aliases spec)) reg = None"
    using assms by (auto simp: find_None_iff age_spec_def gpg_spec_def openssl_spec_def)
  then show ?thesis
    by (simp add: encrypt_Parse_def LookupEncryptor_def recognizesAlias_def Let_def to_lower_def lower_char_def trim_space_def is_space_def)
qed


text \<open>
  With a passphrase in the restore section, every backup without a mark of its own is taken for
  an OpenPGP message, also one that is not encrypted at all or was encrypted by OpenSSL: its
  content is not looked at.
\<close>

lemma passphrase_means_openpgp:
  assumes "rp_Passphrase p \<noteq> []" and "to_lower (rf_encryption f) = ''auto''"
    and "ReadSidecar st s gf = None \<or> (\<exists>sc. ReadSidecar st s gf = Some sc \<and> sc_Encryption sc = None)"
    and "path_ext gf \<notin> {''.age'', ''.gpg'', ''.enc''}" and "LookupEncryptor reg ''gpg'' = Some gpg_spec \<or> LookupEncryptor reg ''gpg'' = None"
  shows "resolveType reg r (restore_meta st s (decrypt_opts_of f p) gf) (decrypt_opts_of f p) = Inr ''gpg''"
proof -
  have "do_GPGPass (decrypt_opts_of f p) \<noteq> []" using assms(1) by (simp add: decrypt_opts_of_def)
  then have "restore_meta st s (decrypt_opts_of f p) gf = Some (meta_of_type ''gpg'')"
    using assms(3,4) by (auto simp: restore_meta_def Let_def)
  moreover have "encrypt_Parse reg ''gpg'' = ''gpg''"
    using assms(5) by (auto simp: encrypt_Parse_def gpg_spec_def recognizesAlias_def Let_def to_lower_def lower_char_def trim_space_def is_space_def)
  ultimately show ?thesis using assms(2) by (simp add: resolveType_def meta_of_type_def decrypt_opts_of_def)
qed

text \<open>The flag for the host has a default that is not empty, so that no profile and no sidecar ever sets the host.\<close>

lemma host_default_wins:
  assumes "rp_Host p = ''localhost''"
  shows "rp_Host (from_profile f r p) = ''localhost''" and "rp_Host (from_backup st s f p) = ''localhost''"
  using assms by (simp_all add: from_profile_def from_backup_def fill_def Let_def split: option.splits)

lemma plan_restore_source:
  assumes "plan_restore e f = Some (Inr p)"
  obtains pass p0 where "with_storage_profile e f p0 = Inr p"
    and "p0 = plan_of_flags f pass \<or> (\<exists>cfg. from_config e f cfg (plan_of_flags f pass) = Some (Inr p0))"
proof -
  define source where "source pass =
      (case re_config e of
         None \<Rightarrow> Some (case rf_args f of [] \<Rightarrow> Inr (plan_of_flags f pass) | job # _ \<Rightarrow> Inl (NeedsConfig job))
       | Some (Inl err) \<Rightarrow> Some (Inl (ConfigError err))
       | Some (Inr cfg) \<Rightarrow> from_config e f cfg (plan_of_flags f pass))" for pass
  obtain pass p0 where "source pass = Some (Inr p0)"
      "(case with_storage_profile e f p0 of Inl err \<Rightarrow> Inl err
        | Inr p1 \<Rightarrow> (case re_tls e (rp_TLS p1) of Some err \<Rightarrow> Inl (TLSError err) | None \<Rightarrow> Inr p1)) = Inr p"
    using assms unfolding plan_restore_def source_def [symmetric] bind_eq_Some_conv map_option_eq_Some
    by (metis (no_types, lifting) Inl_Inr_False old.sum.exhaust old.sum.simps(5,6))
  then show thesis by (intro that [of p0 pass]) (auto simp: source_def split: sum.splits option.splits list.splits)
qed

lemma profile_host_ignored:
  assumes "rf_host f = ''localhost''" and "rf_args f = []" and "plan_restore e f = Some (Inr p)"
  shows "rp_Host p = ''localhost''"
proof -
  obtain pass p0 where p0: "with_storage_profile e f p0 = Inr p"
    "p0 = plan_of_flags f pass \<or> (\<exists>cfg. from_config e f cfg (plan_of_flags f pass) = Some (Inr p0))"
    using assms(3) by (rule plan_restore_source)
  have start: "rp_Host (plan_of_flags f pass) = ''localhost''" using assms(1) by (simp add: plan_of_flags_def)
  have "rp_Host p1 = ''localhost''" if "from_config e f cfg (plan_of_flags f pass) = Some (Inr p1)" for cfg p1
    using that assms(2) start host_default_wins(1) [OF start]
    by (auto simp: from_config_def bind_eq_Some_conv split: option.splits if_splits)
  then have "rp_Host p0 = ''localhost''" using p0(2) start by auto
  then show ?thesis using p0(1) by (auto simp: with_storage_profile_def split: if_splits sum.splits)
qed

text \<open>Names of growing length, each based on the one before.\<close>

definition long_api :: "unit storage_api" where
  "long_api = demo_api\<lparr>api_Download := \<lambda>_ _ n. Inr (Data (Json (shelf_sidecar\<lparr>sc_Base := tl (trim_suffix n ''.json'')\<rparr>) 0))\<rparr>"

lemma long_base: "base_of long_api () (replicate (Suc n) (CHR ''a'')) = replicate n (CHR ''a'')"
proof -
  have "\<not> suffix ''.json'' (replicate n (CHR ''a''))" for n
  proof
    assume "suffix ''.json'' (replicate n (CHR ''a''))"
    then have "set ''.json'' \<subseteq> set (replicate n (CHR ''a''))" by (rule set_mono_suffix)
    then show False by (auto split: if_splits)
  qed
  moreover have "has_suffix (CHR ''a'' # replicate n (CHR ''a'') @ ''.json'') ''.json''" by (simp add: suffix_def)
  ultimately show ?thesis by (simp add: base_of_def ReadSidecar_def long_api_def SidecarName_def trim_suffix_def)
qed

lemma long_descends: "descends long_api () (replicate (Suc n) (CHR ''a'')) (map (\<lambda>k. replicate (Suc k) (CHR ''a'')) (rev [0..<n]))"
proof (induction n)
  case 0 then show ?case using long_base [of 0] by simp
next
  case (Suc n) then show ?case using long_base [of "Suc n"] by simp
qed

theorem long_chain_incomplete_witness:
  "''a'' \<notin> set (restore_order long_api () (replicate 70 (CHR ''a'')) [])"
proof -
  let ?bs = "map (\<lambda>k. replicate (Suc k) (CHR ''a'')) (rev [0..<69])"
  have "last ?bs \<notin> set (restore_order long_api () (replicate 70 (CHR ''a'')) [])"
  proof (rule long_chain_incomplete)
    show "descends long_api () (replicate 70 (CHR ''a'')) ?bs" using long_descends [of 69] by simp
    have "inj (\<lambda>k. replicate (Suc k) (CHR ''a''))" by (rule injI) (metis length_replicate nat.inject)
    then show "distinct (replicate 70 (CHR ''a'') # ?bs)"
      by (auto simp: distinct_map dest: arg_cong [of _ _ length] intro: inj_on_subset)
  qed simp
  moreover have "last ?bs = ''a''" by (simp add: last_map last_rev)
  ultimately show ?thesis by simp
qed


end
