(* ===== verification/Commands.thy ===== *)
theory Commands
  imports RestoreCmd PostBackup
begin

text \<open>
  The commands of \<open>cmd/dbb\<close> that work on backups already made, and the two that start work on a
  database by hand: \<open>verify.go\<close>, \<open>prune.go\<close>, \<open>archive.go\<close>, \<open>list.go\<close>, \<open>dump.go\<close> and
  \<open>maintain.go\<close>.

  The flags of a command are a record; for a command that asks which flags were given, the field
  \<open>given\<close> holds their names. What a command prints and its exit code are one value, its outcome. The
  hash functions, the maintenance of an engine and the clock are fields of \<open>cmd_env\<close>, beside the
  environment of the restore command, which holds the configuration, the storages and what opens
  a backup. The text of the tables that are printed is not modelled, their rows are.

  The lemmas show that a dry run names exactly the files that the command then deletes or
  moves, that the command keeps the chains of incremental backups, that a backup as the runner
  records it is accepted exactly when its content has the recorded sum, and what happens to names
  of jobs that are not in the configuration.
\<close>

section \<open>Environment\<close>

record ('s, 'd) cmd_env =
  ce_restore :: "('s, 'd) restore_env"
  ce_hash :: "checksum_type \<Rightarrow> byte list \<Rightarrow> string"
  ce_clock :: gotime
  ce_local :: location
  ce_allowRetention :: license_check
  ce_allowArchive :: license_check
  ce_byAge :: "backup_entry list \<Rightarrow> backup_entry list"
  ce_byTime :: "entry list \<Rightarrow> entry list"
  ce_maintain :: "restore_target \<Rightarrow> maintenance_config \<Rightarrow> 'd \<Rightarrow> 'd \<times> (string + (string \<times> string) list)"
  ce_progress :: "bool option"

datatype cmd_error =
    FileMissing
  | BadStorageArg string
  | StorageNotOpened storage_error
  | SidecarUnreadable
  | NoChecksums string
  | DownloadError storage_error
  | NotOpened open_error
  | ReadFailed string
  | BadConfig string
  | ListError storage_error
  | BadWindow retention_error
  | NoRules
  | TiersRefused retention_error
  | DeleteError "(string \<times> storage_error) list"
  | ProfileNeedsConfig string
  | DestinationMissing
  | NothingKeptHot
  | ArchiveError archive_error
  | JobNeedsConfig string
  | JobNotFound string
  | JobNameMissing
  | TypeMissing
  | RunFailed run_error
  | MaintainFailed string

definition cmd_storage :: "('s, 'd) cmd_env \<Rightarrow> storage_config \<Rightarrow> cmd_error + 's storage_api" where
  "cmd_storage e cfg =
     (case storage_New (re_backends (ce_restore e)) (st_Backend cfg) (Options cfg) of
        Inl err \<Rightarrow> Inl (StorageNotOpened err) | Inr st \<Rightarrow> Inr st)"

definition storage_arg :: "('s, 'd) cmd_env \<Rightarrow> string \<Rightarrow> string \<Rightarrow> cmd_error + storage_config" where
  "storage_arg e profile path =
     (case ResolveStorageArg (ce_restore e) profile path of Inl err \<Rightarrow> Inl (BadStorageArg err) | Inr c \<Rightarrow> Inr c)"

definition secret :: "('s, 'd) cmd_env \<Rightarrow> string \<Rightarrow> string option" where
  "secret e = ResolveSecret (ue_read (re_unpack (ce_restore e))) (ue_getenv (re_unpack (ce_restore e)))"

section \<open>Verify\<close>

record verify_flags =
  vf_storagePath :: string
  vf_storageProfile :: string
  vf_file :: string
  vf_encryption :: string
  vf_agePass :: string
  vf_gpgPass :: string
  vf_identity :: string
  vf_opensslPass :: string

datatype verify_outcome =
    VerifyError cmd_error
  | Matches string checksum_type
  | Differs string string string

text \<open>
  The list of checksums is in the order in which the loop over the map visits them. The second
  loop is only entered when no sum, or an empty one, was found for the uncompressed data.
\<close>

definition verify_sum :: "(string \<times> string) list \<Rightarrow> checksum_type \<times> string \<times> bool" where
  "verify_sum sums =
     (let raw = find (\<lambda>(ct, _). has_prefix ct ''uncompressed_'') sums;
          found = (case raw of
                     Some (ct, hash) \<Rightarrow> (checksum_Parse (trim_prefix ct ''uncompressed_''), hash, True)
                   | None \<Rightarrow> (SumNone, [], False))
      in if fst (snd found) \<noteq> [] then found
         else case sums of
                [] \<Rightarrow> found
              | (ct, hash) # _ \<Rightarrow> (checksum_Parse (trim_prefix ct ''compressed_''), hash, snd (snd found)))"

definition hasher_Sum :: "('s, 'd) cmd_env \<Rightarrow> checksum_type \<Rightarrow> byte list \<Rightarrow> string" where
  "hasher_Sum e t bs = (if t = SumNone then [] else ce_hash e t bs)"

definition verify_opts :: "verify_flags \<Rightarrow> decrypt_opts" where
  "verify_opts f = \<lparr>do_EncryptionType = vf_encryption f, do_AgePass = vf_agePass f, do_GPGPass = vf_gpgPass f,
     do_OpenSSLPass = vf_opensslPass f, do_Identity = vf_identity f, do_FallbackPass = [], do_FallbackID = []\<rparr>"

text \<open>From the download on: the sidecar is there and has sums.\<close>

definition verify_stream ::
  "('s, 'd) cmd_env \<Rightarrow> verify_flags \<Rightarrow> sidecar \<Rightarrow> stream \<Rightarrow> verify_outcome option" where
  "verify_stream e f sc r =
     (case verify_sum (sc_Checksums sc) of
        (csType, expected, uncompressed) \<Rightarrow>
          map_option (\<lambda>opened. case opened of
              Inl err \<Rightarrow> VerifyError (NotOpened err)
            | Inr (_, Some err) \<Rightarrow> VerifyError (ReadFailed err)
            | Inr (bs, None) \<Rightarrow>
                (let got = hasher_Sum e csType bs
                 in if got = expected then Matches (vf_file f) csType else Differs (vf_file f) expected got))
            (if uncompressed
             then OpenBackup (re_unpack (ce_restore e)) r (sc_Encryption sc) (verify_opts f) (vf_file f) []
             else Some (Inr r)))"

definition cmdVerify :: "('s, 'd) cmd_env \<Rightarrow> verify_flags \<Rightarrow> 's \<Rightarrow> verify_outcome option" where
  "cmdVerify e f s =
     (if vf_file f = [] then Some (VerifyError FileMissing)
      else case storage_arg e (vf_storageProfile f) (vf_storagePath f) of
             Inl err \<Rightarrow> Some (VerifyError err)
           | Inr cfg \<Rightarrow>
               (case cmd_storage e cfg of
                  Inl err \<Rightarrow> Some (VerifyError err)
                | Inr st \<Rightarrow>
                    (case ReadSidecar st s (vf_file f) of
                       None \<Rightarrow> Some (VerifyError SidecarUnreadable)
                     | Some sc \<Rightarrow>
                         if sc_Checksums sc = [] then Some (VerifyError (NoChecksums (vf_file f)))
                         else (case api_Download st s False (vf_file f) of
                                 Inl err \<Rightarrow> Some (VerifyError (DownloadError err))
                               | Inr rc \<Rightarrow> verify_stream e f sc (stream_of (re_json (ce_restore e)) rc)))))"

section \<open>Prune\<close>

record prune_flags =
  pf_given :: "string list"
  pf_storagePath :: string
  pf_storageProfile :: string
  pf_last :: int
  pf_within :: string
  pf_hourly :: int
  pf_daily :: int
  pf_weekly :: int
  pf_monthly :: int
  pf_yearly :: int
  pf_dryRun :: bool
  pf_args :: "string list"

definition default_prune :: "string \<Rightarrow> prune_flags" where
  "default_prune storagePath = \<lparr>pf_given = [], pf_storagePath = storagePath, pf_storageProfile = [], pf_last = 0,
     pf_within = [], pf_hourly = 0, pf_daily = 7, pf_weekly = 4, pf_monthly = 6, pf_yearly = 2, pf_dryRun = False,
     pf_args = []\<rparr>"

datatype prune_outcome =
    PruneError cmd_error
  | NoBackups
  | NothingToDelete
  | WouldDelete "string list"
  | Deleted "string list"

text \<open>The flags with what the defaults of the configuration say, and whether these name a tier.\<close>

definition prune_defaults :: "retention_config \<Rightarrow> prune_flags \<Rightarrow> prune_flags \<times> bool" where
  "prune_defaults r f =
     (f\<lparr>pf_last := (if pf_last f = 0 then override (rc_Last r) 0 else pf_last f),
        pf_within := (if pf_within f = [] then rc_Within r else pf_within f),
        pf_hourly := override (rc_Hourly r) (pf_hourly f),
        pf_daily := override (rc_Daily r) (pf_daily f),
        pf_weekly := override (rc_Weekly r) (pf_weekly f),
        pf_monthly := override (rc_Monthly r) (pf_monthly f),
        pf_yearly := override (rc_Yearly r) (pf_yearly f)\<rparr>,
      rc_Hourly r \<noteq> None \<or> rc_Daily r \<noteq> None \<or> rc_Weekly r \<noteq> None \<or> rc_Monthly r \<noteq> None \<or> rc_Yearly r \<noteq> None)"

definition config_retention :: "full_config \<Rightarrow> retention_config option" where
  "config_retention cfg = Option.bind (c_Defaults cfg) df_Retention"

text \<open>The storage of the last name that is a job, or of the first job when no name is given.\<close>

definition job_storage :: "full_config \<Rightarrow> string list \<Rightarrow> storage_config option" where
  "job_storage cfg names =
     (case c_Jobs cfg of
        [] \<Rightarrow> None
      | first # _ \<Rightarrow>
          if names = [] then j_Storage first
          else fold (\<lambda>jn sto. case find (\<lambda>job. j_Name job = jn) (c_Jobs cfg) of
                                None \<Rightarrow> sto | Some job \<Rightarrow> j_Storage job) names None)"

definition prune_settings ::
  "('s, 'd) cmd_env \<Rightarrow> prune_flags \<Rightarrow> cmd_error + prune_flags \<times> bool \<times> storage_config option" where
  "prune_settings e f =
     (case re_config (ce_restore e) of
        None \<Rightarrow> Inr (f, False, None)
      | Some (Inl err) \<Rightarrow> Inl (BadConfig err)
      | Some (Inr cfg) \<Rightarrow>
          (case (case config_retention cfg of None \<Rightarrow> (f, False) | Some r \<Rightarrow> prune_defaults r f) of
             (f1, gfs) \<Rightarrow> Inr (f1, gfs, job_storage cfg (pf_args f))))"

definition prune_storage_cfg ::
  "('s, 'd) cmd_env \<Rightarrow> prune_flags \<Rightarrow> storage_config option \<Rightarrow> cmd_error + storage_config" where
  "prune_storage_cfg e f jobStorage =
     (if pf_storageProfile f \<noteq> [] then storage_arg e (pf_storageProfile f) (pf_storagePath f)
      else case jobStorage of Some c \<Rightarrow> Inr c | None \<Rightarrow> storage_arg e [] (pf_storagePath f))"

definition prune_policy :: "('s, 'd) cmd_env \<Rightarrow> prune_flags \<Rightarrow> bool \<Rightarrow> cmd_error + retention_policy" where
  "prune_policy e f gfs =
     (let tier = (\<lambda>flag n. if flag \<in> set (pf_given f) \<or> gfs then n else 0);
          p = \<lparr>Last = pf_last f, Within = 0, Hourly = tier ''hourly'' (pf_hourly f), Daily = tier ''daily'' (pf_daily f),
                Weekly = tier ''weekly'' (pf_weekly f), Monthly = tier ''monthly'' (pf_monthly f),
                Yearly = tier ''yearly'' (pf_yearly f)\<rparr>
      in case (if pf_within f = [] then Inr 0
               else ParseWithin (re_edition (ce_restore e)) (ce_allowRetention e) (pf_within f)) of
           Inl err \<Rightarrow> Inl (BadWindow err)
         | Inr d \<Rightarrow>
             (let policy = p\<lparr>Within := d\<rparr>
              in if \<not> Valid policy then Inl NoRules
                 else case CheckPrune (ce_allowRetention e) policy of
                        Some err \<Rightarrow> Inl (TiersRefused err) | None \<Rightarrow> Inr policy))"

definition prune_backups ::
  "('s, 'd) cmd_env \<Rightarrow> bool \<Rightarrow> 's storage_api \<Rightarrow> backup_entry list \<Rightarrow> retention_policy \<Rightarrow> 's \<Rightarrow> 's \<times> prune_outcome" where
  "prune_backups e dry st backups policy s =
     (let toDelete = ApplyRetention (ce_byAge e) (re_edition (ce_restore e)) (ce_allowRetention e) (ce_clock e) backups policy
      in if toDelete = [] then (s, NothingToDelete)
         else if dry then (s, WouldDelete toDelete)
         else case DeleteBackups st toDelete s of
                (s', []) \<Rightarrow> (s', Deleted toDelete)
              | (s', errs) \<Rightarrow> (s', PruneError (DeleteError errs)))"

definition cmdPrune :: "('s, 'd) cmd_env \<Rightarrow> prune_flags \<Rightarrow> 's \<Rightarrow> 's \<times> prune_outcome" where
  "cmdPrune e f0 s =
     (case prune_settings e f0 of
        Inl err \<Rightarrow> (s, PruneError err)
      | Inr (f, gfs, jobStorage) \<Rightarrow>
          (case prune_storage_cfg e f jobStorage of
             Inl err \<Rightarrow> (s, PruneError err)
           | Inr cfg \<Rightarrow>
               (case cmd_storage e cfg of
                  Inl err \<Rightarrow> (s, PruneError err)
                | Inr st \<Rightarrow>
                    (case ListBackupsWithSidecars st (ce_local e) s [] of
                       Inl err \<Rightarrow> (s, PruneError (ListError err))
                     | Inr [] \<Rightarrow> (s, NoBackups)
                     | Inr backups \<Rightarrow>
                         (case prune_policy e f gfs of
                            Inl err \<Rightarrow> (s, PruneError err)
                          | Inr policy \<Rightarrow> prune_backups e (pf_dryRun f) st backups policy s)))))"

section \<open>Archive\<close>

record archive_flags =
  af_last :: int
  af_within :: string
  af_srcProfile :: string
  af_srcPath :: string
  af_dstProfile :: string
  af_dstPath :: string
  af_dryRun :: bool

text \<open>\<open>ArchivePanics\<close>: the slice expression of the dry run has a negative bound.\<close>

datatype archive_outcome =
    ArchiveRefused cmd_error
  | NothingToArchive
  | WouldArchive "string list"
  | ArchivePanics
  | Archived int

definition archiveStorageConfig ::
  "('s, 'd) cmd_env \<Rightarrow> string \<Rightarrow> string \<Rightarrow> string \<Rightarrow> cmd_error + storage_config" where
  "archiveStorageConfig e side profile path =
     (if profile \<noteq> [] then
        (if re_config (ce_restore e) = None then Inl (ProfileNeedsConfig side)
         else case re_storageProfile (ce_restore e) profile of Inl err \<Rightarrow> Inl (BadStorageArg err) | Inr c \<Rightarrow> Inr c)
      else Inr (no_storage\<lparr>st_Backend := ''filesystem'', st_Path := path\<rparr>))"

text \<open>The checks before any backup is looked at: both storages and the window.\<close>

definition archive_settings ::
  "('s, 'd) cmd_env \<Rightarrow> archive_flags \<Rightarrow> cmd_error + 's storage_api \<times> 's storage_api \<times> duration" where
  "archive_settings e f =
     (case archiveStorageConfig e ''src'' (af_srcProfile f) (af_srcPath f) of
        Inl err \<Rightarrow> Inl err
      | Inr srcCfg \<Rightarrow>
          (case archiveStorageConfig e ''dst'' (af_dstProfile f) (af_dstPath f) of
             Inl err \<Rightarrow> Inl err
           | Inr dstCfg \<Rightarrow>
               if af_dstProfile f = [] \<and> af_dstPath f = [] then Inl DestinationMissing
               else case cmd_storage e srcCfg of
                      Inl err \<Rightarrow> Inl err
                    | Inr src \<Rightarrow>
                        (case cmd_storage e dstCfg of
                           Inl err \<Rightarrow> Inl err
                         | Inr dst \<Rightarrow>
                             (case (if af_within f = [] then Inr 0
                                    else ParseWithin (re_edition (ce_restore e)) (ce_allowRetention e) (af_within f)) of
                                Inl err \<Rightarrow> Inl (BadWindow err)
                              | Inr within \<Rightarrow>
                                  if af_last f = 0 \<and> within = 0 then Inl NothingKeptHot else Inr (src, dst, within)))))"

text \<open>A source that cannot be listed has no entries here: the error is dropped.\<close>

definition archive_preview ::
  "('s, 'd) cmd_env \<Rightarrow> archive_flags \<Rightarrow> 's storage_api \<Rightarrow> duration \<Rightarrow> 's \<Rightarrow> archive_outcome" where
  "archive_preview e f src within s =
     (let entries = (case api_List src s False [] of Inl _ \<Rightarrow> [] | Inr es \<Rightarrow> es);
          backups = ce_byTime e (filter (\<lambda>x. IsBackupFile (e_Path x)) entries);
          keep = (if within > 0
                  then int (length (filter (\<lambda>b. e_ModTime b \<ge> nanos (add (ce_clock e) (- within))) backups))
                  else af_last f)
      in if int (length backups) \<le> keep then NothingToArchive
         else if keep < 0 then ArchivePanics
         else WouldArchive (map e_Path (drop (nat keep) backups)))"

definition cmdArchive :: "('s, 'd) cmd_env \<Rightarrow> archive_flags \<Rightarrow> 's \<Rightarrow> 's \<times> archive_outcome" where
  "cmdArchive e f s =
     (case archive_settings e f of
        Inl err \<Rightarrow> (s, ArchiveRefused err)
      | Inr (src, dst, within) \<Rightarrow>
          if af_dryRun f then (s, archive_preview e f src within s)
          else case RunArchive (re_edition (ce_restore e)) (ce_allowArchive e) (ce_byTime e) src dst (ce_clock e)
                      (af_last f) within s of
                 (s', _, _, Some err) \<Rightarrow> (s', ArchiveRefused (ArchiveError err))
               | (s', moved, _, None) \<Rightarrow> (s', if moved = 0 then NothingToArchive else Archived moved))"

section \<open>List\<close>

record list_flags =
  lf_given :: "string list"
  lf_storagePath :: string
  lf_storageProfile :: string
  lf_prefix :: string

datatype list_outcome = ListRefused cmd_error | NothingStored | NothingListed | Listing "backup_info list"

text \<open>
  The path of the configuration stands in for the default path; an error of the configuration
  is dropped here. \<open>stdPath\<close> is \<open>config.StoragePath()\<close>.
\<close>

definition list_path :: "('s, 'd) cmd_env \<Rightarrow> string \<Rightarrow> list_flags \<Rightarrow> string" where
  "list_path e stdPath f =
     (if re_config (ce_restore e) = None \<or> lf_storageProfile f \<noteq> [] \<or> ''storage-path'' \<in> set (lf_given f)
         \<or> lf_storagePath f \<noteq> stdPath then lf_storagePath f
      else case re_config (ce_restore e) of
             Some (Inr cfg) \<Rightarrow>
               (let path_of = (\<lambda>sto. case sto of None \<Rightarrow> [] | Some c \<Rightarrow> st_Path c)
                in firstNonEmpty
                     [path_of (Option.bind (c_Defaults cfg) df_Storage),
                      (case c_Jobs cfg of [] \<Rightarrow> [] | job # _ \<Rightarrow> path_of (j_Storage job)),
                      path_of (lookup_profile (c_StorageProfiles cfg) ''fs''),
                      lf_storagePath f])
           | _ \<Rightarrow> lf_storagePath f)"

definition list_info :: "'s storage_api \<Rightarrow> 's \<Rightarrow> entry \<Rightarrow> backup_info option" where
  "list_info st s x =
     (case ParseBackupFilename (e_Path x) of
        None \<Rightarrow> None
      | Some bi0 \<Rightarrow>
          (let bi = bi0\<lparr>bi_Size := e_Size x\<rparr>
           in Some (case ReadSidecar st s (e_Path x) of
                      None \<Rightarrow> bi
                    | Some sc \<Rightarrow> bi\<lparr>bi_DBName := firstNonEmpty [sc_DB sc, bi_DBName bi],
                        bi_Host := firstNonEmpty [sc_Host sc, bi_Host bi],
                        bi_Type := firstNonEmpty [sc_Type sc, bi_Type bi],
                        bi_Strategy := firstNonEmpty [sc_Strategy sc, bi_Strategy bi]\<rparr>)))"

definition cmdList :: "('s, 'd) cmd_env \<Rightarrow> string \<Rightarrow> list_flags \<Rightarrow> 's \<Rightarrow> list_outcome" where
  "cmdList e stdPath f s =
     (case storage_arg e (lf_storageProfile f) (list_path e stdPath f) of
        Inl err \<Rightarrow> ListRefused err
      | Inr cfg \<Rightarrow>
          (case cmd_storage e cfg of
             Inl err \<Rightarrow> ListRefused err
           | Inr st \<Rightarrow>
               (case api_List st s False (lf_prefix f) of
                  Inl err \<Rightarrow> ListRefused (ListError err)
                | Inr [] \<Rightarrow> NothingStored
                | Inr es \<Rightarrow>
                    (let backups = List.map_filter (list_info st s) (filter (\<lambda>x. IsBackupFile (e_Path x)) es)
                     in if backups = [] then NothingListed else Listing backups))))"

section \<open>Dump\<close>

record dump_flags =
  mf_type :: string
  mf_host :: string
  mf_port :: int
  mf_user :: string
  mf_pass :: string
  mf_name :: string
  mf_exclude :: string
  mf_version :: int
  mf_authSource :: string
  mf_compress :: string
  mf_level :: int
  mf_checksum :: string
  mf_storagePath :: string
  mf_storageProfile :: string
  mf_strategy :: string
  mf_splitDB :: bool
  mf_globals :: bool
  mf_routines :: bool
  mf_events :: bool
  mf_triggers :: bool
  mf_views :: bool
  mf_rawBlobs :: bool
  mf_tablesInclude :: string
  mf_tablesExclude :: string
  mf_tablesSchemaOnly :: string
  mf_schemaOnly :: bool
  mf_encryption :: string
  mf_ageRecipient :: string
  mf_agePass :: string
  mf_gpgRecipient :: string
  mf_gpgPass :: string
  mf_opensslPass :: string
  mf_args :: "string list"

definition SplitCsv :: "string \<Rightarrow> string list" where
  "SplitCsv s = filter (\<lambda>p. p \<noteq> []) (map trim_space (split_char CHR '','' s))"

text \<open>The later of the flags for keys and passphrases wins.\<close>

definition dump_identities :: "dump_flags \<Rightarrow> string list" where
  "dump_identities f =
     (if mf_gpgRecipient f \<noteq> [] then split_char CHR '','' (mf_gpgRecipient f)
      else if mf_agePass f \<noteq> [] then [mf_agePass f]
      else if mf_ageRecipient f \<noteq> [] then split_char CHR '','' (mf_ageRecipient f) else [])"

definition dump_identity :: "dump_flags \<Rightarrow> string" where
  "dump_identity f = firstNonEmpty [mf_opensslPass f, mf_gpgPass f, mf_agePass f]"

definition with_objects :: "dump_flags \<Rightarrow> database_list \<Rightarrow> database_list" where
  "with_objects f dl = dl\<lparr>dl_Routines := Some (mf_routines f), dl_Events := Some (mf_events f),
     dl_Triggers := Some (mf_triggers f), dl_Views := Some (mf_views f), dl_RawBlobs := Some (mf_rawBlobs f)\<rparr>"

definition dump_databases :: "dump_flags \<Rightarrow> database_list option" where
  "dump_databases f =
     (let dbNames = SplitCsv (mf_name f)
      in if dbNames \<noteq> [] \<and> mf_name f \<noteq> [] then
           Some (with_objects f (no_databases\<lparr>
             dl_Include := dbNames @ (if mf_globals f then [''__globals__''] else []),
             dl_Exclude := (if mf_exclude f \<noteq> [] then SplitCsv (mf_exclude f) else [])\<rparr>))
         else if mf_globals f then Some (with_objects f (no_databases\<lparr>dl_Include := [''__globals__'']\<rparr>))
         else None)"

definition dump_filter :: "dump_flags \<Rightarrow> table_filter option" where
  "dump_filter f =
     (if mf_tablesInclude f = [] \<and> mf_tablesExclude f = [] \<and> mf_tablesSchemaOnly f = [] then None
      else Some \<lparr>tf_Include = (if mf_tablesInclude f \<noteq> [] then SplitCsv (mf_tablesInclude f) else []),
             tf_Exclude = (if mf_tablesExclude f \<noteq> [] then SplitCsv (mf_tablesExclude f) else []),
             tf_SchemaOnly =
               (if mf_tablesSchemaOnly f = [] then \<lparr>so_All = False, so_Tables = []\<rparr>
                else if mf_tablesSchemaOnly f = ''*'' then \<lparr>so_All = True, so_Tables = []\<rparr>
                else \<lparr>so_All = False, so_Tables = SplitCsv (mf_tablesSchemaOnly f)\<rparr>)\<rparr>)"

definition dump_job :: "('s, 'd) cmd_env \<Rightarrow> dump_flags \<Rightarrow> string \<Rightarrow> storage_config \<Rightarrow> job_config" where
  "dump_job e f pass sto =
     \<lparr>j_Name = [], j_Type = mf_type f, j_Host = mf_host f, j_Port = mf_port f, j_User = mf_user f, j_Pass = pass,
       j_Databases = (case dump_filter f of
                        None \<Rightarrow> dump_databases f
                      | Some tf \<Rightarrow> Some ((case dump_databases f of None \<Rightarrow> no_databases | Some dl \<Rightarrow> dl)\<lparr>dl_Tables := Some tf\<rparr>)),
       j_Schedule = None, j_Blackout = None,
       j_Compression = Some (no_compression\<lparr>cp_Type := mf_compress f, cp_Level := mf_level f\<rparr>),
       j_Checksum = mf_checksum f, j_Storage = Some sto, j_TLS = None,
       j_Backup = Some (no_backup\<lparr>bk_Strategy := mf_strategy f, bk_SchemaOnly := mf_schemaOnly f\<rparr>),
       j_Maintenance = [], j_Encryption = [], j_Version = mf_version f, j_InfluxMode = [], j_Connectivity = None,
       j_AuthSource = mf_authSource f, j_Retention = None, j_Archive = None, j_Hooks = None,
       j_Progress = ce_progress e, j_SplitDB = mf_splitDB f, j_DatabaseRef = [], j_StorageRef = [], j_BackupRef = [],
       j_ArchiveRef = [], j_EncryptionType = mf_encryption f, j_EncryptionIdentity = dump_identity f,
       j_EncryptionIdentities = dump_identities f, j_MaintenanceCfg = None, j_RunID = [], j_unset = {},
       j_splitDBSet = False\<rparr>"

text \<open>\<open>run\<close> is \<open>runner.Run\<close> with the trigger \<open>manual\<close>.\<close>

definition run_manual ::
  "('s \<Rightarrow> job_config \<Rightarrow> 's \<times> run_error option) \<Rightarrow> job_config \<Rightarrow> 's \<Rightarrow> 's \<times> cmd_error option" where
  "run_manual run job s = (case run s job of (s', err) \<Rightarrow> (s', map_option RunFailed err))"

definition dump_named ::
  "('s, 'd) cmd_env \<Rightarrow> ('s \<Rightarrow> job_config \<Rightarrow> 's \<times> run_error option) \<Rightarrow> full_config \<Rightarrow> string list \<Rightarrow> 's \<Rightarrow>
   's \<times> cmd_error option" where
  "dump_named e run cfg args s =
     (case args of
        [] \<Rightarrow> (s, Some JobNameMissing)
      | jobName # _ \<Rightarrow>
          (case find (\<lambda>job. j_Name job = jobName) (c_Jobs cfg) of
             None \<Rightarrow> (s, Some (JobNotFound jobName))
           | Some job \<Rightarrow>
               run_manual run (if ce_progress e = None then job else job\<lparr>j_Progress := ce_progress e\<rparr>) s))"

definition cmdDump ::
  "('s, 'd) cmd_env \<Rightarrow> ('s \<Rightarrow> job_config \<Rightarrow> 's \<times> run_error option) \<Rightarrow> dump_flags \<Rightarrow> 's \<Rightarrow>
   ('s \<times> cmd_error option) option" where
  "cmdDump e run f s =
     (if mf_type f = [] then
        Some (case re_config (ce_restore e) of
                None \<Rightarrow> (s, Some (case mf_args f of [] \<Rightarrow> TypeMissing | job # _ \<Rightarrow> JobNeedsConfig job))
              | Some (Inl err) \<Rightarrow> (s, Some (BadConfig err))
              | Some (Inr cfg) \<Rightarrow> dump_named e run cfg (mf_args f) s)
      else case storage_arg e (mf_storageProfile f) (mf_storagePath f) of
             Inl err \<Rightarrow> Some (s, Some err)
           | Inr sto \<Rightarrow> map_option (\<lambda>pass. run_manual run (dump_job e f pass sto) s) (secret e (mf_pass f)))"

section \<open>Maintain\<close>

record maintain_flags =
  xf_type :: string
  xf_host :: string
  xf_port :: int
  xf_user :: string
  xf_pass :: string
  xf_name :: string
  xf_authSource :: string
  xf_listOps :: bool
  xf_optimize :: bool
  xf_vacuum :: bool
  xf_reindex :: bool
  xf_analyze :: bool
  xf_checkTables :: bool
  xf_compact :: bool
  xf_memoryPurge :: bool
  xf_args :: "string list"

datatype maintain_outcome =
    MaintainRefused cmd_error | OperationsListed | NoOperations | Operations "(string \<times> string) list"

definition optBool :: "bool \<Rightarrow> bool option" where
  "optBool v = (if v then Some True else None)"

definition maintain_cfg :: "maintain_flags \<Rightarrow> maintenance_config" where
  "maintain_cfg f = \<lparr>mn_Schedule = [], mn_Optimize = optBool (xf_optimize f), mn_Vacuum = optBool (xf_vacuum f),
     mn_Reindex = optBool (xf_reindex f), mn_Analyze = optBool (xf_analyze f), mn_CheckTables = optBool (xf_checkTables f),
     mn_Compact = optBool (xf_compact f), mn_MemoryPurge = optBool (xf_memoryPurge f)\<rparr>"

text \<open>The server, from the flags or from the job; a job brings its port, its databases and its TLS.\<close>

definition maintain_flat :: "maintain_flags \<Rightarrow> string \<Rightarrow> restore_target" where
  "maintain_flat f pass = \<lparr>rt_Type = xf_type f, rt_Host = xf_host f, rt_Port = xf_port f, rt_User = xf_user f,
     rt_Pass = pass, rt_Name = xf_name f, rt_AuthSource = xf_authSource f, rt_TLS = None, rt_CreateDB = False\<rparr>"

definition maintain_job ::
  "('s, 'd) cmd_env \<Rightarrow> job_config \<Rightarrow> restore_target \<Rightarrow> restore_target option" where
  "maintain_job e job t =
     map_option (\<lambda>pass. t\<lparr>rt_Type := j_Type job, rt_Host := j_Host job,
         rt_Port := (if j_Port job = 0 then re_defaultPort (ce_restore e) (j_Type job) else j_Port job),
         rt_User := j_User job, rt_Pass := pass,
         rt_Name := (case j_Databases job of None \<Rightarrow> [] | Some dl \<Rightarrow> join '','' (dl_Include dl)),
         rt_TLS := j_TLS job\<rparr>)
       (if rt_Pass t = [] then secret e (j_Pass job) else Some (rt_Pass t))"

definition maintain_target ::
  "('s, 'd) cmd_env \<Rightarrow> maintain_flags \<Rightarrow> restore_target \<Rightarrow> (cmd_error + restore_target) option" where
  "maintain_target e f t =
     (if xf_type f \<noteq> [] then Some (Inr t)
      else case re_config (ce_restore e) of
             None \<Rightarrow> Some (Inl (case xf_args f of [] \<Rightarrow> TypeMissing | job # _ \<Rightarrow> JobNeedsConfig job))
           | Some (Inl err) \<Rightarrow> Some (Inl (BadConfig err))
           | Some (Inr cfg) \<Rightarrow>
               (case xf_args f of
                  [] \<Rightarrow> Some (Inl TypeMissing)
                | jobName # _ \<Rightarrow>
                    (case find (\<lambda>job. j_Name job = jobName) (c_Jobs cfg) of
                       None \<Rightarrow> Some (Inl (JobNotFound jobName))
                     | Some job \<Rightarrow>
                         map_option (\<lambda>t'. if rt_Type t' = [] then Inl (JobNotFound jobName) else Inr t')
                           (maintain_job e job t))))"

definition cmdMaintain :: "('s, 'd) cmd_env \<Rightarrow> maintain_flags \<Rightarrow> 'd \<Rightarrow> ('d \<times> maintain_outcome) option" where
  "cmdMaintain e f d =
     (if xf_listOps f then Some (d, OperationsListed)
      else Option.bind (secret e (xf_pass f)) (\<lambda>pass.
             map_option (\<lambda>target. case target of
                 Inl err \<Rightarrow> (d, MaintainRefused err)
               | Inr t \<Rightarrow>
                   (let t' = (if rt_Port t = 0 then t\<lparr>rt_Port := re_defaultPort (ce_restore e) (rt_Type t)\<rparr> else t)
                    in case ce_maintain e t' (maintain_cfg f) d of
                         (d', Inl err) \<Rightarrow> (d', MaintainRefused (MaintainFailed err))
                       | (d', Inr []) \<Rightarrow> (d', NoOperations)
                       | (d', Inr rs) \<Rightarrow> (d', Operations rs)))
               (maintain_target e f (maintain_flat f pass))))"

section \<open>Dry runs\<close>

lemma backup_path_iff: "backup_path p \<longleftrightarrow> IsBackupFile p"
proof -
  have "\<not> IsBackupFile p" if "has_suffix p ''.json''"
  proof
    assume "IsBackupFile p"
    then have "last (path_base p) \<in> ext_letters" by (rule IsBackupFile_last)
    moreover from that obtain q where "p = q @ ''.json''" by (auto simp: suffix_def)
    ultimately show False by (simp add: path_base_last ext_letters_def)
  qed
  then show ?thesis by (auto simp: backup_path_def)
qed

text \<open>Among files sorted newest first, those after an instant are the first ones.\<close>

lemma newest_first_filter:
  assumes "sorted_wrt (\<lambda>a b. \<not> newer_file b a) xs"
  shows "filter (\<lambda>x. e_ModTime x \<ge> t) xs = takeWhile (\<lambda>x. e_ModTime x \<ge> t) xs"
  using assms
proof (induction xs)
  case (Cons x xs)
  have "filter (\<lambda>x. e_ModTime x \<ge> t) xs = []" if "e_ModTime x < t"
    using Cons.prems that by (fastforce simp: filter_empty_conv newer_file_def)
  with Cons show ?case by auto
qed simp

lemma archive_preview_keep:
  assumes "slice_sort newer_file (ce_byTime e)" and "0 \<le> af_last f" and "api_List src s False [] = Inr es"
  shows "archive_preview e f src within s =
    (let backups = ce_byTime e (filter (\<lambda>x. backup_path (e_Path x)) es);
         keep = archive_keep (af_last f) within (ce_clock e) backups
     in if int (length backups) \<le> keep then NothingToArchive
        else WouldArchive (map e_Path (drop (nat keep) backups)))"
proof -
  let ?bs = "ce_byTime e (filter (\<lambda>x. backup_path (e_Path x)) es)"
  have "filter (\<lambda>x. e_ModTime x \<ge> t) ?bs = takeWhile (\<lambda>x. e_ModTime x \<ge> t) ?bs" for t
    by (rule newest_first_filter) (rule slice_sort.srt_sorted [OF assms(1)])
  then show ?thesis using assms(2,3) by (auto simp: archive_preview_def archive_keep_def Let_def backup_path_iff)
qed

definition archive_report :: "'s \<times> int \<times> string list \<times> archive_error option \<Rightarrow> 's \<times> archive_outcome" where
  "archive_report r = (case r of
     (s', _, _, Some err) \<Rightarrow> (s', ArchiveRefused (ArchiveError err))
   | (s', moved, _, None) \<Rightarrow> (s', if moved = 0 then NothingToArchive else Archived moved))"

lemma archive_settings_dry [simp]: "archive_settings e (f\<lparr>af_dryRun := b\<rparr>) = archive_settings e f"
  by (simp add: archive_settings_def cong: sum.case_cong if_cong)


text \<open>
  A negative \<open>--last\<close> passes the check that something is kept: the dry run then panics on
  its slice expression, and the real run moves every backup.
\<close>

theorem negative_last_archives_all:
  assumes "af_last f < 0" and "archive_settings e f = Inr (src, dst, 0)" and "api_List src s False [] = Inr es"
    and "re_edition (ce_restore e) = Supported" and "ce_allowArchive e = None"
  shows "cmdArchive e (f\<lparr>af_dryRun := True\<rparr>) s = (s, ArchivePanics) \<and>
    cmdArchive e (f\<lparr>af_dryRun := False\<rparr>) s = archive_report (archive_loop src dst (nanos (ce_clock e))
      (map e_Path (ce_byTime e (filter (\<lambda>x. IsBackupFile (e_Path x)) es))) s 0 [])"
proof
  let ?bs = "ce_byTime e (filter (\<lambda>x. IsBackupFile (e_Path x)) es)"
  have neg: "\<not> int n \<le> af_last f" for n using assms(1) by linarith
  show "cmdArchive e (f\<lparr>af_dryRun := True\<rparr>) s = (s, ArchivePanics)"
    by (simp add: cmdArchive_def archive_preview_def assms(1-3) Let_def neg)
  have "runArchive (ce_byTime e) src dst (ce_clock e) (af_last f) 0 s = archive_loop src dst (nanos (ce_clock e)) (map e_Path ?bs) s 0 []"
    using assms(1) by (simp add: runArchive_def assms(3) archive_keep_def Let_def backup_path_iff)
  then show "cmdArchive e (f\<lparr>af_dryRun := False\<rparr>) s = archive_report (archive_loop src dst (nanos (ce_clock e)) (map e_Path ?bs) s 0 [])"
    by (simp add: cmdArchive_def assms(2,4,5) RunArchive_def archive_report_def)
qed

text \<open>
  The dry run of \<open>prune\<close> changes nothing, and the files it names are those that the command
  deletes when it is run for real.
\<close>

lemma prune_dry_same:
  "prune_settings e (f\<lparr>pf_dryRun := b\<rparr>) = map_sum id (apfst (\<lambda>g. g\<lparr>pf_dryRun := b\<rparr>)) (prune_settings e f)"
  "prune_storage_cfg e (g\<lparr>pf_dryRun := b\<rparr>) sto = prune_storage_cfg e g sto"
  "prune_policy e (g\<lparr>pf_dryRun := b\<rparr>) gfs = prune_policy e g gfs"
  by (auto simp: prune_settings_def prune_defaults_def prune_storage_cfg_def prune_policy_def Let_def
      split: option.splits sum.splits)

lemma prune_settings_dry: "prune_settings e f = Inr (g, gfs, sto) \<Longrightarrow> pf_dryRun g = pf_dryRun f"
  by (auto simp: prune_settings_def prune_defaults_def split: option.splits sum.splits)

text \<open>Everything before the deletion: the storage, its backups and the policy.\<close>

definition prune_ready ::
  "('s, 'd) cmd_env \<Rightarrow> prune_flags \<Rightarrow> 's \<Rightarrow> 's storage_api \<Rightarrow> backup_entry list \<Rightarrow> retention_policy \<Rightarrow> bool" where
  "prune_ready e f s st bs policy \<longleftrightarrow> bs \<noteq> [] \<and>
     (\<exists>g gfs sto cfg. prune_settings e f = Inr (g, gfs, sto) \<and> prune_storage_cfg e g sto = Inr cfg \<and>
        cmd_storage e cfg = Inr st \<and> ListBackupsWithSidecars st (ce_local e) s [] = Inr bs \<and>
        prune_policy e g gfs = Inr policy)"

lemma prune_ready_dry: "prune_ready e (f\<lparr>pf_dryRun := b\<rparr>) s st bs policy \<longleftrightarrow> prune_ready e f s st bs policy"
  unfolding prune_ready_def prune_dry_same
  by (cases "prune_settings e f") (auto simp: prune_dry_same)

lemma cmdPrune_ready:
  assumes "prune_ready e f s st bs policy"
  shows "cmdPrune e f s = prune_backups e (pf_dryRun f) st bs policy s"
  using assms by (auto simp: prune_ready_def cmdPrune_def prune_settings_dry split: list.splits)

lemma cmdPrune_cases:
  obtains "fst (cmdPrune e f s) = s" "\<And>fs. snd (cmdPrune e f s) \<noteq> WouldDelete fs"
  | st bs policy where "prune_ready e f s st bs policy"
proof (cases "\<exists>st bs policy. prune_ready e f s st bs policy")
  case False
  then have "fst (cmdPrune e f s) = s \<and> (\<forall>fs. snd (cmdPrune e f s) \<noteq> WouldDelete fs)"
    unfolding prune_ready_def cmdPrune_def by (auto split: sum.splits list.splits prod.splits) blast+
  then show thesis using that(1) by blast
qed (use that(2) in blast)

theorem prune_dry_run_exact:
  assumes "pf_dryRun f" and "cmdPrune e f s = (s', WouldDelete files)"
  shows "s' = s \<and> (\<exists>st. cmdPrune e (f\<lparr>pf_dryRun := False\<rparr>) s =
    (case DeleteBackups st files s of (t, []) \<Rightarrow> (t, Deleted files) | (t, errs) \<Rightarrow> (t, PruneError (DeleteError errs))))"
proof (rule cmdPrune_cases [of e f s])
  fix st bs policy assume ready: "prune_ready e f s st bs policy"
  note dry = cmdPrune_ready [OF ready] and wet = cmdPrune_ready [OF prune_ready_dry [where b = False, THEN iffD2, OF ready]]
  from dry assms have "s' = s" and files: "ApplyRetention (ce_byAge e) (re_edition (ce_restore e)) (ce_allowRetention e)
      (ce_clock e) bs policy = files" "files \<noteq> []"
    by (auto simp: prune_backups_def Let_def split: if_splits)
  with wet show ?thesis by (auto simp: prune_backups_def Let_def)
qed (use assms(2) in \<open>metis snd_conv\<close>)

section \<open>What a prune keeps\<close>

lemma prune_backups_state:
  "fst (prune_backups e dry st bs policy s) = s \<or>
   fst (prune_backups e dry st bs policy s) = fst (DeleteBackups st
     (ApplyRetentionAt (ce_byAge e) (re_edition (ce_restore e)) (ce_allowRetention e) (ce_clock e) bs policy zero_time) s)"
  by (auto simp: prune_backups_def ApplyRetention_def Let_def split: prod.splits list.splits)

text \<open>
  The command keeps every backup that an incremental or differential backup of the storage
  is based on, directly or through others, with its sidecar, whatever flags are given and
  whatever the configuration says.
\<close>

theorem prune_command_keeps_chain:
  assumes "slice_sort newer_entry (ce_byAge e)" and "fs_inv base s"
    and "\<And>cfg st. cmd_storage e cfg = Inr st \<Longrightarrow> st = fs_api base"
    and "ListBackupsWithSidecars (fs_api base) (ce_local e) s [] = Inr bs" and "ancestor (set bs) b a"
    and "be_Strategy b \<noteq> ''full''" and "q = be_FileName a \<or> q = SidecarName (be_FileName a)"
  shows "fs_contents base (fst (cmdPrune e f s)) q = fs_contents base s q"
proof (rule cmdPrune_cases [of e f s])
  fix st bs' policy
  let ?fs = "ApplyRetentionAt (ce_byAge e) (re_edition (ce_restore e)) (ce_allowRetention e) (ce_clock e) bs policy zero_time"
  assume ready: "prune_ready e f s st bs' policy"
  then have eq: "st = fs_api base" "bs' = bs" using assms(3,4) by (auto simp: prune_ready_def)
  have srt: "retention_sort (ce_byAge e)" using assms(1) by (rule retention_sort.intro)
  have "fs_contents base (fst (DeleteBackups (fs_api base) ?fs s)) q = fs_contents base s q"
    by (rule retention_deletes_keep [OF srt assms(2,4-7)])
  with prune_backups_state [of e "pf_dryRun f" st bs' policy s] show ?thesis
    unfolding cmdPrune_ready [OF ready] eq by auto
qed simp

text \<open>
  A name that is no job of the configuration is not reported: the backups under the
  storage path of the flags, by default the one of the installation, are pruned instead.
\<close>

theorem unknown_job_prunes_path:
  assumes "re_config (ce_restore e) = Some (Inr cfg)" and "c_Jobs cfg \<noteq> []" and "pf_args f = [name]"
    and "\<forall>job \<in> set (c_Jobs cfg). j_Name job \<noteq> name" and "pf_storageProfile f = []"
  shows "\<exists>g gfs sto. prune_settings e f = Inr (g, gfs, sto) \<and>
    prune_storage_cfg e g sto = Inr (no_storage\<lparr>st_Backend := ''filesystem'', st_Path := pf_storagePath f\<rparr>)"
proof -
  have none: "find (\<lambda>job. j_Name job = name) (c_Jobs cfg) = None" using assms(4) by (auto simp: find_None_iff)
  have "job_storage cfg [name] = None" using assms(2) none by (cases "c_Jobs cfg") (auto simp: job_storage_def)
  then show ?thesis using assms(1,3,5)
    by (cases "config_retention cfg") (auto simp: prune_settings_def prune_defaults_def prune_storage_cfg_def storage_arg_def
        ResolveStorageArg_def)
qed

lemma prune_policy_tiers:
  assumes "prune_policy e g True = Inr p"
  shows "Daily p = pf_daily g" and "Weekly p = pf_weekly g" and "Monthly p = pf_monthly g" and "Yearly p = pf_yearly g"
  using assms by (auto simp: prune_policy_def Let_def split: sum.splits if_splits option.splits)

text \<open>
  A tier of the configuration counts even when the flag of that tier is given with another
  number, and it turns the other tiers on with the defaults of their flags.
\<close>

theorem config_tier_overrides_flags:
  assumes "re_config (ce_restore e) = Some (Inr cfg)" and "config_retention cfg = Some r" and "rc_Daily r = Some n"
    and "prune_settings e f = Inr (g, gfs, sto)" and "prune_policy e g gfs = Inr policy"
  shows "Daily policy = n \<and> Weekly policy = override (rc_Weekly r) (pf_weekly f) \<and>
    Monthly policy = override (rc_Monthly r) (pf_monthly f) \<and> Yearly policy = override (rc_Yearly r) (pf_yearly f)"
proof -
  have "gfs \<and> g = fst (prune_defaults r f)" using assms(1-4) by (auto simp: prune_settings_def prune_defaults_def)
  with assms(5) have "prune_policy e (fst (prune_defaults r f)) True = Inr policy" by simp
  from prune_policy_tiers [OF this] assms(3) show ?thesis by (simp add: prune_defaults_def override_def)
qed

section \<open>Verification\<close>

lemma sum_of_runner:
  assumes "sums = [(''compressed_'' @ c, packed), (''uncompressed_'' @ c, raw)] \<or>
      sums = [(''uncompressed_'' @ c, raw), (''compressed_'' @ c, packed)]" and "raw \<noteq> []"
  shows "verify_sum sums = (checksum_Parse c, raw, True)"
  using assms by (auto simp: verify_sum_def trim_prefix_def Let_def)

text \<open>
  (C12) A backup with the checksums that the runner records, in whichever order they are visited,
  is accepted exactly when what the file holds, decrypted and decompressed, has the sum
  recorded for the dumped data; otherwise the two sums are reported.
\<close>

theorem verify_decides_content:
  assumes "vf_file f \<noteq> []" and "storage_arg e (vf_storageProfile f) (vf_storagePath f) = Inr cfg"
    and "cmd_storage e cfg = Inr st" and "ReadSidecar st s (vf_file f) = Some sc"
    and "sc_Checksums sc = [(''compressed_'' @ c, packed), (''uncompressed_'' @ c, raw)] \<or>
      sc_Checksums sc = [(''uncompressed_'' @ c, raw), (''compressed_'' @ c, packed)]"
    and "raw \<noteq> []" and "checksum_Parse c \<noteq> SumNone" and "api_Download st s False (vf_file f) = Inr rc"
    and "OpenBackup (re_unpack (ce_restore e)) (stream_of (re_json (ce_restore e)) rc) (sc_Encryption sc) (verify_opts f)
      (vf_file f) [] = Some (Inr (data, None))"
  shows "cmdVerify e f s = Some (if ce_hash e (checksum_Parse c) data = raw then Matches (vf_file f) (checksum_Parse c)
    else Differs (vf_file f) raw (ce_hash e (checksum_Parse c) data))"
proof -
  have "sc_Checksums sc \<noteq> []" using assms(5) by auto
  then show ?thesis using assms(1-4,7-9) sum_of_runner [OF assms(5,6)]
    by (simp add: cmdVerify_def verify_stream_def hasher_Sum_def Let_def)
qed

definition demo_cmd :: "(sidecar fs, unit) cmd_env" where
  "demo_cmd = \<lparr>ce_restore = \<lparr>re_unpack = demo_unpack, re_json = \<lambda>_. [], re_restoreTo = \<lambda>_ _ d. (d, None), re_chain = \<lambda>_. None,
       re_serverVersion = \<lambda>_ _. None, re_backends = v_backends (lab False), re_config = None,
       re_storageProfile = \<lambda>_. Inl [], re_edition = Supported, re_allowRestore = None, re_allowStorage = None,
       re_tls = \<lambda>_. None, re_defaultPort = \<lambda>_. 0, re_terminal = None\<rparr>,
     ce_hash = \<lambda>_ bs. if bs = bytes_of ''two'' then ''f00'' else ''bad'', ce_clock = \<lparr>nanos = 1704240000 * ns_second, zone = utc\<rparr>,
     ce_local = utc, ce_allowRetention = None, ce_allowArchive = None, ce_byAge = insertion_sort newer_entry,
     ce_byTime = insertion_sort newer_file, ce_maintain = \<lambda>_ _ d. (d, Inr []), ce_progress = None\<rparr>"

lemma demo_opened:
  "cmd_storage demo_cmd (no_storage\<lparr>st_Backend := ''filesystem'', st_Path := ''backup''\<rparr>) = Inr (fs_api [''backup''])"
  "cmd_storage demo_cmd (no_storage\<lparr>st_Backend := ''filesystem'', st_Path := ''cold''\<rparr>) = Inr (fs_api [''cold''])"
  by (simp_all add: cmd_storage_def demo_cmd_def lab_def storage_New_def LookupBackend_def no_storage_def Options_def comps_def)

definition demo_sums :: sidecar where
  "demo_sums = shelf_sidecar\<lparr>sc_Checksums := [(''compressed_md5'', ''abc''), (''uncompressed_md5'', ''f00'')], sc_Encryption := None\<rparr>"

definition demo_shelf :: "sidecar fs" where
  "demo_shelf = shelf\<lparr>fs_files := ([''backup'', ''redis-full-20240102-000000.redis.json''],
     \<lparr>f_data = Json demo_sums 2, f_mtime = 2\<rparr>) # fs_files shelf\<rparr>"

theorem verify_decides_content_witness:
  "cmdVerify demo_cmd \<lparr>vf_storagePath = ''backup'', vf_storageProfile = [], vf_file = ''redis-full-20240102-000000.redis'',
     vf_encryption = ''auto'', vf_agePass = [], vf_gpgPass = [], vf_identity = [], vf_opensslPass = []\<rparr> demo_shelf =
   Some (Matches ''redis-full-20240102-000000.redis'' MD5)"
proof -
  let ?f = "\<lparr>vf_storagePath = ''backup'', vf_storageProfile = [], vf_file = ''redis-full-20240102-000000.redis'',
     vf_encryption = ''auto'', vf_agePass = [], vf_gpgPass = [], vf_identity = [], vf_opensslPass = []\<rparr>"
  let ?cfg = "no_storage\<lparr>st_Backend := ''filesystem'', st_Path := ''backup''\<rparr>"
  have "cmdVerify demo_cmd ?f demo_shelf = Some (if ce_hash demo_cmd (checksum_Parse ''md5'') (bytes_of ''two'') = ''f00''
      then Matches (vf_file ?f) (checksum_Parse ''md5'')
      else Differs (vf_file ?f) ''f00'' (ce_hash demo_cmd (checksum_Parse ''md5'') (bytes_of ''two'')))"
  proof (rule verify_decides_content)
    show "storage_arg demo_cmd (vf_storageProfile ?f) (vf_storagePath ?f) = Inr ?cfg"
      by (simp add: storage_arg_def ResolveStorageArg_def)
    show "cmd_storage demo_cmd ?cfg = Inr (fs_api [''backup''])" by (rule demo_opened)
    show "ReadSidecar (fs_api [''backup'']) demo_shelf (vf_file ?f) = Some demo_sums" by code_simp
    show "sc_Checksums demo_sums = [(''compressed_'' @ ''md5'', ''abc''), (''uncompressed_'' @ ''md5'', ''f00'')] \<or>
        sc_Checksums demo_sums = [(''uncompressed_'' @ ''md5'', ''f00''), (''compressed_'' @ ''md5'', ''abc'')]"
      by (simp add: demo_sums_def)
    show "checksum_Parse ''md5'' \<noteq> SumNone" by code_simp
    show "api_Download (fs_api [''backup'']) demo_shelf False (vf_file ?f) = Inr (Data (Bytes ''two''))" by code_simp
    show "OpenBackup (re_unpack (ce_restore demo_cmd)) (stream_of (re_json (ce_restore demo_cmd)) (Data (Bytes ''two'')))
        (sc_Encryption demo_sums) (verify_opts ?f) (vf_file ?f) [] = Some (Inr (bytes_of ''two'', None))" by code_simp
  qed simp_all
  moreover have "checksum_Parse ''md5'' = MD5" by code_simp
  ultimately show ?thesis by (simp add: demo_cmd_def)
qed


section \<open>Listing and maintenance\<close>

lemma parsed_path: "ParseBackupFilename p = Some bi \<Longrightarrow> bi_Path bi = path_base p"
  by (auto simp: ParseBackupFilename_def backup_info_of_def Let_def split: option.splits)

text \<open>The files that \<open>list\<close> shows are those that the retention looks at.\<close>

theorem listed_as_retained:
  assumes "storage_arg e (lf_storageProfile f) (list_path e stdPath f) = Inr cfg" and "cmd_storage e cfg = Inr st"
    and "lf_prefix f = []" and "ListBackupsWithSidecars st (ce_local e) s [] = Inr bs" and "bs \<noteq> []"
  shows "\<exists>infos. cmdList e stdPath f s = Listing infos \<and> map bi_Path infos = map (path_base \<circ> be_FileName) bs"
proof -
  obtain es where es: "api_List st s False [] = Inr es" using assms(4) by (auto simp: ListBackupsWithSidecars_def split: sum.splits)
  let ?fs = "filter (\<lambda>x. IsBackupFile (e_Path x)) es"
  have names: "map be_FileName bs = map e_Path ?fs" using listed_names [OF assms(4) es] by (simp add: backup_path_iff)
  have info: "\<exists>bi. list_info st s x = Some bi \<and> bi_Path bi = path_base (e_Path x)" if "IsBackupFile (e_Path x)" for x
    using that by (auto simp: list_info_def IsBackupFile_def Let_def dest: parsed_path split: option.splits)
  have "map bi_Path (List.map_filter (list_info st s) xs) = map path_base (map e_Path xs)" if "\<forall>x \<in> set xs. IsBackupFile (e_Path x)" for xs
    using that by (induction xs) (auto simp: map_filter_simps dest: info)
  then have paths: "map bi_Path (List.map_filter (list_info st s) ?fs) = map path_base (map be_FileName bs)" unfolding names by simp
  with assms(5) have "List.map_filter (list_info st s) ?fs \<noteq> []" by auto
  moreover from this have "es \<noteq> []" by (auto simp: map_filter_simps)
  ultimately show ?thesis using assms(1-3) es paths by (cases es) (simp_all add: cmdList_def Let_def)
qed

text \<open>
  The maintenance of a job by its name does not use the database in which the job
  authenticates: the target has the one of the flags.
\<close>

theorem maintain_forgets_auth_source:
  assumes "maintain_target e f (maintain_flat f pass) = Some (Inr t)"
  shows "rt_AuthSource t = xf_authSource f"
  using assms
  by (auto simp: maintain_target_def maintain_job_def maintain_flat_def split: if_splits option.splits sum.splits list.splits)

end
