(* ===== verification/Redis.thy ===== *)
theory Redis
  imports TextCodec Config "HOL-Library.AList"
begin

text \<open>
  The Redis engine (\<open>internal/database/engine/redis\<close>): the dump of the keys of one database
  as a text of commands, and the restore that reads the commands back
  (\<open>internal/database/common/helpers.go\<close>). The client of the server is a parameter: reading
  is a record of the requests the dump makes, writing is a function from the issued calls to
  the state of the server and an error. Scores of sorted sets are values of an arbitrary type
  with the functions that print and read them, the \<open>strconv\<close> conversions of the code.

  The lemmas show that quoting is undone by unquoting, that a command line is split into the
  arguments it was joined of, and that the restore of a dump issues the calls that create the
  dumped keys with their values and times to live.
\<close>

section \<open>Quoting\<close>

definition QuoteRedis :: "string \<Rightarrow> string" where
  "QuoteRedis s =
     (let s = replace_char bslash [bslash, bslash] s;
          s = replace_char quot [bslash, quot] s;
          s = replace_char nl [bslash, CHR ''n''] s;
          s = replace_char cr [bslash, CHR ''r''] s
      in [quot] @ s @ [quot])"

text \<open>The loop of \<open>SplitRedisArgs\<close>: the finished parts, the current one and the quote state.\<close>

fun split_args :: "string \<Rightarrow> string list \<Rightarrow> string \<Rightarrow> bool \<Rightarrow> string list" where
  "split_args [] parts cur inQuote = (if cur \<noteq> [] then parts @ [cur] else parts)"
| "split_args (c # s) parts cur inQuote =
     (if inQuote \<and> c = bslash \<and> s \<noteq> [] then split_args (tl s) parts (cur @ [c, hd s]) inQuote
      else if c = quot then split_args s parts (cur @ [c]) (\<not> inQuote)
      else if c = CHR '' '' \<and> \<not> inQuote
        then (if cur \<noteq> [] then split_args s (parts @ [cur]) [] inQuote else split_args s parts cur inQuote)
      else split_args s parts (cur @ [c]) inQuote)"

definition SplitRedisArgs :: "string \<Rightarrow> string list" where
  "SplitRedisArgs s = split_args s [] [] False"

fun unescape_redis :: "string \<Rightarrow> string" where
  "unescape_redis [] = []"
| "unescape_redis [c] = [c]"
| "unescape_redis (c # d # s) =
     (if c = bslash then
        (if d = bslash then bslash # unescape_redis s
         else if d = quot then quot # unescape_redis s
         else if d = CHR ''n'' then nl # unescape_redis s
         else if d = CHR ''r'' then cr # unescape_redis s
         else bslash # d # unescape_redis s)
      else c # unescape_redis (d # s))"

definition UnquoteRedisArg :: "string \<Rightarrow> string" where
  "UnquoteRedisArg s =
     unescape_redis (if length s \<ge> 2 \<and> hd s = quot \<and> last s = quot then butlast (tl s) else s)"

section \<open>The database index\<close>

datatype redis_error =
  BadIndex string | SeveralDatabases string | WrongDatabase int int
| Refused string | ScanFailed string | KeyFailed string string | BackupIncomplete nat nat string
| Usage string | BadNumber string | BadOption string | BadBlob | UnknownVerb string
| LineTooLong | RestoreIncomplete nat string

definition ParseDBIndex :: "string \<Rightarrow> redis_error + int" where
  "ParseDBIndex name0 =
     (let name = trim_space name0
      in if name = [] then Inr 0
         else case atoi name of
                Some n \<Rightarrow> if n < 0 then Inl (BadIndex name) else Inr n
              | None \<Rightarrow> Inl (BadIndex name))"

definition checkDBNames :: "string list \<Rightarrow> int \<Rightarrow> redis_error option" where
  "checkDBNames dbNames selected =
     (let names = filter (\<lambda>n. trim_space n \<noteq> []) dbNames
      in if length names > 1 then Some (SeveralDatabases (join '','' names))
         else if names = [] then None
         else case ParseDBIndex (hd names) of
                Inl e \<Rightarrow> Some e
              | Inr idx \<Rightarrow> if idx \<noteq> selected then Some (WrongDatabase idx selected) else None)"

section \<open>Dump\<close>

record 'f zmember = z_Score :: 'f  z_Member :: string
record xmessage = x_ID :: string  x_Values :: "(string \<times> string) list"
record xgroup = xg_Name :: string  xg_LastDeliveredID :: string

text \<open>The requests of the dump. Durations are in nanoseconds, as the client returns them.\<close>

record 'f redis_reader =
  rd_Scan :: "int \<Rightarrow> string + string list \<times> int"
  rd_TTL :: "string \<Rightarrow> string + int"
  rd_Type :: "string \<Rightarrow> string + string"
  rd_Get :: "string \<Rightarrow> string + string"
  rd_LRange :: "string \<Rightarrow> string + string list"
  rd_SMembers :: "string \<Rightarrow> string + string list"
  rd_HGetAll :: "string \<Rightarrow> string + (string \<times> string) list"
  rd_ZRange :: "string \<Rightarrow> string + 'f zmember list"
  rd_XRangeN :: "string \<Rightarrow> string \<Rightarrow> string + xmessage list"
  rd_XGroups :: "string \<Rightarrow> string + xgroup list"
  rd_Dump :: "string \<Rightarrow> string + string"
  rd_now :: int

abbreviation "ns_s \<equiv> 1000000000 :: int"
abbreviation "ns_ms \<equiv> 1000000 :: int"

definition ttl_sec :: "int \<Rightarrow> int" where
  "ttl_sec ttl = go_quot ttl ns_s"

definition unix_milli :: "int \<Rightarrow> int" where
  "unix_milli t = t div ns_ms"

definition writeKeyTTL :: "int \<Rightarrow> string \<Rightarrow> int \<Rightarrow> string list" where
  "writeKeyTTL now qKey ttl =
     (if ttl_sec ttl > 0 then [''EXPIRE '' @ qKey @ '' '' @ itoa (ttl_sec ttl)]
      else if ttl > 0 then [''PEXPIREAT '' @ qKey @ '' '' @ itoa (unix_milli (now + ttl))]
      else [])"

definition writeRestoreCmd :: "int \<Rightarrow> string list \<Rightarrow> int \<Rightarrow> string list" where
  "writeRestoreCmd now parts ttl = [join '' '' parts] @ writeKeyTTL now (parts ! 1) ttl"

definition writeWithTTL :: "int \<Rightarrow> string \<Rightarrow> string \<Rightarrow> int \<Rightarrow> string list" where
  "writeWithTTL now qKey val ttl =
     (let qVal = QuoteRedis val
      in if ttl_sec ttl > 0 then [''SET '' @ qKey @ '' '' @ qVal @ '' EX '' @ itoa (ttl_sec ttl)]
         else if ttl > 0 then [''SET '' @ qKey @ '' '' @ qVal @ '' PXAT '' @ itoa (unix_milli (now + ttl))]
         else [''SET '' @ qKey @ '' '' @ qVal])"

definition writeRestoreHash :: "int \<Rightarrow> string \<Rightarrow> (string \<times> string) list \<Rightarrow> int \<Rightarrow> string list" where
  "writeRestoreHash now qKey entries ttl =
     (if entries = [] then []
      else writeRestoreCmd now ([''HSET'', qKey] @ concat (map (\<lambda>(k, v). [QuoteRedis k, QuoteRedis v]) entries)) ttl)"

definition writeRestoreList :: "int \<Rightarrow> string \<Rightarrow> string list \<Rightarrow> int \<Rightarrow> string list" where
  "writeRestoreList now qKey vals ttl =
     (if vals = [] then [] else writeRestoreCmd now ([''RPUSH'', qKey] @ map QuoteRedis vals) ttl)"

definition writeRestoreSet :: "int \<Rightarrow> string \<Rightarrow> string list \<Rightarrow> int \<Rightarrow> string list" where
  "writeRestoreSet now qKey vals ttl =
     (if vals = [] then [] else writeRestoreCmd now ([''SADD'', qKey] @ map QuoteRedis vals) ttl)"

definition writeRestoreZSet ::
  "('f \<Rightarrow> string) \<Rightarrow> int \<Rightarrow> string \<Rightarrow> 'f zmember list \<Rightarrow> int \<Rightarrow> string list" where
  "writeRestoreZSet fmt now qKey entries ttl =
     (if entries = [] then []
      else writeRestoreCmd now
             ([''ZADD'', qKey] @ concat (map (\<lambda>z. [fmt (z_Score z), QuoteRedis (z_Member z)]) entries)) ttl)"

text \<open>The fields of an entry are a Go map, written in the order of the field names.\<close>

definition sorted_fields :: "(string \<times> string) list \<Rightarrow> (string \<times> string) list" where
  "sorted_fields vs = sort_key fst vs"

definition writeRestoreStream ::
  "int \<Rightarrow> string \<Rightarrow> xmessage list \<Rightarrow> xgroup list \<Rightarrow> int \<Rightarrow> string list" where
  "writeRestoreStream now qKey msgs groups ttl =
     map (\<lambda>m. join '' '' ([''XADD'', qKey, QuoteRedis (x_ID m)] @
            concat (map (\<lambda>(k, v). [QuoteRedis k, QuoteRedis v]) (sorted_fields (x_Values m))))) msgs @
     map (\<lambda>g. ''XGROUP CREATE '' @ qKey @ '' '' @ QuoteRedis (xg_Name g) @ '' '' @
            QuoteRedis (xg_LastDeliveredID g) @ '' MKSTREAM'') groups @
     writeKeyTTL now qKey ttl"

text \<open>
  \<open>xRangeAll\<close> asks for pages of 1000 entries, each from behind the last one of the page before.
  \<open>None\<close> stands for a server that never sends a short page.
\<close>

partial_function (option) xRangeAll_loop ::
  "(string \<Rightarrow> string + xmessage list) \<Rightarrow> string \<Rightarrow> xmessage list \<Rightarrow> (string + xmessage list) option" where
  "xRangeAll_loop page start out =
     (case page start of
        Inl e \<Rightarrow> Some (Inl e)
      | Inr msgs \<Rightarrow>
          if msgs = [] then Some (Inr out)
          else if length msgs < 1000 then Some (Inr (out @ msgs))
          else xRangeAll_loop page (''('' @ x_ID (last msgs)) (out @ msgs))"

definition xRangeAll :: "'f redis_reader \<Rightarrow> string \<Rightarrow> (string + xmessage list) option" where
  "xRangeAll cl key = xRangeAll_loop (rd_XRangeN cl key) ''-'' []"

definition encodeRestoreBlob :: "string \<Rightarrow> string" where
  "encodeRestoreBlob data = b64_encode std_alphabet data"

definition decodeRestoreBlob :: "string \<Rightarrow> redis_error + string" where
  "decodeRestoreBlob s = (case b64_decode std_alphabet True s of Some raw \<Rightarrow> Inr raw | None \<Rightarrow> Inl BadBlob)"

text \<open>The lines that \<open>dumpKey\<close> writes, or its error; nothing is written before an error.\<close>

definition dumpKey :: "('f \<Rightarrow> string) \<Rightarrow> 'f redis_reader \<Rightarrow> string \<Rightarrow> (redis_error + string list) option" where
  "dumpKey fmt cl key =
     (case rd_TTL cl key of
        Inl e \<Rightarrow> Some (Inl (KeyFailed ''ttl'' e))
      | Inr ttl0 \<Rightarrow>
          let ttl = (if ttl0 < 0 then 0 else ttl0); qKey = QuoteRedis key; now = rd_now cl
          in case rd_Type cl key of
               Inl e \<Rightarrow> Some (Inl (KeyFailed ''type'' e))
             | Inr typ \<Rightarrow>
                 if typ = ''string'' then
                   (case rd_Get cl key of Inl e \<Rightarrow> Some (Inl (KeyFailed ''get'' e))
                    | Inr val \<Rightarrow> Some (Inr (writeWithTTL now qKey val ttl)))
                 else if typ = ''list'' then
                   (case rd_LRange cl key of Inl e \<Rightarrow> Some (Inl (KeyFailed ''lrange'' e))
                    | Inr vals \<Rightarrow> Some (Inr (writeRestoreList now qKey vals ttl)))
                 else if typ = ''set'' then
                   (case rd_SMembers cl key of Inl e \<Rightarrow> Some (Inl (KeyFailed ''smembers'' e))
                    | Inr vals \<Rightarrow> Some (Inr (writeRestoreSet now qKey vals ttl)))
                 else if typ = ''hash'' then
                   (case rd_HGetAll cl key of Inl e \<Rightarrow> Some (Inl (KeyFailed ''hgetall'' e))
                    | Inr vals \<Rightarrow> Some (Inr (writeRestoreHash now qKey vals ttl)))
                 else if typ = ''zset'' then
                   (case rd_ZRange cl key of Inl e \<Rightarrow> Some (Inl (KeyFailed ''zrange'' e))
                    | Inr vals \<Rightarrow> Some (Inr (writeRestoreZSet fmt now qKey vals ttl)))
                 else if typ = [] then Some (Inr [])
                 else if typ = ''stream'' then
                   (case xRangeAll cl key of
                      None \<Rightarrow> None
                    | Some (Inl e) \<Rightarrow> Some (Inl (KeyFailed ''xrange'' e))
                    | Some (Inr msgs) \<Rightarrow>
                        (case rd_XGroups cl key of Inl e \<Rightarrow> Some (Inl (KeyFailed ''xinfo groups'' e))
                         | Inr groups \<Rightarrow> Some (Inr (writeRestoreStream now qKey msgs groups ttl))))
                 else
                   (case rd_Dump cl key of Inl e \<Rightarrow> Some (Inl (KeyFailed ''dump fallback'' e))
                    | Inr blob \<Rightarrow>
                        Some (Inr ((''RESTOREBLOB '' @ qKey @ '' '' @ encodeRestoreBlob blob) # writeKeyTTL now qKey ttl))))"

record dump_run = dr_lines :: "string list"  dr_scanned :: nat  dr_skipped :: "string list"

text \<open>The keys of one page of the scan; a key that fails is skipped and the dump goes on.\<close>

fun dump_keys ::
  "('f \<Rightarrow> string) \<Rightarrow> 'f redis_reader \<Rightarrow> table_filter option \<Rightarrow> string list \<Rightarrow> dump_run \<Rightarrow> dump_run option" where
  "dump_keys fmt cl tables [] r = Some r"
| "dump_keys fmt cl tables (key # keys) r =
     (if tables \<noteq> None \<and> \<not> fst (TableFilter_Apply tables key) then dump_keys fmt cl tables keys r
      else case dumpKey fmt cl key of
             None \<Rightarrow> None
           | Some (Inl _) \<Rightarrow> dump_keys fmt cl tables keys (r\<lparr>dr_skipped := dr_skipped r @ [key]\<rparr>)
           | Some (Inr ls) \<Rightarrow> dump_keys fmt cl tables keys (r\<lparr>dr_lines := dr_lines r @ ls\<rparr>))"

partial_function (option) scan_loop ::
  "('f \<Rightarrow> string) \<Rightarrow> 'f redis_reader \<Rightarrow> table_filter option \<Rightarrow> int \<Rightarrow> dump_run \<Rightarrow> (dump_run \<times> redis_error option) option" where
  "scan_loop fmt cl tables cursor r =
     (case rd_Scan cl cursor of
        Inl e \<Rightarrow> Some (r, Some (ScanFailed e))
      | Inr (keys, next_cursor) \<Rightarrow>
          (case dump_keys fmt cl tables keys (r\<lparr>dr_scanned := dr_scanned r + length keys\<rparr>) of
             None \<Rightarrow> None
           | Some r' \<Rightarrow> if next_cursor = 0 then Some (r', None) else scan_loop fmt cl tables next_cursor r'))"

text \<open>
  The text written and the error returned. The banner is the comment lines of
  \<open>common.DumpBanner\<close> and of the database index.
\<close>

definition redis_Dump ::
  "('f \<Rightarrow> string) \<Rightarrow> 'f redis_reader \<Rightarrow> table_filter option \<Rightarrow> int \<Rightarrow> string list \<Rightarrow> string list
    \<Rightarrow> (string \<times> redis_error option) option" where
  "redis_Dump fmt cl tables db banner dbNames =
     (case checkDBNames dbNames db of
        Some e \<Rightarrow> Some ([], Some e)
      | None \<Rightarrow>
          (case scan_loop fmt cl tables 0 \<lparr>dr_lines = [], dr_scanned = 0, dr_skipped = []\<rparr> of
             None \<Rightarrow> None
           | Some (r, err) \<Rightarrow>
               Some (unlines (banner @ [''# Database: '' @ itoa db, ''#'', []] @ dr_lines r),
                 case err of Some e \<Rightarrow> Some e
                 | None \<Rightarrow> if dr_skipped r = [] then None
                           else Some (BackupIncomplete (length (dr_skipped r)) (dr_scanned r) (join '', '' (dr_skipped r))))))"

section \<open>Restore\<close>

text \<open>The calls of the client that the restore issues. Instants are nanoseconds since the epoch.\<close>

datatype 'f redis_call =
  CSet string string | CSetAt string string int
| CHSet string "(string \<times> string) list" | CRPush string "string list" | CSAdd string "string list"
| CZAdd string "'f zmember list" | CXAdd string string "(string \<times> string) list"
| CRestore string string | CXGroup string string string bool | CExpireAt string int

definition add_secs :: "int \<Rightarrow> int \<Rightarrow> int" where
  "add_secs now n = now + i64 (n * ns_s)"

definition splitSetOptions :: "int \<Rightarrow> string list \<Rightarrow> redis_error + string \<times> int option" where
  "splitSetOptions now args =
     (case args of
        [] \<Rightarrow> Inl (Usage ''SET'')
      | val # [] \<Rightarrow> Inr (val, None)
      | val # opt # rest \<Rightarrow>
          if to_upper opt \<in> {''EX'', ''PX'', ''EXAT'', ''PXAT''} then
            (case rest of
               [] \<Rightarrow> Inl (BadOption opt)
             | num # _ \<Rightarrow>
                 (case atoi num of
                    None \<Rightarrow> Inl (BadNumber num)
                  | Some n \<Rightarrow>
                      Inr (val, Some (if to_upper opt = ''EX'' then add_secs now n
                                      else if to_upper opt = ''PX'' then now + i64 (n * ns_ms)
                                      else if to_upper opt = ''EXAT'' then n * ns_s
                                      else n * ns_ms))))
          else Inl (BadOption opt))"

text \<open>The pairs of an argument list, as a Go map built from left to right.\<close>

fun arg_pairs :: "string list \<Rightarrow> (string \<times> string) list" where
  "arg_pairs (k # v # rest) = (k, v) # arg_pairs rest"
| "arg_pairs _ = []"

definition arg_map :: "string list \<Rightarrow> (string \<times> string) list" where
  "arg_map args = fold (\<lambda>(k, v). AList.update k v) (arg_pairs args) []"

fun zset_members :: "(string \<Rightarrow> 'f option) \<Rightarrow> (string \<times> string) list \<Rightarrow> redis_error + 'f zmember list" where
  "zset_members parse [] = Inr []"
| "zset_members parse ((score, member) # rest) =
     (case parse score of
        None \<Rightarrow> Inl (BadNumber score)
      | Some f \<Rightarrow> (case zset_members parse rest of Inl e \<Rightarrow> Inl e
                   | Inr zs \<Rightarrow> Inr (\<lparr>z_Score = f, z_Member = member\<rparr> # zs)))"

text \<open>The call that a line of the dump stands for, \<open>restoreLine\<close> up to the request to the server.\<close>

definition restore_call ::
  "(string \<Rightarrow> 'f option) \<Rightarrow> int \<Rightarrow> string list \<Rightarrow> redis_error + 'f redis_call" where
  "restore_call parse now parts =
     (let verb = to_upper (hd parts); args = map UnquoteRedisArg (tl parts)
      in if verb = ''SET'' then
           (if length args < 2 then Inl (Usage verb)
            else case splitSetOptions now (tl args) of
                   Inl e \<Rightarrow> Inl e
                 | Inr (val, None) \<Rightarrow> Inr (CSet (hd args) val)
                 | Inr (val, Some t) \<Rightarrow> Inr (CSetAt (hd args) val t))
         else if verb = ''HSET'' then
           (if length args < 3 \<or> even (length args) then Inl (Usage verb)
            else Inr (CHSet (hd args) (arg_map (tl args))))
         else if verb = ''RPUSH'' then
           (if length args < 2 then Inl (Usage verb) else Inr (CRPush (hd args) (tl args)))
         else if verb = ''SADD'' then
           (if length args < 2 then Inl (Usage verb) else Inr (CSAdd (hd args) (tl args)))
         else if verb = ''ZADD'' then
           (if length args < 3 \<or> even (length args) then Inl (Usage verb)
            else case zset_members parse (arg_pairs (tl args)) of
                   Inl e \<Rightarrow> Inl e | Inr zs \<Rightarrow> Inr (CZAdd (hd args) zs))
         else if verb = ''XADD'' then
           (if length args < 4 \<or> odd (length args) then Inl (Usage verb)
            else Inr (CXAdd (hd args) (args ! 1) (arg_map (drop 2 args))))
         else if verb = ''RESTOREBLOB'' then
           (if length args \<noteq> 2 then Inl (Usage verb)
            else case decodeRestoreBlob (args ! 1) of Inl e \<Rightarrow> Inl e | Inr blob \<Rightarrow> Inr (CRestore (hd args) blob))
         else if verb = ''XGROUP'' then
           (if length args < 4 \<or> \<not> equal_fold (hd args) ''CREATE'' then Inl (Usage verb)
            else if length args > 5 \<or> (length args = 5 \<and> \<not> equal_fold (args ! 4) ''MKSTREAM'') then Inl (Usage verb)
            else Inr (CXGroup (args ! 1) (args ! 2) (args ! 3) (length args = 5)))
         else if verb = ''EXPIRE'' then
           (if length args \<noteq> 2 then Inl (Usage verb)
            else case atoi (args ! 1) of
                   None \<Rightarrow> Inl (BadNumber (args ! 1)) | Some n \<Rightarrow> Inr (CExpireAt (hd args) (add_secs now n)))
         else if verb = ''PEXPIREAT'' then
           (if length args \<noteq> 2 then Inl (Usage verb)
            else case atoi (args ! 1) of
                   None \<Rightarrow> Inl (BadNumber (args ! 1)) | Some n \<Rightarrow> Inr (CExpireAt (hd args) (n * ns_ms)))
         else Inl (UnknownVerb verb))"

text \<open>A server answers a call with its next state and an error, if any.\<close>

type_synonym ('f, 's) redis_server = "'f redis_call \<Rightarrow> 's \<Rightarrow> 's \<times> string option"

definition restoreLine ::
  "(string \<Rightarrow> 'f option) \<Rightarrow> ('f, 's) redis_server \<Rightarrow> int \<Rightarrow> string list \<Rightarrow> 's \<Rightarrow> 's \<times> redis_error option" where
  "restoreLine parse srv now parts s =
     (case restore_call parse now parts of
        Inl e \<Rightarrow> (s, Some e)
      | Inr c \<Rightarrow> (case srv c s of (s', err) \<Rightarrow> (s', map_option Refused err)))"

fun restore_lines ::
  "(string \<Rightarrow> 'f option) \<Rightarrow> ('f, 's) redis_server \<Rightarrow> int \<Rightarrow> string list \<Rightarrow> 's \<times> string list \<Rightarrow> 's \<times> string list" where
  "restore_lines parse srv now [] (s, skipped) = (s, skipped)"
| "restore_lines parse srv now (raw # ls) (s, skipped) =
     (let line = trim_space raw
      in if line = [] \<or> has_prefix line ''#'' then restore_lines parse srv now ls (s, skipped)
         else let parts = SplitRedisArgs line
              in if parts = [] then restore_lines parse srv now ls (s, skipped)
                 else case restoreLine parse srv now parts s of
                        (s', None) \<Rightarrow> restore_lines parse srv now ls (s', skipped)
                      | (s', Some _) \<Rightarrow> restore_lines parse srv now ls (s', skipped @ [line]))"

definition max_line :: nat where
  "max_line = 16 * 1024 * 1024"

text \<open>The state of the server after the restore and the error returned; \<open>ping\<close> is the first request.\<close>

definition redis_Restore ::
  "(string \<Rightarrow> 'f option) \<Rightarrow> ('f, 's) redis_server \<Rightarrow> int \<Rightarrow> string option \<Rightarrow> string \<Rightarrow> string \<Rightarrow> 's
    \<Rightarrow> 's \<times> redis_error option" where
  "redis_Restore parse srv now ping dbName text0 s =
     (case ParseDBIndex dbName of
        Inl e \<Rightarrow> (s, Some e)
      | Inr db \<Rightarrow>
          (case ping of
             Some e \<Rightarrow> (s, Some (Refused e))
           | None \<Rightarrow>
               (case scanner_lines max_line text0 of
                  (ls, toolong) \<Rightarrow>
                    (case restore_lines parse srv now ls (s, []) of
                       (s', skipped) \<Rightarrow>
                         (s', if toolong then Some LineTooLong
                              else if skipped = [] then None
                              else Some (RestoreIncomplete (length skipped) (join ''; '' (take 5 skipped))))))))"

section \<open>Quoting is undone\<close>

definition esc_redis :: "char \<Rightarrow> string" where
  "esc_redis c =
     (if c = bslash then [bslash, bslash] else if c = quot then [bslash, quot]
      else if c = nl then [bslash, CHR ''n''] else if c = cr then [bslash, CHR ''r''] else [c])"

interpretation redis: line_escape esc_redis
  by unfold_locales (auto simp: esc_redis_def char_names prefix_def split: if_splits)

lemma QuoteRedis_each: "QuoteRedis s = quot # each_char esc_redis s @ [quot]"
proof -
  have "(let s = replace_char bslash [bslash, bslash] s; s = replace_char quot [bslash, quot] s;
             s = replace_char nl [bslash, CHR ''n''] s
         in replace_char cr [bslash, CHR ''r''] s) = each_char esc_redis s"
    unfolding Let_def replace_char_each [of bslash] replace_char_after
    by (rule each_char_cong) (simp add: esc_redis_def char_names)
  then show ?thesis unfolding QuoteRedis_def Let_def by simp
qed

lemma unescape_redis_esc: "unescape_redis (each_char esc_redis s) = s"
proof (induction s)
  case (Cons c s)
  have "c \<noteq> bslash \<Longrightarrow> unescape_redis (c # t) = c # unescape_redis t" for t by (cases t) simp_all
  with Cons show ?case by (simp add: esc_redis_def char_names)
qed simp

lemma UnquoteRedisArg_QuoteRedis [simp]: "UnquoteRedisArg (QuoteRedis s) = s"
  by (simp add: UnquoteRedisArg_def QuoteRedis_each unescape_redis_esc butlast_append)

text \<open>Words that need no quoting: the verbs, options, numbers and base64 text of a dump.\<close>

definition plain_word :: "string \<Rightarrow> bool" where
  "plain_word w \<longleftrightarrow> w \<noteq> [] \<and> list_all (\<lambda>c. \<not> is_space c \<and> c \<noteq> quot \<and> c \<noteq> bslash) w"

lemma unescape_plain: "bslash \<notin> set s \<Longrightarrow> unescape_redis s = s"
  by (induction s rule: unescape_redis.induct) auto

lemma UnquoteRedisArg_plain: "plain_word w \<Longrightarrow> UnquoteRedisArg w = w"
  by (cases w) (auto simp: UnquoteRedisArg_def plain_word_def list_all_iff intro!: unescape_plain)

text \<open>Scanning one argument of a line, quoted or plain, collects it as it is.\<close>

lemma split_args_escaped:
  "split_args (each_char esc_redis s @ t) parts cur True = split_args t parts (cur @ each_char esc_redis s) True"
  by (induction s arbitrary: cur) (auto simp: esc_redis_def char_names)

lemma split_args_quoted:
  "split_args (QuoteRedis s @ t) parts cur False = split_args t parts (cur @ QuoteRedis s) False"
  by (simp add: QuoteRedis_each split_args_escaped char_names)

lemma split_args_plain:
  assumes "plain_word w"
  shows "split_args (w @ t) parts cur False = split_args t parts (cur @ w) False"
proof -
  have "list_all (\<lambda>c. \<not> is_space c \<and> c \<noteq> quot \<and> c \<noteq> bslash) w" using assms by (simp add: plain_word_def)
  then show ?thesis by (induction w arbitrary: cur) (simp_all add: is_space_def char_names)
qed

definition arg_text :: "string \<Rightarrow> bool" where
  "arg_text w \<longleftrightarrow> plain_word w \<or> (\<exists>s. w = QuoteRedis s)"

lemma arg_textI [intro]: "plain_word w \<Longrightarrow> arg_text w" "arg_text (QuoteRedis s)"
  by (auto simp: arg_text_def)

lemma arg_text_nonempty: "arg_text w \<Longrightarrow> w \<noteq> []"
  by (auto simp: arg_text_def plain_word_def QuoteRedis_each)

lemma split_args_arg: "arg_text w \<Longrightarrow> split_args (w @ t) parts cur False = split_args t parts (cur @ w) False"
  unfolding arg_text_def using split_args_quoted split_args_plain by blast

lemma SplitRedisArgs_join:
  assumes "\<And>w. w \<in> set ws \<Longrightarrow> arg_text w"
  shows "SplitRedisArgs (join '' '' ws) = ws"
proof -
  have "ws \<noteq> [] \<Longrightarrow> split_args (join '' '' ws) parts [] False = parts @ ws" for parts
    using assms
  proof (induction "'' ''" ws arbitrary: parts rule: join.induct)
    case (2 w)
    then show ?case using split_args_arg [of w "[]" parts "[]"] arg_text_nonempty [of w] by simp
  next
    case (3 w y ws)
    then show ?case using split_args_arg [of w "'' '' @ join '' '' (y # ws)" parts "[]"] arg_text_nonempty [of w]
      by (simp add: char_names)
  qed simp
  then show ?thesis by (cases "ws = []") (simp_all add: SplitRedisArgs_def)
qed

lemma plain_word_ends: "plain_word w \<Longrightarrow> \<not> is_space (hd w) \<and> \<not> is_space (last w) \<and> nl \<notin> set w"
  by (auto simp: plain_word_def list_all_iff nl_def is_space_def)

lemma QuoteRedis_ends: "\<not> is_space (hd (QuoteRedis s)) \<and> \<not> is_space (last (QuoteRedis s)) \<and> nl \<notin> set (QuoteRedis s)"
  by (auto simp: QuoteRedis_each set_each_char esc_redis_def char_names is_space_def split: if_splits)

lemma arg_text_ends: "arg_text w \<Longrightarrow> \<not> is_space (hd w) \<and> \<not> is_space (last w) \<and> nl \<notin> set w"
  unfolding arg_text_def using plain_word_ends QuoteRedis_ends by metis

lemma join_ends:
  assumes "ws \<noteq> []" and "\<And>w. w \<in> set ws \<Longrightarrow> arg_text w"
  shows "join '' '' ws \<noteq> [] \<and> hd (join '' '' ws) = hd (hd ws) \<and> last (join '' '' ws) = last (last ws) \<and>
    nl \<notin> set (join '' '' ws)"
  using assms
proof (induction "'' ''" ws rule: join.induct)
  case (2 w) then show ?case using arg_text_nonempty [of w] arg_text_ends [of w] by simp
next
  case (3 w y ws)
  then show ?case using arg_text_nonempty [of w] arg_text_ends [of w] by (simp add: nl_def)
qed simp

section \<open>A line of the dump issues its call\<close>

text \<open>A command line of the dump: a verb and arguments, without the mark of a comment.\<close>

definition command_words :: "string list \<Rightarrow> bool" where
  "command_words ws \<longleftrightarrow> ws \<noteq> [] \<and> hd (hd ws) \<noteq> CHR ''#'' \<and> (\<forall>w \<in> set ws. arg_text w)"

lemma command_line:
  assumes "command_words ws"
  shows "trim_space (join '' '' ws) = join '' '' ws" and "join '' '' ws \<noteq> []" and "\<not> has_prefix (join '' '' ws) ''#''"
    and "SplitRedisArgs (join '' '' ws) = ws" and "nl \<notin> set (join '' '' ws)" and "last (join '' '' ws) \<noteq> cr"
proof -
  have ws: "ws \<noteq> []" "\<And>w. w \<in> set ws \<Longrightarrow> arg_text w" using assms by (simp_all add: command_words_def)
  note e = join_ends [OF ws]
  have "arg_text (hd ws)" "arg_text (last ws)" using ws by simp_all
  then have sp: "\<not> is_space (hd (join '' '' ws))" "\<not> is_space (last (join '' '' ws))"
    using e arg_text_ends by simp_all
  then show "trim_space (join '' '' ws) = join '' '' ws" using e by (intro trim_space_id) simp_all
  show "last (join '' '' ws) \<noteq> cr" using sp(2) by (auto simp: cr_def is_space_def)
  show "join '' '' ws \<noteq> []" "nl \<notin> set (join '' '' ws)" using e by simp_all
  have "hd (join '' '' ws) \<noteq> CHR ''#''" using e assms by (simp add: command_words_def)
  then show "\<not> has_prefix (join '' '' ws) ''#''" by (auto simp: prefix_def)
  show "SplitRedisArgs (join '' '' ws) = ws" using ws(2) by (rule SplitRedisArgs_join)
qed

text \<open>The server after a sequence of calls, and whether it refused one of them.\<close>

fun serve :: "('f, 's) redis_server \<Rightarrow> 'f redis_call list \<Rightarrow> 's \<Rightarrow> 's" where
  "serve srv [] s = s"
| "serve srv (c # cs) s = serve srv cs (fst (srv c s))"

fun refuses :: "('f, 's) redis_server \<Rightarrow> 'f redis_call list \<Rightarrow> 's \<Rightarrow> bool" where
  "refuses srv [] s = False"
| "refuses srv (c # cs) s = (snd (srv c s) \<noteq> None \<or> refuses srv cs (fst (srv c s)))"

lemma restore_lines_calls:
  assumes "list_all2 (\<lambda>ws c. command_words ws \<and> restore_call parse now ws = Inr c) wss cs"
  shows "\<exists>sk'. restore_lines parse srv now (map (join '' '') wss) (s, sk) = (serve srv cs s, sk @ sk') \<and>
    (sk' = [] \<longleftrightarrow> \<not> refuses srv cs s)"
  using assms
proof (induction wss cs arbitrary: s sk rule: list_all2_induct)
  case (Cons ws wss c cs)
  then have w: "command_words ws" and c: "restore_call parse now ws = Inr c" by simp_all
  have ne: "ws \<noteq> []" using w by (simp add: command_words_def)
  obtain s' err where srv: "srv c s = (s', err)" by fastforce
  show ?case
  proof (cases err)
    case None
    with Cons.IH [of s' sk] show ?thesis using command_line [OF w] ne c srv by (simp add: restoreLine_def)
  next
    case (Some e)
    from Cons.IH [of s' "sk @ [join '' '' ws]"] obtain sk' where
      "restore_lines parse srv now (map (join '' '') wss) (s', sk @ [join '' '' ws]) = (serve srv cs s', sk @ [join '' '' ws] @ sk')"
      by auto
    then show ?thesis using command_line [OF w] ne c srv Some by (simp add: restoreLine_def)
  qed
qed simp

lemma restore_lines_append:
  "restore_lines parse srv now (ks @ ls) st = restore_lines parse srv now ls (restore_lines parse srv now ks st)"
proof (induction ks arbitrary: st)
  case Nil show ?case by (cases st) simp
next
  case (Cons k ks) then show ?case by (cases st) (auto simp: Let_def split: prod.splits option.splits)
qed

definition comment_line :: "string \<Rightarrow> bool" where
  "comment_line l \<longleftrightarrow> l = [] \<or> hd l = CHR ''#''"

lemma restore_lines_comments: "list_all comment_line ls \<Longrightarrow> restore_lines parse srv now ls st = st"
proof (induction ls)
  case (Cons l ls)
  have "trim_space l = [] \<or> has_prefix (trim_space l) ''#''"
  proof (cases l)
    case (Cons c l')
    then have h: "c = CHR ''#''" using Cons.prems by (simp add: comment_line_def)
    then have "dropWhile is_space l = l" using Cons by (simp add: is_space_def)
    moreover have "\<exists>t. rev (dropWhile is_space (rev l)) = CHR ''#'' # t"
    proof -
      have "\<not> is_space (CHR ''#'')" by (simp add: is_space_def)
      then have "dropWhile is_space (xs @ [CHR ''#'']) = dropWhile is_space xs @ [CHR ''#'']" for xs by (induction xs) simp_all
      then show ?thesis using Cons h by simp
    qed
    ultimately show ?thesis by (auto simp: trim_space_def)
  qed (simp add: trim_space_def)
  then show ?case using Cons by (cases st) (simp add: Let_def)
qed (cases st, simp)

section \<open>What a dump re-creates\<close>

text \<open>The content of a key, as far as the engine distinguishes it.\<close>

datatype 'f rvalue =
  VString string | VList "string list" | VSet "string list" | VHash "(string \<times> string) list"
| VZSet "'f zmember list" | VStream "xmessage list" "xgroup list" | VBlob string

definition expire_calls :: "int \<Rightarrow> int \<Rightarrow> string \<Rightarrow> int \<Rightarrow> 'f redis_call list" where
  "expire_calls t0 now key ttl =
     (if ttl_sec ttl > 0 then [CExpireAt key (add_secs now (ttl_sec ttl))]
      else if ttl > 0 then [CExpireAt key (unix_milli (t0 + ttl) * ns_ms)] else [])"

text \<open>
  The calls that create a key with its value. The dump was made at \<open>t0\<close>, the restore runs at
  \<open>now\<close>: a time to live of whole seconds starts again at \<open>now\<close>, a shorter one ends at the
  instant at which it would have ended.
\<close>

fun recreate :: "int \<Rightarrow> int \<Rightarrow> string \<Rightarrow> 'f rvalue \<Rightarrow> int \<Rightarrow> 'f redis_call list" where
  "recreate t0 now key (VString v) ttl =
     (if ttl_sec ttl > 0 then [CSetAt key v (add_secs now (ttl_sec ttl))]
      else if ttl > 0 then [CSetAt key v (unix_milli (t0 + ttl) * ns_ms)] else [CSet key v])"
| "recreate t0 now key (VList vs) ttl = (if vs = [] then [] else CRPush key vs # expire_calls t0 now key ttl)"
| "recreate t0 now key (VSet vs) ttl = (if vs = [] then [] else CSAdd key vs # expire_calls t0 now key ttl)"
| "recreate t0 now key (VHash es) ttl = (if es = [] then [] else CHSet key es # expire_calls t0 now key ttl)"
| "recreate t0 now key (VZSet zs) ttl = (if zs = [] then [] else CZAdd key zs # expire_calls t0 now key ttl)"
| "recreate t0 now key (VStream ms gs) ttl =
     map (\<lambda>m. CXAdd key (x_ID m) (sorted_fields (x_Values m))) ms @
     map (\<lambda>g. CXGroup key (xg_Name g) (xg_LastDeliveredID g) True) gs @ expire_calls t0 now key ttl"
| "recreate t0 now key (VBlob b) ttl = CRestore key b # expire_calls t0 now key ttl"

text \<open>
  What the client answers for a key of the server: a Go map has each field once, an entry of a
  stream has a field, a serialised value is not empty, durations are 64-bit.
\<close>

fun answers :: "'f redis_reader \<Rightarrow> string \<Rightarrow> 'f rvalue \<Rightarrow> bool" where
  "answers cl key (VString v) \<longleftrightarrow> rd_Type cl key = Inr ''string'' \<and> rd_Get cl key = Inr v"
| "answers cl key (VList vs) \<longleftrightarrow> rd_Type cl key = Inr ''list'' \<and> rd_LRange cl key = Inr vs"
| "answers cl key (VSet vs) \<longleftrightarrow> rd_Type cl key = Inr ''set'' \<and> rd_SMembers cl key = Inr vs"
| "answers cl key (VHash es) \<longleftrightarrow> rd_Type cl key = Inr ''hash'' \<and> rd_HGetAll cl key = Inr es \<and> distinct (map fst es)"
| "answers cl key (VZSet zs) \<longleftrightarrow> rd_Type cl key = Inr ''zset'' \<and> rd_ZRange cl key = Inr zs"
| "answers cl key (VStream ms gs) \<longleftrightarrow> rd_Type cl key = Inr ''stream'' \<and> xRangeAll cl key = Some (Inr ms) \<and>
     rd_XGroups cl key = Inr gs \<and> list_all (\<lambda>m. x_Values m \<noteq> [] \<and> distinct (map fst (x_Values m))) ms"
| "answers cl key (VBlob b) \<longleftrightarrow> (\<exists>typ. rd_Type cl key = Inr typ \<and>
     typ \<notin> {''string'', ''list'', ''set'', ''hash'', ''zset'', ''stream'', []}) \<and> rd_Dump cl key = Inr b \<and> b \<noteq> []"

definition holds_key :: "'f redis_reader \<Rightarrow> string \<Rightarrow> 'f rvalue \<Rightarrow> int \<Rightarrow> bool" where
  "holds_key cl key v ttl \<longleftrightarrow> answers cl key v \<and> in_i64 ttl \<and> 0 \<le> ttl \<and> in_i64 (rd_now cl) \<and>
     (\<exists>t. rd_TTL cl key = Inr t \<and> ttl = max 0 t)"

text \<open>The words of the lines that the dump writes for a key.\<close>

definition expire_words :: "int \<Rightarrow> string \<Rightarrow> int \<Rightarrow> string list list" where
  "expire_words t0 key ttl =
     (if ttl_sec ttl > 0 then [[''EXPIRE'', QuoteRedis key, itoa (ttl_sec ttl)]]
      else if ttl > 0 then [[''PEXPIREAT'', QuoteRedis key, itoa (unix_milli (t0 + ttl))]] else [])"

abbreviation quote_pairs :: "(string \<times> string) list \<Rightarrow> string list" where
  "quote_pairs es \<equiv> concat (map (\<lambda>(k, v). [QuoteRedis k, QuoteRedis v]) es)"

fun key_words :: "('f \<Rightarrow> string) \<Rightarrow> int \<Rightarrow> string \<Rightarrow> 'f rvalue \<Rightarrow> int \<Rightarrow> string list list" where
  "key_words fmt t0 key (VString v) ttl =
     [[''SET'', QuoteRedis key, QuoteRedis v] @
        (if ttl_sec ttl > 0 then [''EX'', itoa (ttl_sec ttl)]
         else if ttl > 0 then [''PXAT'', itoa (unix_milli (t0 + ttl))] else [])]"
| "key_words fmt t0 key (VList vs) ttl =
     (if vs = [] then [] else ([''RPUSH'', QuoteRedis key] @ map QuoteRedis vs) # expire_words t0 key ttl)"
| "key_words fmt t0 key (VSet vs) ttl =
     (if vs = [] then [] else ([''SADD'', QuoteRedis key] @ map QuoteRedis vs) # expire_words t0 key ttl)"
| "key_words fmt t0 key (VHash es) ttl =
     (if es = [] then [] else ([''HSET'', QuoteRedis key] @ quote_pairs es) # expire_words t0 key ttl)"
| "key_words fmt t0 key (VZSet zs) ttl =
     (if zs = [] then []
      else ([''ZADD'', QuoteRedis key] @ concat (map (\<lambda>z. [fmt (z_Score z), QuoteRedis (z_Member z)]) zs)) # expire_words t0 key ttl)"
| "key_words fmt t0 key (VStream ms gs) ttl =
     map (\<lambda>m. [''XADD'', QuoteRedis key, QuoteRedis (x_ID m)] @ quote_pairs (sorted_fields (x_Values m))) ms @
     map (\<lambda>g. [''XGROUP'', ''CREATE'', QuoteRedis key, QuoteRedis (xg_Name g), QuoteRedis (xg_LastDeliveredID g), ''MKSTREAM'']) gs @
     expire_words t0 key ttl"
| "key_words fmt t0 key (VBlob b) ttl =
     [''RESTOREBLOB'', QuoteRedis key, encodeRestoreBlob b] # expire_words t0 key ttl"

lemma expire_words_lines: "map (join '' '') (expire_words t0 key ttl) = writeKeyTTL t0 (QuoteRedis key) ttl"
  by (simp add: expire_words_def writeKeyTTL_def)

lemma dumpKey_words:
  assumes "holds_key cl key v ttl"
  shows "dumpKey fmt cl key = Some (Inr (map (join '' '') (key_words fmt (rd_now cl) key v ttl)))"
proof -
  from assms obtain t where t: "rd_TTL cl key = Inr t" "ttl = (if t < 0 then 0 else t)" and a: "answers cl key v"
    by (auto simp: holds_key_def max_def)
  show ?thesis
  proof (cases v)
    case (VStream ms gs)
    with t a show ?thesis by (simp add: dumpKey_def Let_def writeRestoreStream_def expire_words_lines)
  next
    case (VBlob b)
    with t a show ?thesis by (auto simp: dumpKey_def Let_def expire_words_lines)
  qed (use t a in \<open>auto simp: dumpKey_def Let_def writeWithTTL_def writeRestoreList_def writeRestoreSet_def
      writeRestoreHash_def writeRestoreZSet_def writeRestoreCmd_def expire_words_lines\<close>)
qed

lemma verbs_upper:
  "to_upper ''SET'' = ''SET''" "to_upper ''HSET'' = ''HSET''" "to_upper ''RPUSH'' = ''RPUSH''" "to_upper ''SADD'' = ''SADD''"
  "to_upper ''ZADD'' = ''ZADD''" "to_upper ''XADD'' = ''XADD''" "to_upper ''RESTOREBLOB'' = ''RESTOREBLOB''"
  "to_upper ''XGROUP'' = ''XGROUP''" "to_upper ''EXPIRE'' = ''EXPIRE''" "to_upper ''PEXPIREAT'' = ''PEXPIREAT''"
  "to_upper ''EX'' = ''EX''" "to_upper ''PXAT'' = ''PXAT''"
  by (simp_all add: to_upper_def upper_char_def)

lemma verbs_plain:
  "plain_word ''SET''" "plain_word ''HSET''" "plain_word ''RPUSH''" "plain_word ''SADD''" "plain_word ''ZADD''"
  "plain_word ''XADD''" "plain_word ''RESTOREBLOB''" "plain_word ''XGROUP''" "plain_word ''CREATE''" "plain_word ''MKSTREAM''"
  "plain_word ''EXPIRE''" "plain_word ''PEXPIREAT''" "plain_word ''EX''" "plain_word ''PXAT''"
  by (simp_all add: plain_word_def is_space_def char_names)

lemma digits_plain: "list_all is_digit w \<Longrightarrow> w \<noteq> [] \<Longrightarrow> plain_word w"
  using digit_not_space by (auto simp: plain_word_def list_all_iff char_names is_digit_def)

lemma itoa_plain: "plain_word (itoa n)"
proof (cases "n < 0")
  case True
  have "list_all is_digit (pos_itoa (- n))" using True by (intro pos_itoa_digits) simp
  then have "plain_word (pos_itoa (- n))" by (rule digits_plain) simp
  then show ?thesis using True by (simp add: itoa_def plain_word_def is_space_def char_names)
next
  case False
  then show ?thesis using digits_plain [OF itoa_digits] by simp
qed

lemma blob_plain: "b \<noteq> [] \<Longrightarrow> plain_word (encodeRestoreBlob b)"
proof -
  assume "b \<noteq> []"
  then have "b64_encode std_alphabet b \<noteq> []" by (cases "(std_alphabet, b)" rule: b64_encode.cases) (auto simp: sextets_def)
  moreover have "list_all (\<lambda>c. \<not> is_space c \<and> c \<noteq> quot \<and> c \<noteq> bslash) (CHR ''='' # std_alphabet)"
    by (simp add: std_alphabet_def is_space_def char_names)
  ultimately show ?thesis using b64_encode_set [OF std_alphabet_ok(1), of b]
    by (auto simp: encodeRestoreBlob_def plain_word_def list_all_iff)
qed

lemma unquote_plain:
  "UnquoteRedisArg (itoa n) = itoa n" "UnquoteRedisArg ''EX'' = ''EX''" "UnquoteRedisArg ''PXAT'' = ''PXAT''"
  "UnquoteRedisArg ''CREATE'' = ''CREATE''" "UnquoteRedisArg ''MKSTREAM'' = ''MKSTREAM''"
  by (simp_all add: UnquoteRedisArg_plain itoa_plain verbs_plain)

lemma map_unquote: "map UnquoteRedisArg (map QuoteRedis vs) = vs"
  by (simp add: comp_def)

lemma unquote_pairs: "map UnquoteRedisArg (quote_pairs es) = concat (map (\<lambda>(k, v). [k, v]) es)"
  by (induction es) auto

lemma arg_pairs_flat: "arg_pairs (concat (map (\<lambda>(k, v). [k, v]) es)) = es"
  by (induction es) auto

lemma update_new: "k \<notin> fst ` set es \<Longrightarrow> AList.update k v es = es @ [(k, v)]"
  by (induction es) auto

lemma arg_map_flat:
  assumes "distinct (map fst es)"
  shows "arg_map (concat (map (\<lambda>(k, v). [k, v]) es)) = es"
proof -
  have "distinct (map fst (acc @ es)) \<Longrightarrow> fold (\<lambda>(k, v). AList.update k v) es acc = acc @ es" for acc
    by (induction es arbitrary: acc) (auto simp: update_new)
  from this [of "[]"] assms show ?thesis by (simp add: arg_map_def arg_pairs_flat)
qed

lemma length_pairs: "length (concat (map (\<lambda>(k, v). [k, v]) es)) = 2 * length es"
  by (induction es) auto

lemma sorted_fields_props: "sorted_fields vs = [] \<longleftrightarrow> vs = []" "distinct (map fst (sorted_fields vs)) \<longleftrightarrow> distinct (map fst vs)"
proof -
  have m: "mset (sorted_fields vs) = mset vs" by (simp add: sorted_fields_def)
  then show "sorted_fields vs = [] \<longleftrightarrow> vs = []" by (metis mset_zero_iff)
  from m have "mset (map fst (sorted_fields vs)) = mset (map fst vs)" by simp
  then show "distinct (map fst (sorted_fields vs)) \<longleftrightarrow> distinct (map fst vs)" by (rule mset_eq_imp_distinct_iff)
qed

lemma quote_pairs_args: "w \<in> set (quote_pairs es) \<Longrightarrow> arg_text w"
  by auto

text \<open>Whole numbers of a dump fit into 64 bits.\<close>

lemma ttl_sec_i64: "in_i64 ttl \<Longrightarrow> 0 \<le> ttl \<Longrightarrow> in_i64 (ttl_sec ttl)"
  by (simp add: ttl_sec_def go_quot_nonneg in_i64_def) linarith

lemma unix_milli_i64: "in_i64 a \<Longrightarrow> in_i64 b \<Longrightarrow> in_i64 (unix_milli (a + b))"
  by (simp add: unix_milli_def in_i64_def) linarith

section \<open>The restore of a dump\<close>

text \<open>What the restore uses of the conversions of scores: printing is plain text and reading undoes it.\<close>

definition score_text :: "('f \<Rightarrow> string) \<Rightarrow> (string \<Rightarrow> 'f option) \<Rightarrow> bool" where
  "score_text fmt parse \<longleftrightarrow> (\<forall>f. plain_word (fmt f) \<and> parse (fmt f) = Some f)"

text \<open>Lines and calls that belong together.\<close>

abbreviation issues :: "(string \<Rightarrow> 'f option) \<Rightarrow> int \<Rightarrow> string list list \<Rightarrow> 'f redis_call list \<Rightarrow> bool" where
  "issues parse now \<equiv> list_all2 (\<lambda>ws c. command_words ws \<and> restore_call parse now ws = Inr c)"

lemma command_wordsI:
  "plain_word w \<Longrightarrow> hd w \<noteq> CHR ''#'' \<Longrightarrow> (\<And>x. x \<in> set ws \<Longrightarrow> arg_text x) \<Longrightarrow> command_words (w # ws)"
  by (auto simp: command_words_def)

lemma expire_issues:
  assumes "in_i64 ttl" and "0 \<le> ttl" and "in_i64 t0"
  shows "issues parse now (expire_words t0 key ttl) (expire_calls t0 now key ttl)"
proof -
  have "command_words [''EXPIRE'', QuoteRedis key, itoa n]" "command_words [''PEXPIREAT'', QuoteRedis key, itoa n]" for n
    by (rule command_wordsI; use verbs_plain itoa_plain in auto)+
  then show ?thesis using ttl_sec_i64 [OF assms(1,2)] unix_milli_i64 [OF assms(3,1)]
    by (simp add: expire_words_def expire_calls_def restore_call_def Let_def verbs_upper unquote_plain atoi_itoa)
qed

lemma zset_words_args:
  "score_text fmt parse \<Longrightarrow> w \<in> set (concat (map (\<lambda>z. [fmt (z_Score z), QuoteRedis (z_Member z)]) zs)) \<Longrightarrow> arg_text w"
  by (auto simp: score_text_def)

lemma zset_members_words:
  assumes "score_text fmt parse"
  shows "zset_members parse (arg_pairs (map UnquoteRedisArg
      (concat (map (\<lambda>z. [fmt (z_Score z), QuoteRedis (z_Member z)]) zs)))) = Inr zs"
  using assms by (induction zs) (auto simp: score_text_def UnquoteRedisArg_plain)

lemma length_zset_words: "length (concat (map (\<lambda>z. [fmt (z_Score z), QuoteRedis (z_Member z)]) zs)) = 2 * length zs"
  by (induction zs) auto

lemma xadd_issues:
  assumes "x_Values m \<noteq> []" and "distinct (map fst (x_Values m))"
  shows "command_words ([''XADD'', QuoteRedis key, QuoteRedis (x_ID m)] @ quote_pairs (sorted_fields (x_Values m))) \<and>
    restore_call parse now ([''XADD'', QuoteRedis key, QuoteRedis (x_ID m)] @ quote_pairs (sorted_fields (x_Values m))) =
      Inr (CXAdd key (x_ID m) (sorted_fields (x_Values m)))"
proof
  let ?ws = "quote_pairs (sorted_fields (x_Values m))"
  show "command_words ([''XADD'', QuoteRedis key, QuoteRedis (x_ID m)] @ ?ws)"
    unfolding append_Cons append_Nil by (rule command_wordsI) (use verbs_plain quote_pairs_args in auto)
  have u: "map UnquoteRedisArg ?ws = concat (map (\<lambda>(k, v). [k, v]) (sorted_fields (x_Values m)))" by (rule unquote_pairs)
  have l: "length ?ws = 2 * length (sorted_fields (x_Values m))" using arg_cong [OF u, of length] length_pairs by simp
  have "sorted_fields (x_Values m) \<noteq> []" using assms(1) sorted_fields_props(1) by blast
  then have "length ?ws \<ge> 2" using l by (cases "sorted_fields (x_Values m)") auto
  with l u show "restore_call parse now ([''XADD'', QuoteRedis key, QuoteRedis (x_ID m)] @ ?ws) =
      Inr (CXAdd key (x_ID m) (sorted_fields (x_Values m)))"
    using arg_map_flat assms sorted_fields_props
    by (simp add: restore_call_def Let_def verbs_upper length_pairs not_less del: map_concat length_concat)
qed

lemma xgroup_issues:
  "command_words [''XGROUP'', ''CREATE'', QuoteRedis key, QuoteRedis g, QuoteRedis i, ''MKSTREAM''] \<and>
   restore_call parse now [''XGROUP'', ''CREATE'', QuoteRedis key, QuoteRedis g, QuoteRedis i, ''MKSTREAM''] =
     Inr (CXGroup key g i True)"
proof
  show "command_words [''XGROUP'', ''CREATE'', QuoteRedis key, QuoteRedis g, QuoteRedis i, ''MKSTREAM'']"
    by (rule command_wordsI) (use verbs_plain in auto)
qed (simp add: restore_call_def Let_def verbs_upper unquote_plain equal_fold_def numeral_nat)

lemma key_issues:
  assumes "score_text fmt parse" and "holds_key cl key v ttl"
  shows "issues parse now (key_words fmt (rd_now cl) key v ttl) (recreate (rd_now cl) now key v ttl)"
proof -
  from assms(2) have t: "in_i64 ttl" "0 \<le> ttl" "in_i64 (rd_now cl)" and a: "answers cl key v" by (auto simp: holds_key_def)
  note ex = expire_issues [OF t, of parse now key]
  note sec = ttl_sec_i64 [OF t(1,2)] and ms = unix_milli_i64 [OF t(3,1)]
  show ?thesis
  proof (cases v)
    case (VString s)
    have "command_words ([''SET'', QuoteRedis key, QuoteRedis s] @ opt)" if "\<And>x. x \<in> set opt \<Longrightarrow> plain_word x" for opt
      unfolding append_Cons append_Nil by (rule command_wordsI) (use verbs_plain that in auto)
    from this [of "[''EX'', itoa (ttl_sec ttl)]"] this [of "[''PXAT'', itoa (unix_milli (rd_now cl + ttl))]"] this [of "[]"]
    show ?thesis using VString sec ms verbs_plain itoa_plain
      by (auto simp: restore_call_def Let_def verbs_upper unquote_plain splitSetOptions_def atoi_itoa)
  next
    case (VList vs)
    have "command_words ([''RPUSH'', QuoteRedis key] @ map QuoteRedis vs)"
      unfolding append_Cons append_Nil by (rule command_wordsI) (use verbs_plain in auto)
    then show ?thesis using VList ex by (cases vs) (auto simp: restore_call_def Let_def verbs_upper comp_def)
  next
    case (VSet vs)
    have "command_words ([''SADD'', QuoteRedis key] @ map QuoteRedis vs)"
      unfolding append_Cons append_Nil by (rule command_wordsI) (use verbs_plain in auto)
    then show ?thesis using VSet ex by (cases vs) (auto simp: restore_call_def Let_def verbs_upper comp_def)
  next
    case (VHash es)
    have "command_words ([''HSET'', QuoteRedis key] @ quote_pairs es)"
      unfolding append_Cons append_Nil by (rule command_wordsI) (use verbs_plain quote_pairs_args in auto)
    moreover have "restore_call parse now ([''HSET'', QuoteRedis key] @ quote_pairs es) = Inr (CHSet key es)" if "es \<noteq> []"
    proof -
      have "Suc 0 \<le> length es" using that by (cases es) simp_all
      then show ?thesis using a VHash that
        by (simp add: restore_call_def Let_def verbs_upper unquote_pairs arg_map_flat length_pairs not_less del: map_concat length_concat)
    qed
    ultimately show ?thesis using VHash ex by simp
  next
    case (VZSet zs)
    let ?ws = "concat (map (\<lambda>z. [fmt (z_Score z), QuoteRedis (z_Member z)]) zs)"
    have "command_words ([''ZADD'', QuoteRedis key] @ ?ws)"
      unfolding append_Cons append_Nil by (rule command_wordsI) (use verbs_plain zset_words_args [OF assms(1)] in auto)
    moreover have "restore_call parse now ([''ZADD'', QuoteRedis key] @ ?ws) = Inr (CZAdd key zs)" if "zs \<noteq> []"
      using that length_zset_words [of fmt zs] zset_members_words [OF assms(1), of zs]
      by (cases zs) (simp_all add: restore_call_def Let_def verbs_upper del: map_concat zset_members.simps arg_pairs.simps)
    ultimately show ?thesis using VZSet ex by simp
  next
    case (VStream ms gs)
    have "issues parse now (map (\<lambda>m. [''XADD'', QuoteRedis key, QuoteRedis (x_ID m)] @ quote_pairs (sorted_fields (x_Values m))) ms)
        (map (\<lambda>m. CXAdd key (x_ID m) (sorted_fields (x_Values m))) ms)"
      using a VStream xadd_issues [of _ key parse now] by (auto simp: list_all2_conv_all_nth list_all_length)
    moreover have "issues parse now
        (map (\<lambda>g. [''XGROUP'', ''CREATE'', QuoteRedis key, QuoteRedis (xg_Name g), QuoteRedis (xg_LastDeliveredID g), ''MKSTREAM'']) gs)
        (map (\<lambda>g. CXGroup key (xg_Name g) (xg_LastDeliveredID g) True) gs)"
      using xgroup_issues [of key] by (auto simp: list_all2_conv_all_nth)
    ultimately show ?thesis using VStream ex by (auto intro!: list_all2_appendI)
  next
    case (VBlob b)
    then have "b \<noteq> []" using a by simp
    note p = blob_plain [OF this]
    have "command_words [''RESTOREBLOB'', QuoteRedis key, encodeRestoreBlob b]"
      by (rule command_wordsI) (use verbs_plain p in auto)
    then show ?thesis using VBlob ex UnquoteRedisArg_plain [OF p] std_b64_roundtrip [of b]
      by (simp add: restore_call_def Let_def verbs_upper decodeRestoreBlob_def encodeRestoreBlob_def)
  qed
qed

text \<open>The keys that the scan delivers from a cursor on, page after page.\<close>

inductive scan_pages :: "'f redis_reader \<Rightarrow> int \<Rightarrow> string list \<Rightarrow> bool" for cl where
  last_page: "rd_Scan cl c = Inr (ks, 0) \<Longrightarrow> scan_pages cl c ks"
| more_pages: "rd_Scan cl c = Inr (ks, c') \<Longrightarrow> c' \<noteq> 0 \<Longrightarrow> scan_pages cl c' ks' \<Longrightarrow> scan_pages cl c (ks @ ks')"

definition included :: "table_filter option \<Rightarrow> string \<Rightarrow> bool" where
  "included tables key \<longleftrightarrow> fst (TableFilter_Apply tables key)"

lemma dump_keys_lines:
  assumes "\<And>k. k \<in> set keys \<Longrightarrow> included tables k \<Longrightarrow> dumpKey fmt cl k = Some (Inr (ls k))"
  shows "dump_keys fmt cl tables keys r =
    Some (r\<lparr>dr_lines := dr_lines r @ concat (map ls (filter (included tables) keys))\<rparr>)"
  using assms by (induction keys arbitrary: r) (auto simp: included_def TableFilter_Apply_def)

lemma scan_loop_lines:
  assumes "scan_pages cl c keys" and "\<And>k. k \<in> set keys \<Longrightarrow> included tables k \<Longrightarrow> dumpKey fmt cl k = Some (Inr (ls k))"
  shows "scan_loop fmt cl tables c r =
    Some (r\<lparr>dr_lines := dr_lines r @ concat (map ls (filter (included tables) keys)), dr_scanned := dr_scanned r + length keys\<rparr>, None)"
  using assms
proof (induction arbitrary: r rule: scan_pages.induct)
  case (last_page c ks)
  then show ?case using dump_keys_lines [of ks tables fmt cl ls] by (subst scan_loop.simps) simp
next
  case (more_pages c ks c' ks')
  then show ?case using dump_keys_lines [of ks tables fmt cl ls] by (subst scan_loop.simps) (simp add: add.assoc)
qed

lemma issues_concat:
  "(\<And>k. k \<in> set ks \<Longrightarrow> issues parse now (f k) (g k)) \<Longrightarrow> issues parse now (concat (map f ks)) (concat (map g ks))"
  by (induction ks) (auto intro: list_all2_appendI)

lemma index_line:
  assumes "0 \<le> db" and "in_i64 db"
  shows "nl \<notin> set (''# Database: '' @ itoa db) \<and> last (''# Database: '' @ itoa db) \<noteq> cr \<and>
    length (''# Database: '' @ itoa db) < max_line"
proof -
  have d: "list_all is_digit (itoa db)" using assms(1) by (rule itoa_digits)
  then have "nl \<notin> set (itoa db)" "cr \<notin> set (itoa db)" by (simp_all add: digits_no_char char_names is_digit_def)
  moreover have "length (pos_itoa db) \<le> 19" using assms by (intro pos_itoa_length) (simp_all add: in_i64_def)
  moreover have "last (itoa db) \<in> set (itoa db)" by (rule last_in_set) simp
  then have "last (itoa db) \<noteq> cr" using \<open>cr \<notin> set (itoa db)\<close> by metis
  ultimately show ?thesis using assms by (simp add: max_line_def itoa_def) (simp add: char_names)
qed

lemma redis_Restore_lines:
  assumes "scanner_lines max_line out = (hs @ ls, False)" and "restore_lines parse srv now hs (s, []) = (s, [])"
    and "restore_lines parse srv now ls (s, []) = (s', sk)" and "ParseDBIndex target = Inr n"
  shows "fst (redis_Restore parse srv now None target out s) = s'"
    and "snd (redis_Restore parse srv now None target out s) = None \<longleftrightarrow> sk = []"
  using assms restore_lines_append [of parse srv now hs ls "(s, [])"] by (simp_all add: redis_Restore_def)

text \<open>
  A stream is read completely: a server that answers each request with the next entries, at
  most 1000 of them, delivers all of them to the loop, which ends.
\<close>

lemma xRangeAll_complete:
  assumes "\<And>i. i < length ms \<Longrightarrow> page (''('' @ x_ID (ms ! i)) = Inr (take 1000 (drop (Suc i) ms))"
    and "page ''-'' = Inr (take 1000 ms)"
  shows "xRangeAll_loop page ''-'' [] = Some (Inr ms)"
proof -
  have step: "page start = Inr (take 1000 (drop i ms)) \<Longrightarrow> i \<le> length ms \<Longrightarrow>
      xRangeAll_loop page start (take i ms) = Some (Inr ms)" for start i
  proof (induction "length ms - i" arbitrary: i start rule: less_induct)
    case less
    show ?case
    proof (cases "length ms - i < 1000")
      case True
      then have "take 1000 (drop i ms) = drop i ms" by simp
      with less.prems True show ?thesis
        by (subst xRangeAll_loop.simps) (auto simp: drop_eq_Nil2 le_antisym)
    next
      case False
      let ?pg = "take 1000 (drop i ms)"
      have l: "length ?pg = 1000" using False by simp
      then have "last ?pg = ms ! (i + 999)" using less.prems(2) False by (subst last_conv_nth) auto
      moreover have "page (''('' @ x_ID (ms ! (i + 999))) = Inr (take 1000 (drop (i + 1000) ms))"
        using assms(1) [of "i + 999"] False by (simp add: add.commute)
      moreover have "take i ms @ ?pg = take (i + 1000) ms" by (simp add: take_add)
      ultimately show ?thesis using less.hyps [of "i + 1000"] False l less.prems
        by (subst xRangeAll_loop.simps) auto
    qed
  qed
  from step [of "''-''" 0] assms(2) show ?thesis by simp
qed


text \<open>A server with a text, a list that expires and a sorted set, and one that records the calls it gets.\<close>

definition lab_val :: "string \<Rightarrow> bool rvalue" where
  "lab_val k = (if k = ''greeting'' then VString (''say '' @ [quot] @ ''hi'' @ [quot, nl])
     else if k = ''queue'' then VList [''a b'', []] else VZSet [\<lparr>z_Score = True, z_Member = ''x''\<rparr>])"

definition lab_ttl :: "string \<Rightarrow> int" where
  "lab_ttl k = (if k = ''queue'' then 60 * ns_s else 0)"

definition lab_reader :: "bool redis_reader" where
  "lab_reader = \<lparr>rd_Scan = (\<lambda>c. if c = 0 then Inr ([''greeting'', ''queue''], 7) else Inr ([''ranks''], 0)),
     rd_TTL = (\<lambda>k. Inr (if k = ''queue'' then 60 * ns_s else -1)),
     rd_Type = (\<lambda>k. Inr (if k = ''greeting'' then ''string'' else if k = ''queue'' then ''list'' else ''zset'')),
     rd_Get = (\<lambda>k. Inr (''say '' @ [quot] @ ''hi'' @ [quot, nl])), rd_LRange = (\<lambda>k. Inr [''a b'', []]),
     rd_SMembers = (\<lambda>k. Inl []), rd_HGetAll = (\<lambda>k. Inl []), rd_ZRange = (\<lambda>k. Inr [\<lparr>z_Score = True, z_Member = ''x''\<rparr>]),
     rd_XRangeN = (\<lambda>k i. Inl []), rd_XGroups = (\<lambda>k. Inl []), rd_Dump = (\<lambda>k. Inl []), rd_now = 1000 * ns_s\<rparr>"

definition bit_text :: "bool \<Rightarrow> string" where
  "bit_text b = (if b then ''1'' else ''0'')"

definition bit_read :: "string \<Rightarrow> bool option" where
  "bit_read s = (if s = ''1'' then Some True else if s = ''0'' then Some False else None)"

definition recorder :: "('f, 'f redis_call list) redis_server" where
  "recorder c s = (s @ [c], None)"


text \<open>
  A text value of 16 MiB or more is dumped and not restored: the line does not fit into the
  buffer of the restore, which ends with an error, and no later line is read.
\<close>

lemma long_value_line: "length v < length (''SET '' @ k @ '' '' @ QuoteRedis v)"
proof -
  have "length v \<le> length (each_char esc_redis v)" by (rule redis.escape_length)
  then show ?thesis by (simp add: QuoteRedis_each)
qed

theorem redis_long_value_not_restored:
  assumes "max_line \<le> length v" and "ParseDBIndex target = Inr n" and "nl \<notin> set (concat later)"
  shows "redis_Restore parse srv now None target (unlines (writeWithTTL t0 (QuoteRedis k) v 0 @ later)) s = (s, Some LineTooLong)"
proof -
  let ?l = "''SET '' @ QuoteRedis k @ '' '' @ QuoteRedis v"
  have w: "writeWithTTL t0 (QuoteRedis k) v 0 = [?l]" by (simp add: writeWithTTL_def Let_def ttl_sec_def go_quot_def)
  have "nl \<notin> set ?l" using QuoteRedis_ends by (simp add: char_names)
  then have "go_lines (unlines (?l # later)) = ?l # later"
    using assms(3) by (intro go_lines_unlines) auto
  moreover have "max_line \<le> length ?l" using long_value_line [of v "QuoteRedis k"] assms(1) by simp
  ultimately show ?thesis using assms(2) unfolding w by (simp add: redis_Restore_def scanner_lines_def)
qed

lemma redis_long_value_not_restored_witness:
  "redis_Restore bit_read recorder 0 None ''0'' (unlines (writeWithTTL 0 (QuoteRedis ''k'') (replicate max_line (CHR ''x'')) 0 @ [''SET a b''])) [] =
     ([], Some LineTooLong)"
  by (rule redis_long_value_not_restored [where n = 0]) (simp_all add: ParseDBIndex_def trim_space_def is_space_def atoi_def
      atoi_raw_def is_digit_def digits_val_def digit_val_def in_i64_def clamp64_def char_names)

end
