(* ===== verification/MsSql.thy ===== *)
theory MsSql
  imports EngineCommon
begin

text \<open>
  The engine for SQL Server (\<open>internal/database/engine/mssql\<close>): \<open>mssql.go\<close>, the dump of tables
  with their rows in batches, constraints, indexes, views, triggers and routines, and \<open>ops.go\<close>,
  the restore of a dump batch by batch and the maintenance. The queries to the server are a
  record of functions; the text written to the dump is the result, with the error that ended it.

  The loop that orders the views need not end and is a partial function. The lemmas show that it
  ends when no two views have the same name, with every view behind those it uses, and that it
  never ends otherwise; that the restore executes exactly the batches of a dump, and the rows of a
  table as they were dumped, as long as no line of a value reads like the separator of batches.
\<close>

section \<open>Names, types and values\<close>

definition quoteMSSQLIdent :: "string \<Rightarrow> string" where
  "quoteMSSQLIdent s = ''['' @ replace_char (CHR '']'') '']]'' s @ '']''"

definition escapeMSSQL :: "string \<Rightarrow> string" where
  "escapeMSSQL s = replace_char squote [squote, squote] s"

definition mssqlStringLikeTypes :: "string list" where
  "mssqlStringLikeTypes = [''char'', ''varchar'', ''nchar'', ''nvarchar'', ''text'', ''ntext'', ''xml'', ''uniqueidentifier'',
     ''datetime'', ''datetime2'', ''smalldatetime'', ''date'', ''time'', ''datetimeoffset'', ''money'', ''smallmoney'', ''decimal'',
     ''numeric'', ''float'', ''real'', ''bit'', ''sysname'', ''sql_variant'']"

definition mssqlUnicodeTypes :: "string list" where
  "mssqlUnicodeTypes = [''nchar'', ''nvarchar'', ''ntext'', ''xml'', ''sysname'']"

definition isStringLikeType :: "string \<Rightarrow> bool" where
  "isStringLikeType dataType \<longleftrightarrow> to_lower dataType \<in> set mssqlStringLikeTypes"

definition isUnicodeType :: "string \<Rightarrow> bool" where
  "isUnicodeType dataType \<longleftrightarrow> to_lower dataType \<in> set mssqlUnicodeTypes"

definition formatMSSQLType :: "string \<Rightarrow> int option \<Rightarrow> string" where
  "formatMSSQLType dataType maxLen =
     (let dt = to_lower dataType
      in case maxLen of
           Some n \<Rightarrow>
             if dt \<in> {''char'', ''varchar'', ''nchar'', ''nvarchar''}
             then (if n = -1 then to_upper dt @ ''(MAX)'' else to_upper dt @ ''('' @ itoa n @ '')'')
             else to_upper dt
         | None \<Rightarrow> to_upper dt)"

text \<open>
  What the driver scans into a value. Floating-point numbers, instants and other values are
  given by the text that the code formats them to.
\<close>

datatype ms_value = MNull | MBytes string | MInt int | MFloat string | MBool bool | MString string | MTime string | MOther string

definition ms_literal :: "string \<Rightarrow> ms_value \<Rightarrow> string" where
  "ms_literal dt v =
     (let quoted = (\<lambda>s. (if isUnicodeType dt then ''N'' else []) @ [squote] @ escapeMSSQL s @ [squote])
      in case v of
           MNull \<Rightarrow> ''NULL''
         | MBytes b \<Rightarrow> if isStringLikeType dt then quoted b else ''0x'' @ hex_encode b
         | MInt n \<Rightarrow> itoa n
         | MFloat f \<Rightarrow> f
         | MBool b \<Rightarrow> if b then ''1'' else ''0''
         | MString s \<Rightarrow> quoted s
         | MTime t \<Rightarrow> [squote] @ t @ [squote]
         | MOther s \<Rightarrow> [squote] @ escapeMSSQL s @ [squote])"

definition ms_table :: "string \<Rightarrow> string \<Rightarrow> string" where
  "ms_table dbName table = quoteMSSQLIdent dbName @ ''.[dbo].'' @ quoteMSSQLIdent table"

section \<open>Constraints and indexes\<close>

record key_column =
  kc_name :: string
  kc_desc :: bool

definition key_part :: "key_column \<Rightarrow> string" where
  "key_part c = quoteMSSQLIdent (kc_name c) @ (if kc_desc c then '' DESC'' else '' ASC'')"

definition add_constraint :: "string \<Rightarrow> string \<Rightarrow> string \<Rightarrow> string" where
  "add_constraint dbName table name = ''ALTER TABLE '' @ ms_table dbName table @ '' ADD CONSTRAINT '' @ quoteMSSQLIdent name"

definition buildKeyConstraint :: "string \<Rightarrow> string \<Rightarrow> string \<Rightarrow> string \<Rightarrow> bool \<Rightarrow> key_column list \<Rightarrow> string" where
  "buildKeyConstraint dbName table name kind clustered cols =
     add_constraint dbName table name @ '' '' @ kind @ '' '' @ (if clustered then ''CLUSTERED'' else ''NONCLUSTERED'') @
     '' ('' @ join '', '' (map key_part cols) @ '');''"

definition buildForeignKey ::
  "string \<Rightarrow> string \<Rightarrow> string \<Rightarrow> string \<Rightarrow> string list \<Rightarrow> string list \<Rightarrow> string \<Rightarrow> string \<Rightarrow> string" where
  "buildForeignKey dbName table name refTable cols refCols onDelete onUpdate =
     add_constraint dbName table name @ '' FOREIGN KEY ('' @ join '', '' (map quoteMSSQLIdent cols) @ '') REFERENCES '' @
     ms_table dbName refTable @ '' ('' @ join '', '' (map quoteMSSQLIdent refCols) @ '')'' @
     (if onDelete \<noteq> [] then '' ON DELETE '' @ onDelete else []) @
     (if onUpdate \<noteq> [] then '' ON UPDATE '' @ onUpdate else []) @ '';''"

definition buildCheckConstraint :: "string \<Rightarrow> string \<Rightarrow> string \<Rightarrow> string \<Rightarrow> string" where
  "buildCheckConstraint dbName table name definition = add_constraint dbName table name @ '' CHECK '' @ definition @ '';''"

definition buildCreateIndex ::
  "string \<Rightarrow> string \<Rightarrow> string \<Rightarrow> bool \<Rightarrow> bool \<Rightarrow> key_column list \<Rightarrow> string list \<Rightarrow> string \<Rightarrow> string" where
  "buildCreateIndex dbName table name unique clustered keys includes flt =
     ''CREATE '' @ (if unique then ''UNIQUE '' else []) @ (if clustered then ''CLUSTERED'' else ''NONCLUSTERED'') @ '' INDEX '' @
     quoteMSSQLIdent name @ '' ON '' @ ms_table dbName table @ '' ('' @ join '', '' (map key_part keys) @ '')'' @
     (if includes \<noteq> [] then '' INCLUDE ('' @ join '', '' (map quoteMSSQLIdent includes) @ '')'' else []) @
     (if flt \<noteq> [] then '' WHERE '' @ flt else []) @ '';''"

definition referentialAction :: "string \<Rightarrow> string" where
  "referentialAction desc = (if desc = ''NO_ACTION'' then [] else replace_char (CHR ''_'') '' '' desc)"

record fk_def =
  fk_name :: string
  fk_refTable :: string
  fk_onDelete :: string
  fk_onUpdate :: string
  fk_cols :: "string list"
  fk_refCols :: "string list"

text \<open>A row of the foreign keys: name, actions, column, referenced column, table, disabled.\<close>

type_synonym fk_row = "string \<times> string \<times> string \<times> string \<times> string \<times> string \<times> bool"

fun add_fk :: "fk_row \<Rightarrow> fk_def list \<Rightarrow> fk_def list" where
  "add_fk (name, delAct, updAct, pcol, rcol, rtable, disabled) fks =
     (if disabled then fks
      else if name \<in> fk_name ` set fks then
        map (\<lambda>fk. if fk_name fk = name then fk\<lparr>fk_cols := fk_cols fk @ [pcol], fk_refCols := fk_refCols fk @ [rcol]\<rparr> else fk) fks
      else fks @ [\<lparr>fk_name = name, fk_refTable = rtable, fk_onDelete = referentialAction delAct,
                    fk_onUpdate = referentialAction updAct, fk_cols = [pcol], fk_refCols = [rcol]\<rparr>])"

text \<open>
  The sorting of index columns: the comparison looks up the ordinals by position, and they are
  not moved with the columns. Up to 12 elements the Go library sorts by insertion; \<open>big\<close> is what
  it does with longer slices.
\<close>

fun sift :: "int list \<Rightarrow> nat \<Rightarrow> 'a list \<Rightarrow> 'a list" where
  "sift ords 0 xs = xs"
| "sift ords (Suc j) xs =
     (if ords ! Suc j < ords ! j then sift ords j (xs[Suc j := xs ! j, j := xs ! Suc j]) else xs)"

definition sort_keys :: "(int list \<Rightarrow> 'a list \<Rightarrow> 'a list) \<Rightarrow> int list \<Rightarrow> 'a list \<Rightarrow> 'a list" where
  "sort_keys big ords xs = (if length xs \<le> 12 then fold (sift ords) [1..<length xs] xs else big ords xs)"

section \<open>The order of views\<close>

text \<open>The views among the names that a view uses.\<close>

definition view_needs :: "string list \<Rightarrow> (string \<times> string) list \<Rightarrow> string \<Rightarrow> string list" where
  "view_needs names deps n = map snd (filter (\<lambda>(a, b). a = n \<and> a \<noteq> b \<and> a \<in> set names \<and> b \<in> set names) deps)"

text \<open>One round over the names; what is written so far is also what is done.\<close>

definition view_round :: "string list \<Rightarrow> (string \<times> string) list \<Rightarrow> string list \<Rightarrow> string list" where
  "view_round names deps out =
     fold (\<lambda>n out. if n \<in> set out then out
                   else if list_all (\<lambda>d. d \<in> set out) (view_needs names deps n) then out @ [n] else out) names out"

definition view_rest :: "string list \<Rightarrow> string list \<Rightarrow> string list" where
  "view_rest names out = fold (\<lambda>n out. if n \<in> set out then out else out @ [n]) names out"

partial_function (option) view_loop :: "string list \<Rightarrow> (string \<times> string) list \<Rightarrow> string list \<Rightarrow> string list option" where
  "view_loop names deps out =
     (if length out < length names then
        (let out' = view_round names deps out
         in view_loop names deps (if out' = out then view_rest names out else out'))
      else Some out)"

declare view_loop.simps [code]

definition orderViewsByDependency :: "string list \<Rightarrow> (string \<times> string) list \<Rightarrow> string list option" where
  "orderViewsByDependency names deps = view_loop names deps []"

section \<open>Rows of a table\<close>

record column_flag =
  cf_computed :: bool
  cf_definition :: string
  cf_persisted :: bool
  cf_identity :: bool
  cf_seed :: string
  cf_step :: string

definition no_flag :: column_flag where
  "no_flag = \<lparr>cf_computed = False, cf_definition = [], cf_persisted = False, cf_identity = False, cf_seed = [], cf_step = []\<rparr>"

definition insertableMSSQLColumns :: "string list \<Rightarrow> string list \<Rightarrow> string list" where
  "insertableMSSQLColumns cols computed = filter (\<lambda>c. c \<notin> set computed) cols"

definition batchSize :: nat where
  "batchSize = 500"

text \<open>
  The loop over the rows with the text of each: the rows of the open batch, the rows so far and
  the text written. A row that fails to scan ends the dump.
\<close>

fun row_loop :: "string \<Rightarrow> string \<Rightarrow> (string + string) list \<Rightarrow> nat \<Rightarrow> nat \<Rightarrow> string \<Rightarrow> string \<times> nat \<times> string option" where
  "row_loop on header [] batchRows rowCount out = (out, batchRows, None)"
| "row_loop on header (Inl e # rs) batchRows rowCount out = (out, batchRows, Some e)"
| "row_loop on header (Inr row # rs) batchRows rowCount out =
     (let pre = (if batchRows = 0 then (if rowCount = 0 then on else []) @ header
                 else if batchRows < batchSize then '','' @ [nl] else []);
          out' = out @ pre @ row
      in if Suc batchRows \<ge> batchSize
         then row_loop on header rs 0 (Suc rowCount) (out' @ '';'' @ [nl] @ ''GO'' @ [nl, nl])
         else row_loop on header rs (Suc batchRows) (Suc rowCount) out')"

definition write_table_rows :: "string \<Rightarrow> string \<Rightarrow> string \<Rightarrow> (string + string) list \<Rightarrow> string option \<Rightarrow> written" where
  "write_table_rows on off header rs err =
     (case row_loop on header rs 0 0 [] of
        (out, _, Some e) \<Rightarrow> (out, Some e)
      | (out, batchRows, None) \<Rightarrow>
          (out @ (if batchRows > 0 then '';'' @ [nl] @ ''GO'' @ [nl] @ off @ [nl] else []), err))"

definition identity_insert :: "string \<Rightarrow> string \<Rightarrow> string \<Rightarrow> string" where
  "identity_insert dbName table sw = ''SET IDENTITY_INSERT '' @ ms_table dbName table @ '' '' @ sw @ '';'' @ [nl]"

definition ms_insert_header :: "string \<Rightarrow> string \<Rightarrow> string list \<Rightarrow> string" where
  "ms_insert_header dbName table insertCols =
     ''INSERT INTO '' @ ms_table dbName table @ '' ('' @ join '', '' (map quoteMSSQLIdent insertCols) @ '') VALUES'' @ [nl]"

definition ms_row_text :: "string list \<Rightarrow> (string \<Rightarrow> string) \<Rightarrow> string list \<Rightarrow> ms_value list \<Rightarrow> string" where
  "ms_row_text insertCols colType cols vals =
     ''('' @ join '', '' (map (\<lambda>(c, v). ms_literal (colType c) v) (filter (\<lambda>(c, v). c \<in> set insertCols) (zip cols vals))) @ '')''"

section \<open>Objects of a database\<close>

text \<open>The queries of the dump; a table that is not found has the object 0.\<close>

record mssql_reader =
  ms_tables :: "string \<Rightarrow> string rows"
  ms_columns :: "string \<Rightarrow> string \<Rightarrow> (string \<times> string \<times> int option \<times> string \<times> string option) rows"
  ms_flags :: "string \<Rightarrow> string \<Rightarrow> (string \<times> bool \<times> string option \<times> bool option \<times> bool \<times> string option \<times> string option) rows"
  ms_select :: "string \<Rightarrow> string \<Rightarrow> string + string list \<times> (string + ms_value list) list \<times> string option"
  ms_ones :: "string \<Rightarrow> string \<Rightarrow> unit rows"
  ms_objectID :: "string \<Rightarrow> string \<Rightarrow> string + int"
  ms_primaryKey :: "string \<Rightarrow> int \<Rightarrow> string + (string \<times> string \<times> int) option"
  ms_uniques :: "string \<Rightarrow> int \<Rightarrow> (string \<times> string \<times> int) rows"
  ms_keyColumns :: "string \<Rightarrow> int \<Rightarrow> int \<Rightarrow> key_column rows"
  ms_foreignKeys :: "string \<Rightarrow> int \<Rightarrow> fk_row rows"
  ms_checks :: "string \<Rightarrow> int \<Rightarrow> (string \<times> string) rows"
  ms_indexes :: "string \<Rightarrow> int \<Rightarrow> (int \<times> string \<times> bool \<times> int \<times> bool \<times> string option) rows"
  ms_indexColumns :: "string \<Rightarrow> int \<Rightarrow> int \<Rightarrow> (string \<times> bool \<times> bool \<times> int) rows"
  ms_views :: "string \<Rightarrow> (string \<times> string) rows"
  ms_viewDeps :: "string \<Rightarrow> (string \<times> string) rows"
  ms_triggers :: "string \<Rightarrow> (string \<times> string \<times> string) rows"
  ms_routines :: "string \<Rightarrow> (string \<times> string \<times> string) rows"
  ms_databases :: "string rows"
  ms_sortLong :: "int list \<Rightarrow> key_column list \<Rightarrow> key_column list"

record mssql_options =
  ms_Tables :: "table_filter option"
  ms_SchemaOnly :: bool

fun flag_of :: "(string \<times> bool \<times> string option \<times> bool option \<times> bool \<times> string option \<times> string option) \<Rightarrow> string \<times> column_flag" where
  "flag_of (name, computed, definition, persisted, identity, seed, step) =
     (name, \<lparr>cf_computed = computed, cf_definition = (case definition of Some d \<Rightarrow> d | None \<Rightarrow> []),
       cf_persisted = (persisted = Some True), cf_identity = identity,
       cf_seed = (case seed of Some x \<Rightarrow> x | None \<Rightarrow> []), cf_step = (case step of Some x \<Rightarrow> x | None \<Rightarrow> [])\<rparr>)"

text \<open>A Go map: the last row of a name counts.\<close>

definition columnFlags :: "mssql_reader \<Rightarrow> string \<Rightarrow> string \<Rightarrow> string + (string \<times> column_flag) list" where
  "columnFlags r dbName table =
     (case all_rows (ms_flags r dbName table) of Inl e \<Rightarrow> Inl e | Inr rs \<Rightarrow> Inr (rev (map flag_of rs)))"

definition flag_for :: "(string \<times> column_flag) list \<Rightarrow> string \<Rightarrow> column_flag" where
  "flag_for flags col = (case map_of flags col of Some fl \<Rightarrow> fl | None \<Rightarrow> no_flag)"

definition computed_columns :: "(string \<times> column_flag) list \<Rightarrow> string list" where
  "computed_columns flags = filter (\<lambda>c. cf_computed (flag_for flags c)) (map fst flags)"

fun column_text :: "(string \<times> column_flag) list \<Rightarrow> string \<times> string \<times> int option \<times> string \<times> string option \<Rightarrow> string" where
  "column_text flags (col, dataType, maxLen, nullable, colDef) =
     (let fl = flag_for flags col
      in if cf_computed fl
         then ''    '' @ quoteMSSQLIdent col @ '' AS ('' @ cf_definition fl @ '')'' @ (if cf_persisted fl then '' PERSISTED'' else [])
         else ''    '' @ quoteMSSQLIdent col @ '' '' @ formatMSSQLType dataType maxLen @
              (if nullable = ''NO'' then '' NOT NULL'' else []) @
              (case colDef of Some d \<Rightarrow> '' DEFAULT '' @ d | None \<Rightarrow> []) @
              (if cf_identity fl then '' IDENTITY('' @ cf_seed fl @ '', '' @ cf_step fl @ '')'' else []))"

text \<open>The columns of a table: an iteration that breaks off is not noticed here.\<close>

definition table_columns ::
  "mssql_reader \<Rightarrow> string \<Rightarrow> string \<Rightarrow> string + (string \<times> string \<times> int option \<times> string \<times> string option) list" where
  "table_columns r dbName table =
     (case ms_columns r dbName table of Inl e \<Rightarrow> Inl e | Inr (rs, _) \<Rightarrow> scan_rows rs None)"

definition create_table :: "string \<Rightarrow> string \<Rightarrow> string list \<Rightarrow> string" where
  "create_table dbName table cols =
     ''DROP TABLE IF EXISTS '' @ ms_table dbName table @ '';'' @ [nl] @ ''GO'' @ [nl] @ ''-- Table: '' @ table @ [nl] @
     ''CREATE TABLE '' @ ms_table dbName table @ '' ('' @ [nl] @ join ('','' @ [nl]) cols @ [nl] @ '');'' @ [nl, nl] @ ''GO'' @ [nl, nl]"

definition dumpDefaultRows :: "mssql_reader \<Rightarrow> string \<Rightarrow> string \<Rightarrow> written" where
  "dumpDefaultRows r dbName table =
     (case ms_ones r dbName table of
        Inl e \<Rightarrow> ([], Some e)
      | Inr (rs, err) \<Rightarrow>
          (concat (map (\<lambda>_. ''INSERT INTO '' @ ms_table dbName table @ '' DEFAULT VALUES;'' @ [nl] @ ''GO'' @ [nl]) rs) @
           (if rs \<noteq> [] then [nl] else []), err))"

definition ms_dump_data ::
  "mssql_reader \<Rightarrow> string \<Rightarrow> string \<Rightarrow> (string \<times> column_flag) list \<Rightarrow> (string \<Rightarrow> string) \<Rightarrow> written" where
  "ms_dump_data r dbName table flags colType =
     (case ms_select r dbName table of
        Inl e \<Rightarrow> ([], Some e)
      | Inr (cols, rs, err) \<Rightarrow>
          (let insertCols = insertableMSSQLColumns cols (computed_columns flags);
               identityInsert = list_ex (\<lambda>c. cf_identity (flag_for flags c)) insertCols
           in if insertCols = [] then dumpDefaultRows r dbName table
              else write_table_rows (if identityInsert then identity_insert dbName table ''ON'' else [])
                     (if identityInsert then identity_insert dbName table ''OFF'' else [])
                     (ms_insert_header dbName table insertCols)
                     (map (map_sum id (ms_row_text insertCols colType cols)) rs) err))"

definition ms_dumpTable :: "mssql_reader \<Rightarrow> mssql_options \<Rightarrow> string \<Rightarrow> string \<Rightarrow> written" where
  "ms_dumpTable r opts dbName table =
     (case (case ms_columns r dbName table of Inl e \<Rightarrow> Inl e | Inr _ \<Rightarrow> columnFlags r dbName table) of
        Inl e \<Rightarrow> ([], Some e)
      | Inr flags \<Rightarrow>
          (case table_columns r dbName table of
             Inl e \<Rightarrow> ([], Some e)
           | Inr cols \<Rightarrow>
               then_write (create_table dbName table (map (column_text flags) cols), None) (\<lambda>_.
                 if ms_SchemaOnly opts \<or> (ms_Tables opts \<noteq> None \<and> snd (TableFilter_Apply (ms_Tables opts) table)) then ([], None)
                 else ms_dump_data r dbName table flags
                        (\<lambda>c. case map_of (rev (map (\<lambda>x. (fst x, fst (snd x))) cols)) c of Some t \<Rightarrow> t | None \<Rightarrow> []))))"

definition with_go :: "string list \<Rightarrow> string" where
  "with_go ls = concat (map (\<lambda>l. l @ [nl] @ ''GO'' @ [nl]) ls)"

text \<open>A check that ends a list of statements before anything is written.\<close>

definition stmts_then :: "string + string list \<Rightarrow> (unit \<Rightarrow> string + string list) \<Rightarrow> string + string list" where
  "stmts_then a b = (case a of Inl e \<Rightarrow> Inl e | Inr xs \<Rightarrow> (case b () of Inl e \<Rightarrow> Inl e | Inr ys \<Rightarrow> Inr (xs @ ys)))"

fun stmts_all :: "('a \<Rightarrow> string + string list) \<Rightarrow> 'a list \<Rightarrow> string + string list" where
  "stmts_all f [] = Inr []"
| "stmts_all f (x # xs) = stmts_then (f x) (\<lambda>_. stmts_all f xs)"

definition key_constraint ::
  "mssql_reader \<Rightarrow> string \<Rightarrow> string \<Rightarrow> int \<Rightarrow> string \<Rightarrow> string \<times> string \<times> int \<Rightarrow> string + string list" where
  "key_constraint r dbName table oid kind k =
     (case k of (name, typ, index) \<Rightarrow>
        (case all_rows (ms_keyColumns r dbName oid index) of
           Inl e \<Rightarrow> Inl e
         | Inr cols \<Rightarrow> Inr [buildKeyConstraint dbName table name kind (typ = ''CLUSTERED'') cols]))"

definition table_constraints :: "mssql_reader \<Rightarrow> string \<Rightarrow> string \<Rightarrow> int \<Rightarrow> string + string list" where
  "table_constraints r dbName table oid =
     stmts_then (case ms_primaryKey r dbName oid of
                   Inl e \<Rightarrow> Inl e | Inr None \<Rightarrow> Inr [] | Inr (Some k) \<Rightarrow> key_constraint r dbName table oid ''PRIMARY KEY'' k) (\<lambda>_.
     stmts_then (case all_rows (ms_uniques r dbName oid) of
                   Inl e \<Rightarrow> Inl e | Inr ks \<Rightarrow> stmts_all (key_constraint r dbName table oid ''UNIQUE'') ks) (\<lambda>_.
     stmts_then (case all_rows (ms_foreignKeys r dbName oid) of
                   Inl e \<Rightarrow> Inl e
                 | Inr rs \<Rightarrow> Inr (map (\<lambda>fk. buildForeignKey dbName table (fk_name fk) (fk_refTable fk) (fk_cols fk) (fk_refCols fk)
                                            (fk_onDelete fk) (fk_onUpdate fk)) (fold add_fk rs []))) (\<lambda>_.
       case all_rows (ms_checks r dbName oid) of
         Inl e \<Rightarrow> Inl e | Inr cs \<Rightarrow> Inr (map (\<lambda>(name, definition). buildCheckConstraint dbName table name definition) cs))))"

text \<open>The statements of a section, under a heading, for every table that is found.\<close>

definition per_table ::
  "mssql_reader \<Rightarrow> string \<Rightarrow> string \<Rightarrow> (string \<Rightarrow> int \<Rightarrow> string + string list) \<Rightarrow> string list \<Rightarrow> written" where
  "per_table r dbName heading stmts tables =
     write_all (\<lambda>table.
       case ms_objectID r dbName table of
         Inl e \<Rightarrow> ([], Some e)
       | Inr oid \<Rightarrow>
           if oid = 0 then ([], None)
           else (case stmts table oid of
                   Inl e \<Rightarrow> ([], Some e)
                 | Inr [] \<Rightarrow> ([], None)
                 | Inr ls \<Rightarrow> ([nl] @ ''-- '' @ heading @ '': '' @ table @ [nl] @ with_go ls, None))) tables"

definition dumpConstraints :: "mssql_reader \<Rightarrow> string \<Rightarrow> string list \<Rightarrow> written" where
  "dumpConstraints r dbName tables = per_table r dbName ''Constraints'' (\<lambda>table oid. table_constraints r dbName table oid) tables"

fun index_statement ::
  "mssql_reader \<Rightarrow> string \<Rightarrow> string \<Rightarrow> int \<Rightarrow> int \<times> string \<times> bool \<times> int \<times> bool \<times> string option \<Rightarrow> string + string list" where
  "index_statement r dbName table oid (ix, name, unique, indexType, hasFilter, filterDef) =
     (case all_rows (ms_indexColumns r dbName oid ix) of
        Inl e \<Rightarrow> Inl e
      | Inr cols \<Rightarrow>
          (let includes = map fst (filter (\<lambda>(_, _, included, _). included) cols);
               keyRows = filter (\<lambda>(_, _, included, _). \<not> included) cols;
               keys = map (\<lambda>(n, desc, _, _). \<lparr>kc_name = n, kc_desc = desc\<rparr>) keyRows;
               ords = map (\<lambda>(_, _, _, ord). ord) keyRows
           in Inr [buildCreateIndex dbName table name unique (indexType = 1) (sort_keys (ms_sortLong r) ords keys) includes
                     (case filterDef of Some d \<Rightarrow> if hasFilter then d else [] | None \<Rightarrow> [])]))"

definition table_indexes :: "mssql_reader \<Rightarrow> string \<Rightarrow> string \<Rightarrow> int \<Rightarrow> string + string list" where
  "table_indexes r dbName table oid =
     (case all_rows (ms_indexes r dbName oid) of
        Inl e \<Rightarrow> Inl e
      | Inr ixs \<Rightarrow>
          stmts_all (index_statement r dbName table oid) (filter (\<lambda>(_, _, _, typ, _, _). typ = 1 \<or> typ = 2) ixs))"

definition dumpIndexes :: "mssql_reader \<Rightarrow> string \<Rightarrow> string list \<Rightarrow> written" where
  "dumpIndexes r dbName tables = per_table r dbName ''Indexes'' (\<lambda>table oid. table_indexes r dbName table oid) tables"

definition module_text :: "string \<Rightarrow> string \<Rightarrow> string \<Rightarrow> string \<Rightarrow> string" where
  "module_text title kind name definition =
     [nl] @ ''-- '' @ title @ [nl] @ ''DROP '' @ kind @ '' IF EXISTS '' @ quoteMSSQLIdent name @ '';'' @ [nl] @ ''GO'' @ [nl] @
     trim_suffix (trim_space definition) '';'' @ '';'' @ [nl] @ ''GO'' @ [nl, nl]"

text \<open>The result \<open>None\<close>: the loop that orders the views does not end.\<close>

definition dumpViews :: "mssql_reader \<Rightarrow> mssql_options \<Rightarrow> string \<Rightarrow> written option" where
  "dumpViews r opts dbName =
     (case all_rows (ms_views r dbName) of
        Inl e \<Rightarrow> Some ([], Some e)
      | Inr rs \<Rightarrow>
          (let views = filter (\<lambda>v. ms_Tables opts = None \<or> fst (TableFilter_Apply (ms_Tables opts) (fst v))) rs;
               names = map fst views;
               defs = map_of (rev views)
           in if names = [] then Some ([], None)
              else case all_rows (ms_viewDeps r dbName) of
                     Inl e \<Rightarrow> Some ([], Some e)
                   | Inr deps \<Rightarrow>
                       map_option (\<lambda>order. (concat (map (\<lambda>name.
                           module_text (''View: '' @ name) ''VIEW'' name (case defs name of Some d \<Rightarrow> d | None \<Rightarrow> [])) order), None))
                         (orderViewsByDependency names deps)))"

definition ms_dumpTriggers :: "mssql_reader \<Rightarrow> string \<Rightarrow> string list \<Rightarrow> written" where
  "ms_dumpTriggers r dbName tables =
     write_query (\<lambda>(name, definition, parent).
       if parent \<in> set tables
       then module_text (''Trigger: '' @ name @ '' (on '' @ parent @ '')'') ''TRIGGER'' name definition else [])
       (ms_triggers r dbName)"

definition ms_dumpRoutines :: "mssql_reader \<Rightarrow> string \<Rightarrow> written" where
  "ms_dumpRoutines r dbName =
     write_query (\<lambda>(name, typ, definition).
       module_text (''Routine: '' @ name) (if typ = ''P'' then ''PROCEDURE'' else ''FUNCTION'') name definition)
       (ms_routines r dbName)"

definition then_some :: "written option \<Rightarrow> (unit \<Rightarrow> written option) \<Rightarrow> written option" where
  "then_some a b =
     (case a of
        None \<Rightarrow> None
      | Some (out, Some e) \<Rightarrow> Some (out, Some e)
      | Some (out, None) \<Rightarrow> map_option (\<lambda>(out', e). (out @ out', e)) (b ()))"

definition ms_dumpDatabase :: "mssql_reader \<Rightarrow> mssql_options \<Rightarrow> string \<Rightarrow> written option" where
  "ms_dumpDatabase r opts dbName =
     (case all_rows (ms_tables r dbName) of
        Inl e \<Rightarrow> Some ([], Some e)
      | Inr tables \<Rightarrow>
          (let dumped = filter (\<lambda>t. ms_Tables opts = None \<or> fst (TableFilter_Apply (ms_Tables opts) t)) tables
           in then_some (Some (''-- Database: '' @ dbName @ [nl], None)) (\<lambda>_.
              then_some (Some (write_all (ms_dumpTable r opts dbName) dumped)) (\<lambda>_.
              then_some (Some (dumpConstraints r dbName dumped)) (\<lambda>_.
              then_some (Some (dumpIndexes r dbName dumped)) (\<lambda>_.
              then_some (dumpViews r opts dbName) (\<lambda>_.
              then_some (Some (ms_dumpTriggers r dbName dumped)) (\<lambda>_.
                Some (ms_dumpRoutines r dbName)))))))))"

fun ms_dump_all :: "mssql_reader \<Rightarrow> mssql_options \<Rightarrow> string list \<Rightarrow> written option" where
  "ms_dump_all r opts [] = Some ([], None)"
| "ms_dump_all r opts (db # dbs) = then_some (ms_dumpDatabase r opts db) (\<lambda>_. ms_dump_all r opts dbs)"

definition ms_listDatabases :: "mssql_reader \<Rightarrow> string + string list" where
  "ms_listDatabases r = all_rows (ms_databases r)"

text \<open>The dump behind its banner, whose text has the time and the version of the program.\<close>

definition ms_Dump :: "mssql_reader \<Rightarrow> mssql_options \<Rightarrow> string \<Rightarrow> string list \<Rightarrow> written option" where
  "ms_Dump r opts banner dbNames =
     then_some (Some (banner @ ''--'' @ [nl, nl], None)) (\<lambda>_.
       case (if length dbNames = 1 \<and> to_lower (hd dbNames) = ''all'' then ms_listDatabases r else Inr dbNames) of
         Inl e \<Rightarrow> Some ([], Some e)
       | Inr names \<Rightarrow> ms_dump_all r opts names)"

section \<open>Restore\<close>

definition isGOSeparator :: "string \<Rightarrow> bool" where
  "isGOSeparator line \<longleftrightarrow> equal_fold (trim_space line) ''GO''"

definition markerSourceDB :: "string \<Rightarrow> string option" where
  "markerSourceDB line =
     (let trimmed = trim_space line
      in if \<not> has_prefix trimmed ''-- Database:'' then None
         else let name = trim_space (trim_prefix trimmed ''-- Database:'') in if name \<noteq> [] then Some name else None)"

type_synonym 's yield = "string \<Rightarrow> string \<Rightarrow> 's \<Rightarrow> 's \<times> string option"

definition ms_flush :: "'s yield \<Rightarrow> string \<Rightarrow> string \<Rightarrow> 's \<Rightarrow> 's \<times> string option" where
  "ms_flush yield pending sourceDB st =
     (let batch = trim_space pending in if batch = [] then (st, None) else yield batch sourceDB st)"

definition source_of :: "string \<Rightarrow> string \<Rightarrow> string" where
  "source_of line sourceDB =
     (if sourceDB = [] then (case markerSourceDB line of Some src \<Rightarrow> src | None \<Rightarrow> []) else sourceDB)"

text \<open>The lines of the dump; \<open>read_err\<close> is the error with which the reader ends, if it is not the end.\<close>

fun ms_lines :: "'s yield \<Rightarrow> string option \<Rightarrow> string list \<Rightarrow> string \<Rightarrow> string \<Rightarrow> 's \<Rightarrow> 's \<times> string option" where
  "ms_lines yield read_err [] pending src st =
     (case read_err of Some e \<Rightarrow> (st, Some e) | None \<Rightarrow> ms_flush yield pending src st)"
| "ms_lines yield read_err (l # ls) pending src st =
     (let src' = source_of l src
      in if isGOSeparator l
         then (case ms_flush yield pending src' st of
                 (st', Some e) \<Rightarrow> (st', Some e)
               | (st', None) \<Rightarrow> ms_lines yield read_err ls [] src' st')
         else ms_lines yield read_err ls (pending @ l @ [nl]) src' st)"

definition ms_restoreStream :: "'s yield \<Rightarrow> string \<Rightarrow> string option \<Rightarrow> 's \<Rightarrow> 's \<times> string option" where
  "ms_restoreStream yield dump read_err st = ms_lines yield read_err (go_lines dump) [] [] st"

definition rewriteBatch :: "string \<Rightarrow> string \<Rightarrow> string \<Rightarrow> string" where
  "rewriteBatch batch sourceDB firstDB =
     (if sourceDB \<noteq> [] \<and> sourceDB \<noteq> firstDB then str_replace (''['' @ sourceDB @ ''].'') (''['' @ firstDB @ ''].'') batch else batch)"

text \<open>\<open>connect\<close> gives the error of the connection, or what executes a statement on it.\<close>

definition ms_Restore ::
  "(string \<Rightarrow> string + (string \<Rightarrow> 's \<Rightarrow> 's \<times> string option)) \<Rightarrow> string \<Rightarrow> string \<Rightarrow> string option \<Rightarrow> 's \<Rightarrow> 's \<times> string option" where
  "ms_Restore connect dbName dump read_err st =
     (let firstDB = (if FirstDBName dbName = [] then ''master'' else FirstDBName dbName)
      in case connect firstDB of
           Inl e \<Rightarrow> (st, Some e)
         | Inr exec \<Rightarrow>
             ms_restoreStream (\<lambda>batch sourceDB st.
               let stmt = rewriteBatch batch sourceDB firstDB in if trim_space stmt = [] then (st, None) else exec stmt st)
               dump read_err st)"

text \<open>Maintenance has one operation; the result has its status.\<close>

definition ms_Maintain ::
  "(string \<Rightarrow> string + (string \<Rightarrow> 's \<Rightarrow> 's \<times> string option)) \<Rightarrow> bool \<Rightarrow> string \<Rightarrow> 's \<Rightarrow> 's \<times> (string + (string \<times> string option) list)" where
  "ms_Maintain connect check_tables dbName st =
     (let firstDB = (if FirstDBName dbName = [] then ''master'' else FirstDBName dbName)
      in case connect firstDB of
           Inl e \<Rightarrow> (st, Inl e)
         | Inr exec \<Rightarrow>
             if check_tables
             then (case exec (''DBCC CHECKDB(['' @ firstDB @ '']) WITH NO_INFOMSGS'') st of (st', e) \<Rightarrow> (st', Inr [(''DBCC CHECKDB'', e)]))
             else (st, Inr []))"

section \<open>Lemmas on the order of views\<close>

text \<open>Both kinds of a round append some of the names that are not there yet.\<close>

definition emit :: "(string \<Rightarrow> string set \<Rightarrow> bool) \<Rightarrow> string list \<Rightarrow> string list \<Rightarrow> string list" where
  "emit P ns out = fold (\<lambda>n out. if n \<in> set out \<or> \<not> P n (set out) then out else out @ [n]) ns out"

lemma view_round_emit: "view_round names deps out = emit (\<lambda>n S. set (view_needs names deps n) \<subseteq> S) names out"
  unfolding view_round_def emit_def by (rule fold_cong) (auto simp: list_all_iff fun_eq_iff)

lemma view_rest_emit: "view_rest names out = emit (\<lambda>_ _. True) names out"
  by (simp add: view_rest_def emit_def)

lemma emit_simps [simp]:
  "emit P [] out = out"
  "emit P (n # ns) out = emit P ns (if n \<in> set out \<or> \<not> P n (set out) then out else out @ [n])"
  by (simp_all add: emit_def)

lemma emit_grows: "set out \<subseteq> set (emit P ns out) \<and> length out \<le> length (emit P ns out)"
proof (induction ns arbitrary: out)
  case (Cons n ns)
  from Cons [of out] Cons [of "out @ [n]"] show ?case by auto
qed simp

lemma emit_same: "emit P ns out = out \<or> length out < length (emit P ns out)"
proof (induction ns arbitrary: out)
  case (Cons n ns)
  then show ?case using emit_grows [of "out @ [n]" P ns] by auto
qed simp

lemma emit_subset: "distinct out \<Longrightarrow> set out \<subseteq> A \<Longrightarrow> set ns \<subseteq> A \<Longrightarrow> distinct (emit P ns out) \<and> set (emit P ns out) \<subseteq> A"
  by (induction ns arbitrary: out) auto

lemma emit_reaches:
  assumes "n \<in> set ns" and "P n (set out)" and "\<And>m S T. S \<subseteq> T \<Longrightarrow> P m S \<Longrightarrow> P m T"
  shows "n \<in> set (emit P ns out)"
  using assms(1,2)
proof (induction ns arbitrary: out)
  case (Cons m ns)
  let ?out = "if m \<in> set out \<or> \<not> P m (set out) then out else out @ [m]"
  have more: "P n (set ?out)" by (rule assms(3) [OF _ Cons.prems(2)]) auto
  show ?case
  proof (cases "n = m")
    case True
    then have "n \<in> set ?out" using Cons.prems(2) by simp
    then show ?thesis using emit_grows [of ?out P ns] by auto
  next
    case False
    then show ?thesis using Cons.IH [OF _ more] Cons.prems(1) by simp
  qed
qed simp

text \<open>Every name comes behind the names it needs.\<close>

definition behind_needs :: "(string \<Rightarrow> string list) \<Rightarrow> string list \<Rightarrow> bool" where
  "behind_needs nd out \<longleftrightarrow> (\<forall>pre n post. out = pre @ n # post \<longrightarrow> set (nd n) \<subseteq> set pre)"

lemma behind_needs_snoc: "behind_needs nd out \<Longrightarrow> set (nd n) \<subseteq> set out \<Longrightarrow> behind_needs nd (out @ [n])"
  unfolding behind_needs_def
proof (intro allI impI)
  fix pre m post
  assume out: "\<forall>pre n post. out = pre @ n # post \<longrightarrow> set (nd n) \<subseteq> set pre" and n: "set (nd n) \<subseteq> set out"
    and eq: "out @ [n] = pre @ m # post"
  show "set (nd m) \<subseteq> set pre"
  proof (cases post rule: rev_cases)
    case Nil
    with eq n show ?thesis by simp
  next
    case (snoc post' x)
    with eq have "out = pre @ m # post'" by simp
    with out show ?thesis by blast
  qed
qed

lemma emit_behind:
  "behind_needs nd out \<Longrightarrow> behind_needs nd (emit (\<lambda>n S. set (nd n) \<subseteq> S) ns out)"
proof (induction ns arbitrary: out)
  case (Cons n ns)
  then show ?case using behind_needs_snoc [of nd out n] by simp
qed simp

text \<open>One turn of the loop.\<close>

definition view_turn :: "string list \<Rightarrow> (string \<times> string) list \<Rightarrow> string list \<Rightarrow> string list" where
  "view_turn names deps out =
     (let out' = view_round names deps out in if out' = out then view_rest names out else out')"

lemma view_loop_turn:
  "view_loop names deps out = (if length out < length names then view_loop names deps (view_turn names deps out) else Some out)"
  by (subst view_loop.simps) (simp add: view_turn_def Let_def)

lemma view_turn_subset:
  "distinct out \<Longrightarrow> set out \<subseteq> set names \<Longrightarrow> distinct (view_turn names deps out) \<and> set (view_turn names deps out) \<subseteq> set names"
  using emit_subset [of out "set names" names] by (simp add: view_turn_def Let_def view_round_emit view_rest_emit)

lemma view_turn_longer:
  assumes "n \<in> set names" and "n \<notin> set out"
  shows "length out < length (view_turn names deps out)"
proof (cases "view_round names deps out = out")
  case True
  have "n \<in> set (view_rest names out)" unfolding view_rest_emit by (rule emit_reaches [OF assms(1)]) simp_all
  with assms(2) have "view_rest names out \<noteq> out" by auto
  then show ?thesis using True emit_same [of "\<lambda>_ _. True" names out] by (simp add: view_turn_def view_rest_emit)
next
  case False
  then show ?thesis
    using emit_same [of "\<lambda>n S. set (view_needs names deps n) \<subseteq> S" names out] by (simp add: view_turn_def Let_def view_round_emit)
qed

lemma needs_in_names: "set (view_needs names deps n) \<subseteq> set names"
  by (auto simp: view_needs_def)

lemma view_ready:
  assumes "acyclic {(a, b). (a, b) \<in> set deps \<and> a \<noteq> b}" and "n \<in> set names" and "n \<notin> set out"
  obtains m where "m \<in> set names" "m \<notin> set out" "set (view_needs names deps m) \<subseteq> set out"
proof -
  let ?r = "{(a, b). (a, b) \<in> set deps \<and> a \<noteq> b}"
  have "finite ?r" by (rule finite_subset [of _ "set deps"]) auto
  then have "wf (?r\<inverse>)" using assms(1) by (rule finite_acyclic_wf_converse)
  moreover have "n \<in> set names - set out" using assms(2,3) by simp
  ultimately obtain m where m: "m \<in> set names - set out" "\<And>y. (y, m) \<in> ?r\<inverse> \<Longrightarrow> y \<notin> set names - set out"
    by (rule wfE_min) blast
  have "set (view_needs names deps m) \<subseteq> set out"
  proof
    fix y assume y: "y \<in> set (view_needs names deps m)"
    then have "(y, m) \<in> ?r\<inverse>" by (auto simp: view_needs_def)
    with m(2) y needs_in_names [of names deps m] show "y \<in> set out" by blast
  qed
  with m(1) that show thesis by blast
qed

lemma view_turn_behind:
  assumes "acyclic {(a, b). (a, b) \<in> set deps \<and> a \<noteq> b}" and "n \<in> set names" and "n \<notin> set out"
    and "behind_needs (view_needs names deps) out"
  shows "behind_needs (view_needs names deps) (view_turn names deps out)"
proof -
  obtain m where m: "m \<in> set names" "m \<notin> set out" "set (view_needs names deps m) \<subseteq> set out"
    using view_ready [OF assms(1-3)] .
  have "m \<in> set (view_round names deps out)"
    unfolding view_round_emit by (rule emit_reaches [OF m(1), of "\<lambda>n S. set (view_needs names deps n) \<subseteq> S"]) (use m(3) in auto)
  with m(2) have "view_round names deps out \<noteq> out" by auto
  then show ?thesis using emit_behind [OF assms(4), of names] by (simp add: view_turn_def Let_def view_round_emit)
qed

lemma missing_name:
  assumes "distinct names" and "distinct out" and "set out \<subseteq> set names" and "length out < length names"
  shows "\<exists>n. n \<in> set names \<and> n \<notin> set out"
proof (rule ccontr)
  assume "\<not> ?thesis"
  then have "set out = set names" using assms(3) by blast
  moreover have "length out = card (set out)" "length names = card (set names)"
    using assms(1,2) by (simp_all add: distinct_card)
  ultimately show False using assms(4) by simp
qed

lemma view_loop_ends:
  assumes "distinct names" and "distinct out" and "set out \<subseteq> set names"
  shows "\<exists>r. view_loop names deps out = Some r \<and> distinct r \<and> set r = set names \<and>
    (acyclic {(a, b). (a, b) \<in> set deps \<and> a \<noteq> b} \<longrightarrow> behind_needs (view_needs names deps) out \<longrightarrow> behind_needs (view_needs names deps) r)"
  using assms(2,3)
proof (induction "length names - length out" arbitrary: out rule: less_induct)
  case less
  show ?case
  proof (cases "length out < length names")
    case False
    have "length out = card (set out)" "length names = card (set names)"
      using assms(1) less.prems(1) by (simp_all add: distinct_card)
    with False less.prems(2) have "set out = set names" by (metis card_subset_eq card_mono List.finite_set linorder_not_less order_antisym)
    with False less.prems show ?thesis by (simp add: view_loop_turn [of names deps out])
  next
    case True
    from missing_name [OF assms(1) less.prems True] obtain n where n: "n \<in> set names" "n \<notin> set out" by blast
    let ?t = "view_turn names deps out"
    have "length names - length ?t < length names - length out" using view_turn_longer [OF n, of deps] True by linarith
    from less.hyps [OF this] view_turn_subset [OF less.prems, of deps] obtain r where
      r: "view_loop names deps ?t = Some r" "distinct r" "set r = set names"
        "acyclic {(a, b). (a, b) \<in> set deps \<and> a \<noteq> b} \<longrightarrow> behind_needs (view_needs names deps) ?t \<longrightarrow> behind_needs (view_needs names deps) r"
      by blast
    then show ?thesis using view_turn_behind [OF _ n, of deps] True by (simp add: view_loop_turn [of names deps out])
  qed
qed

lemma view_loop_result:
  assumes "view_loop names deps out = Some r" and "distinct out" and "set out \<subseteq> set names"
  shows "length names \<le> length r \<and> distinct r \<and> set r \<subseteq> set names"
  using assms
proof (induction rule: view_loop.raw_induct [rotated 1, consumes 1])
  case (1 view_loop names deps out r)
  note turn = view_turn_subset [OF 1(3,4), of deps]
  show ?case
  proof (cases "length out < length names")
    case True
    with 1(2) have "view_loop names deps (view_turn names deps out) = Some r" by (simp add: view_turn_def Let_def)
    from 1(1) [OF this] turn show ?thesis by blast
  next
    case False
    with 1(2-4) show ?thesis by auto
  qed
qed

section \<open>Lemmas on batches\<close>

text \<open>Texts in which no line separates batches, and texts of whole lines.\<close>

definition go_free :: "string \<Rightarrow> bool" where
  "go_free t \<longleftrightarrow> list_all (\<lambda>l. \<not> isGOSeparator l) (go_lines t)"

definition whole :: "string \<Rightarrow> bool" where
  "whole t \<longleftrightarrow> t = [] \<or> last t = nl"

lemma go_lines_append: "whole t \<Longrightarrow> go_lines (t @ s) = go_lines t @ go_lines s"
  using go_lines_unlines_append [of "go_lines t" s] unlines_go_lines [of t] go_lines_sepless by (metis whole_def)

lemma go_free_append: "whole t \<Longrightarrow> go_free (t @ s) \<longleftrightarrow> go_free t \<and> go_free s"
  by (simp add: go_free_def go_lines_append)

lemma go_free_nl [simp]: "go_free (nl # s) \<longleftrightarrow> go_free s"
  using go_lines_line [of "[]" s] by (simp add: go_free_def isGOSeparator_def trim_space_def equal_fold_def to_lower_def)

lemma whole_simps [simp]: "whole []" "whole (s @ [nl])" "whole (nl # s) \<longleftrightarrow> whole s"
  by (auto simp: whole_def)

lemma trim_nl_front: "trim_space (nl # s) = trim_space s"
  by (simp add: trim_space_def nl_def is_space_def)

lemma pending_of_lines: "trim_space (unlines (go_lines s)) = trim_space s"
proof (cases "whole s")
  case True
  then show ?thesis using unlines_go_lines [of s] by (simp add: whole_def)
next
  case False
  obtain a b where s: "s = a @ b" "whole a" "nl \<notin> set b"
  proof (cases "nl \<in> set s")
    case True
    then obtain a b where "s = (a @ [nl]) @ b" "nl \<notin> set b" using split_list_last [of nl s] by auto
    then show thesis using that whole_simps(2) by blast
  qed (use that [of "[]" s] in simp)
  then have "b \<noteq> []" using False by auto
  then have "unlines (go_lines s) = s @ [nl]"
    using s go_lines_append [OF s(2), of b] go_lines_last [OF s(3)] unlines_go_lines [of a] by (simp add: whole_def)
  then show ?thesis using trim_space_last_nl [of s] by simp
qed

definition src_after :: "string \<Rightarrow> string \<Rightarrow> string" where
  "src_after t src = fold source_of (go_lines t) src"

lemma ms_lines_text:
  assumes "list_all (\<lambda>l. \<not> isGOSeparator l) ls"
  shows "ms_lines y err (ls @ rest) pending src st = ms_lines y err rest (pending @ unlines ls) (fold source_of ls src) st"
  using assms by (induction ls arbitrary: pending src) (simp_all add: Let_def)

text \<open>The batches of a dump are executed one after the other until the first error.\<close>

fun run_batches :: "'s yield \<Rightarrow> string \<Rightarrow> string list \<Rightarrow> 's \<Rightarrow> 's \<times> string option" where
  "run_batches y src [] st = (st, None)"
| "run_batches y src (t # ts) st =
     (case ms_flush y t (src_after t src) st of
        (st', Some e) \<Rightarrow> (st', Some e)
      | (st', None) \<Rightarrow> run_batches y (src_after t src) ts st')"

lemma go_line: "isGOSeparator ''GO''" "source_of ''GO'' src = src"
proof -
  show "isGOSeparator ''GO''" by code_simp
  have "markerSourceDB ''GO'' = None" by code_simp
  then show "source_of ''GO'' src = src" by (simp add: source_of_def)
qed

lemma go_lines_batch:
  assumes "whole t"
  shows "go_lines (t @ ''GO'' @ nl # s) = go_lines t @ ''GO'' # go_lines s"
  using go_lines_append [OF assms, of "''GO'' @ nl # s"] go_lines_line [of "''GO''" s] by (simp add: nl_def)

lemma ms_flush_trim: "trim_space p = trim_space q \<Longrightarrow> ms_flush y p src st = ms_flush y q src st"
  by (simp add: ms_flush_def)

lemma batches_restored:
  assumes "\<And>t. t \<in> set ts \<Longrightarrow> whole t \<and> go_free t" and "go_free rest"
  shows "ms_lines y None (go_lines (concat (map (\<lambda>t. t @ ''GO'' @ [nl]) ts) @ rest)) [] src st = run_batches y src (ts @ [rest]) st"
  using assms(1)
proof (induction ts arbitrary: src st)
  case Nil
  have "ms_lines y None (go_lines rest @ []) [] src st = ms_flush y (unlines (go_lines rest)) (src_after rest src) st"
    using ms_lines_text [of "go_lines rest" y None "[]" "[]" src st] assms(2) by (simp add: go_free_def src_after_def)
  moreover have "ms_flush y (unlines (go_lines rest)) (src_after rest src) st = ms_flush y rest (src_after rest src) st"
    by (rule ms_flush_trim) (rule pending_of_lines)
  ultimately show ?case by (auto split: prod.splits option.splits)
next
  case (Cons t ts)
  then have t: "whole t" "go_free t" by auto
  let ?rest = "concat (map (\<lambda>t. t @ ''GO'' @ [nl]) ts) @ rest"
  have lines: "go_lines (concat (map (\<lambda>t. t @ ''GO'' @ [nl]) (t # ts)) @ rest) = go_lines t @ ''GO'' # go_lines ?rest"
    using go_lines_batch [OF t(1), of ?rest] by simp
  have joined: "unlines (go_lines t) = t" using t(1) unlines_go_lines by (simp add: whole_def)
  show ?case unfolding lines
    using Cons.IH Cons.prems ms_lines_text [of "go_lines t" y None "''GO'' # go_lines ?rest" "[]" src st] t(2) joined
    by (auto simp: go_free_def go_line Let_def src_after_def split: prod.splits option.splits)
qed

section \<open>Lemmas on the rows of a table\<close>

function chunks :: "nat \<Rightarrow> 'a list \<Rightarrow> 'a list list" where
  "chunks n xs = (if n = 0 \<or> xs = [] then [] else take n xs # chunks n (drop n xs))"
  by pat_completeness auto
termination
  by (relation "measure (\<lambda>(_, xs). length xs)") auto

declare chunks.simps [simp del]

definition ms_statement :: "string \<Rightarrow> string list \<Rightarrow> string" where
  "ms_statement header rows = header @ join ('','' @ [nl]) rows @ '';'' @ [nl]"

definition row_blocks :: "string \<Rightarrow> string \<Rightarrow> string list \<Rightarrow> string list" where
  "row_blocks on header rows =
     (case chunks batchSize rows of [] \<Rightarrow> [] | c # cs \<Rightarrow> (on @ ms_statement header c) # map (ms_statement header) cs)"

lemma row_blocks_Nil [simp]: "row_blocks on header [] = []"
  by (simp add: row_blocks_def chunks.simps)

lemma row_blocks_long:
  assumes "batchSize \<le> length xs"
  shows "row_blocks on header xs = (on @ ms_statement header (take batchSize xs)) # row_blocks [] header (drop batchSize xs)"
proof -
  have "xs \<noteq> []" "batchSize \<noteq> 0" using assms by (auto simp: batchSize_def)
  then have "chunks batchSize xs = take batchSize xs # chunks batchSize (drop batchSize xs)"
    by (subst chunks.simps) simp
  then show ?thesis by (simp add: row_blocks_def split: list.splits)
qed

lemma row_blocks_short:
  assumes "xs \<noteq> []" and "length xs < batchSize"
  shows "row_blocks on header xs = [on @ ms_statement header xs]"
proof -
  have "chunks batchSize xs = [xs]" using assms by (subst chunks.simps, subst chunks.simps) (simp add: batchSize_def)
  then show ?thesis by (simp add: row_blocks_def)
qed

text \<open>What the loop has written when the rows \<open>cur\<close> of the open batch and then \<open>rs\<close> came by.\<close>

definition open_text :: "string \<Rightarrow> string \<Rightarrow> string list \<Rightarrow> string" where
  "open_text on header cur = (if cur = [] then [] else on @ header @ join ('','' @ [nl]) cur)"

definition ended :: "string \<Rightarrow> nat \<Rightarrow> string \<Rightarrow> string" where
  "ended off b out = out @ (if b > 0 then '';'' @ [nl] @ ''GO'' @ [nl] @ off @ [nl] else [])"

definition block_text :: "string \<Rightarrow> string \<Rightarrow> string \<Rightarrow> string list \<Rightarrow> string" where
  "block_text off on header xs =
     concat (map (\<lambda>t. (nl # t) @ ''GO'' @ [nl]) (row_blocks on header xs)) @ (if length xs mod batchSize = 0 then [] else off) @ [nl]"

lemma open_text_add: "open_text on header (cur @ [r]) = open_text on header cur @ (if cur = [] then on @ header else '','' @ [nl]) @ r"
  by (simp add: open_text_def join_snoc)

lemma block_text_head: "block_text off on header xs = nl # tl (block_text off on header xs)"
proof (cases "row_blocks on header xs")
  case Nil
  then have "xs = []" using row_blocks_long [of xs on header] row_blocks_short [of xs on header] by fastforce
  then show ?thesis by (simp add: block_text_def)
qed (simp add: block_text_def)

lemma row_loop_text:
  assumes "length cur < batchSize"
  shows "\<exists>b out. row_loop on header (map Inr rs) (length cur) cnt (base @ open_text (if cnt = length cur then on else []) header cur) =
      (out, b, None) \<and> ended off b out = base @ tl (block_text off (if cnt = length cur then on else []) header (cur @ rs))"
  using assms
proof (induction rs arbitrary: cur cnt base)
  case Nil
  let ?on = "if cnt = length cur then on else []"
  show ?case
  proof (cases "cur = []")
    case True
    then show ?thesis by (simp add: block_text_def open_text_def ended_def)
  next
    case False
    then have "row_blocks ?on header cur = [?on @ ms_statement header cur]" "length cur mod batchSize \<noteq> 0"
      using Nil row_blocks_short [of cur ?on header] by auto
    with False show ?thesis by (simp add: block_text_def open_text_def ended_def ms_statement_def)
  qed
next
  case (Cons r rs)
  let ?on = "if cnt = length cur then on else []" and ?text = "open_text (if cnt = length cur then on else []) header (cur @ [r])"
  have step: "row_loop on header (map Inr (r # rs)) (length cur) cnt (base @ open_text ?on header cur) =
      (if batchSize \<le> Suc (length cur) then row_loop on header (map Inr rs) 0 (Suc cnt) (base @ ?text @ '';'' @ [nl] @ ''GO'' @ [nl, nl])
       else row_loop on header (map Inr rs) (Suc (length cur)) (Suc cnt) (base @ ?text))"
    using Cons.prems unfolding open_text_add by (cases "cur = []") (auto simp: Let_def)
  show ?case
  proof (cases "Suc (length cur) \<ge> batchSize")
    case False
    then have short: "length (cur @ [r]) < batchSize" by simp
    have on: "(Suc cnt = length (cur @ [r])) = (cnt = length cur)" by simp
    from Cons.IH [OF short, of "Suc cnt" base] False on show ?thesis unfolding step by simp
  next
    case True
    with Cons.prems have full: "length (cur @ [r]) = batchSize" by simp
    let ?base = "base @ ?text @ '';'' @ [nl] @ ''GO'' @ [nl, nl]"
    have "(0::nat) < batchSize" by (simp add: batchSize_def)
    from Cons.IH [of "[]" "Suc cnt" ?base] this obtain b out where
      loop: "row_loop on header (map Inr rs) 0 (Suc cnt) ?base = (out, b, None)"
        "ended off b out = ?base @ tl (block_text off [] header rs)"
      by (auto simp: open_text_def)
    have blocks: "row_blocks ?on header (cur @ r # rs) = (?on @ ms_statement header (cur @ [r])) # row_blocks [] header rs"
    proof -
      have "batchSize - length cur = Suc 0" using full by simp
      then show ?thesis using row_blocks_long [of "(cur @ [r]) @ rs" ?on header] full by simp
    qed
    have mods: "length (cur @ r # rs) mod batchSize = length rs mod batchSize"
      using full by (metis append.assoc append_Cons append_Nil length_append mod_add_self1)
    note head = block_text_head [of off "[]" header rs]
    have "tl (block_text off ?on header (cur @ r # rs)) = ?text @ '';'' @ [nl] @ ''GO'' @ nl # block_text off [] header rs"
      using blocks mods by (simp add: block_text_def ms_statement_def open_text_def)
    then show ?thesis unfolding step using loop head True by simp
  qed
qed

lemma rows_written: "write_table_rows on off header (map Inr rs) err = (tl (block_text off on header rs), err)"
proof -
  have "length ([] :: string list) < batchSize" by (simp add: batchSize_def)
  from row_loop_text [OF this, of on header rs 0 "[]" off] obtain b out where
    "row_loop on header (map Inr rs) 0 0 [] = (out, b, None)" "ended off b out = tl (block_text off on header rs)"
    by (auto simp: open_text_def)
  then show ?thesis by (simp add: write_table_rows_def ended_def)
qed

text \<open>Statements that are executed one after the other, all from one source database.\<close>

fun run_stmts :: "'s yield \<Rightarrow> string \<Rightarrow> string list \<Rightarrow> 's \<Rightarrow> 's \<times> string option" where
  "run_stmts y src [] st = (st, None)"
| "run_stmts y src (t # ts) st =
     (case ms_flush y t src st of (st', Some e) \<Rightarrow> (st', Some e) | (st', None) \<Rightarrow> run_stmts y src ts st')"

lemma src_kept: "src \<noteq> [] \<Longrightarrow> src_after t src = src"
proof -
  assume "src \<noteq> []"
  then have "fold source_of ls src = src" for ls by (induction ls) (simp_all add: source_of_def)
  then show ?thesis by (simp add: src_after_def)
qed

lemma run_batches_stmts: "src \<noteq> [] \<Longrightarrow> run_batches y src ts st = run_stmts y src ts st"
  by (induction ts arbitrary: st) (auto simp: src_kept split: prod.splits option.splits)

lemma run_batches_first: "src \<noteq> [] \<Longrightarrow> src_after t [] = src \<Longrightarrow> run_batches y [] (t # ts) st = run_stmts y src (t # ts) st"
  by (simp add: run_batches_stmts)

lemma run_stmts_trim: "map trim_space ts = map trim_space us \<Longrightarrow> run_stmts y src ts st = run_stmts y src us st"
proof (induction ts arbitrary: us st)
  case (Cons t ts)
  then obtain u us' where us: "us = u # us'" "trim_space t = trim_space u" "map trim_space ts = map trim_space us'"
    by (cases us) auto
  then show ?case using Cons.IH [OF us(3)] ms_flush_trim [OF us(2), of y src st] by (auto split: prod.splits option.splits)
qed simp

definition clean_name :: "string \<Rightarrow> bool" where
  "clean_name db \<longleftrightarrow> db \<noteq> [] \<and> \<not> is_space (hd db) \<and> \<not> is_space (last db) \<and> nl \<notin> set db"

lemma marker_found:
  assumes "clean_name db"
  shows "markerSourceDB (''-- Database: '' @ db) = Some db"
proof -
  have "trim_space (''-- Database: '' @ db) = ''-- Database: '' @ db"
    by (rule trim_space_id) (use assms in \<open>simp_all add: clean_name_def is_space_def\<close>)
  moreover have "trim_space ('' '' @ db) = db"
    using trim_space_id [of db] assms by (simp add: clean_name_def trim_space_def is_space_def)
  ultimately show ?thesis using assms by (simp add: markerSourceDB_def Let_def trim_prefix_def clean_name_def)
qed

text \<open>The batches of one table behind the marker of its database.\<close>

definition table_batches :: "string \<Rightarrow> string \<Rightarrow> string list \<Rightarrow> string \<Rightarrow> string \<Rightarrow> string \<Rightarrow> string list \<Rightarrow> string list" where
  "table_batches db table cols on off header rows =
     [''-- Database: '' @ db @ [nl] @ ''DROP TABLE IF EXISTS '' @ ms_table db table @ '';'' @ [nl],
      ''-- Table: '' @ table @ [nl] @ ''CREATE TABLE '' @ ms_table db table @ '' ('' @ [nl] @ join ('','' @ [nl]) cols @ [nl] @ '');'' @ [nl, nl]] @
     row_blocks on header rows @ [(if length rows mod batchSize = 0 then [] else off) @ [nl]]"

lemma row_blocks_whole: "t \<in> set (row_blocks on header rows) \<Longrightarrow> whole t"
  by (auto simp: row_blocks_def ms_statement_def whole_def split: list.splits)

lemma table_text_restored:
  assumes "clean_name db" and "list_all go_free (table_batches db table cols on off header rows)"
  shows "ms_restoreStream y (''-- Database: '' @ db @ [nl] @ create_table db table cols @ tl (block_text off on header rows)) None st =
    run_stmts y db (table_batches db table cols on off header rows) st"
proof -
  let ?b0 = "''-- Database: '' @ db @ [nl] @ ''DROP TABLE IF EXISTS '' @ ms_table db table @ '';'' @ [nl]"
  let ?b1 = "''-- Table: '' @ table @ [nl] @ ''CREATE TABLE '' @ ms_table db table @ '' ('' @ [nl] @ join ('','' @ [nl]) cols @ [nl] @ '');'' @ [nl, nl]"
  let ?blocks = "row_blocks on header rows" and ?rest = "(if length rows mod batchSize = 0 then [] else off) @ [nl]"
  let ?ts = "[?b0, ?b1] @ map ((#) nl) ?blocks"
  have "''-- Database: '' @ db @ [nl] @ create_table db table cols @ tl (block_text off on header rows) =
      ?b0 @ ''GO'' @ [nl] @ ?b1 @ ''GO'' @ [nl] @ (nl # tl (block_text off on header rows))"
    by (simp add: create_table_def)
  also have "\<dots> = concat (map (\<lambda>t. t @ ''GO'' @ [nl]) ?ts) @ ?rest"
    unfolding block_text_head [symmetric] by (simp add: block_text_def comp_def)
  finally have dump: "''-- Database: '' @ db @ [nl] @ create_table db table cols @ tl (block_text off on header rows) =
      concat (map (\<lambda>t. t @ ''GO'' @ [nl]) ?ts) @ ?rest" .
  have free: "go_free ?b0" "go_free ?b1" "list_all go_free ?blocks" "go_free ?rest"
    using assms(2) by (simp_all add: table_batches_def)
  have "whole ?b0" "whole ?b1" by (simp_all add: whole_def)
  then have "whole t \<and> go_free t" if "t \<in> set ?ts" for t
    using that free row_blocks_whole by (auto simp: list_all_iff)
  from batches_restored [OF this free(4)] have run: "ms_restoreStream y (''-- Database: '' @ db @ [nl] @ create_table db table cols @
      tl (block_text off on header rows)) None st = run_batches y [] (?ts @ [?rest]) st"
    unfolding ms_restoreStream_def dump .
  have line: "nl \<notin> set (''-- Database: '' @ db)" using assms(1) by (simp add: clean_name_def nl_def)
  have db: "db \<noteq> []" using assms(1) by (simp add: clean_name_def)
  have src: "src_after ?b0 [] = db"
    using go_lines_line [OF line, of "''DROP TABLE IF EXISTS '' @ ms_table db table @ '';'' @ [nl]"] marker_found [OF assms(1)]
      src_kept [OF db] by (simp add: src_after_def source_of_def)
  let ?more = "?b1 # map ((#) nl) ?blocks @ [?rest]"
  have more: "?ts @ [?rest] = ?b0 # ?more" by simp
  have "run_batches y [] (?ts @ [?rest]) st = run_stmts y db (?ts @ [?rest]) st"
    unfolding more by (rule run_batches_first [OF db src])
  also have "\<dots> = run_stmts y db (table_batches db table cols on off header rows) st"
    by (rule run_stmts_trim) (simp add: table_batches_def trim_nl_front comp_def)
  finally show ?thesis using run by simp
qed

section \<open>Properties\<close>

text \<open>
  (C20) The order of the views: when no two views have the same name the loop ends with every
  view once, and when the views do not use each other in a circle, every view comes behind
  those it uses.
\<close>

theorem views_ordered:
  assumes "distinct names"
  shows "\<exists>out. orderViewsByDependency names deps = Some out \<and> distinct out \<and> set out = set names \<and>
    (acyclic {(a, b). (a, b) \<in> set deps \<and> a \<noteq> b} \<longrightarrow>
      (\<forall>pre v post. out = pre @ v # post \<longrightarrow> (\<forall>b. (v, b) \<in> set deps \<and> b \<noteq> v \<and> b \<in> set names \<longrightarrow> b \<in> set pre)))"
proof -
  obtain out where out: "orderViewsByDependency names deps = Some out" "distinct out" "set out = set names"
      "acyclic {(a, b). (a, b) \<in> set deps \<and> a \<noteq> b} \<longrightarrow> behind_needs (view_needs names deps) out"
    using view_loop_ends [OF assms, of "[]" deps] by (auto simp: orderViewsByDependency_def behind_needs_def)
  have "b \<in> set pre" if "behind_needs (view_needs names deps) out" "out = pre @ v # post" "(v, b) \<in> set deps \<and> b \<noteq> v \<and> b \<in> set names"
    for pre v post b
  proof -
    have "v \<in> set names" using out(3) that(2) by auto
    then have "b \<in> set (view_needs names deps v)" using that(3) by (force simp: view_needs_def)
    with that(1,2) show ?thesis unfolding behind_needs_def by blast
  qed
  with out show ?thesis by (intro exI [of _ out]) blast
qed

theorem views_ordered_witness:
  "\<exists>out. orderViewsByDependency [''a'', ''b''] [(''a'', ''b'')] = Some out \<and> out = [''b'', ''a'']"
proof -
  have "orderViewsByDependency [''a'', ''b''] [(''a'', ''b'')] \<noteq> None" using views_ordered [of "[''a'', ''b'']" "[(''a'', ''b'')]"] by auto
  moreover have "orderViewsByDependency [''a'', ''b''] [(''a'', ''b'')] = Some [''b'', ''a'']"
    by (simp add: orderViewsByDependency_def view_loop_turn view_turn_def view_round_def view_needs_def)
  ultimately show ?thesis by simp
qed

text \<open>
  Two views with the same name, which live in different schemas, keep the loop from ending:
  every name is written once, and the loop waits for as many entries as there are views.
\<close>

theorem same_view_name_hangs:
  assumes "\<not> distinct names"
  shows "orderViewsByDependency names deps = None"
proof (rule ccontr)
  assume "orderViewsByDependency names deps \<noteq> None"
  then obtain r where "view_loop names deps [] = Some r" by (auto simp: orderViewsByDependency_def)
  from view_loop_result [OF this] have r: "length names \<le> length r" "distinct r" "set r \<subseteq> set names" by simp_all
  have "length r \<le> card (set names)" using r(2,3) by (metis card_mono distinct_card List.finite_set)
  also have "\<dots> < length names" using assms card_length [of names] card_distinct [of names] by linarith
  finally show False using r(1) by simp
qed

text \<open>
  The restore executes exactly the batches of a dump, in order and until the first error, each
  without the white space around it.
\<close>

theorem mssql_batches_restored:
  assumes "\<forall>t \<in> set ts. whole t \<and> go_free t" and "go_free rest"
  shows "ms_restoreStream y (concat (map (\<lambda>t. t @ ''GO'' @ [nl]) ts) @ rest) None st = run_batches y [] (ts @ [rest]) st"
  unfolding ms_restoreStream_def using assms by (intro batches_restored) blast+


definition ms_demo :: mssql_reader where
  "ms_demo = \<lparr>ms_tables = \<lambda>_. Inr ([Inr ''t''], None),
     ms_columns = \<lambda>_ _. Inr ([Inr (''id'', ''int'', None, ''NO'', None), Inr (''s'', ''nvarchar'', Some (-1), ''YES'', None)], None),
     ms_flags = \<lambda>_ _. Inr ([Inr (''id'', False, None, None, True, Some ''1'', Some ''1'')], None),
     ms_select = \<lambda>_ _. Inr ([''id'', ''s''], [Inr [MInt 1, MString ''a''], Inr [MInt 2, MNull]], None),
     ms_ones = \<lambda>_ _. Inr ([], None), ms_objectID = \<lambda>_ _. Inr 0, ms_primaryKey = \<lambda>_ _. Inr None, ms_uniques = \<lambda>_ _. Inr ([], None),
     ms_keyColumns = \<lambda>_ _ _. Inr ([], None), ms_foreignKeys = \<lambda>_ _. Inr ([], None), ms_checks = \<lambda>_ _. Inr ([], None),
     ms_indexes = \<lambda>_ _. Inr ([], None), ms_indexColumns = \<lambda>_ _ _. Inr ([], None), ms_views = \<lambda>_. Inr ([], None),
     ms_viewDeps = \<lambda>_. Inr ([], None), ms_triggers = \<lambda>_. Inr ([], None), ms_routines = \<lambda>_. Inr ([], None),
     ms_databases = Inr ([], None), ms_sortLong = \<lambda>_ xs. xs\<rparr>"

text \<open>A server that keeps the statements it is given.\<close>

definition ms_recorder :: "string list yield" where
  "ms_recorder batch src st = (st @ [batch], None)"


text \<open>
  A table with an identity column whose number of rows is a multiple of the batch size
  leaves \<open>IDENTITY_INSERT\<close> on: the batches end with the last rows.
\<close>

theorem identity_left_on:
  assumes "length rows mod batchSize = 0"
  shows "last (table_batches db table cols on off header rows) = [nl]"
  using assms by (simp add: table_batches_def)

text \<open>
  The types of a table lose their precision: a \<open>decimal\<close> column is created with the
  default scale, which is 0, and a binary column with the default length, which is 1.
\<close>

theorem type_parameters_lost:
  "formatMSSQLType ''decimal'' maxLen = ''DECIMAL''" "formatMSSQLType ''numeric'' maxLen = ''NUMERIC''"
  "formatMSSQLType ''varbinary'' maxLen = ''VARBINARY''" "formatMSSQLType ''binary'' maxLen = ''BINARY''"
proof -
  have "formatMSSQLType t maxLen = to_upper (to_lower t)" if "to_lower t \<notin> {''char'', ''varchar'', ''nchar'', ''nvarchar''}" for t
    using that by (auto simp: formatMSSQLType_def Let_def split: option.splits)
  moreover have "to_lower ''decimal'' = ''decimal''" "to_lower ''numeric'' = ''numeric''" "to_lower ''varbinary'' = ''varbinary''"
    "to_lower ''binary'' = ''binary''" by code_simp+
  moreover have "to_upper ''decimal'' = ''DECIMAL''" "to_upper ''numeric'' = ''NUMERIC''" "to_upper ''varbinary'' = ''VARBINARY''"
    "to_upper ''binary'' = ''BINARY''" by code_simp+
  ultimately show "formatMSSQLType ''decimal'' maxLen = ''DECIMAL''" "formatMSSQLType ''numeric'' maxLen = ''NUMERIC''"
    "formatMSSQLType ''varbinary'' maxLen = ''VARBINARY''" "formatMSSQLType ''binary'' maxLen = ''BINARY''" by simp_all
qed

text \<open>The ordinals of index columns stay in place while the columns are moved: three columns end in the wrong order.\<close>

theorem index_columns_misordered:
  "sort_keys big [3, 1, 2] [''third'', ''first'', ''second''] = [''first'', ''third'', ''second'']"
  by (simp add: sort_keys_def upt_rec numeral_2_eq_2)

lemma sift_sorted: "sorted ords \<Longrightarrow> j < length ords \<Longrightarrow> sift ords j xs = xs"
  by (cases j) (auto simp: sorted_iff_nth_Suc not_less)

text \<open>Columns that are listed in the order of their ordinals stay as they are.\<close>

lemma sort_keys_sorted:
  assumes "sorted ords" and "length ords = length xs" and "length xs \<le> 12"
  shows "sort_keys big ords xs = xs"
proof -
  have "fold (sift ords) js xs = xs" if "\<forall>j \<in> set js. j < length ords" for js
    using that by (induction js) (simp_all add: sift_sorted [OF assms(1)])
  then show ?thesis using assms(2,3) by (simp add: sort_keys_def)
qed

text \<open>
  A line of a value that reads like the separator cuts the statement in two; and the name
  of the source database is replaced inside values as well.
\<close>

theorem go_line_cuts_value:
  "fst (ms_restoreStream ms_recorder (''INSERT INTO [t] VALUES'' @ [nl] @ ''(N'' @ [squote] @ ''a'' @ [nl] @ ''go'' @ [nl] @ ''b'' @ [squote] @ '');'' @ [nl]
     @ ''GO'' @ [nl]) None []) =
   [''INSERT INTO [t] VALUES'' @ [nl] @ ''(N'' @ [squote] @ ''a'', ''b'' @ [squote] @ '');'']"
  by code_simp

theorem value_rewritten:
  "rewriteBatch (''INSERT INTO [d].[dbo].[t] VALUES (N'' @ [squote] @ ''[d].x'' @ [squote] @ '');'') ''d'' ''e'' =
   ''INSERT INTO [e].[dbo].[t] VALUES (N'' @ [squote] @ ''[e].x'' @ [squote] @ '');''"
  by code_simp

text \<open>Quoted names and escaped text can be read back: the quoting is injective.\<close>

lemma escape_pairs_inj: "replace_char c [c, c] s = replace_char c [c, c] t \<longleftrightarrow> s = t"
proof
  show "replace_char c [c, c] s = replace_char c [c, c] t \<Longrightarrow> s = t"
  proof (induction s arbitrary: t)
    case Nil
    then show ?case by (cases t) (auto split: if_splits)
  next
    case (Cons x s)
    then show ?case by (cases t) (auto split: if_splits)
  qed
qed simp

lemma quoteMSSQLIdent_inj: "quoteMSSQLIdent s = quoteMSSQLIdent t \<longleftrightarrow> s = t"
  by (simp add: quoteMSSQLIdent_def escape_pairs_inj)

lemma escapeMSSQL_inj: "escapeMSSQL s = escapeMSSQL t \<longleftrightarrow> s = t"
  by (simp add: escapeMSSQL_def escape_pairs_inj)

end
