(* ===== verification/Sqlite.thy ===== *)
theory Sqlite
  imports EngineCommon
begin

text \<open>
  The engine for SQLite (\<open>internal/database/engine/sqlite\<close>): \<open>sqlite.go\<close>, the dump of tables,
  statistics, sequences and other objects of a file, and \<open>ops.go\<close>, the restore of a dump
  statement by statement and the maintenance. The queries are a record of functions; the
  literals of the rows are made by the function \<open>quote\<close> of the database. An error is represented
  by its cause, without the text that is put around it.

  The lemmas show that the statements of a dump are found again and executed in order, and the
  rows of a table as one statement; and which lines of values are lost or end a statement early.
\<close>

section \<open>Names\<close>

definition quoteSQLiteIdent :: "string \<Rightarrow> string" where
  "quoteSQLiteIdent s = [quot] @ replace_char quot [quot, quot] s @ [quot]"

definition isCantOpen :: "string option \<Rightarrow> bool" where
  "isCantOpen err = (case err of None \<Rightarrow> False | Some e \<Rightarrow> contains e ''unable to open database file'')"

section \<open>Dump\<close>

text \<open>
  The queries of the dump. \<open>sq_create\<close> is the empty text for a table that is not found;
  \<open>sq_hasStats\<close> and \<open>sq_hasSequences\<close> tell whether the internal tables were found.
\<close>

record sqlite_reader =
  sq_tables :: "string rows"
  sq_allTables :: "(string \<times> string option) rows"
  sq_create :: "string \<Rightarrow> string + string"
  sq_columns :: "string \<Rightarrow> string + string list"
  sq_generated :: "string \<Rightarrow> string rows"
  sq_select :: "string list \<Rightarrow> string \<Rightarrow> (string option list) rows"
  sq_ones :: "string \<Rightarrow> unit rows"
  sq_hasStats :: bool
  sq_stats :: "(string option \<times> string \<times> string \<times> string) rows"
  sq_hasSequences :: bool
  sq_sequences :: "(string \<times> int) rows"
  sq_objects :: "(string \<times> string \<times> string \<times> string) rows"

record sqlite_options =
  sq_Tables :: "table_filter option"
  sq_SchemaOnly :: bool

definition sq_included :: "sqlite_options \<Rightarrow> string \<Rightarrow> bool" where
  "sq_included opts table \<longleftrightarrow> sq_Tables opts = None \<or> fst (TableFilter_Apply (sq_Tables opts) table)"

definition shadow_suffixes :: "string list" where
  "shadow_suffixes = [''_data'', ''_idx'', ''_content'', ''_docsize'', ''_config'', ''_segments'', ''_segdir'', ''_stat'', ''_node'',
     ''_rowid'', ''_parent'']"

definition shadowTables :: "sqlite_reader \<Rightarrow> string + string list" where
  "shadowTables r =
     (case all_rows (sq_allTables r) of
        Inl e \<Rightarrow> Inl e
      | Inr ts \<Rightarrow>
          Inr (concat (map (\<lambda>(name, createSQL). case createSQL of
              None \<Rightarrow> []
            | Some s \<Rightarrow> if has_prefix (to_upper (trim_space s)) ''CREATE VIRTUAL TABLE'' then map (\<lambda>x. name @ x) shadow_suffixes else []) ts)))"

definition sq_listTables :: "sqlite_reader \<Rightarrow> string + string list" where
  "sq_listTables r =
     (case all_rows (sq_tables r) of
        Inl e \<Rightarrow> Inl e
      | Inr tables \<Rightarrow>
          (case shadowTables r of Inl e \<Rightarrow> Inl e | Inr shadows \<Rightarrow> Inr (filter (\<lambda>t. t \<notin> set shadows) tables)))"

definition sq_dumpDefaultRows :: "sqlite_reader \<Rightarrow> string \<Rightarrow> written \<times> nat" where
  "sq_dumpDefaultRows r table =
     (case sq_ones r table of
        Inl e \<Rightarrow> (([], Some e), 0)
      | Inr (rs, err) \<Rightarrow>
          ((concat (map (\<lambda>_. ''INSERT INTO '' @ quoteSQLiteIdent table @ '' DEFAULT VALUES;'' @ [nl]) rs) @
            (if rs \<noteq> [] then [nl] else []), err), length rs))"

definition sq_insert_header :: "string \<Rightarrow> string list \<Rightarrow> string" where
  "sq_insert_header table insertCols =
     ''INSERT INTO '' @ quoteSQLiteIdent table @ '' ('' @ join '', '' (map quoteSQLiteIdent insertCols) @ '') VALUES'' @ [nl]"

definition sq_row_text :: "string option list \<Rightarrow> string" where
  "sq_row_text vals = ''('' @ join '', '' (map (\<lambda>v. case v of Some s \<Rightarrow> s | None \<Rightarrow> ''NULL'') vals) @ '')''"

fun sq_row_loop :: "string \<Rightarrow> (string + string) list \<Rightarrow> nat \<Rightarrow> string \<times> nat \<times> string option" where
  "sq_row_loop header [] n = ([], n, None)"
| "sq_row_loop header (Inl e # rs) n = ([], n, Some e)"
| "sq_row_loop header (Inr row # rs) n =
     (case sq_row_loop header rs (Suc n) of
        (out, m, err) \<Rightarrow> ((if n = 0 then header else '','' @ [nl]) @ row @ out, m, err))"

definition sq_write_rows :: "string \<Rightarrow> (string + string) list \<Rightarrow> string option \<Rightarrow> written \<times> nat" where
  "sq_write_rows header rs err =
     (case sq_row_loop header rs 0 of
        (out, n, Some e) \<Rightarrow> ((out, Some e), n)
      | (out, n, None) \<Rightarrow> ((out @ (if n > 0 then '';'' @ [nl, nl] else []), err), n))"

definition sq_dump_rows :: "sqlite_reader \<Rightarrow> string \<Rightarrow> written \<times> nat" where
  "sq_dump_rows r table =
     (case sq_columns r table of
        Inl e \<Rightarrow> (([], Some e), 0)
      | Inr cols \<Rightarrow>
          (case all_rows (sq_generated r table) of
             Inl e \<Rightarrow> (([], Some e), 0)
           | Inr generated \<Rightarrow>
               (let insertCols = filter (\<lambda>c. c \<notin> set generated) cols
                in if insertCols = [] then sq_dumpDefaultRows r table
                   else case sq_select r insertCols table of
                          Inl e \<Rightarrow> (([], Some e), 0)
                        | Inr (rs, err) \<Rightarrow> sq_write_rows (sq_insert_header table insertCols) (map (map_sum id sq_row_text) rs) err)))"

definition sq_table_head :: "string \<Rightarrow> string \<Rightarrow> string" where
  "sq_table_head table createSQL =
     ''DROP TABLE IF EXISTS '' @ quoteSQLiteIdent table @ '';'' @ [nl] @ ''-- Table: '' @ table @ [nl] @ createSQL @ '';'' @ [nl, nl]"

definition sq_dumpTable :: "sqlite_reader \<Rightarrow> sqlite_options \<Rightarrow> string \<Rightarrow> written \<times> nat" where
  "sq_dumpTable r opts table =
     (case sq_create r table of
        Inl e \<Rightarrow> (([], Some e), 0)
      | Inr createSQL \<Rightarrow>
          if sq_SchemaOnly opts \<or> (sq_Tables opts \<noteq> None \<and> snd (TableFilter_Apply (sq_Tables opts) table))
          then ((sq_table_head table createSQL, None), 0)
          else (case sq_dump_rows r table of ((out, err), n) \<Rightarrow> ((sq_table_head table createSQL @ out, err), n)))"

text \<open>The tables with the numbers of their rows, as far as they were dumped.\<close>

fun sq_dump_tables :: "sqlite_reader \<Rightarrow> sqlite_options \<Rightarrow> string list \<Rightarrow> written \<times> (string \<times> nat) list" where
  "sq_dump_tables r opts [] = (([], None), [])"
| "sq_dump_tables r opts (t # ts) =
     (if \<not> sq_included opts t then sq_dump_tables r opts ts
      else case sq_dumpTable r opts t of
             ((out, Some e), n) \<Rightarrow> ((out, Some e), [])
           | ((out, None), n) \<Rightarrow>
               (case sq_dump_tables r opts ts of ((out', err), m) \<Rightarrow> ((out @ out', err), (t, n) # m)))"

definition dumpQueryStats :: "sqlite_reader \<Rightarrow> (string \<times> nat) list \<Rightarrow> written" where
  "dumpQueryStats r rowsByTable =
     (if \<not> sq_hasStats r then ([], None)
      else case all_rows (sq_stats r) of
             Inl e \<Rightarrow> ([], Some e)
           | Inr rs \<Rightarrow>
               (let kept = filter (\<lambda>(tbl, _). case tbl of None \<Rightarrow> True | Some t \<Rightarrow> t \<in> fst ` set rowsByTable) rs
                in if kept = [] then ([], None)
                   else (''ANALYZE sqlite_schema;'' @ [nl] @ ''DELETE FROM sqlite_stat1;'' @ [nl] @
                         concat (map (\<lambda>(_, qtbl, qidx, qstat).
                           ''INSERT INTO sqlite_stat1 (tbl, idx, stat) VALUES ('' @ qtbl @ '', '' @ qidx @ '', '' @ qstat @ '');'' @ [nl]) kept) @
                         [nl], None)))"

definition rows_of :: "(string \<times> nat) list \<Rightarrow> string \<Rightarrow> nat" where
  "rows_of rowsByTable name = (case map_of (rev rowsByTable) name of Some n \<Rightarrow> n | None \<Rightarrow> 0)"

definition sq_dumpSequences :: "sqlite_reader \<Rightarrow> (string \<times> nat) list \<Rightarrow> written" where
  "sq_dumpSequences r rowsByTable =
     (if \<not> sq_hasSequences r then ([], None)
      else case all_rows (sq_sequences r) of
             Inl e \<Rightarrow> ([], Some e)
           | Inr rs \<Rightarrow>
               (let kept = filter (\<lambda>(name, _). rows_of rowsByTable name \<noteq> 0) rs
                in (concat (map (\<lambda>(name, sq). ''UPDATE sqlite_sequence SET seq='' @ itoa sq @ '' WHERE name='' @ [squote] @
                              replace_char squote [squote, squote] name @ [squote] @ '';'' @ [nl]) kept) @
                    (if kept \<noteq> [] then [nl] else []), None)))"

definition object_text :: "sqlite_options \<Rightarrow> string \<times> string \<times> string \<times> string \<Rightarrow> string" where
  "object_text opts ob =
     (case ob of (typ, name, tbl, objSQL) \<Rightarrow>
        if \<not> sq_included opts tbl \<or> typ \<notin> {''index'', ''view'', ''trigger''} then []
        else ''DROP '' @ to_upper typ @ '' IF EXISTS '' @ quoteSQLiteIdent name @ '';'' @ [nl] @
             trim_suffix (trim_space objSQL) '';'' @ '';'' @ [nl, nl])"

definition dumpSchemaObjects :: "sqlite_reader \<Rightarrow> sqlite_options \<Rightarrow> written" where
  "dumpSchemaObjects r opts = write_query (object_text opts) (sq_objects r)"

definition sq_Dump :: "sqlite_reader \<Rightarrow> sqlite_options \<Rightarrow> string \<Rightarrow> written" where
  "sq_Dump r opts banner =
     then_write (banner @ ''--'' @ [nl, nl], None) (\<lambda>_.
       case sq_listTables r of
         Inl e \<Rightarrow> ([], Some e)
       | Inr tables \<Rightarrow>
           then_write (''PRAGMA foreign_keys=OFF;'' @ [nl] @ ''BEGIN TRANSACTION;'' @ [nl, nl], None) (\<lambda>_.
             case sq_dump_tables r opts tables of
               (out, rowsByTable) \<Rightarrow>
                 then_write out (\<lambda>_.
                 then_write (dumpQueryStats r rowsByTable) (\<lambda>_.
                 then_write (sq_dumpSequences r rowsByTable) (\<lambda>_.
                 then_write (dumpSchemaObjects r opts) (\<lambda>_. (''COMMIT;'' @ [nl], None)))))))"

section \<open>Restore\<close>

definition stmtComplete :: "string \<Rightarrow> bool" where
  "stmtComplete s \<longleftrightarrow>
     (let up = to_upper (trim_space s)
      in if \<not> has_prefix up ''CREATE '' then True
         else let rest = trim_space (trim_prefix up ''CREATE '');
                  rest = trim_space (trim_prefix rest ''TEMPORARY '');
                  rest = trim_space (trim_prefix rest ''TEMP '')
              in if \<not> has_prefix rest ''TRIGGER '' then True else has_suffix up ''END;'')"

text \<open>\<open>read_err\<close> is the error with which the reader ends, if it is not the end of the dump.\<close>

fun sq_lines :: "(string \<Rightarrow> 's \<Rightarrow> 's \<times> string option) \<Rightarrow> string option \<Rightarrow> string list \<Rightarrow> string \<Rightarrow> 's \<Rightarrow> 's \<times> string option" where
  "sq_lines yield read_err [] cur st =
     (case read_err of Some e \<Rightarrow> (st, Some e) | None \<Rightarrow> if cur = [] then (st, None) else yield cur st)"
| "sq_lines yield read_err (l # ls) cur st =
     (let trimmed = trim_space l
      in if has_prefix trimmed ''--'' then sq_lines yield read_err ls cur st
         else let cur' = cur @ l @ [nl]
              in if has_suffix trimmed '';'' \<and> stmtComplete cur'
                 then (case yield cur' st of
                         (st', Some e) \<Rightarrow> (st', Some e) | (st', None) \<Rightarrow> sq_lines yield read_err ls [] st')
                 else sq_lines yield read_err ls cur' st)"

definition sq_restoreStream :: "(string \<Rightarrow> 's \<Rightarrow> 's \<times> string option) \<Rightarrow> string \<Rightarrow> string option \<Rightarrow> 's \<Rightarrow> 's \<times> string option" where
  "sq_restoreStream yield dump read_err st = sq_lines yield read_err (go_lines dump) [] st"

definition sq_yield :: "(string \<Rightarrow> 's \<Rightarrow> 's \<times> string option) \<Rightarrow> string \<Rightarrow> 's \<Rightarrow> 's \<times> string option" where
  "sq_yield exec stmt0 st =
     (let stmt = trim_space stmt0 in if stmt = [] \<or> has_prefix stmt ''--'' then (st, None) else exec stmt st)"

text \<open>The errors of the two pragmas are dropped.\<close>

definition sq_Restore :: "(string \<Rightarrow> 's \<Rightarrow> 's \<times> string option) \<Rightarrow> string \<Rightarrow> string option \<Rightarrow> 's \<Rightarrow> 's \<times> string option" where
  "sq_Restore exec dump read_err st =
     (case sq_restoreStream (sq_yield exec) dump read_err (fst (exec ''PRAGMA foreign_keys = OFF;'' st)) of
        (st', Some e) \<Rightarrow> (st', Some e)
      | (st', None) \<Rightarrow> (fst (exec ''PRAGMA foreign_keys = ON;'' st'), None))"

text \<open>\<open>connect\<close> gives the error of opening the file, or what executes a statement on it.\<close>

definition sq_RestoreFile :: "(string \<Rightarrow> string + (string \<Rightarrow> 's \<Rightarrow> 's \<times> string option)) \<Rightarrow> string \<Rightarrow> string \<Rightarrow> string option \<Rightarrow> 's \<Rightarrow> 's \<times> string option" where
  "sq_RestoreFile connect dbPath dump read_err st =
     (case connect dbPath of Inl e \<Rightarrow> (st, Some e) | Inr exec \<Rightarrow> sq_Restore exec dump read_err st)"

definition sq_Maintain :: "(string \<Rightarrow> 's \<Rightarrow> 's \<times> string option) \<Rightarrow> bool \<Rightarrow> 's \<Rightarrow> 's \<times> (string \<times> string option) list" where
  "sq_Maintain exec analyze st =
     (if analyze then (case exec ''PRAGMA optimize'' st of (st', e) \<Rightarrow> (st', [(''PRAGMA optimize'', e)])) else (st, []))"

text \<open>The file of a database: its name, or the host without one. The maintenance takes the name alone.\<close>

definition databasePath :: "string \<Rightarrow> string \<Rightarrow> string" where
  "databasePath host db = (if db \<noteq> [] then db else host)"

definition sq_New :: "string \<Rightarrow> string \<Rightarrow> string + string" where
  "sq_New host db =
     (let p = databasePath host db
      in if p = [] then Inl ''sqlite requires the database file path (set --name <file> or --host <file>)'' else Inr p)"

definition sq_spec_Restore :: "(string \<Rightarrow> string + (string \<Rightarrow> 's \<Rightarrow> 's \<times> string option)) \<Rightarrow> string \<Rightarrow> string \<Rightarrow> string \<Rightarrow> string option \<Rightarrow> 's \<Rightarrow> 's \<times> string option" where
  "sq_spec_Restore connect host dbName dump read_err st =
     (let p = databasePath host dbName
      in if p = [] then (st, Some ''sqlite restore requires the database file path (set --name <file> or --host <file>)'')
         else sq_RestoreFile connect p dump read_err st)"

definition sq_spec_Maintain ::
  "(string \<Rightarrow> string + (string \<Rightarrow> 's \<Rightarrow> 's \<times> string option)) \<Rightarrow> string \<Rightarrow> string \<Rightarrow> bool \<Rightarrow> 's \<Rightarrow> 's \<times> (string + (string \<times> string option) list)" where
  "sq_spec_Maintain connect host dbName analyze st =
     (case connect dbName of
        Inl e \<Rightarrow> (st, Inl e)
      | Inr exec \<Rightarrow> (case sq_Maintain exec analyze st of (st', rs) \<Rightarrow> (st', Inr rs)))"

section \<open>Lemmas on statements\<close>

definition sq_comment :: "string \<Rightarrow> bool" where
  "sq_comment l \<longleftrightarrow> has_prefix (trim_space l) ''--''"

text \<open>Lines that hold no statement.\<close>

definition sq_gap :: "string \<Rightarrow> bool" where
  "sq_gap l \<longleftrightarrow> nl \<notin> set l \<and> (sq_comment l \<or> trim_space l = [])"

text \<open>The lines of one statement, of which the last and no other ends it.\<close>

fun sq_stmt :: "string \<Rightarrow> string list \<Rightarrow> bool" where
  "sq_stmt cur [] = False"
| "sq_stmt cur (l # ls) \<longleftrightarrow> nl \<notin> set l \<and> \<not> sq_comment l \<and>
     (if has_suffix (trim_space l) '';'' \<and> stmtComplete (cur @ l @ [nl]) then ls = [] else sq_stmt (cur @ l @ [nl]) ls)"

lemma stmtComplete_white: "list_all is_space b \<Longrightarrow> stmtComplete (b @ s) = stmtComplete s"
  by (simp add: stmtComplete_def trim_space_white)

lemma sq_stmt_white: "list_all is_space b \<Longrightarrow> sq_stmt (b @ cur) ls = sq_stmt cur ls"
  using stmtComplete_white by (induction ls arbitrary: cur) (simp_all del: list_all_append)

lemma sq_lines_stmt:
  "sq_stmt cur ls \<Longrightarrow> sq_lines y err (ls @ rest) cur st =
     (case y (cur @ unlines ls) st of (st', Some e) \<Rightarrow> (st', Some e) | (st', None) \<Rightarrow> sq_lines y err rest [] st')"
proof (induction ls arbitrary: cur)
  case (Cons l ls)
  show ?case
  proof (cases "has_suffix (trim_space l) '';'' \<and> stmtComplete (cur @ l @ [nl])")
    case True
    with Cons.prems have "ls = []" by simp
    with True Cons.prems show ?thesis by (simp add: sq_comment_def Let_def)
  next
    case False
    then have "sq_stmt (cur @ l @ [nl]) ls" using Cons.prems by (auto split: if_splits)
    from Cons.IH [OF this] False Cons.prems show ?thesis by (auto simp: sq_comment_def Let_def)
  qed
qed simp

text \<open>A text that is read as one statement.\<close>

definition sq_one :: "string \<Rightarrow> bool" where
  "sq_one s \<longleftrightarrow> s \<noteq> [] \<and> last s = CHR '';'' \<and> \<not> has_prefix (trim_space s) ''--'' \<and> sq_stmt [] (go_lines s)"

text \<open>The statements of a dump: texts that are one statement each, between lines that hold none.\<close>

inductive dumps_as :: "string \<Rightarrow> string list \<Rightarrow> bool" where
  end_of_dump: "dumps_as [] []"
| gap: "sq_gap l \<Longrightarrow> dumps_as t ss \<Longrightarrow> dumps_as (l @ nl # t) ss"
| statement: "sq_one s \<Longrightarrow> dumps_as t ss \<Longrightarrow> dumps_as (s @ nl # t) (s # ss)"

lemma dumps_as_append: "dumps_as a xs \<Longrightarrow> dumps_as b ys \<Longrightarrow> dumps_as (a @ b) (xs @ ys)"
  by (induction rule: dumps_as.induct) (auto intro: dumps_as.intros)

lemma dumps_as_concat: "(\<And>x. x \<in> set xs \<Longrightarrow> dumps_as (f x) (g x)) \<Longrightarrow> dumps_as (concat (map f xs)) (concat (map g xs))"
  by (induction xs) (auto intro: dumps_as.intros dumps_as_append)

lemma dumps_as_one: "sq_one s \<Longrightarrow> dumps_as (s @ [nl]) [s]"
  using statement [OF _ end_of_dump] by simp

lemma dumps_as_gaps: "list_all sq_gap ls \<Longrightarrow> dumps_as (unlines ls) []"
  by (induction ls) (auto intro: dumps_as.intros)

lemma blank_gap: "sq_gap []"
  by (simp add: sq_gap_def trim_space_def)

lemma dumps_as_blank: "dumps_as [nl] []"
  using gap [OF blank_gap end_of_dump] by simp

lemma dumps_as_block: "sq_one s \<Longrightarrow> dumps_as (s @ [nl, nl]) [s]"
  using dumps_as_append [OF dumps_as_one dumps_as_blank] by simp

text \<open>Statements that are executed one after the other, without the white space around them, until the first error.\<close>

fun sq_run :: "(string \<Rightarrow> 's \<Rightarrow> 's \<times> string option) \<Rightarrow> string list \<Rightarrow> 's \<Rightarrow> 's \<times> string option" where
  "sq_run exec [] st = (st, None)"
| "sq_run exec (t # ts) st =
     (case exec (trim_space t) st of (st', Some e) \<Rightarrow> (st', Some e) | (st', None) \<Rightarrow> sq_run exec ts st')"

lemma sq_yield_white: "list_all is_space b \<Longrightarrow> sq_yield exec (b @ s) st = sq_yield exec s st"
  by (simp add: sq_yield_def trim_space_white)

lemma sq_one_yield:
  assumes "sq_one s" and "list_all is_space b"
  shows "sq_yield exec (b @ s @ [nl]) st = exec (trim_space s) st"
proof -
  have "CHR '';'' \<in> set s" using assms(1) by (metis sq_one_def last_in_set)
  moreover have "\<not> is_space (CHR '';'')" by (simp add: is_space_def)
  ultimately have "trim_space s \<noteq> []" unfolding trim_space_empty by (auto simp: list_all_iff)
  then show ?thesis using assms(1) sq_yield_white [OF assms(2), of exec "s @ [nl]"]
    by (simp add: sq_yield_def trim_space_last_nl sq_one_def)
qed

lemma statements_restored:
  assumes "dumps_as t ss" and "list_all is_space b"
  shows "sq_lines (sq_yield exec) None (go_lines t) b st = sq_run exec ss st"
  using assms
proof (induction arbitrary: b st rule: dumps_as.induct)
  case end_of_dump
  then have "trim_space b = []" by (simp add: trim_space_empty)
  then show ?case by (simp add: sq_yield_def)
next
  case (gap l t ss)
  then have l: "nl \<notin> set l" by (simp add: sq_gap_def)
  show ?case
  proof (cases "sq_comment l")
    case True
    with l gap show ?thesis by (simp add: sq_comment_def Let_def)
  next
    case False
    with gap.hyps have empty: "trim_space l = []" by (simp add: sq_gap_def)
    have "is_space nl" by (simp add: nl_def is_space_def)
    with empty gap.prems have "list_all is_space (b @ l @ [nl])" by (simp add: trim_space_empty)
    from gap.IH [OF this, of st] show ?thesis using l empty by (simp add: Let_def)
  qed
next
  case (statement s t ss)
  then have s: "s \<noteq> []" "last s \<noteq> nl" "sq_stmt [] (go_lines s)" by (auto simp: sq_one_def nl_def)
  then have whole: "unlines (go_lines s) = s @ [nl]" by (simp add: unlines_go_lines_open)
  have lines: "go_lines (s @ nl # t) = go_lines s @ go_lines t"
    using go_lines_unlines_append [of "go_lines s" t, OF go_lines_sepless] by (simp add: whole)
  have "sq_stmt b (go_lines s)" using sq_stmt_white [OF statement.prems, of "[]"] s(3) by simp
  from sq_lines_stmt [OF this, of "sq_yield exec" None "go_lines t" st]
  have "sq_lines (sq_yield exec) None (go_lines (s @ nl # t)) b st =
      (case exec (trim_space s) st of (st', Some e) \<Rightarrow> (st', Some e) | (st', None) \<Rightarrow> sq_run exec ss st')"
    using sq_one_yield [OF statement.hyps(1) statement.prems, of exec st] statement.IH [of "[]"]
    by (simp add: lines whole split: prod.split option.split)
  then show ?case by simp
qed

section \<open>Lemmas on rows\<close>

lemma sq_row_loop_rows: "sq_row_loop header (map Inr rows) (Suc n) = (concat (map (\<lambda>r. '','' @ [nl] @ r) rows), Suc n + length rows, None)"
  by (induction rows arbitrary: n) simp_all

fun sq_row_lines :: "string list \<Rightarrow> string list" where
  "sq_row_lines [] = []"
| "sq_row_lines [r] = [r @ '';'']"
| "sq_row_lines (r # rs) = (r @ '','') # sq_row_lines rs"

definition insert_statement :: "string \<Rightarrow> string list \<Rightarrow> string" where
  "insert_statement header rows = header @ join ('','' @ [nl]) rows @ '';''"

lemma join_rest: "join sep (r # rows) = r @ concat (map (\<lambda>r. sep @ r) rows)"
  by (induction rows arbitrary: r) simp_all

lemma sq_rows_text:
  "sq_write_rows header (map Inr rows) err =
     ((if rows = [] then [] else insert_statement header rows @ [nl, nl], err), length rows)"
  using sq_row_loop_rows [of header "tl rows" 0]
  by (cases rows) (simp_all add: sq_write_rows_def insert_statement_def join_rest del: join.simps)

lemma trim_space_head:
  assumes "p \<noteq> []" and "\<not> is_space (hd p)" and "\<not> is_space (last p)"
  shows "\<exists>t. trim_space (p @ s) = p @ t"
proof -
  obtain q where q: "rev p = last p # q" using assms(1) by (metis rev.simps(2) rev_rev_ident append_butlast_last_id rev_append append.simps)
  have "\<exists>t. dropWhile is_space (r @ rev p) = t @ rev p" for r using assms(3) by (induction r) (auto simp: q)
  then obtain t where "dropWhile is_space (rev s @ rev p) = t @ rev p" by blast
  moreover have "dropWhile is_space (p @ s) = p @ s" using assms(1,2) by (cases p) simp_all
  ultimately have "trim_space (p @ s) = p @ rev t" by (simp add: trim_space_def)
  then show ?thesis ..
qed

lemma plain_complete:
  assumes "\<not> is_space c" and "upper_char c \<noteq> CHR ''C''"
  shows "stmtComplete (c # s)"
  using trim_space_head [of "[c]" s] assms by (auto simp: stmtComplete_def to_upper_def)

lemma comment_gap: "nl \<notin> set s \<Longrightarrow> sq_gap (''--'' @ s)"
  using trim_space_head [of "''--''" s] by (auto simp: sq_gap_def sq_comment_def is_space_def nl_def)

definition row_shape :: "string \<Rightarrow> bool" where
  "row_shape r \<longleftrightarrow> (\<exists>x. r = ''('' @ x @ '')'') \<and> nl \<notin> set r"

lemma row_line:
  assumes "row_shape r"
  shows "trim_space (r @ '','') = r @ '',''" "trim_space (r @ '';'') = r @ '';''" "\<not> sq_comment (r @ '','')" "\<not> sq_comment (r @ '';'')"
    "nl \<notin> set (r @ '','')" "nl \<notin> set (r @ '';'')"
proof -
  obtain x where r: "r = ''('' @ x @ '')''" using assms by (auto simp: row_shape_def)
  show t: "trim_space (r @ '','') = r @ '',''" "trim_space (r @ '';'') = r @ '';''"
    unfolding r by (rule trim_space_id; simp add: is_space_def)+
  show "\<not> sq_comment (r @ '','')" "\<not> sq_comment (r @ '';'')" unfolding sq_comment_def t by (simp_all add: r)
  show "nl \<notin> set (r @ '','')" "nl \<notin> set (r @ '';'')" using assms by (auto simp: row_shape_def nl_def)
qed

lemma row_lines_stmt:
  assumes "\<And>s. stmtComplete (cur @ s)" and "rows \<noteq> []" and "\<forall>r \<in> set rows. row_shape r"
  shows "sq_stmt cur (sq_row_lines rows)"
  using assms
proof (induction rows arbitrary: cur rule: sq_row_lines.induct)
  case (2 r)
  with row_line [of r] show ?case by simp
next
  case (3 r r' rs)
  then have "sq_stmt (cur @ (r @ '','') @ [nl]) (sq_row_lines (r' # rs))" using "3.prems"(1) [of "(r @ '','') @ [nl] @ _"] by simp
  moreover have "\<not> has_suffix (trim_space (r @ '','')) '';''" using row_line(1) [of r] "3.prems"(3) by simp
  ultimately show ?case using row_line [of r] "3.prems"(3) by simp
qed simp


lemma row_text_lines:
  "rows \<noteq> [] \<Longrightarrow> \<forall>r \<in> set rows. row_shape r \<Longrightarrow> go_lines (join ('','' @ [nl]) rows @ '';'') = sq_row_lines rows"
proof (induction rows rule: sq_row_lines.induct)
  case (2 r)
  with row_line(6) [of r] show ?case by (simp add: go_lines_last)
next
  case (3 r r' rs)
  then have "nl \<notin> set (r @ '','')" using row_line(5) [of r] by simp
  from go_lines_line [OF this] 3 show ?case by simp
qed simp

lemma insert_one:
  assumes "h = CHR ''I'' # h' @ ''VALUES''" and "nl \<notin> set h" and "rows \<noteq> []" and "\<forall>r \<in> set rows. row_shape r"
  shows "sq_one (insert_statement (h @ [nl]) rows)"
proof -
  let ?s = "insert_statement (h @ [nl]) rows"
  have lines: "go_lines ?s = h # sq_row_lines rows"
    using assms(2) row_text_lines [OF assms(3,4)] by (simp add: insert_statement_def)
  have white: "\<not> is_space (CHR ''I'')" "\<not> is_space (CHR ''S'')" "\<not> is_space (CHR '';'')" by (simp_all add: is_space_def)
  have "stmtComplete (CHR ''I'' # s)" for s by (rule plain_complete [OF white(1)]) (simp add: upper_char_def)
  then have "sq_stmt (h @ [nl]) (sq_row_lines rows)"
    using row_lines_stmt [OF _ assms(3,4), of "h @ [nl]"] assms(1) by simp
  moreover have h: "trim_space h = h" by (rule trim_space_id) (simp_all add: assms(1) white)
  moreover have "\<not> has_prefix h ''--''" "\<not> has_suffix h '';''" by (simp_all add: assms(1) suffix_def)
  ultimately have "sq_stmt [] (go_lines ?s)" unfolding lines using assms(2) by (simp add: sq_comment_def)
  moreover have "trim_space ?s = ?s" by (rule trim_space_id) (simp_all add: insert_statement_def assms(1) white)
  ultimately show ?thesis using assms(1) by (simp add: sq_one_def insert_statement_def)
qed

text \<open>A statement of one line that is not a \<open>CREATE\<close>.\<close>

lemma one_line:
  assumes "\<not> is_space c" and "upper_char c \<noteq> CHR ''C''" and "c \<noteq> CHR ''-''" and "nl \<notin> set (c # s)"
  shows "sq_one (c # s @ '';'')"
proof -
  have "\<not> is_space (CHR '';'')" by (simp add: is_space_def)
  then have "trim_space (c # s @ '';'') = c # s @ '';''" by (intro trim_space_id) (simp_all add: assms(1))
  moreover have "go_lines (c # s @ '';'') = [c # s @ '';'']" using assms(4) by (intro go_lines_last) (auto simp: nl_def)
  ultimately show ?thesis using assms plain_complete [OF assms(1,2)] by (simp add: sq_one_def sq_comment_def nl_def suffix_def)
qed

section \<open>The content of a file and its statements\<close>

text \<open>\<open>t_rows\<close> holds the literals of the columns that are inserted.\<close>

record sqlite_table =
  t_create :: string
  t_cols :: "string list"
  t_generated :: "string list"
  t_rows :: "string option list list"

record sqlite_content =
  c_tables :: "(string \<times> sqlite_table) list"
  c_stats :: "(string option \<times> string \<times> string \<times> string) list option"
  c_sequences :: "(string \<times> int) list option"
  c_objects :: "(string \<times> string \<times> string \<times> string) list"

definition answered :: "'r list \<Rightarrow> 'r rows" where
  "answered rs = Inr (map Inr rs, None)"

definition for_table :: "sqlite_content \<Rightarrow> (sqlite_table \<Rightarrow> 'a) \<Rightarrow> string \<Rightarrow> string + 'a" where
  "for_table c f t = (case map_of (c_tables c) t of None \<Rightarrow> Inl ''no such table'' | Some x \<Rightarrow> Inr (f x))"

definition the_rows :: "string + 'r list \<Rightarrow> 'r rows" where
  "the_rows x = (case x of Inl e \<Rightarrow> Inl e | Inr rs \<Rightarrow> answered rs)"

text \<open>The answers of the database to the queries of the dump.\<close>

definition reader_of :: "sqlite_content \<Rightarrow> sqlite_reader" where
  "reader_of c = \<lparr>
     sq_tables = answered (map fst (c_tables c)),
     sq_allTables = answered (map (\<lambda>(t, x). (t, Some (t_create x))) (c_tables c)),
     sq_create = for_table c t_create,
     sq_columns = for_table c t_cols,
     sq_generated = (\<lambda>t. the_rows (for_table c t_generated t)),
     sq_select = (\<lambda>_ t. the_rows (for_table c t_rows t)),
     sq_ones = (\<lambda>t. the_rows (for_table c (\<lambda>x. map (\<lambda>_. ()) (t_rows x)) t)),
     sq_hasStats = (c_stats c \<noteq> None),
     sq_stats = answered (case c_stats c of None \<Rightarrow> [] | Some rs \<Rightarrow> rs),
     sq_hasSequences = (c_sequences c \<noteq> None),
     sq_sequences = answered (case c_sequences c of None \<Rightarrow> [] | Some rs \<Rightarrow> rs),
     sq_objects = answered (c_objects c)\<rparr>"

definition is_shadow :: "sqlite_content \<Rightarrow> string \<Rightarrow> bool" where
  "is_shadow c t \<longleftrightarrow> list_ex (\<lambda>(v, x). has_prefix (to_upper (trim_space (t_create x))) ''CREATE VIRTUAL TABLE'' \<and>
     list_ex (\<lambda>s. t = v @ s) shadow_suffixes) (c_tables c)"

definition dumped_tables :: "sqlite_content \<Rightarrow> sqlite_options \<Rightarrow> (string \<times> sqlite_table) list" where
  "dumped_tables c opts = filter (\<lambda>(t, _). \<not> is_shadow c t \<and> sq_included opts t) (c_tables c)"

definition with_rows :: "sqlite_options \<Rightarrow> string \<Rightarrow> bool" where
  "with_rows opts t \<longleftrightarrow> \<not> (sq_SchemaOnly opts \<or> (sq_Tables opts \<noteq> None \<and> snd (TableFilter_Apply (sq_Tables opts) t)))"

definition inserted_cols :: "sqlite_table \<Rightarrow> string list" where
  "inserted_cols x = filter (\<lambda>c. c \<notin> set (t_generated x)) (t_cols x)"

definition row_statements :: "string \<Rightarrow> sqlite_table \<Rightarrow> string list" where
  "row_statements t x =
     (if inserted_cols x = [] then map (\<lambda>_. ''INSERT INTO '' @ quoteSQLiteIdent t @ '' DEFAULT VALUES;'') (t_rows x)
      else if t_rows x = [] then []
      else [insert_statement (sq_insert_header t (inserted_cols x)) (map sq_row_text (t_rows x))])"

definition table_statements :: "sqlite_options \<Rightarrow> string \<times> sqlite_table \<Rightarrow> string list" where
  "table_statements opts tx =
     (case tx of (t, x) \<Rightarrow>
        [''DROP TABLE IF EXISTS '' @ quoteSQLiteIdent t @ '';'', t_create x @ '';''] @ (if with_rows opts t then row_statements t x else []))"

definition dumped_rows :: "sqlite_options \<Rightarrow> string \<times> sqlite_table \<Rightarrow> nat" where
  "dumped_rows opts tx = (case tx of (t, x) \<Rightarrow> if with_rows opts t then length (t_rows x) else 0)"

definition stat_statements :: "sqlite_content \<Rightarrow> sqlite_options \<Rightarrow> string list" where
  "stat_statements c opts =
     (let kept = filter (\<lambda>(tbl, _). case tbl of None \<Rightarrow> True | Some t \<Rightarrow> t \<in> fst ` set (dumped_tables c opts))
                   (case c_stats c of None \<Rightarrow> [] | Some rs \<Rightarrow> rs)
      in if kept = [] then []
         else [''ANALYZE sqlite_schema;'', ''DELETE FROM sqlite_stat1;''] @
              map (\<lambda>(_, qtbl, qidx, qstat).
                ''INSERT INTO sqlite_stat1 (tbl, idx, stat) VALUES ('' @ qtbl @ '', '' @ qidx @ '', '' @ qstat @ '');'') kept)"

text \<open>The counters are set again only for tables of which rows were dumped.\<close>

definition sequence_statements :: "sqlite_content \<Rightarrow> sqlite_options \<Rightarrow> string list" where
  "sequence_statements c opts =
     map (\<lambda>(name, sq). ''UPDATE sqlite_sequence SET seq='' @ itoa sq @ '' WHERE name='' @ [squote] @
            replace_char squote [squote, squote] name @ [squote] @ '';'')
       (filter (\<lambda>(name, _). list_ex (\<lambda>tx. fst tx = name \<and> dumped_rows opts tx \<noteq> 0) (dumped_tables c opts))
          (case c_sequences c of None \<Rightarrow> [] | Some rs \<Rightarrow> rs))"

definition object_statements :: "sqlite_options \<Rightarrow> string \<times> string \<times> string \<times> string \<Rightarrow> string list" where
  "object_statements opts ob =
     (case ob of (typ, name, tbl, objSQL) \<Rightarrow>
        if \<not> sq_included opts tbl \<or> typ \<notin> {''index'', ''view'', ''trigger''} then []
        else [''DROP '' @ to_upper typ @ '' IF EXISTS '' @ quoteSQLiteIdent name @ '';'', trim_suffix (trim_space objSQL) '';'' @ '';''])"

definition content_statements :: "sqlite_content \<Rightarrow> sqlite_options \<Rightarrow> string list" where
  "content_statements c opts =
     [''PRAGMA foreign_keys=OFF;'', ''BEGIN TRANSACTION;''] @ concat (map (table_statements opts) (dumped_tables c opts)) @
     stat_statements c opts @ sequence_statements c opts @ concat (map (object_statements opts) (c_objects c)) @ [''COMMIT;'']"

text \<open>
  What keeps the lines of the statements apart: no name and no literal of a value holds a
  newline, and the text of every object is read as one statement.
\<close>

definition table_ok :: "string \<times> sqlite_table \<Rightarrow> bool" where
  "table_ok tx =
     (case tx of (t, x) \<Rightarrow>
        nl \<notin> set t \<and> sq_one (t_create x @ '';'') \<and> list_all (\<lambda>c. nl \<notin> set c) (t_cols x) \<and>
        list_all (list_all (\<lambda>v. case v of None \<Rightarrow> True | Some s \<Rightarrow> nl \<notin> set s)) (t_rows x))"

definition content_ok :: "sqlite_content \<Rightarrow> bool" where
  "content_ok c \<longleftrightarrow>
     distinct (map fst (c_tables c)) \<and> list_all table_ok (c_tables c) \<and>
     (case c_stats c of None \<Rightarrow> True
      | Some rs \<Rightarrow> list_all (\<lambda>(_, qtbl, qidx, qstat). nl \<notin> set qtbl \<and> nl \<notin> set qidx \<and> nl \<notin> set qstat) rs) \<and>
     (case c_sequences c of None \<Rightarrow> True | Some rs \<Rightarrow> list_all (\<lambda>(name, _). nl \<notin> set name) rs) \<and>
     list_all (\<lambda>(_, name, _, objSQL). nl \<notin> set name \<and> sq_one (trim_suffix (trim_space objSQL) '';'' @ '';'')) (c_objects c)"

section \<open>Lemmas on the dump of a content\<close>

lemma scan_rows_all [simp]: "scan_rows (map Inr rs) None = Inr rs"
  by (induction rs) simp_all

lemma all_rows_answered [simp]: "all_rows (answered rs) = Inr rs"
  by (simp add: all_rows_def answered_def)

lemma write_answered: "write_query f (answered rs) = (concat (map f rs), None)"
proof -
  have "write_scanned f (map Inr rs) None = (concat (map f rs), None)" by (induction rs) simp_all
  then show ?thesis by (simp add: write_query_def answered_def)
qed

lemma in_concat_map: "(\<And>x. t \<in> set (f x) \<longleftrightarrow> P x) \<Longrightarrow> t \<in> set (concat (map f xs)) \<longleftrightarrow> list_ex P xs"
  by (induction xs) auto

lemma shadow_tables_found:
  "\<exists>shadows. shadowTables (reader_of c) = Inr shadows \<and> (\<forall>t. t \<in> set shadows \<longleftrightarrow> is_shadow c t)"
proof -
  let ?f = "\<lambda>(v, x). if has_prefix (to_upper (trim_space (t_create x))) ''CREATE VIRTUAL TABLE'' then map (\<lambda>s. v @ s) shadow_suffixes else []"
  have "shadowTables (reader_of c) = Inr (concat (map ?f (c_tables c)))"
    by (simp add: shadowTables_def reader_of_def comp_def split_def cong: if_cong)
  moreover have "t \<in> set (concat (map ?f (c_tables c))) \<longleftrightarrow> is_shadow c t" for t
    unfolding is_shadow_def by (rule in_concat_map) (auto simp: list_ex_iff split: if_splits)
  ultimately show ?thesis by blast
qed

lemma content_tables_listed: "sq_listTables (reader_of c) = Inr (map fst (filter (\<lambda>(t, _). \<not> is_shadow c t) (c_tables c)))"
proof -
  obtain shadows where "shadowTables (reader_of c) = Inr shadows" "\<And>t. t \<in> set shadows \<longleftrightarrow> is_shadow c t"
    using shadow_tables_found by blast
  then show ?thesis by (simp add: sq_listTables_def) (simp add: reader_of_def filter_map comp_def split_def)
qed

lemma reader_table:
  assumes "map_of (c_tables c) t = Some x"
  shows "sq_create (reader_of c) t = Inr (t_create x)" "sq_columns (reader_of c) t = Inr (t_cols x)"
    "all_rows (sq_generated (reader_of c) t) = Inr (t_generated x)" "sq_select (reader_of c) cols t = Inr (map Inr (t_rows x), None)"
    "sq_ones (reader_of c) t = Inr (map (\<lambda>_. Inr ()) (t_rows x), None)"
  using assms all_rows_answered [of "t_generated x"] by (simp_all add: reader_of_def for_table_def the_rows_def answered_def comp_def)

lemma content_rows:
  assumes "map_of (c_tables c) t = Some x"
  shows "sq_dump_rows (reader_of c) t = ((concat (map (\<lambda>s. s @ [nl]) (row_statements t x)) @ (if t_rows x = [] then [] else [nl]), None), length (t_rows x))"
proof (cases "inserted_cols x = []")
  case True
  then show ?thesis
    by (simp add: sq_dump_rows_def sq_dumpDefaultRows_def reader_table [OF assms] inserted_cols_def row_statements_def comp_def)
next
  case False
  then have "sq_dump_rows (reader_of c) t = sq_write_rows (sq_insert_header t (inserted_cols x)) (map Inr (map sq_row_text (t_rows x))) None"
    by (simp add: sq_dump_rows_def reader_table [OF assms] inserted_cols_def comp_def)
  with False show ?thesis unfolding sq_rows_text by (simp add: row_statements_def)
qed

lemma join_line: "nl \<notin> set sep \<Longrightarrow> \<forall>x \<in> set xs. nl \<notin> set x \<Longrightarrow> nl \<notin> set (join sep xs)"
  by (induction sep xs rule: join.induct) auto

lemma ident_line: "nl \<notin> set s \<Longrightarrow> nl \<notin> set (quoteSQLiteIdent s)"
proof -
  assume "nl \<notin> set s"
  then have "nl \<notin> set (replace_char quot [quot, quot] s)" by (induction s) (auto simp: nl_def quot_def)
  then show ?thesis by (simp add: quoteSQLiteIdent_def nl_def quot_def)
qed

lemma upper_line: "nl \<notin> set s \<Longrightarrow> c \<in> {CHR ''A'', CHR ''B'', CHR ''D'', CHR ''I'', CHR ''P'', CHR ''U''} \<Longrightarrow> sq_one (c # s @ '';'')"
  by (rule one_line) (auto simp: is_space_def upper_char_def nl_def)

lemma drop_line: "nl \<notin> set k \<Longrightarrow> nl \<notin> set t \<Longrightarrow> sq_one (''DROP '' @ k @ '' IF EXISTS '' @ quoteSQLiteIdent t @ '';'')"
  using upper_line [of "''ROP '' @ k @ '' IF EXISTS '' @ quoteSQLiteIdent t" "CHR ''D''"] ident_line [of t] by (simp add: nl_def)

lemma row_shape_text: "list_all (\<lambda>v. case v of None \<Rightarrow> True | Some s \<Rightarrow> nl \<notin> set s) vals \<Longrightarrow> row_shape (sq_row_text vals)"
  using join_line [of "'', ''" "map (\<lambda>v. case v of Some s \<Rightarrow> s | None \<Rightarrow> ''NULL'') vals"]
  by (auto simp: row_shape_def sq_row_text_def nl_def list_all_iff split: option.splits)

lemma row_statement_one:
  assumes "table_ok (t, x)" and "s \<in> set (row_statements t x)"
  shows "sq_one s"
proof (cases "inserted_cols x = []")
  case True
  with assms have "s = ''INSERT INTO '' @ quoteSQLiteIdent t @ '' DEFAULT VALUES;''" by (auto simp: row_statements_def)
  then show ?thesis using upper_line [of "''NSERT INTO '' @ quoteSQLiteIdent t @ '' DEFAULT VALUES''" "CHR ''I''"] ident_line [of t] assms(1)
    by (simp add: table_ok_def nl_def)
next
  case False
  let ?h' = "''NSERT INTO '' @ quoteSQLiteIdent t @ '' ('' @ join '', '' (map quoteSQLiteIdent (inserted_cols x)) @ '') ''"
  have s: "s = insert_statement ((CHR ''I'' # ?h' @ ''VALUES'') @ [nl]) (map sq_row_text (t_rows x))" "t_rows x \<noteq> []"
    using assms(2) False by (auto simp: row_statements_def sq_insert_header_def split: if_splits)
  have "nl \<notin> set (join '', '' (map quoteSQLiteIdent (inserted_cols x)))"
    using assms(1) ident_line by (intro join_line) (auto simp: table_ok_def inserted_cols_def list_all_iff nl_def)
  then have "nl \<notin> set (CHR ''I'' # ?h' @ ''VALUES'')" using assms(1) ident_line [of t] by (simp add: table_ok_def nl_def)
  moreover have "\<forall>r \<in> set (map sq_row_text (t_rows x)). row_shape r"
    using assms(1) row_shape_text by (auto simp: table_ok_def list_all_iff)
  ultimately show ?thesis unfolding s(1) using s(2) by (intro insert_one) simp_all
qed

lemma dumps_as_lines: "(\<And>s. s \<in> set ss \<Longrightarrow> sq_one s) \<Longrightarrow> dumps_as (concat (map (\<lambda>s. s @ [nl]) ss)) ss"
  by (induction ss) (auto intro: dumps_as.intros)

lemma dumps_as_end: "dumps_as t ss \<Longrightarrow> dumps_as (t @ (if b then [] else [nl])) ss"
  using dumps_as_append [OF _ dumps_as_blank] by auto

lemma table_head_statements:
  assumes "table_ok (t, x)"
  shows "dumps_as (sq_table_head t (t_create x)) [''DROP TABLE IF EXISTS '' @ quoteSQLiteIdent t @ '';'', t_create x @ '';'']"
proof -
  have ok: "nl \<notin> set t" "sq_one (t_create x @ '';'')" using assms by (simp_all add: table_ok_def)
  have "sq_gap (''--'' @ '' Table: '' @ t)" using ok(1) by (intro comment_gap) (simp add: nl_def)
  from gap [OF this dumps_as_block [OF ok(2)]]
  have "dumps_as (''-- Table: '' @ t @ [nl] @ t_create x @ '';'' @ [nl, nl]) [t_create x @ '';'']" by simp
  from statement [OF drop_line [of "''TABLE''", OF _ ok(1)] this] show ?thesis by (simp add: sq_table_head_def nl_def)
qed

lemma content_table:
  assumes "map_of (c_tables c) t = Some x"
  shows "\<exists>out. sq_dumpTable (reader_of c) opts t = ((out, None), dumped_rows opts (t, x)) \<and>
    (table_ok (t, x) \<longrightarrow> dumps_as out (table_statements opts (t, x)))"
proof (cases "with_rows opts t")
  case True
  then have "sq_dumpTable (reader_of c) opts t = ((sq_table_head t (t_create x) @
      concat (map (\<lambda>s. s @ [nl]) (row_statements t x)) @ (if t_rows x = [] then [] else [nl]), None), dumped_rows opts (t, x))"
    by (auto simp: sq_dumpTable_def with_rows_def dumped_rows_def reader_table [OF assms] content_rows [OF assms])
  moreover have "dumps_as (sq_table_head t (t_create x) @ concat (map (\<lambda>s. s @ [nl]) (row_statements t x)) @
      (if t_rows x = [] then [] else [nl])) (table_statements opts (t, x))" if "table_ok (t, x)"
    using dumps_as_append [OF table_head_statements [OF that] dumps_as_end [OF dumps_as_lines [OF row_statement_one [OF that]]]] True
    by (simp add: table_statements_def)
  ultimately show ?thesis by blast
next
  case False
  then have "sq_dumpTable (reader_of c) opts t = ((sq_table_head t (t_create x), None), dumped_rows opts (t, x))"
    by (auto simp: sq_dumpTable_def with_rows_def dumped_rows_def reader_table [OF assms])
  then show ?thesis using table_head_statements False by (simp add: table_statements_def)
qed

lemma content_dump_tables:
  assumes "\<forall>tx \<in> set xs. map_of (c_tables c) (fst tx) = Some (snd tx)"
  shows "\<exists>out. sq_dump_tables (reader_of c) opts (map fst xs) =
      ((out, None), map (\<lambda>tx. (fst tx, dumped_rows opts tx)) (filter (\<lambda>tx. sq_included opts (fst tx)) xs)) \<and>
    (list_all table_ok xs \<longrightarrow> dumps_as out (concat (map (table_statements opts) (filter (\<lambda>tx. sq_included opts (fst tx)) xs))))"
  using assms
proof (induction xs)
  case (Cons tx xs)
  obtain t x where tx: "tx = (t, x)" by (cases tx)
  obtain out where out: "sq_dumpTable (reader_of c) opts t = ((out, None), dumped_rows opts (t, x))"
      "table_ok (t, x) \<longrightarrow> dumps_as out (table_statements opts (t, x))"
    using content_table Cons.prems tx by force
  obtain out' where out': "sq_dump_tables (reader_of c) opts (map fst xs) =
        ((out', None), map (\<lambda>tx. (fst tx, dumped_rows opts tx)) (filter (\<lambda>tx. sq_included opts (fst tx)) xs))"
      "list_all table_ok xs \<longrightarrow> dumps_as out' (concat (map (table_statements opts) (filter (\<lambda>tx. sq_included opts (fst tx)) xs)))"
    using Cons by auto
  then show ?case using out dumps_as_append by (auto simp: tx)
qed (auto intro: dumps_as.intros)

lemma content_stats:
  assumes "content_ok c" and "fst ` set m = fst ` set (dumped_tables c opts)"
  shows "\<exists>out. dumpQueryStats (reader_of c) m = (out, None) \<and> dumps_as out (stat_statements c opts)"
proof (cases "c_stats c")
  case None
  then show ?thesis by (auto simp: dumpQueryStats_def reader_of_def stat_statements_def intro: dumps_as.intros)
next
  case (Some rs)
  let ?line = "\<lambda>(_ :: string option, qtbl, qidx, qstat). ''INSERT INTO sqlite_stat1 (tbl, idx, stat) VALUES ('' @ qtbl @ '', '' @ qidx @ '', '' @ qstat @ '');''"
  let ?kept = "filter (\<lambda>(tbl, _). case tbl of None \<Rightarrow> True | Some t \<Rightarrow> t \<in> fst ` set (dumped_tables c opts)) rs"
  let ?ss = "[''ANALYZE sqlite_schema;'', ''DELETE FROM sqlite_stat1;''] @ map ?line ?kept"
  have "sq_one (?line r)" if "r \<in> set ?kept" for r
  proof -
    obtain a qtbl qidx qstat where r: "r = (a, qtbl, qidx, qstat)" by (cases r)
    with that assms(1) Some have "nl \<notin> set qtbl \<and> nl \<notin> set qidx \<and> nl \<notin> set qstat" by (auto simp: content_ok_def list_all_iff)
    then show ?thesis using r upper_line
        [of "''NSERT INTO sqlite_stat1 (tbl, idx, stat) VALUES ('' @ qtbl @ '', '' @ qidx @ '', '' @ qstat @ '')''" "CHR ''I''"] by (simp add: nl_def)
  qed
  moreover have "sq_one ''ANALYZE sqlite_schema;''" "sq_one ''DELETE FROM sqlite_stat1;''" by code_simp+
  ultimately have "dumps_as (concat (map (\<lambda>s. s @ [nl]) ?ss)) ?ss" by (intro dumps_as_lines) auto
  from dumps_as_append [OF this dumps_as_blank] have "dumps_as (concat (map (\<lambda>s. s @ [nl]) ?ss) @ [nl]) ?ss" by simp
  moreover have "dumpQueryStats (reader_of c) m = (if ?kept = [] then [] else concat (map (\<lambda>s. s @ [nl]) ?ss) @ [nl], None)"
    unfolding dumpQueryStats_def assms(2) by (simp add: reader_of_def Some comp_def split_def)
  moreover have "stat_statements c opts = (if ?kept = [] then [] else ?ss)" by (simp add: stat_statements_def Some Let_def)
  ultimately show ?thesis using end_of_dump by (cases "?kept = []") auto
qed

lemma rows_of_distinct:
  assumes "distinct (map fst m)"
  shows "rows_of m name \<noteq> 0 \<longleftrightarrow> (\<exists>n. (name, n) \<in> set m \<and> n \<noteq> 0)"
proof -
  have "(name, n) \<in> set m \<longleftrightarrow> map_of (rev m) name = Some n" for n
    using map_of_eq_Some_iff [of "rev m" name n] assms by (simp add: rev_map [symmetric])
  then show ?thesis unfolding rows_of_def by (cases "map_of (rev m) name") simp_all
qed

lemma itoa_nl: "nl \<notin> set (itoa n)"
proof -
  have "\<not> is_digit nl" by code_simp
  then show ?thesis using pos_itoa_digits [of "\<bar>n\<bar>"] by (auto simp: itoa_def list_all_iff nl_def)
qed

lemma content_sequences:
  assumes "content_ok c" and "m = map (\<lambda>tx. (fst tx, dumped_rows opts tx)) (dumped_tables c opts)"
  shows "\<exists>out. sq_dumpSequences (reader_of c) m = (out, None) \<and> dumps_as out (sequence_statements c opts)"
proof (cases "c_sequences c")
  case None
  then show ?thesis by (auto simp: sq_dumpSequences_def reader_of_def sequence_statements_def intro: dumps_as.intros)
next
  case (Some rs)
  let ?line = "\<lambda>(name, sq). ''UPDATE sqlite_sequence SET seq='' @ itoa sq @ '' WHERE name='' @ [squote] @
     replace_char squote [squote, squote] name @ [squote] @ '';''"
  let ?kept = "filter (\<lambda>(name, _). rows_of m name \<noteq> 0) rs"
  have "distinct (map fst m)" using assms by (simp add: content_ok_def dumped_tables_def comp_def distinct_map_filter)
  from rows_of_distinct [OF this] have "rows_of m name \<noteq> 0 \<longleftrightarrow> list_ex (\<lambda>tx. fst tx = name \<and> dumped_rows opts tx \<noteq> 0) (dumped_tables c opts)" for name
    unfolding assms(2) list_ex_iff by auto
  then have stmts: "sequence_statements c opts = map ?line ?kept" by (simp add: sequence_statements_def Some)
  have "sq_one (?line r)" if "r \<in> set ?kept" for r
  proof -
    obtain name sq where r: "r = (name, sq)" by (cases r)
    with that assms(1) Some have "nl \<notin> set name" by (auto simp: content_ok_def list_all_iff)
    then have "nl \<notin> set (replace_char squote [squote, squote] name)" by (induction name) (auto simp: nl_def squote_def)
    then show ?thesis using r upper_line [of "''PDATE sqlite_sequence SET seq='' @ itoa sq @ '' WHERE name='' @ [squote] @
        replace_char squote [squote, squote] name @ [squote]" "CHR ''U''"] itoa_nl [of sq] by (simp add: nl_def squote_def)
  qed
  then have "dumps_as (concat (map (\<lambda>s. s @ [nl]) (map ?line ?kept)) @ (if ?kept = [] then [] else [nl])) (map ?line ?kept)"
    by (intro dumps_as_end dumps_as_lines) auto
  moreover have "sq_dumpSequences (reader_of c) m = (concat (map (\<lambda>s. s @ [nl]) (map ?line ?kept)) @ (if ?kept = [] then [] else [nl]), None)"
    by (simp add: sq_dumpSequences_def reader_of_def Some comp_def split_def Let_def)
  ultimately show ?thesis unfolding stmts by blast
qed

lemma object_dumped:
  assumes "nl \<notin> set name" and "sq_one (trim_suffix (trim_space objSQL) '';'' @ '';'')"
  shows "dumps_as (object_text opts (typ, name, tbl, objSQL)) (object_statements opts (typ, name, tbl, objSQL))"
proof (cases "\<not> sq_included opts tbl \<or> typ \<notin> {''index'', ''view'', ''trigger''}")
  case True
  then show ?thesis by (auto simp: object_text_def object_statements_def intro: dumps_as.intros)
next
  case False
  moreover have "nl \<notin> set (to_upper ''index'')" "nl \<notin> set (to_upper ''view'')" "nl \<notin> set (to_upper ''trigger'')" by code_simp+
  ultimately have "nl \<notin> set (to_upper typ)" by auto
  from statement [OF drop_line [OF this assms(1)] dumps_as_block [OF assms(2)]] False
  show ?thesis by (auto simp: object_text_def object_statements_def)
qed

lemma content_objects:
  assumes "content_ok c"
  shows "\<exists>out. dumpSchemaObjects (reader_of c) opts = (out, None) \<and> dumps_as out (concat (map (object_statements opts) (c_objects c)))"
proof -
  have "dumps_as (object_text opts ob) (object_statements opts ob)" if "ob \<in> set (c_objects c)" for ob
    using object_dumped assms that by (cases ob) (force simp: content_ok_def list_all_iff)
  from dumps_as_concat [OF this] show ?thesis by (simp add: dumpSchemaObjects_def reader_of_def write_answered)
qed

lemma dump_statements:
  assumes "content_ok c" and "list_all sq_gap bs"
  shows "\<exists>out. sq_Dump (reader_of c) opts (unlines bs) = (out, None) \<and> dumps_as out (content_statements c opts)"
proof -
  let ?xs = "filter (\<lambda>(t, _). \<not> is_shadow c t) (c_tables c)"
  let ?m = "map (\<lambda>tx. (fst tx, dumped_rows opts tx)) (dumped_tables c opts)"
  have kept: "filter (\<lambda>tx. sq_included opts (fst tx)) ?xs = dumped_tables c opts"
    by (simp add: dumped_tables_def split_def conj_commute)
  have ok: "list_all table_ok ?xs" using assms(1) by (auto simp: content_ok_def list_all_iff)
  have found: "\<forall>tx \<in> set ?xs. map_of (c_tables c) (fst tx) = Some (snd tx)" using assms(1) by (auto simp: content_ok_def)
  from content_dump_tables [of ?xs c opts, OF found] obtain o1 where o1: "sq_dump_tables (reader_of c) opts (map fst ?xs) = ((o1, None), ?m)"
    "list_all table_ok ?xs \<longrightarrow> dumps_as o1 (concat (map (table_statements opts) (dumped_tables c opts)))" unfolding kept by (elim exE conjE)
  have "fst ` set ?m = fst ` set (dumped_tables c opts)" by force
  from content_stats [OF assms(1) this] obtain o2 where o2: "dumpQueryStats (reader_of c) ?m = (o2, None)" "dumps_as o2 (stat_statements c opts)"
    by blast
  from content_sequences [OF assms(1) refl] obtain o3 where o3: "sq_dumpSequences (reader_of c) ?m = (o3, None)"
    "dumps_as o3 (sequence_statements c opts)" by blast
  from content_objects [OF assms(1)] obtain o4 where o4: "dumpSchemaObjects (reader_of c) opts = (o4, None)"
    "dumps_as o4 (concat (map (object_statements opts) (c_objects c)))" by blast
  let ?start = "''PRAGMA foreign_keys=OFF;'' @ nl # ''BEGIN TRANSACTION;'' @ [nl, nl]"
  have out: "sq_Dump (reader_of c) opts (unlines bs) = (unlines (bs @ [''--'', []]) @ ?start @ o1 @ o2 @ o3 @ o4 @ ''COMMIT;'' @ [nl], None)"
    unfolding sq_Dump_def content_tables_listed by (simp add: then_write_def o1(1) o2(1) o3(1) o4(1))
  have ones: "sq_one ''PRAGMA foreign_keys=OFF;''" "sq_one ''BEGIN TRANSACTION;''" "sq_one ''COMMIT;''" by code_simp+
  have ends: "dumps_as ?start [''PRAGMA foreign_keys=OFF;'', ''BEGIN TRANSACTION;'']" "dumps_as (''COMMIT;'' @ [nl]) [''COMMIT;'']"
    by (rule statement [OF ones(1) dumps_as_block [OF ones(2)]], rule dumps_as_one [OF ones(3)])
  have "dumps_as (unlines (bs @ [''--'', []])) []"
    using assms(2) comment_gap [of "[]"] blank_gap by (intro dumps_as_gaps) simp
  from dumps_as_append [OF this dumps_as_append [OF ends(1) dumps_as_append [OF mp [OF o1(2) ok] dumps_as_append [OF o2(2)
      dumps_as_append [OF o3(2) dumps_as_append [OF o4(2) ends(2)]]]]]]
  show ?thesis unfolding out content_statements_def by simp
qed

section \<open>Properties\<close>


definition sq_log :: "string \<Rightarrow> string list \<Rightarrow> string list \<times> string option" where
  "sq_log s l = (l @ [s], None)"

definition sq_shop :: sqlite_content where
  "sq_shop = \<lparr>
     c_tables = [(''a'', \<lparr>t_create = ''CREATE TABLE a(x)'', t_cols = [''x''], t_generated = [], t_rows = [[Some ''1''], [None]]\<rparr>)],
     c_stats = None, c_sequences = Some [(''a'', 7)], c_objects = [(''index'', ''i'', ''a'', ''CREATE INDEX i ON a(x)'')]\<rparr>"

definition sq_all :: sqlite_options where
  "sq_all = \<lparr>sq_Tables = None, sq_SchemaOnly = False\<rparr>"


text \<open>A line of a value that starts with two dashes is dropped as a comment: the row is restored without it.\<close>

theorem dashed_line_lost:
  "sq_restoreStream sq_log (insert_statement (sq_insert_header ''n'' [''x'']) [sq_row_text [Some (squote # ''a'' @ [nl] @ ''-- b'' @ [nl] @ ''c'' @ [squote])]] @ [nl])
     None [] = ([sq_insert_header ''n'' [''x''] @ ''('' @ [squote] @ ''a'' @ [nl] @ ''c'' @ [squote] @ '');'' @ [nl]], None)"
  by code_simp

text \<open>A line of a value that ends in a semicolon ends the statement inside the literal.\<close>

theorem semicolon_line_cuts:
  "sq_restoreStream sq_log (insert_statement (sq_insert_header ''n'' [''x'']) [sq_row_text [Some (squote # ''a;'' @ [nl] @ ''c'' @ [squote])]] @ [nl])
     None [] = ([sq_insert_header ''n'' [''x''] @ ''('' @ [squote] @ ''a;'' @ [nl], ''c'' @ [squote] @ '');'' @ [nl]], None)"
  by code_simp

text \<open>The body of a trigger is cut behind a \<open>CASE\<close> expression that ends a line.\<close>

theorem case_end_cuts_trigger:
  "sq_restoreStream sq_log (unlines [''CREATE TRIGGER r AFTER INSERT ON a BEGIN'', ''UPDATE a SET x = CASE WHEN x THEN 1 END;'', ''DELETE FROM b;'', ''END;''])
     None [] = ([unlines [''CREATE TRIGGER r AFTER INSERT ON a BEGIN'', ''UPDATE a SET x = CASE WHEN x THEN 1 END;''],
       unlines [''DELETE FROM b;''], unlines [''END;'']], None)"
  by code_simp

text \<open>The counter of a table without rows is not restored.\<close>

theorem empty_table_counter_lost:
  assumes "content_ok c" and "map_of (c_tables c) t = Some x" and "t_rows x = []"
  shows "s \<in> set (sequence_statements c opts) \<Longrightarrow>
    \<exists>name sq. name \<noteq> t \<and> s = ''UPDATE sqlite_sequence SET seq='' @ itoa sq @ '' WHERE name='' @ [squote] @
      replace_char squote [squote, squote] name @ [squote] @ '';''"
proof -
  have none: "dumped_rows opts (t, y) = 0" if "(t, y) \<in> set (dumped_tables c opts)" for y
  proof -
    have "map_of (c_tables c) t = Some y" using that assms(1) by (auto simp: dumped_tables_def content_ok_def)
    then show ?thesis using assms(2,3) by (simp add: dumped_rows_def)
  qed
  assume "s \<in> set (sequence_statements c opts)"
  then obtain name sq where s: "s = ''UPDATE sqlite_sequence SET seq='' @ itoa sq @ '' WHERE name='' @ [squote] @
      replace_char squote [squote, squote] name @ [squote] @ '';''"
    "list_ex (\<lambda>tx. fst tx = name \<and> dumped_rows opts tx \<noteq> 0) (dumped_tables c opts)"
    by (auto simp: sequence_statements_def)
  from s(2) none have "name \<noteq> t" by (auto simp: list_ex_iff)
  with s(1) show ?thesis by blast
qed

text \<open>A table of the user that is named like a part of a virtual table is not dumped.\<close>

theorem table_named_like_shadow_lost:
  assumes "(v, x) \<in> set (c_tables c)" and "has_prefix (to_upper (trim_space (t_create x))) ''CREATE VIRTUAL TABLE''"
  shows "(v @ ''_config'', y) \<notin> set (dumped_tables c opts)"
proof -
  have "''_config'' \<in> set shadow_suffixes" by code_simp
  with assms have "is_shadow c (v @ ''_config'')" by (auto simp: is_shadow_def list_ex_iff)
  then show ?thesis by (simp add: dumped_tables_def)
qed

end
