(* ===== verification/MySql.thy ===== *)
theory MySql
  imports EngineCommon
begin

text \<open>
  The dump of the MySQL engine (\<open>internal/database/engine/mysql/mysql.go\<close>): tables with their
  rows as \<open>INSERT\<close> statements in batches, triggers, views, routines and events. The queries to
  the server are a record of functions; the text written to the dump is the result, with the
  error that ended the dump. Log output is left out.

  The lemmas show that escaped text has no raw quote or line feed and determines what was
  escaped, and that the batches of a table hold its rows, all of them and in order.
\<close>

section \<open>Text of names and values\<close>

definition bquote :: char where "bquote = CHR 0x60"

definition quoteMySQLIdent :: "string \<Rightarrow> string" where
  "quoteMySQLIdent s = [bquote] @ replace_char bquote [bquote, bquote] s @ [bquote]"

definition escapeString :: "string \<Rightarrow> string" where
  "escapeString s =
     (let s = replace_char bslash [bslash, bslash] s;
          s = replace_char (CHR 0x00) [bslash, CHR ''0''] s;
          s = replace_char squote [bslash, squote] s;
          s = replace_char quot [bslash, quot] s;
          s = replace_char nl [bslash, CHR ''n''] s
      in replace_char cr [bslash, CHR ''r''] s)"

definition escapeBlob :: "string \<Rightarrow> string" where
  "escapeBlob b = replace_char (CHR 0x1A) [bslash, CHR ''Z''] (escapeString b)"

definition isBlobType :: "string \<Rightarrow> bool" where
  "isBlobType t \<longleftrightarrow> to_lower t \<in>
     {''blob'', ''tinyblob'', ''mediumblob'', ''longblob'', ''binary'', ''varbinary'', ''geometry''}"

definition IsGeneratedColumn :: "string \<Rightarrow> string \<Rightarrow> bool" where
  "IsGeneratedColumn extra generationExpr =
     (if trim_space generationExpr \<noteq> [] then True
      else let lower = to_lower (trim_space extra)
           in if lower = ''default_generated'' \<or> contains lower ''default_generated'' then False
              else if lower \<in> {''virtual generated'', ''stored generated'', ''virtual'', ''persistent'', ''stored''} then True
              else contains lower ''generated'')"

fun filterInsertableColumns :: "string list \<Rightarrow> string list \<Rightarrow> string list \<Rightarrow> string list" where
  "filterInsertableColumns [] extras genExprs = []"
| "filterInsertableColumns (c # cs) extras genExprs =
     (let extra = (case extras of [] \<Rightarrow> [] | e # _ \<Rightarrow> e); gen = (case genExprs of [] \<Rightarrow> [] | g # _ \<Rightarrow> g);
          rest = filterInsertableColumns cs (tl extras) (tl genExprs)
      in if IsGeneratedColumn extra gen then rest else c # rest)"

definition isSystemDB :: "string \<Rightarrow> bool" where
  "isSystemDB name \<longleftrightarrow> name \<in> {''information_schema'', ''performance_schema'', ''mysql'', ''sys''}"

definition stripQuoteModes :: "string \<Rightarrow> string" where
  "stripQuoteModes mode =
     (if mode = [] then []
      else join '','' (filter (\<lambda>t. to_upper t \<noteq> ''ANSI'' \<and> to_upper t \<noteq> ''ANSI_QUOTES'')
             (map trim_space (split_char (CHR '','') mode))))"

definition mysqlInsertBatchBytes :: int where
  "mysqlInsertBatchBytes = 1000000"

text \<open>The session variable is 0 when it cannot be read.\<close>

definition insertBatchBytes :: "int \<Rightarrow> int" where
  "insertBatchBytes maxPacket =
     (if maxPacket > 0 \<and> maxPacket < mysqlInsertBatchBytes then maxPacket div 4 else mysqlInsertBatchBytes)"

definition DetectType :: "string \<Rightarrow> string" where
  "DetectType version =
     (if version = [] then [] else if contains (to_lower version) ''mariadb'' then ''mariadb'' else ''mysql'')"

definition typeMismatch :: "string \<Rightarrow> string \<Rightarrow> bool" where
  "typeMismatch configured0 detected0 =
     (let configured = to_lower (trim_space configured0); detected = to_lower (trim_space detected0)
      in if detected = [] \<or> configured = [] then False else configured \<noteq> detected)"

section \<open>Rows\<close>

text \<open>
  What the driver scans into a value. The text of a floating-point number is that of the
  format \<open>%v\<close>, and other values are given by their text.
\<close>

datatype sql_value = SNull | SBytes string | SInt int | SFloat string | SBool bool | SText string

definition value_text :: "bool \<Rightarrow> string \<Rightarrow> sql_value \<Rightarrow> string" where
  "value_text rawBlobs typ v =
     (case v of
        SNull \<Rightarrow> ''NULL''
      | SBytes b \<Rightarrow>
          if isBlobType typ \<and> \<not> rawBlobs then ''0x'' @ hex_encode b
          else if isBlobType typ then [squote] @ escapeBlob b @ [squote]
          else [squote] @ escapeString b @ [squote]
      | SInt n \<Rightarrow> itoa n
      | SFloat f \<Rightarrow> f
      | SBool b \<Rightarrow> if b then ''1'' else ''0''
      | SText s \<Rightarrow> [squote] @ escapeString s @ [squote])"

definition row_text :: "bool \<Rightarrow> string list \<Rightarrow> sql_value list \<Rightarrow> string" where
  "row_text rawBlobs types vs = ''('' @ join '', '' (map2 (value_text rawBlobs) types vs) @ '')''"

definition insert_header :: "string \<Rightarrow> string list \<Rightarrow> string" where
  "insert_header table cols =
     ''INSERT INTO '' @ quoteMySQLIdent table @ '' ('' @ join '', '' (map quoteMySQLIdent cols) @ '') VALUES'' @ [nl]"

text \<open>
  The loop over the rows: the text of the open batch with its number of rows, and the text
  written so far. A row that fails to scan ends the dump, the open batch is not written.
\<close>

fun stream_loop ::
  "string \<Rightarrow> int \<Rightarrow> (string + string) list \<Rightarrow> string \<Rightarrow> nat \<Rightarrow> string \<Rightarrow> string \<times> string option" where
  "stream_loop header batchBytes [] sb n out =
     (if n > 0 then out @ sb @ '';'' @ [nl] else out, None)"
| "stream_loop header batchBytes (Inl e # rs) sb n out = (out, Some e)"
| "stream_loop header batchBytes (Inr row # rs) sb n out =
     (let sb' = sb @ (if n = 0 then header else '','' @ [nl]) @ row
      in if batchBytes > 0 \<and> int (length sb') \<ge> batchBytes
         then stream_loop header batchBytes rs [] 0 (out @ sb' @ '';'' @ [nl])
         else stream_loop header batchBytes rs sb' (Suc n) out)"

definition streamRows ::
  "bool \<Rightarrow> string \<Rightarrow> string list \<Rightarrow> int \<Rightarrow> string + string list \<times> (string + sql_value list) list \<times> string option
    \<Rightarrow> string \<times> string option" where
  "streamRows rawBlobs table insertCols batchBytes q =
     (if insertCols = [] then ([], None)
      else case q of
             Inl e \<Rightarrow> ([], Some e)
           | Inr (types, rs, err) \<Rightarrow>
               (case stream_loop (insert_header table insertCols) batchBytes
                       (map (map_sum id (row_text rawBlobs types)) rs) [] 0 [] of
                  (out, Some e) \<Rightarrow> (out, Some e)
                | (out, None) \<Rightarrow> (out, err)))"

section \<open>Objects of a database\<close>

text \<open>The queries of the dump. A query for a \<open>CREATE\<close> statement is given by its text.\<close>

record mysql_reader =
  my_fullTables :: "string \<Rightarrow> (string \<times> string) rows"
  my_triggers :: "string \<Rightarrow> (string \<times> string) rows"
  my_createTable :: "string \<Rightarrow> string + string \<times> string"
  my_createView :: "string \<Rightarrow> string + string"
  my_showCreate :: "string \<Rightarrow> string + string"
  my_columns :: "string \<Rightarrow> string \<Rightarrow> (string \<times> string \<times> string option) rows"
  my_maxPacket :: int
  my_select :: "string \<Rightarrow> string + string list \<times> (string + sql_value list) list \<times> string option"
  my_events :: "string \<Rightarrow> string rows"
  my_procs :: "string \<Rightarrow> string rows"
  my_funcs :: "string \<Rightarrow> string rows"
  my_databases :: "string rows"

record mysql_options =
  mo_Tables :: "table_filter option"
  mo_SchemaOnly :: bool
  mo_Routines :: bool
  mo_Events :: bool
  mo_Triggers :: bool
  mo_Views :: bool
  mo_RawBlobs :: bool
  mo_SingleTransaction :: bool

definition listTables :: "mysql_reader \<Rightarrow> string \<Rightarrow> string + string list \<times> string list" where
  "listTables r dbName =
     (case all_rows (my_fullTables r dbName) of
        Inl e \<Rightarrow> Inl e
      | Inr rs \<Rightarrow> Inr (map fst (filter (\<lambda>x. \<not> equal_fold (snd x) ''VIEW'') rs),
                      map fst (filter (\<lambda>x. equal_fold (snd x) ''VIEW'') rs)))"

text \<open>The triggers of each table, as a Go map: names in the order of the rows.\<close>

definition listTriggersByTable :: "mysql_reader \<Rightarrow> string \<Rightarrow> string + (string \<times> string) list" where
  "listTriggersByTable r dbName = all_rows (my_triggers r dbName)"

definition triggers_of :: "(string \<times> string) list \<Rightarrow> string \<Rightarrow> string list" where
  "triggers_of trigs table = map fst (filter (\<lambda>x. snd x = table) trigs)"

definition insertableColumns :: "mysql_reader \<Rightarrow> string \<Rightarrow> string \<Rightarrow> string + string list" where
  "insertableColumns r dbName table =
     (case all_rows (my_columns r dbName table) of
        Inl e \<Rightarrow> Inl e
      | Inr cs \<Rightarrow> Inr (filterInsertableColumns (map fst cs) (map (fst \<circ> snd) cs)
                        (map (\<lambda>c. case snd (snd c) of Some g \<Rightarrow> g | None \<Rightarrow> []) cs)))"

definition qualified_name :: "string \<Rightarrow> string \<Rightarrow> string" where
  "qualified_name dbName name = quoteMySQLIdent dbName @ ''.'' @ quoteMySQLIdent name"

definition select_query :: "string \<Rightarrow> string \<Rightarrow> string list \<Rightarrow> string" where
  "select_query dbName table cols =
     ''SELECT '' @ join '', '' (map quoteMySQLIdent cols) @ '' FROM '' @ qualified_name dbName table"

definition mysql_dumpTable :: "mysql_reader \<Rightarrow> mysql_options \<Rightarrow> string \<Rightarrow> string \<Rightarrow> written" where
  "mysql_dumpTable r opts dbName table0 =
     then_write ([nl] @ ''-- Table: '' @ table0 @ [nl], None) (\<lambda>_.
       case my_createTable r (''SHOW CREATE TABLE '' @ qualified_name dbName table0) of
         Inl e \<Rightarrow> ([], Some e)
       | Inr (table, createSQL) \<Rightarrow>
           then_write (''DROP TABLE IF EXISTS '' @ quoteMySQLIdent table @ '';'' @ [nl] @ createSQL @ '';'' @ [nl, nl], None) (\<lambda>_.
             if mo_SchemaOnly opts \<or> (mo_Tables opts \<noteq> None \<and> snd (TableFilter_Apply (mo_Tables opts) table)) then ([], None)
             else case insertableColumns r dbName table of
                    Inl e \<Rightarrow> ([], Some e)
                  | Inr insertCols \<Rightarrow>
                      if insertCols = [] then
                        (''-- No insertable columns for '' @ quoteMySQLIdent table @ '' (all generated); data skipped'' @ [nl], None)
                      else streamRows (mo_RawBlobs opts) table insertCols (insertBatchBytes (my_maxPacket r))
                             (my_select r (select_query dbName table insertCols))))"

text \<open>A stored program, between changed delimiters.\<close>

definition program_text :: "string \<Rightarrow> string" where
  "program_text createSQL =
     ''DELIMITER ;;'' @ [nl] @ trim_suffix (trim_space createSQL) '';'' @ '';;'' @ [nl] @ ''DELIMITER ;'' @ [nl, nl]"

definition dumpTriggersForTable :: "mysql_reader \<Rightarrow> string \<Rightarrow> string \<Rightarrow> string list \<Rightarrow> written" where
  "dumpTriggersForTable r dbName table names =
     write_all (\<lambda>name.
       case my_showCreate r (''SHOW CREATE TRIGGER '' @ qualified_name dbName name) of
         Inl e \<Rightarrow> ([], Some e)
       | Inr createSQL \<Rightarrow>
           ([nl] @ ''-- Trigger: '' @ name @ '' (on '' @ table @ '')'' @ [nl] @
            ''DROP TRIGGER IF EXISTS '' @ quoteMySQLIdent name @ '';'' @ [nl] @ program_text createSQL, None)) names"

definition dumpView :: "mysql_reader \<Rightarrow> string \<Rightarrow> string \<Rightarrow> written" where
  "dumpView r dbName view =
     then_write ([nl] @ ''-- View: '' @ view @ [nl], None) (\<lambda>_.
       case my_createView r (''SHOW CREATE VIEW '' @ qualified_name dbName view) of
         Inl e \<Rightarrow> ([], Some e)
       | Inr createSQL \<Rightarrow>
           (''DROP VIEW IF EXISTS '' @ quoteMySQLIdent view @ '';'' @ [nl] @ createSQL @ '';'' @ [nl, nl], None))"

definition dump_program :: "mysql_reader \<Rightarrow> string \<Rightarrow> string \<Rightarrow> string \<Rightarrow> written" where
  "dump_program r kind dbName name =
     (case my_showCreate r (''SHOW CREATE '' @ kind @ '' '' @ qualified_name dbName name) of
        Inl e \<Rightarrow> ([], Some e)
      | Inr createSQL \<Rightarrow>
          (''DROP '' @ kind @ '' IF EXISTS '' @ quoteMySQLIdent name @ '';'' @ [nl] @ program_text createSQL, None))"

definition dumpEvents :: "mysql_reader \<Rightarrow> string \<Rightarrow> written" where
  "dumpEvents r dbName =
     (case all_rows (my_events r dbName) of
        Inl e \<Rightarrow> ([], Some e)
      | Inr names \<Rightarrow>
          if names = [] then ([], None)
          else then_write ([nl] @ ''-- Events for '' @ dbName @ [nl], None)
                 (\<lambda>_. write_all (dump_program r ''EVENT'' dbName) names))"

definition dumpRoutines :: "mysql_reader \<Rightarrow> string \<Rightarrow> written" where
  "dumpRoutines r dbName =
     (case all_rows (my_procs r dbName) of
        Inl e \<Rightarrow> ([], Some e)
      | Inr procs \<Rightarrow>
          (case all_rows (my_funcs r dbName) of
             Inl e \<Rightarrow> ([], Some e)
           | Inr funcs \<Rightarrow>
               if procs = [] \<and> funcs = [] then ([], None)
               else then_write ([nl] @ ''-- Stored routines for '' @ dbName @ [nl], None) (\<lambda>_.
                 then_write (write_all (dump_program r ''PROCEDURE'' dbName) procs) (\<lambda>_.
                   write_all (dump_program r ''FUNCTION'' dbName) funcs))))"

definition filtered_out :: "mysql_options \<Rightarrow> string \<Rightarrow> bool" where
  "filtered_out opts name \<longleftrightarrow> mo_Tables opts \<noteq> None \<and> \<not> fst (TableFilter_Apply (mo_Tables opts) name)"

definition mysql_dumpDatabase :: "mysql_reader \<Rightarrow> mysql_options \<Rightarrow> string \<Rightarrow> written" where
  "mysql_dumpDatabase r opts dbName =
     (case listTables r dbName of
        Inl e \<Rightarrow> ([], Some e)
      | Inr (tables, views) \<Rightarrow>
          then_write ([nl] @ ''-- Database: '' @ dbName @ [nl] @ ''USE '' @ quoteMySQLIdent dbName @ '';'' @ [nl, nl], None) (\<lambda>_.
            case (if mo_Triggers opts then listTriggersByTable r dbName else Inr []) of
              Inl e \<Rightarrow> ([], Some e)
            | Inr trigs \<Rightarrow>
                then_write (write_all (\<lambda>table.
                    if filtered_out opts table then ([], None)
                    else then_write (mysql_dumpTable r opts dbName table) (\<lambda>_.
                      if mo_Triggers opts then dumpTriggersForTable r dbName table (triggers_of trigs table) else ([], None))) tables) (\<lambda>_.
                then_write (write_all (\<lambda>table. dumpTriggersForTable r dbName table (triggers_of trigs table))
                    (filter (\<lambda>t. t \<notin> set tables) (remdups (map snd trigs)))) (\<lambda>_.
                then_write (if mo_Views opts
                    then write_all (\<lambda>view. if filtered_out opts view then ([], None) else dumpView r dbName view) views
                    else ([], None)) (\<lambda>_.
                then_write (if mo_Routines opts then dumpRoutines r dbName else ([], None)) (\<lambda>_.
                  if mo_Events opts then dumpEvents r dbName else ([], None)))))))"

definition mysql_listDatabases :: "mysql_reader \<Rightarrow> string + string list" where
  "mysql_listDatabases r =
     (case all_rows (my_databases r) of Inl e \<Rightarrow> Inl e | Inr dbs \<Rightarrow> Inr (filter (\<lambda>d. \<not> isSystemDB d) dbs))"

text \<open>
  The dump between the text of the header and of the footer. \<open>begin_tx\<close> and \<open>commit\<close> are the
  errors of the transaction, if any.
\<close>

definition mysql_Dump ::
  "mysql_reader \<Rightarrow> mysql_options \<Rightarrow> string option \<Rightarrow> string option \<Rightarrow> string \<Rightarrow> string \<Rightarrow> string list \<Rightarrow> written" where
  "mysql_Dump r opts begin_tx commit header footer dbNames =
     (if mo_SingleTransaction opts \<and> begin_tx \<noteq> None then ([], begin_tx)
      else then_write (header, None) (\<lambda>_.
        case (if length dbNames = 1 \<and> to_lower (hd dbNames) = ''all'' then mysql_listDatabases r else Inr dbNames) of
          Inl e \<Rightarrow> ([], Some e)
        | Inr names \<Rightarrow>
            then_write (write_all (mysql_dumpDatabase r opts) names) (\<lambda>_.
              if mo_SingleTransaction opts \<and> commit \<noteq> None then ([], commit) else (footer, None))))"

section \<open>Escaped text\<close>

definition esc_my :: "char \<Rightarrow> string" where
  "esc_my c =
     (if c = bslash then [bslash, bslash] else if c = CHR 0x00 then [bslash, CHR ''0'']
      else if c = squote then [bslash, squote] else if c = quot then [bslash, quot]
      else if c = nl then [bslash, CHR ''n''] else if c = cr then [bslash, CHR ''r''] else [c])"

lemmas my_chars = char_names bquote_def squote_def

lemma escapeString_each: "escapeString s = each_char esc_my s"
  unfolding escapeString_def Let_def replace_char_each [of bslash] replace_char_after
  by (rule each_char_cong) (simp add: esc_my_def my_chars)

lemma escapeBlob_each: "escapeBlob s = each_char (\<lambda>c. if c = CHR 0x1A then [bslash, CHR ''Z''] else esc_my c) s"
  unfolding escapeBlob_def escapeString_each replace_char_after
  by (rule each_char_cong) (simp add: esc_my_def my_chars)

text \<open>Different texts have different escaped forms, and no escaped form has a line feed.\<close>

interpretation my: line_escape esc_my
  by unfold_locales (auto simp: esc_my_def my_chars prefix_def split: if_splits)

interpretation my_blob: line_escape "\<lambda>c. if c = CHR 0x1A then [bslash, CHR ''Z''] else esc_my c"
  by unfold_locales (auto simp: esc_my_def my_chars prefix_def split: if_splits)

lemma escapeString_inj: "escapeString s = escapeString t \<longleftrightarrow> s = t"
  unfolding escapeString_each by (rule my.escape_inj)

lemma escapeBlob_inj: "escapeBlob s = escapeBlob t \<longleftrightarrow> s = t"
  unfolding escapeBlob_each by (rule my_blob.escape_inj)

lemma escape_no_nl: "nl \<notin> set (escapeString s)" "nl \<notin> set (escapeBlob s)"
  using my.escape_one_line my_blob.escape_one_line by (simp_all add: escapeString_each escapeBlob_each)

section \<open>Batches hold all rows\<close>

definition batch_text :: "string \<Rightarrow> string list \<Rightarrow> string" where
  "batch_text header rs = header @ join ('','' @ [nl]) rs"

definition batches_text :: "string \<Rightarrow> string list list \<Rightarrow> string" where
  "batches_text header bs = concat (map (\<lambda>b. batch_text header b @ '';'' @ [nl]) bs)"

lemma batch_text_snoc:
  "batch_text header (cur @ [row]) = (if cur = [] then header @ row else batch_text header cur @ '','' @ [nl] @ row)"
  by (cases "cur = []") (simp_all add: batch_text_def join_snoc)

lemma stream_loop_batches:
  "\<exists>bs. stream_loop header batchBytes (map Inr rows) (if cur = [] then [] else batch_text header cur) (length cur) out =
      (out @ batches_text header bs, None) \<and> concat bs = cur @ rows \<and> [] \<notin> set bs"
proof (induction rows arbitrary: cur out)
  case Nil
  show ?case by (rule exI [of _ "if cur = [] then [] else [cur]"]) (simp add: batches_text_def)
next
  case (Cons row rows)
  let ?sb = "batch_text header (cur @ [row])"
  have sb: "(if cur = [] then [] else batch_text header cur) @ (if length cur = 0 then header else '','' @ [nl]) @ row = ?sb"
    by (simp add: batch_text_snoc)
  show ?case
  proof (cases "batchBytes > 0 \<and> int (length ?sb) \<ge> batchBytes")
    case True
    obtain bs where "stream_loop header batchBytes (map Inr rows) [] 0 (out @ ?sb @ '';'' @ [nl]) =
        ((out @ ?sb @ '';'' @ [nl]) @ batches_text header bs, None)" "concat bs = rows" "[] \<notin> set bs"
      using Cons.IH [of "[]" "out @ ?sb @ '';'' @ [nl]"] by auto
    then show ?thesis using True sb
      by (intro exI [of _ "(cur @ [row]) # bs"]) (simp add: Let_def batches_text_def)
  next
    case False
    obtain bs where "stream_loop header batchBytes (map Inr rows) ?sb (Suc (length cur)) out =
        (out @ batches_text header bs, None)" "concat bs = (cur @ [row]) @ rows" "[] \<notin> set bs"
      using Cons.IH [of "cur @ [row]" out] by auto
    then show ?thesis using False sb by (intro exI [of _ bs]) (auto simp: Let_def)
  qed
qed

lemma streamRows_batches:
  assumes "insertCols \<noteq> []"
  obtains bs where "streamRows rawBlobs table insertCols batchBytes (Inr (types, map Inr rows, None)) =
      (batches_text (insert_header table insertCols) bs, None)"
    and "concat bs = map (row_text rawBlobs types) rows" and "[] \<notin> set bs"
proof -
  from stream_loop_batches [of "insert_header table insertCols" batchBytes "map (row_text rawBlobs types) rows" "[]" "[]"]
  obtain bs where "stream_loop (insert_header table insertCols) batchBytes (map Inr (map (row_text rawBlobs types) rows)) [] 0 [] =
      (batches_text (insert_header table insertCols) bs, None)" "concat bs = map (row_text rawBlobs types) rows" "[] \<notin> set bs"
    by auto
  then show thesis using assms by (intro that) (simp_all add: streamRows_def comp_def)
qed

end
