(* ===== verification/MySqlRestore.thy ===== *)
theory MySqlRestore
  imports MySql
begin

text \<open>
  The restore of the MySQL engine (\<open>internal/database/engine/mysql/ops.go\<close>): the splitter that
  cuts a dump into statements line by line, the rewriting of a statement for another target
  database, and the execution of the statements. The server is a function from a statement to
  its next state and an error.

  The lemmas show that the splitter cuts the \<open>INSERT\<close> statements of a dump where the dump ended
  them, whatever the values contain, and that the rewriting leaves the values alone.
\<close>

section \<open>The splitter\<close>

record stmt_splitter =
  sp_buf :: string
  sp_delimiter :: string
  sp_single :: bool
  sp_double :: bool
  sp_backtick :: bool
  sp_line :: bool
  sp_block :: bool

definition newStmtSplitter :: stmt_splitter where
  "newStmtSplitter = \<lparr>sp_buf = [], sp_delimiter = '';'', sp_single = False, sp_double = False,
     sp_backtick = False, sp_line = False, sp_block = False\<rparr>"

definition sp_neutral :: "stmt_splitter \<Rightarrow> bool" where
  "sp_neutral sp \<longleftrightarrow> \<not> sp_single sp \<and> \<not> sp_double sp \<and> \<not> sp_backtick sp \<and> \<not> sp_block sp"

definition starts_comment :: "char \<Rightarrow> string \<Rightarrow> bool" where
  "starts_comment c s \<longleftrightarrow>
     c = CHR ''#'' \<or> (c = CHR ''-'' \<and> s \<noteq> [] \<and> hd s = CHR ''-'' \<and>
       (tl s = [] \<or> hd (tl s) \<in> {CHR '' '', tab, cr}))"

text \<open>One character of \<open>scan\<close>, before the rest \<open>s\<close> of the line: whether the next one is skipped, and the new state.\<close>

definition scan_char :: "char \<Rightarrow> string \<Rightarrow> stmt_splitter \<Rightarrow> bool \<times> stmt_splitter" where
  "scan_char c s sp =
     (if sp_line sp then (False, sp)
      else if sp_block sp then
        (if c = CHR ''*'' \<and> s \<noteq> [] \<and> hd s = CHR ''/'' then (True, sp\<lparr>sp_block := False\<rparr>) else (False, sp))
      else if sp_single sp then
        (if c = bslash then (True, sp)
         else if c = squote then
           (if s \<noteq> [] \<and> hd s = squote then (True, sp) else (False, sp\<lparr>sp_single := False\<rparr>))
         else (False, sp))
      else if sp_double sp then
        (if c = bslash then (True, sp) else if c = quot then (False, sp\<lparr>sp_double := False\<rparr>) else (False, sp))
      else if sp_backtick sp then (False, if c = bquote then sp\<lparr>sp_backtick := False\<rparr> else sp)
      else if c = squote then (False, sp\<lparr>sp_single := True\<rparr>)
      else if c = quot then (False, sp\<lparr>sp_double := True\<rparr>)
      else if c = bquote then (False, sp\<lparr>sp_backtick := True\<rparr>)
      else if starts_comment c s then (False, sp\<lparr>sp_line := True\<rparr>)
      else if c = CHR ''/'' \<and> s \<noteq> [] \<and> hd s = CHR ''*'' then (True, sp\<lparr>sp_block := True\<rparr>)
      else (False, sp))"

function sp_scan :: "string \<Rightarrow> stmt_splitter \<Rightarrow> stmt_splitter" where
  "sp_scan [] sp = sp"
| "sp_scan (c # s) sp = (case scan_char c s sp of (skip, sp') \<Rightarrow> sp_scan (if skip then tl s else s) sp')"
  by pat_completeness auto
termination
  by (relation "measure (\<lambda>(s, _). length s)") auto

definition sp_endsStatement :: "stmt_splitter \<Rightarrow> bool" where
  "sp_endsStatement sp \<longleftrightarrow>
     sp_delimiter sp \<noteq> [] \<and> sp_neutral sp \<and> \<not> sp_line sp \<and> has_suffix (trim_space (sp_buf sp)) (sp_delimiter sp)"

definition sp_flush :: "stmt_splitter \<Rightarrow> stmt_splitter \<times> string" where
  "sp_flush sp =
     (let s = trim_space (sp_buf sp)
      in (sp\<lparr>sp_buf := []\<rparr>,
          if s = [] then []
          else if sp_delimiter sp \<noteq> [] \<and> has_suffix s (sp_delimiter sp) then trim_space (trim_suffix s (sp_delimiter sp))
          else s))"

definition some_stmt :: "string \<Rightarrow> string list" where
  "some_stmt s = (if s = [] then [] else [s])"

definition sp_pushLine :: "string \<Rightarrow> stmt_splitter \<Rightarrow> stmt_splitter \<times> string list" where
  "sp_pushLine line sp =
     (let trimmed = trim_space line
      in if sp_neutral sp \<and> \<not> sp_line sp \<and> has_prefix (to_upper trimmed) ''DELIMITER '' then
           (case sp_flush sp of
              (sp', s) \<Rightarrow> (sp'\<lparr>sp_delimiter := trim_space (drop (length ''DELIMITER '') trimmed)\<rparr>, some_stmt s))
         else if trimmed = [] \<and> sp_buf sp = [] then (sp\<lparr>sp_line := False\<rparr>, [])
         else let sp1 = sp_scan line sp; sp2 = sp1\<lparr>sp_buf := sp_buf sp1 @ line @ [nl], sp_line := False\<rparr>
              in if sp_endsStatement sp2 then (case sp_flush sp2 of (sp', s) \<Rightarrow> (sp', some_stmt s))
                 else (sp2, []))"

fun push_lines :: "string list \<Rightarrow> stmt_splitter \<Rightarrow> stmt_splitter \<times> string list" where
  "push_lines [] sp = (sp, [])"
| "push_lines (l # ls) sp =
     (case sp_pushLine l sp of (sp1, out1) \<Rightarrow> (case push_lines ls sp1 of (sp2, out2) \<Rightarrow> (sp2, out1 @ out2)))"

definition splitSQLStatements :: "string \<Rightarrow> string list" where
  "splitSQLStatements data =
     (case push_lines (split_char nl data) newStmtSplitter of (sp, out) \<Rightarrow> out @ some_stmt (snd (sp_flush sp)))"

section \<open>Rewriting for the target database\<close>

definition isWordChar :: "char \<Rightarrow> bool" where
  "isWordChar c \<longleftrightarrow> c = CHR ''_'' \<or> c = CHR ''$'' \<or> word_char c"

definition insertHeaderEnd :: "string \<Rightarrow> nat option" where
  "insertHeaderEnd stmt =
     (let upper = to_upper stmt
      in find (\<lambda>i. take 6 (drop i upper) = ''VALUES'' \<and> \<not> (i > 0 \<and> isWordChar (upper ! (i - 1))) \<and>
                   \<not> (i + 6 < length upper \<and> isWordChar (upper ! (i + 6)))) [0..<length upper - 5])"

definition trim_left_blank :: "string \<Rightarrow> string" where
  "trim_left_blank s = dropWhile (\<lambda>c. c \<in> {CHR '' '', tab, cr, nl}) s"

function isInsertStmt :: "string \<Rightarrow> bool" where
  "isInsertStmt s =
     (let t = trim_left_blank s
      in if has_prefix t ''--'' \<or> has_prefix t ''#'' then
           (case str_index t [nl] of None \<Rightarrow> False | Some i \<Rightarrow> isInsertStmt (drop (Suc i) t))
         else if has_prefix t ''/*'' then
           (case str_index (drop 2 t) ''*/'' of None \<Rightarrow> False | Some i \<Rightarrow> isInsertStmt (drop (i + 4) t))
         else length t \<ge> 6 \<and> to_upper (take 6 t) = ''INSERT'' \<and> (length t = 6 \<or> \<not> isWordChar (t ! 6)))"
  by pat_completeness auto
termination
proof (relation "measure length")
  have le: "length (trim_left_blank s) \<le> length s" for s
    unfolding trim_left_blank_def by (rule length_dropWhile_le)
  show "(drop (Suc i) t, s) \<in> measure length" if "t = trim_left_blank s" "has_prefix t ''--'' \<or> has_prefix t ''#''" for s t i
    using that le [of s] by (auto simp: prefix_def)
  show "(drop (i + 4) t, s) \<in> measure length" if "t = trim_left_blank s" "has_prefix t ''/*''" for s t i
    using that le [of s] by (auto simp: prefix_def)
qed simp

declare isInsertStmt.simps [simp del]

definition not_char :: "char \<Rightarrow> char \<Rightarrow> bool" where
  "not_char d c \<longleftrightarrow> c \<noteq> d"

definition rx_quoted :: "char \<Rightarrow> rx list" where
  "rx_quoted q = [Lit [q], Rep (not_char q) 0 None, Lit [q]]"

definition bare_user :: "char \<Rightarrow> bool" where
  "bare_user c \<longleftrightarrow> word_char c \<or> c \<in> set ''.$-''"

definition reDefiner :: "rx list" where
  "reDefiner = [rx_spaces0, LitFold ''DEFINER'', rx_spaces0, Lit ''='', rx_spaces0,
     Grp 1 [Alt [rx_quoted bquote, rx_quoted squote, rx_quoted quot, [Rep bare_user 1 None]]],
     Opt [Grp 2 [rx_spaces0, Lit ''@'', rx_spaces0,
       Grp 3 [Alt [rx_quoted bquote, rx_quoted squote, rx_quoted quot, [Rep (\<lambda>c. bare_user c \<or> c = CHR ''%'') 1 None]]]]]]"

definition rx_ident :: "rx list" where
  "rx_ident = [Lit [bquote], Rep (not_char bquote) 1 None, Lit [bquote]]"

definition reInsertQual :: "rx list" where
  "reInsertQual = [LitFold ''INSERT'', rx_spaces, LitFold ''INTO'', rx_spaces] @ rx_ident @ [Lit ''.'']"

definition rx_verbs :: "rx list list" where
  "rx_verbs = [[LitFold ''UPDATE''], [LitFold ''DELETE'', rx_spaces, LitFold ''FROM''],
     [LitFold ''TRUNCATE'', rx_spaces, LitFold ''TABLE''], [LitFold ''RENAME'', rx_spaces, LitFold ''TABLE''],
     [LitFold ''DROP'', rx_spaces, LitFold ''TABLE''], [LitFold ''ALTER'', rx_spaces, LitFold ''TABLE''],
     [LitFold ''CREATE'', rx_spaces, LitFold ''TABLE'']]"

definition reOtherQual :: "rx list" where
  "reOtherQual = [Grp 1 [Alt ([LitFold ''FROM''] # rx_verbs)], rx_spaces] @ rx_ident @ [Lit ''.'']"

definition rePlainQual :: "rx list" where
  "rePlainQual = [Grp 1 [Alt ([LitFold ''INSERT'', rx_spaces, LitFold ''INTO''] # rx_verbs)], rx_spaces,
     Grp 2 [Rep word_char 1 None], Lit ''.'']"

definition reUseSrc :: "rx list" where
  "reUseSrc = [LitFold ''USE'', rx_spaces, Lit [bquote], Grp 1 [Rep (not_char bquote) 1 None], Lit [bquote]]"

definition reUseStmt :: "rx list" where
  "reUseStmt = [LitFold ''USE'', rx_spaces] @ rx_ident @ [rx_spaces0, Lit '';'']"

definition reUseTarget :: "string \<Rightarrow> rx list" where
  "reUseTarget target = [LitFold ''USE'', rx_spaces, Lit [bquote], LitFold target, Lit [bquote], rx_spaces0, Lit '';'']"

text \<open>
  The template of \<open>ReplaceAllString\<close>: \<open>$name\<close> and \<open>${name}\<close> stand for a submatch, \<open>$$\<close> for a
  dollar sign. The expressions have no named submatches, a name that is no number is empty.
\<close>

definition submatch :: "string \<Rightarrow> rx_match \<Rightarrow> string" where
  "submatch name m =
     (if list_all is_digit name
      then (if digits_val name = 0 then m_text m else m_cap (nat (digits_val name)) m) else [])"

function rx_expand :: "string \<Rightarrow> rx_match \<Rightarrow> string" where
  "rx_expand [] m = []"
| "rx_expand (c # t) m =
     (if c \<noteq> CHR ''$'' then c # rx_expand t m
      else if t \<noteq> [] \<and> hd t = CHR ''$'' then CHR ''$'' # rx_expand (tl t) m
      else if t \<noteq> [] \<and> hd t = CHR ''{'' then
        (let name = takeWhile word_char (tl t); rest = dropWhile word_char (tl t)
         in if name \<noteq> [] \<and> rest \<noteq> [] \<and> hd rest = CHR ''}'' then submatch name m @ rx_expand (tl rest) m
            else CHR ''$'' # rx_expand t m)
      else
        (let name = takeWhile word_char t
         in if name \<noteq> [] then submatch name m @ rx_expand (dropWhile word_char t) m
            else CHR ''$'' # rx_expand t m))"
  by pat_completeness auto
termination
proof (relation "measure (length \<circ> fst)")
  have le: "length (dropWhile word_char s) \<le> length s" for s by (rule length_dropWhile_le)
  show "((tl rest, m), c # t, m) \<in> measure (length \<circ> fst)"
    if "rest = dropWhile word_char (tl t)" for rest c t and m :: rx_match
    using le [of "tl t"] that by simp
  show "((dropWhile word_char t, m), c # t, m) \<in> measure (length \<circ> fst)" for c t and m :: rx_match
    using le [of t] by simp
qed auto

definition ReplaceAllString :: "rx list \<Rightarrow> string \<Rightarrow> string \<Rightarrow> string" where
  "ReplaceAllString es template s = ReplaceAll es (rx_expand template) s"

function rx_count :: "rx list \<Rightarrow> string \<Rightarrow> string \<Rightarrow> nat" where
  "rx_count es bef s =
     (case rx_search es bef s of
        None \<Rightarrow> 0
      | Some m \<Rightarrow> if length (m_rest m) < length s then Suc (rx_count es (rev (m_before m @ m_text m)) (m_rest m)) else 0)"
  by pat_completeness auto
termination
  by (relation "measure (\<lambda>(_, _, s). length s)") auto

declare rx_count.simps [simp del]

definition note_source :: "string \<Rightarrow> string \<Rightarrow> string list \<Rightarrow> string list" where
  "note_source name target sources = (if name \<noteq> [] \<and> name \<noteq> target then List.insert name sources else sources)"

definition noteMarkerSource :: "string \<Rightarrow> string \<Rightarrow> string list \<Rightarrow> string list" where
  "noteMarkerSource line target sources =
     (let trimmed = trim_space line
      in if has_prefix trimmed ''-- Database:'' then
           (case str_fields (trim_space (trim_prefix trimmed ''-- Database:'')) of
              [f] \<Rightarrow> note_source f target sources | _ \<Rightarrow> sources)
         else sources)"

text \<open>The rewritten statement, the number of removed definers and the databases noted as sources.\<close>

definition rewriteStatement :: "string \<Rightarrow> string \<Rightarrow> string list \<Rightarrow> string \<times> nat \<times> string list" where
  "rewriteStatement stmt target sources =
     (let isInsert = isInsertStmt stmt;
          (scope, tail) = (if isInsert \<and> target \<noteq> []
             then (case insertHeaderEnd stmt of Some i \<Rightarrow> (take i stmt, drop i stmt) | None \<Rightarrow> (stmt, []))
             else (stmt, []));
          sources' = (if target \<noteq> []
             then (case rx_find reUseSrc scope of Some m \<Rightarrow> note_source (m_cap 1 m) target sources | None \<Rightarrow> sources)
             else sources);
          q = [bquote] @ target @ [bquote];
          scope1 = (if target \<noteq> []
             then fold (\<lambda>src sc. str_replace ([bquote] @ src @ [bquote] @ ''.'') (q @ ''.'') sc)
                    (filter (\<lambda>src. src \<noteq> [] \<and> src \<noteq> target) sources')
                    (ReplaceAllString rePlainQual (''${1} '' @ target @ ''.'')
                      (ReplaceAllString reOtherQual (''$1 '' @ q @ ''.'')
                        (ReplaceAllString reInsertQual (''INSERT INTO '' @ q @ ''.'')
                          (ReplaceAllString reUseStmt (''USE '' @ q @ '';'') scope))))
             else scope)
      in if isInsert then (scope1 @ tail, 0, sources')
         else (ReplaceAllString reDefiner [] scope1 @ tail, rx_count reDefiner [] scope1, sources'))"

section \<open>Execution\<close>

text \<open>
  The state of a restore: the server, the databases noted as sources, whether the target was
  selected, and the number of removed definers.
\<close>

type_synonym 's sql_server = "string \<Rightarrow> 's \<Rightarrow> 's \<times> string option"

record 's my_restore =
  mr_server :: 's
  mr_sources :: "string list"
  mr_use :: bool
  mr_definers :: nat

definition mysql_exec :: "'s sql_server \<Rightarrow> string \<Rightarrow> 's my_restore \<Rightarrow> 's my_restore \<times> string option" where
  "mysql_exec exec q st = (case exec q (mr_server st) of (s, e) \<Rightarrow> (st\<lparr>mr_server := s\<rparr>, e))"

definition execStmt :: "'s sql_server \<Rightarrow> string \<Rightarrow> string \<Rightarrow> 's my_restore \<Rightarrow> 's my_restore \<times> string option" where
  "execStmt exec target raw st =
     (if trim_space raw = [] then (st, None)
      else case rewriteStatement raw target (mr_sources st) of
             (out, n, sources) \<Rightarrow>
               let st1 = st\<lparr>mr_sources := sources, mr_definers := mr_definers st + n\<rparr>;
                   isTargetUse = (target \<noteq> [] \<and> rx_matches (reUseTarget target) out);
                   (st2, err) = (if target \<noteq> [] \<and> \<not> mr_use st1 \<and> \<not> isTargetUse
                      then (case mysql_exec exec (''USE '' @ [bquote] @ target @ [bquote]) st1 of
                              (st', None) \<Rightarrow> (st'\<lparr>mr_use := True\<rparr>, None) | (st', Some e) \<Rightarrow> (st', Some e))
                      else (st1, None))
               in case err of
                    Some e \<Rightarrow> (st2, Some e)
                  | None \<Rightarrow>
                      (case mysql_exec exec out st2 of
                         (st3, Some e) \<Rightarrow> (st3, Some e)
                       | (st3, None) \<Rightarrow> (if isTargetUse then st3\<lparr>mr_use := True\<rparr> else st3, None)))"

fun exec_stmts :: "'s sql_server \<Rightarrow> string \<Rightarrow> string list \<Rightarrow> 's my_restore \<Rightarrow> 's my_restore \<times> string option" where
  "exec_stmts exec target [] st = (st, None)"
| "exec_stmts exec target (q # qs) st =
     (case execStmt exec target q st of (st', Some e) \<Rightarrow> (st', Some e) | (st', None) \<Rightarrow> exec_stmts exec target qs st')"

fun mysql_restore_lines ::
  "'s sql_server \<Rightarrow> string \<Rightarrow> string list \<Rightarrow> stmt_splitter \<Rightarrow> 's my_restore \<Rightarrow> stmt_splitter \<times> 's my_restore \<times> string option" where
  "mysql_restore_lines exec target [] sp st = (sp, st, None)"
| "mysql_restore_lines exec target (l # ls) sp st =
     (case sp_pushLine l sp of
        (sp', stmts) \<Rightarrow>
          (case exec_stmts exec target stmts (st\<lparr>mr_sources := noteMarkerSource l target (mr_sources st)\<rparr>) of
             (st', Some e) \<Rightarrow> (sp', st', Some e)
           | (st', None) \<Rightarrow> mysql_restore_lines exec target ls sp' st'))"

definition mysql_Restore ::
  "'s sql_server \<Rightarrow> bool \<Rightarrow> string option \<Rightarrow> string \<Rightarrow> string \<Rightarrow> 's \<Rightarrow> 's \<times> string option" where
  "mysql_Restore exec createDB ping dbName dump s0 =
     (case ping of
        Some e \<Rightarrow> (s0, Some e)
      | None \<Rightarrow>
          let firstDB = FirstDBName dbName;
              s1 = fst (exec (''SET SESSION BINLOG_FORMAT='' @ [squote] @ ''ROW'' @ [squote]) s0);
              (s2, err) = (if firstDB \<noteq> [] \<and> createDB
                 then exec (''CREATE DATABASE IF NOT EXISTS '' @ [bquote] @ firstDB @ [bquote]) s1 else (s1, None))
          in case err of
               Some e \<Rightarrow> (s2, Some e)
             | None \<Rightarrow>
                 let target = (case split_char (CHR '','') firstDB of [d] \<Rightarrow> d | _ \<Rightarrow> [])
                 in case mysql_restore_lines exec target (go_lines dump) newStmtSplitter
                           \<lparr>mr_server = s2, mr_sources = [], mr_use = False, mr_definers = 0\<rparr> of
                      (sp, st, Some e) \<Rightarrow> (mr_server st, Some e)
                    | (sp, st, None) \<Rightarrow>
                        (case exec_stmts exec target (some_stmt (snd (sp_flush sp))) st of
                           (st', e) \<Rightarrow> (mr_server st', e)))"

section \<open>Scanning the parts of a statement\<close>

definition calm :: "stmt_splitter \<Rightarrow> bool" where
  "calm sp \<longleftrightarrow> sp_neutral sp \<and> \<not> sp_line sp"

lemma calm_iff: "calm sp \<longleftrightarrow> \<not> sp_single sp \<and> \<not> sp_double sp \<and> \<not> sp_backtick sp \<and> \<not> sp_block sp \<and> \<not> sp_line sp"
  by (auto simp: calm_def sp_neutral_def)

lemma calm_buf [simp]: "calm (sp\<lparr>sp_buf := b\<rparr>) = calm sp"
  by (simp add: calm_iff)

lemma calm_same: "calm sp \<Longrightarrow> sp\<lparr>sp_backtick := False\<rparr> = sp" "calm sp \<Longrightarrow> sp\<lparr>sp_single := False\<rparr> = sp"
  by (simp_all add: calm_iff)

text \<open>Text over which the splitter passes without a change, unless a quote follows.\<close>

definition quiet :: "string \<Rightarrow> bool" where
  "quiet w \<longleftrightarrow> (\<forall>sp t. calm sp \<longrightarrow> (t = [] \<or> hd t \<noteq> squote) \<longrightarrow> sp_scan (w @ t) sp = sp_scan t sp)"

lemma quietD: "quiet w \<Longrightarrow> calm sp \<Longrightarrow> t = [] \<or> hd t \<noteq> squote \<Longrightarrow> sp_scan (w @ t) sp = sp_scan t sp"
  by (auto simp: quiet_def)

lemma quiet_scan: "quiet w \<Longrightarrow> calm sp \<Longrightarrow> sp_scan w sp = sp"
  using quietD [of w sp "[]"] by simp

lemma quiet_append: "quiet v \<Longrightarrow> quiet w \<Longrightarrow> w \<noteq> [] \<Longrightarrow> hd w \<noteq> squote \<Longrightarrow> quiet (v @ w)"
  by (auto simp: quiet_def)

lemma quiet_ident: "quiet (quoteMySQLIdent n)"
proof -
  have "sp_scan (replace_char bquote [bquote, bquote] n @ bquote # t) (sp\<lparr>sp_backtick := True\<rparr>) = sp_scan t sp"
    if "calm sp" for sp t
  proof (induction n)
    case Nil
    have "scan_char bquote t (sp\<lparr>sp_backtick := True\<rparr>) = (False, sp)"
      using that calm_same(1) [OF that] by (simp add: scan_char_def calm_iff)
    then show ?case by simp
  next
    case (Cons c n)
    have "scan_char bquote (bquote # u) (sp\<lparr>sp_backtick := True\<rparr>) = (False, sp)" "scan_char bquote u sp = (False, sp\<lparr>sp_backtick := True\<rparr>)" for u
      using that calm_same(1) [OF that] by (simp_all add: scan_char_def calm_iff my_chars)
    moreover have "c \<noteq> bquote \<Longrightarrow> scan_char c u (sp\<lparr>sp_backtick := True\<rparr>) = (False, sp\<lparr>sp_backtick := True\<rparr>)" for u
      using that by (simp add: scan_char_def calm_iff)
    ultimately show ?case using Cons by simp
  qed
  then show ?thesis by (auto simp: quiet_def quoteMySQLIdent_def scan_char_def calm_iff my_chars)
qed

lemma quiet_string:
  assumes "\<And>c. f c = [c] \<and> c \<noteq> bslash \<and> c \<noteq> squote \<or> (\<exists>x. f c = [bslash, x])"
  shows "quiet ([squote] @ each_char f v @ [squote])"
proof -
  have "sp_scan (each_char f v @ squote # t) (sp\<lparr>sp_single := True\<rparr>) = sp_scan t sp"
    if "calm sp" "t = [] \<or> hd t \<noteq> squote" for sp t
  proof (induction v)
    case Nil
    have "scan_char squote t (sp\<lparr>sp_single := True\<rparr>) = (False, sp)"
      using that calm_same(2) [OF that(1)] by (auto simp: scan_char_def calm_iff my_chars)
    then show ?case by simp
  next
    case (Cons c v)
    from assms [of c] show ?case using that Cons by (auto simp: scan_char_def calm_iff)
  qed
  then show ?thesis by (auto simp: quiet_def scan_char_def calm_iff)
qed

lemma quiet_escaped: "quiet ([squote] @ escapeString v @ [squote])" "quiet ([squote] @ escapeBlob v @ [squote])"
  unfolding escapeString_each escapeBlob_each by (rule quiet_string; simp add: esc_my_def my_chars)+

text \<open>Text without quotes and comments: keywords, punctuation and numbers.\<close>

definition plain_sql :: "string \<Rightarrow> bool" where
  "plain_sql w \<longleftrightarrow> list_all (\<lambda>c. c \<noteq> squote \<and> c \<noteq> quot \<and> c \<noteq> bquote \<and> c \<noteq> CHR ''#'' \<and> c \<noteq> CHR ''/'') w \<and>
     \<not> contains w ''--'' \<and> (w = [] \<or> last w \<noteq> CHR ''-'')"

lemma quiet_plain: "plain_sql w \<Longrightarrow> quiet w"
proof (induction w)
  case (Cons c w)
  have w: "plain_sql w" using Cons.prems by (cases w) (auto simp: plain_sql_def)
  have "\<not> starts_comment c (w @ t)" for t
    using Cons.prems by (cases w) (auto simp: plain_sql_def starts_comment_def)
  then have "calm sp \<Longrightarrow> scan_char c (w @ t) sp = (False, sp)" for sp t
    using Cons.prems by (auto simp: scan_char_def calm_iff plain_sql_def)
  then show ?case using Cons.IH [OF w] by (simp add: quiet_def)
qed (simp add: quiet_def)

section \<open>The statements of a table are split as they were written\<close>

lemma no_dash_pair: "list_all (\<lambda>c. c \<noteq> CHR ''-'') w \<Longrightarrow> \<not> contains w ''--''"
  by (induction w) auto

lemma plain_sql_nodash:
  assumes "list_all (\<lambda>c. c \<noteq> squote \<and> c \<noteq> quot \<and> c \<noteq> bquote \<and> c \<noteq> CHR ''#'' \<and> c \<noteq> CHR ''/'' \<and> c \<noteq> CHR ''-'') w"
  shows "plain_sql w"
proof -
  have d: "list_all (\<lambda>c. c \<noteq> CHR ''-'') w" using assms by (rule list.pred_mono_strong) blast
  have q: "list_all (\<lambda>c. c \<noteq> squote \<and> c \<noteq> quot \<and> c \<noteq> bquote \<and> c \<noteq> CHR ''#'' \<and> c \<noteq> CHR ''/'') w"
    using assms by (rule list.pred_mono_strong) blast
  have "w = [] \<or> last w \<noteq> CHR ''-''" using d by (induction w) auto
  with q no_dash_pair [OF d] show ?thesis unfolding plain_sql_def by blast
qed

lemma plain_sql_itoa: "plain_sql (itoa n)"
proof -
  have d: "list_all is_digit w \<Longrightarrow> plain_sql w" for w
    by (rule plain_sql_nodash) (auto simp: list_all_iff is_digit_def my_chars)
  show ?thesis
  proof (cases "n < 0")
    case True
    have p: "list_all is_digit (pos_itoa (- n))" using True by (intro pos_itoa_digits) simp
    then have "hd (pos_itoa (- n)) \<noteq> CHR ''-''" using digit_not_sign by (cases "pos_itoa (- n)") auto
    then have "\<not> has_prefix (pos_itoa (- n)) ''-''" by (cases "pos_itoa (- n)") auto
    with d [OF p] True show ?thesis by (simp add: itoa_def plain_sql_def my_chars)
  next
    case False
    then show ?thesis by (intro d itoa_digits) simp
  qed
qed

lemma plain_sql_hex: "plain_sql (''0x'' @ hex_encode b)"
proof (rule plain_sql_nodash)
  have "list_all (\<lambda>c. c \<noteq> squote \<and> c \<noteq> quot \<and> c \<noteq> bquote \<and> c \<noteq> CHR ''#'' \<and> c \<noteq> CHR ''/'' \<and> c \<noteq> CHR ''-'') hex_alphabet"
    by (simp add: hex_alphabet_def my_chars)
  then show "list_all (\<lambda>c. c \<noteq> squote \<and> c \<noteq> quot \<and> c \<noteq> bquote \<and> c \<noteq> CHR ''#'' \<and> c \<noteq> CHR ''/'' \<and> c \<noteq> CHR ''-'') (''0x'' @ hex_encode b)"
    using hex_encode_set [of b] by (auto simp: list_all_iff my_chars)
qed

text \<open>The text of a floating-point number is plain and has no line feed.\<close>

fun value_ok :: "sql_value \<Rightarrow> bool" where
  "value_ok (SFloat f) = (plain_sql f \<and> nl \<notin> set f)"
| "value_ok _ = True"

lemma value_text_quiet: "value_ok v \<Longrightarrow> quiet (value_text raw typ v)"
proof (cases v)
  case SNull
  have "plain_sql ''NULL''" by (simp add: plain_sql_def my_chars)
  then show ?thesis using SNull quiet_plain by (simp add: value_text_def)
next
  case (SBool b)
  have "plain_sql ''1''" "plain_sql ''0''" by (simp_all add: plain_sql_def my_chars)
  then show ?thesis using SBool quiet_plain by (simp add: value_text_def)
qed (use quiet_plain plain_sql_itoa plain_sql_hex quiet_escaped in \<open>auto simp: value_text_def\<close>)

lemma value_text_line: "value_ok v \<Longrightarrow> nl \<notin> set (value_text raw typ v)"
proof (cases v)
  case (SInt n)
  have "nl \<notin> set (itoa n)"
    using digits_no_char [OF pos_itoa_digits, of _ nl] by (auto simp: itoa_def char_names is_digit_def)
  then show ?thesis using SInt by (simp add: value_text_def)
next
  case (SBytes b)
  have "nl \<notin> set hex_alphabet" by (simp add: hex_alphabet_def nl_def)
  then show ?thesis using SBytes escape_no_nl hex_encode_set [of b] by (auto simp: value_text_def my_chars)
qed (use escape_no_nl in \<open>auto simp: value_text_def my_chars\<close>)

lemma quiet_join:
  assumes "\<And>w. w \<in> set ws \<Longrightarrow> quiet w"
  shows "quiet (join '', '' ws @ '')'')"
  using assms
proof (induction "'', ''" ws rule: join.induct)
  case 1
  show ?case by (simp add: quiet_plain plain_sql_def my_chars)
next
  case (2 w)
  have "quiet '')''" by (simp add: quiet_plain plain_sql_def my_chars)
  then show ?case using 2 by (simp add: quiet_append my_chars)
next
  case (3 w y ws)
  have "quiet '', ''" by (simp add: quiet_plain plain_sql_def my_chars)
  have c: "calm sp \<Longrightarrow> scan_char (CHR '','') u sp = (False, sp)" "calm sp \<Longrightarrow> scan_char (CHR '' '') u sp = (False, sp)" for u sp
    by (auto simp: scan_char_def calm_iff starts_comment_def my_chars)
  have "quiet ('', '' @ join '', '' (y # ws) @ '')'')" using 3 c by (auto simp: quiet_def)
  with 3 show ?case using quiet_append [of w "'', '' @ join '', '' (y # ws) @ '')''"] by (simp add: my_chars)
qed

lemma quiet_after_plain:
  assumes "list_all (\<lambda>c. c \<noteq> squote \<and> c \<noteq> quot \<and> c \<noteq> bquote \<and> c \<noteq> CHR ''#'' \<and> c \<noteq> CHR ''/'' \<and> c \<noteq> CHR ''-'') w" and "quiet v"
  shows "quiet (w @ v)"
  using assms(1)
proof (induction w)
  case (Cons c w)
  then have "calm sp \<Longrightarrow> scan_char c u sp = (False, sp)" for u sp
    by (auto simp: scan_char_def calm_iff starts_comment_def)
  with Cons show ?case by (simp add: quiet_def)
qed (use assms(2) in simp)

lemma row_text_quiet:
  assumes "list_all value_ok vs"
  shows "quiet (row_text raw types vs)"
proof -
  have "value_ok (snd x)" if "x \<in> set (zip types vs)" for x
    using assms set_zip_rightD [of "fst x" "snd x"] that by (simp add: list_all_iff)
  then have "quiet (join '', '' (map2 (value_text raw) types vs) @ '')'')"
    by (intro quiet_join) (auto intro!: value_text_quiet)
  then show ?thesis unfolding row_text_def by (rule quiet_after_plain [rotated]) (simp add: my_chars)
qed

definition header_line :: "string \<Rightarrow> string list \<Rightarrow> string" where
  "header_line table cols =
     ''INSERT INTO '' @ quoteMySQLIdent table @ '' ('' @ join '', '' (map quoteMySQLIdent cols) @ '') VALUES''"

lemma insert_header_line: "insert_header table cols = header_line table cols @ [nl]"
  by (simp add: insert_header_def header_line_def)

lemma header_line_quiet: "quiet (header_line table cols)"
proof -
  have v: "quiet '' VALUES''" by (simp add: quiet_plain plain_sql_def my_chars)
  have j: "quiet (join '', '' (map quoteMySQLIdent cols) @ '')'')" by (rule quiet_join) (auto simp: quiet_ident)
  have "quiet ((join '', '' (map quoteMySQLIdent cols) @ '')'') @ '' VALUES'')" using j v by (rule quiet_append) (simp_all add: my_chars)
  then have "quiet ('' ('' @ (join '', '' (map quoteMySQLIdent cols) @ '')'') @ '' VALUES'')"
    by (rule quiet_after_plain [rotated]) (simp add: my_chars)
  then have "quiet (quoteMySQLIdent table @ '' ('' @ (join '', '' (map quoteMySQLIdent cols) @ '')'') @ '' VALUES'')"
    by (rule quiet_append [OF quiet_ident]) (simp_all add: my_chars)
  then have "quiet (''INSERT INTO '' @ quoteMySQLIdent table @ '' ('' @ (join '', '' (map quoteMySQLIdent cols) @ '')'') @ '' VALUES'')"
    by (rule quiet_after_plain [rotated]) (simp add: my_chars)
  then show ?thesis by (simp add: header_line_def)
qed

text \<open>Lines that the splitter only collects, and the line that ends a statement.\<close>

definition inner_line :: "string \<Rightarrow> bool" where
  "inner_line l \<longleftrightarrow> quiet l \<and> l \<noteq> [] \<and> \<not> is_space (hd l) \<and> \<not> is_space (last l) \<and>
     \<not> has_prefix (to_upper l) ''DELIMITER ''"

lemma trim_snoc:
  assumes "l \<noteq> []" and "\<not> is_space (last l)" and "b = [] \<or> \<not> is_space (hd b)" and "b \<noteq> [] \<or> \<not> is_space (hd l)"
  shows "trim_space (b @ l @ [nl]) = b @ l"
proof -
  have "trim_space ((b @ l) @ [nl]) = trim_space (b @ l)" by (rule trim_space_last_nl)
  also have "\<dots> = b @ l" by (rule trim_space_id) (use assms in \<open>cases b; simp\<close>)+
  finally show ?thesis by simp
qed

lemma push_inner:
  assumes "calm sp" and "inner_line l" and "sp_delimiter sp = '';''" and "last l \<noteq> CHR '';''"
    and "sp_buf sp = [] \<or> \<not> is_space (hd (sp_buf sp))"
  shows "sp_pushLine l sp = (sp\<lparr>sp_buf := sp_buf sp @ l @ [nl]\<rparr>, [])"
proof -
  have l: "quiet l" "l \<noteq> []" "\<not> is_space (hd l)" "\<not> is_space (last l)" "\<not> has_prefix (to_upper l) ''DELIMITER ''"
    using assms(2) by (simp_all add: inner_line_def)
  have t: "trim_space l = l" using l by (intro trim_space_id) simp_all
  have sc: "sp_scan l sp = sp" using l(1) assms(1) by (rule quiet_scan)
  have same: "sp\<lparr>sp_buf := b, sp_line := False\<rparr> = sp\<lparr>sp_buf := b\<rparr>" for b using assms(1) by (simp add: calm_iff)
  have "trim_space (sp_buf sp @ l @ [nl]) = sp_buf sp @ l" by (rule trim_snoc) (use l assms(5) in simp_all)
  moreover have "\<not> has_suffix (sp_buf sp @ l) '';''" using l(2) assms(4) by (cases l rule: rev_cases) (auto simp: suffix_def)
  ultimately have "\<not> sp_endsStatement (sp\<lparr>sp_buf := sp_buf sp @ l @ [nl]\<rparr>)"
    using assms(3) by (simp add: sp_endsStatement_def)
  then show ?thesis unfolding sp_pushLine_def Let_def t sc same using l(2,5) by simp
qed

lemma push_last:
  assumes "calm sp" and "inner_line (l @ '';'')" and "sp_delimiter sp = '';''" and "l \<noteq> []" and "\<not> is_space (last l)"
    and "sp_buf sp = [] \<or> \<not> is_space (hd (sp_buf sp))"
  shows "sp_pushLine (l @ '';'') sp = (sp\<lparr>sp_buf := []\<rparr>, [sp_buf sp @ l])"
proof -
  have l: "quiet (l @ '';'')" "\<not> is_space (hd (l @ '';''))" "\<not> has_prefix (to_upper (l @ '';'')) ''DELIMITER ''"
    using assms(2) by (simp_all add: inner_line_def)
  have s: "\<not> is_space (CHR '';'')" by (simp add: is_space_def)
  have t: "trim_space (l @ '';'') = l @ '';''" using l(2) s by (intro trim_space_id) simp_all
  have sc: "sp_scan (l @ '';'') sp = sp" using l(1) assms(1) by (rule quiet_scan)
  let ?b = "sp_buf sp @ (l @ '';'') @ [nl]"
  have same: "sp\<lparr>sp_buf := ?b, sp_line := False\<rparr> = sp\<lparr>sp_buf := ?b\<rparr>" using assms(1) by (simp add: calm_iff)
  have tb: "trim_space ?b = sp_buf sp @ l @ '';''"
    using trim_snoc [of "l @ '';''" "sp_buf sp"] s l(2) assms(6) by simp
  have h: "\<not> is_space (hd (sp_buf sp @ l))" using assms(4,6) l(2) by (cases "sp_buf sp") simp_all
  have "trim_suffix (sp_buf sp @ l @ '';'') '';'' = sp_buf sp @ l" using trim_suffix_append [of "sp_buf sp @ l" "'';''"] by simp
  moreover have "trim_space (sp_buf sp @ l) = sp_buf sp @ l" using h assms(4,5) by (intro trim_space_id) simp_all
  ultimately have f: "sp_flush (sp\<lparr>sp_buf := ?b\<rparr>) = (sp\<lparr>sp_buf := []\<rparr>, sp_buf sp @ l)"
    using tb assms(3) by (simp add: sp_flush_def suffix_def)
  have e: "sp_endsStatement (sp\<lparr>sp_buf := ?b\<rparr>)"
    using tb assms(1,3) by (simp add: sp_endsStatement_def calm_def sp_neutral_def suffix_def)
  show ?thesis unfolding sp_pushLine_def Let_def t sc same using l(3) e f assms(4) by (simp add: some_stmt_def)
qed

text \<open>The lines of a batch: its header, and its rows ended by a comma or, the last one, by a semicolon.\<close>

fun row_lines :: "string list \<Rightarrow> string list" where
  "row_lines [] = []"
| "row_lines [r] = [r @ '';'']"
| "row_lines (r # rs) = (r @ '','') # row_lines rs"

definition tuple_text :: "string \<Rightarrow> bool" where
  "tuple_text r \<longleftrightarrow> quiet r \<and> r \<noteq> [] \<and> hd r = CHR ''('' \<and> last r = CHR '')'' \<and> nl \<notin> set r"

lemma tuple_inner:
  assumes "tuple_text r"
  shows "inner_line (r @ '','')" "inner_line (r @ '';'')" "\<not> is_space (last r)" "nl \<notin> set (r @ '','')" "nl \<notin> set (r @ '';'')"
proof -
  have q: "quiet '',''" "quiet '';''" by (simp_all add: quiet_plain plain_sql_def my_chars)
  obtain r' where r: "r = CHR ''('' # r'" using assms by (cases r) (auto simp: tuple_text_def)
  then show "inner_line (r @ '','')" "inner_line (r @ '';'')"
    using assms q quiet_append [of r "'',''"] quiet_append [of r "'';''"]
    by (simp_all add: inner_line_def tuple_text_def my_chars is_space_def to_upper_def upper_char_def)
qed (use assms in \<open>simp_all add: tuple_text_def is_space_def char_names\<close>)

lemma push_rows:
  assumes "\<And>r. r \<in> set rs \<Longrightarrow> tuple_text r" and "rs \<noteq> []" and "calm sp" and "sp_delimiter sp = '';''"
    and "sp_buf sp \<noteq> []" and "\<not> is_space (hd (sp_buf sp))"
  shows "push_lines (row_lines rs) sp = (sp\<lparr>sp_buf := []\<rparr>, [sp_buf sp @ join ('','' @ [nl]) rs])"
  using assms
proof (induction rs arbitrary: sp rule: row_lines.induct)
  case (2 r)
  note t = tuple_inner [OF "2.prems"(1) [of r]]
  have "r \<noteq> []" using "2.prems"(1) [of r] by (simp add: tuple_text_def)
  then have "sp_pushLine (r @ '';'') sp = (sp\<lparr>sp_buf := []\<rparr>, [sp_buf sp @ r])"
    using "2.prems" t by (intro push_last) simp_all
  then show ?case by simp
next
  case (3 r r' rs)
  note t = tuple_inner [OF "3.prems"(1) [of r]]
  let ?sp = "sp\<lparr>sp_buf := sp_buf sp @ (r @ '','') @ [nl]\<rparr>"
  have "sp_pushLine (r @ '','') sp = (?sp, [])" using "3.prems" t by (intro push_inner) simp_all
  moreover have "push_lines (row_lines (r' # rs)) ?sp = (?sp\<lparr>sp_buf := []\<rparr>, [sp_buf ?sp @ join ('','' @ [nl]) (r' # rs)])"
    using "3.prems" by (intro "3.IH") simp_all
  ultimately show ?case by simp
qed simp

lemma header_line_inner: "inner_line (header_line table cols)" "last (header_line table cols) \<noteq> CHR '';''"
proof -
  have "hd (header_line table cols) = CHR ''I''" by (simp add: header_line_def)
  moreover have l: "last (header_line table cols) = CHR ''S''" by (simp add: header_line_def)
  moreover have "\<not> has_prefix (to_upper (header_line table cols)) ''DELIMITER ''"
    by (simp add: header_line_def to_upper_def upper_char_def)
  ultimately show "inner_line (header_line table cols)" using header_line_quiet [of table cols]
    by (simp add: inner_line_def is_space_def) (simp add: header_line_def)
  show "last (header_line table cols) \<noteq> CHR '';''" using l by simp
qed

lemma push_batch:
  assumes "\<And>r. r \<in> set rs \<Longrightarrow> tuple_text r" and "rs \<noteq> []" and "calm sp" and "sp_delimiter sp = '';''" and "sp_buf sp = []"
  shows "push_lines (header_line table cols # row_lines rs) sp = (sp, [batch_text (insert_header table cols) rs])"
proof -
  let ?h = "header_line table cols"
  let ?sp = "sp\<lparr>sp_buf := ?h @ [nl]\<rparr>"
  have "sp_pushLine ?h sp = (?sp, [])" using push_inner [OF assms(3) header_line_inner(1) assms(4) header_line_inner(2)] assms(5) by simp
  moreover have h: "?h \<noteq> []" "\<not> is_space (hd ?h)" using header_line_inner(1) [of table cols] by (simp_all add: inner_line_def)
  have "push_lines (row_lines rs) ?sp = (?sp\<lparr>sp_buf := []\<rparr>, [sp_buf ?sp @ join ('','' @ [nl]) rs])"
    using assms h by (intro push_rows) simp_all
  moreover have "?sp\<lparr>sp_buf := []\<rparr> = sp" using assms(5) by simp
  ultimately show ?thesis by (simp add: batch_text_def insert_header_line)
qed

lemma push_lines_append:
  "push_lines (xs @ ys) sp = (case push_lines xs sp of (sp1, a) \<Rightarrow> case push_lines ys sp1 of (sp2, b) \<Rightarrow> (sp2, a @ b))"
  by (induction xs arbitrary: sp) (auto split: prod.splits)

definition batch_lines :: "string \<Rightarrow> string list \<Rightarrow> string list list \<Rightarrow> string list" where
  "batch_lines table cols bs = concat (map (\<lambda>b. header_line table cols # row_lines b) bs)"

lemma push_batches:
  assumes "\<And>b r. b \<in> set bs \<Longrightarrow> r \<in> set b \<Longrightarrow> tuple_text r" and "[] \<notin> set bs"
    and "calm sp" and "sp_delimiter sp = '';''" and "sp_buf sp = []"
  shows "push_lines (batch_lines table cols bs) sp = (sp, map (batch_text (insert_header table cols)) bs)"
  using assms(1,2)
proof (induction bs)
  case (Cons b bs)
  have "push_lines (header_line table cols # row_lines b) sp = (sp, [batch_text (insert_header table cols) b])"
    using Cons.prems assms(3-5) by (intro push_batch) auto
  moreover have "batch_lines table cols (b # bs) = (header_line table cols # row_lines b) @ batch_lines table cols bs"
    by (simp add: batch_lines_def)
  moreover have "push_lines (batch_lines table cols bs) sp = (sp, map (batch_text (insert_header table cols)) bs)"
    by (rule Cons.IH) (use Cons.prems in auto)
  ultimately show ?case by (simp only: push_lines_append prod.case) simp
qed (simp add: batch_lines_def)

lemma unlines_row_lines: "rs \<noteq> [] \<Longrightarrow> unlines (row_lines rs) = join ('','' @ [nl]) rs @ '';'' @ [nl]"
  by (induction rs rule: row_lines.induct) simp_all

lemma unlines_batch_lines: "[] \<notin> set bs \<Longrightarrow> unlines (batch_lines table cols bs) = batches_text (insert_header table cols) bs"
  by (induction bs)
    (auto simp: batch_lines_def batches_text_def batch_text_def unlines_concat insert_header_line unlines_row_lines)

lemma row_lines_nl: "(\<And>r. r \<in> set rs \<Longrightarrow> tuple_text r) \<Longrightarrow> l \<in> set (row_lines rs) \<Longrightarrow> nl \<notin> set l"
proof (induction rs rule: row_lines.induct)
  case (2 r)
  then show ?case using tuple_inner(5) [of r] by simp
next
  case (3 r r' rs)
  then show ?case using tuple_inner(4) [of r] by auto
qed simp

lemma join_nl: "(\<And>w. w \<in> set ws \<Longrightarrow> nl \<notin> set w) \<Longrightarrow> nl \<notin> set (join '', '' ws)"
  by (induction "'', ''" ws rule: join.induct) (auto simp: nl_def)

lemma row_text_tuple:
  assumes "list_all value_ok vs"
  shows "tuple_text (row_text raw types vs)"
proof -
  have "value_ok (snd x)" if "x \<in> set (zip types vs)" for x
    using assms set_zip_rightD [of "fst x" "snd x"] that by (simp add: list_all_iff)
  then have "nl \<notin> set (join '', '' (map2 (value_text raw) types vs))"
    by (intro join_nl) (auto simp: value_text_line)
  then show ?thesis using row_text_quiet [OF assms, of raw types] by (simp add: tuple_text_def row_text_def nl_def)
qed

lemma ident_nl: "nl \<notin> set n \<Longrightarrow> nl \<notin> set (quoteMySQLIdent n)"
  by (auto simp: quoteMySQLIdent_def replace_char_each set_each_char my_chars split: if_splits)

lemma header_line_nl:
  assumes "nl \<notin> set table" and "list_all (\<lambda>c. nl \<notin> set c) cols"
  shows "nl \<notin> set (header_line table cols)"
proof -
  have "nl \<notin> set (join '', '' (map quoteMySQLIdent cols))" using assms(2) by (intro join_nl) (auto simp: list_all_iff ident_nl)
  then show ?thesis using ident_nl [OF assms(1)] by (simp add: header_line_def nl_def)
qed

section \<open>The values of a row survive the rewriting\<close>

lemma find_first: "x \<in> set xs \<Longrightarrow> P x \<Longrightarrow> sorted xs \<Longrightarrow> \<exists>y. find P xs = Some y \<and> y \<le> x"
  by (induction xs) auto

lemma to_upper_nth [simp]: "length (to_upper s) = length s" "i < length s \<Longrightarrow> to_upper s ! i = upper_char (s ! i)"
  by (simp_all add: to_upper_def)

lemma blank_not_word: "\<not> isWordChar (CHR '' '')" "\<not> isWordChar nl"
  by code_simp+

text \<open>The end of the header is no later than the word \<open>VALUES\<close> that the dump wrote.\<close>

lemma insertHeaderEnd_before:
  assumes "p \<noteq> []" and "\<not> isWordChar (upper_char (last p))"
  shows "\<exists>i \<le> length p. insertHeaderEnd (p @ ''VALUES'' @ nl # d) = Some i"
proof -
  let ?s = "p @ ''VALUES'' @ nl # d" and ?i = "length p"
  have d: "drop ?i (to_upper ?s) = ''VALUES'' @ upper_char nl # to_upper d" by (simp add: to_upper_def upper_char_def)
  have b: "to_upper ?s ! (?i - 1) = upper_char (last p)"
    using assms(1) by (subst to_upper_nth) (auto simp: nth_append last_conv_nth)
  have a: "to_upper ?s ! (?i + 6) = upper_char nl" by (subst to_upper_nth) (auto simp: nth_append)
  have "\<not> isWordChar (upper_char nl)" using blank_not_word by (simp add: upper_char_def nl_def)
  then have "\<exists>y. insertHeaderEnd ?s = Some y \<and> y \<le> ?i"
    unfolding insertHeaderEnd_def Let_def using assms d a b by (intro find_first sorted_upt) auto
  then show ?thesis by auto
qed

lemma isInsert_header: "isInsertStmt (''INSERT '' @ s)"
  by (subst isInsertStmt.simps)
    (simp add: trim_left_blank_def to_upper_def upper_char_def blank_not_word char_names)

lemma rewrite_keeps_rows:
  "\<exists>header sources'. rewriteStatement (batch_text (insert_header table cols) rs) target sources =
     (header @ ''VALUES'' @ nl # join ('','' @ [nl]) rs, 0, sources')"
proof -
  define p where "p = ''INSERT INTO '' @ quoteMySQLIdent table @ '' ('' @ join '', '' (map quoteMySQLIdent cols) @ '') ''"
  define v where "v = ''VALUES'' @ nl # join ('','' @ [nl]) rs"
  have s: "batch_text (insert_header table cols) rs = p @ v" by (simp add: batch_text_def insert_header_def p_def v_def)
  have "p \<noteq> []" "\<not> isWordChar (upper_char (last p))"
    by (simp_all add: p_def blank_not_word upper_char_def)
  from insertHeaderEnd_before [OF this] obtain i where i: "i \<le> length p" "insertHeaderEnd (p @ v) = Some i"
    unfolding v_def by blast
  have "isInsertStmt (p @ v)" using isInsert_header by (simp add: p_def)
  then have "\<exists>sc so. rewriteStatement (p @ v) target sources = (sc @ (if target = [] then v else drop i (p @ v)), 0, so)"
    using i(2) by (cases "target = []") (auto simp: rewriteStatement_def Let_def)
  then show ?thesis using i(1) unfolding s v_def [symmetric] by (cases "target = []") (force, (simp, metis append_assoc))
qed

text \<open>
  (C14) What the dump of a table writes, the restore splits into the very statements the dump
  ended, and rewriting them for the target database leaves the tuples of values as they were:
  all rows of the table arrive, in order, whatever quotes, semicolons, comments, line ends or
  \<open>DEFINER=\<close> texts the values hold. The names of the table and its columns hold no line feed.
\<close>

theorem mysql_rows_restored:
  assumes "insertCols \<noteq> []" and "nl \<notin> set table" and "list_all (\<lambda>c. nl \<notin> set c) insertCols"
    and "list_all (list_all value_ok) rows"
  shows "\<exists>out bs. streamRows rawBlobs table insertCols batchBytes (Inr (types, map Inr rows, None)) = (out, None)
    \<and> concat bs = map (row_text rawBlobs types) rows
    \<and> push_lines (go_lines out) newStmtSplitter = (newStmtSplitter, map (batch_text (insert_header table insertCols)) bs)
    \<and> (\<forall>b \<in> set bs. \<exists>header sources'. rewriteStatement (batch_text (insert_header table insertCols) b) target sources =
         (header @ ''VALUES'' @ nl # join ('','' @ [nl]) b, 0, sources'))"
proof -
  from streamRows_batches [OF assms(1)] obtain bs where
    bs: "streamRows rawBlobs table insertCols batchBytes (Inr (types, map Inr rows, None)) =
      (batches_text (insert_header table insertCols) bs, None)"
    "concat bs = map (row_text rawBlobs types) rows" "[] \<notin> set bs" by blast
  have t: "tuple_text r" if "b \<in> set bs" "r \<in> set b" for b r
  proof -
    have "r \<in> set (map (row_text rawBlobs types) rows)" using that bs(2) [symmetric] by auto
    then show ?thesis using assms(4) row_text_tuple by (auto simp: list_all_iff)
  qed
  have "nl \<notin> set l" if "l \<in> set (batch_lines table insertCols bs)" for l
    using that header_line_nl [OF assms(2,3)] row_lines_nl [OF t] by (auto simp: batch_lines_def split: if_splits)
  then have "go_lines (batches_text (insert_header table insertCols) bs) = batch_lines table insertCols bs"
    using go_lines_unlines unlines_batch_lines [OF bs(3)] by metis
  moreover have "push_lines (batch_lines table insertCols bs) newStmtSplitter =
      (newStmtSplitter, map (batch_text (insert_header table insertCols)) bs)"
    using t bs(3) by (intro push_batches) (auto simp: newStmtSplitter_def calm_iff)
  moreover have "\<forall>b \<in> set bs. \<exists>header sources'. rewriteStatement (batch_text (insert_header table insertCols) b) target sources =
      (header @ ''VALUES'' @ nl # join ('','' @ [nl]) b, 0, sources')" using rewrite_keeps_rows by blast
  ultimately show ?thesis using bs(1,2) by auto
qed

theorem mysql_rows_restored_witness:
  "\<exists>out bs. streamRows False ''notes'' [''id'', ''text''] 40
       (Inr ([''INT'', ''TEXT''], map Inr [[SInt 1, SText (''a'' @ [squote, nl] @ ''; -- x'')], [SInt (-2), SNull]], None)) = (out, None)
    \<and> concat bs = map (row_text False [''INT'', ''TEXT'']) [[SInt 1, SText (''a'' @ [squote, nl] @ ''; -- x'')], [SInt (-2), SNull]]
    \<and> push_lines (go_lines out) newStmtSplitter =
        (newStmtSplitter, map (batch_text (insert_header ''notes'' [''id'', ''text''])) bs)
    \<and> (\<forall>b \<in> set bs. \<exists>header sources'. rewriteStatement (batch_text (insert_header ''notes'' [''id'', ''text'']) b) ''shop'' [] =
         (header @ ''VALUES'' @ nl # join ('','' @ [nl]) b, 0, sources'))"
  by (rule mysql_rows_restored) (simp_all add: nl_def)

text \<open>
  The name of the target database is put into replacement templates, in which a dollar
  sign starts the name of a submatch: for a target with a dollar sign the \<open>USE\<close> statement of
  the dump selects another database.
\<close>

theorem rewrite_dollar_target:
  "fst (rewriteStatement (''USE '' @ quoteMySQLIdent ''shop'' @ '';'') ''my$db'' []) = ''USE '' @ quoteMySQLIdent ''my'' @ '';''"
  by code_simp

end
