(* ===== verification/PgCopy.thy ===== *)
theory PgCopy
  imports EngineCommon
begin

text \<open>
  The rows of a table in the PostgreSQL engine (\<open>internal/database/engine/postgres/postgres.go\<close>):
  the text of names, literals and values, and the \<open>COPY\<close> block of a table. The Go value of a
  column is a \<open>pg_value\<close>; floating-point numbers and times are given by the text that the
  standard library formats for them, \<open>json.Marshal\<close> and the format \<open>%v\<close> are a record of
  functions.

  The lemmas show that a line of a \<open>COPY\<close> block has no line end of its own and determines the
  texts of its columns, null apart from every text, and that numbers keep their value.
\<close>

section \<open>Names and literals\<close>

definition quotePGIdent :: "string \<Rightarrow> string" where
  "quotePGIdent s = [quot] @ replace_char quot [quot, quot] s @ [quot]"

definition quotePGRole :: "string \<Rightarrow> string" where
  "quotePGRole name =
     quotePGIdent (if length name \<ge> 2 \<and> has_prefix name [quot] \<and> has_suffix name [quot]
       then str_replace [quot, quot] [quot] (butlast (tl name)) else name)"

definition escapePGLiteral :: "string \<Rightarrow> string" where
  "escapePGLiteral s = replace_char squote [squote, squote] s"

definition escapePgCopy :: "string \<Rightarrow> string" where
  "escapePgCopy s =
     (let s = replace_char bslash [bslash, bslash] s;
          s = replace_char tab [bslash, CHR ''t''] s;
          s = replace_char nl [bslash, CHR ''n''] s
      in replace_char cr [bslash, CHR ''r''] s)"

definition quoteArrayElement :: "string \<Rightarrow> string" where
  "quoteArrayElement s = [quot] @ replace_char quot [bslash, quot] (replace_char bslash [bslash, bslash] s) @ [quot]"

section \<open>Values\<close>

type_synonym vec2 = "string \<times> string"

datatype pg_value =
    PNil
  | PString string
  | PBytes string
  | PBool bool
  | PInt int
  | PFloat string
  | PTimestamp string
  | PInterval bool int int int
  | PNumeric bool bool int "int option" int
  | PClock bool int
  | PBits bool int string
  | PPoint bool vec2
  | PLseg bool vec2 vec2
  | PBox bool vec2 vec2
  | PPolygon bool "vec2 list"
  | PPath bool bool "vec2 list"
  | PLine bool string string string
  | PCircle bool vec2 string
  | PStringer string
  | PUuid string
  | PArray "pg_value list"
  | PMap "(string \<times> pg_value) list"
  | PPtr "pg_value option"
  | POther string

record go_text =
  json_Marshal :: "pg_value \<Rightarrow> string option"
  Sprintf_v :: "pg_value \<Rightarrow> string"

definition copy_null :: string where
  "copy_null = [bslash, CHR ''N'']"

definition unit_plural :: "int \<Rightarrow> string" where
  "unit_plural n = (if n = 1 \<or> n = -1 then [] else ''s'')"

text \<open>\<open>%02d\<close> and \<open>.%06d\<close> without its last zeros, for numbers that are not negative.\<close>

definition clock_frac :: "int \<Rightarrow> string" where
  "clock_frac us = (if us = 0 then [] else CHR ''.'' # rev (dropWhile (\<lambda>c. c = CHR ''0'') (rev (pad_left 6 (itoa us)))))"

definition encodeCopyTime :: "int \<Rightarrow> string" where
  "encodeCopyTime us0 =
     (let neg = us0 < 0; us = (if neg then i64 (- us0) else us0);
          h = go_quot us 3600000000; r1 = go_rem us 3600000000;
          m = go_quot r1 60000000; r2 = go_rem r1 60000000;
          s = go_quot r2 1000000; frac = go_rem r2 1000000;
          out = pad_left 2 (itoa h) @ '':'' @ pad_left 2 (itoa m) @ '':'' @ pad_left 2 (itoa s) @ clock_frac frac
      in (if neg then ''-'' else []) @ out)"

definition encodeCopyInterval :: "int \<Rightarrow> int \<Rightarrow> int \<Rightarrow> string" where
  "encodeCopyInterval months days us =
     (let years = go_quot months 12; mons = go_rem months 12;
          parts = (if years \<noteq> 0 then [itoa years @ '' year'' @ unit_plural years] else []) @
                  (if mons \<noteq> 0 then [itoa mons @ '' mon'' @ unit_plural mons] else []) @
                  (if days \<noteq> 0 then [itoa days @ '' day'' @ unit_plural days] else [])
      in join '' '' (parts @ (if us \<noteq> 0 \<or> parts = [] then [encodeCopyTime us] else [])))"

definition encodeCopyUUID :: "string \<Rightarrow> string" where
  "encodeCopyUUID b =
     join ''-'' [hex_encode (take 4 b), hex_encode (take 2 (drop 4 b)), hex_encode (take 2 (drop 6 b)),
                 hex_encode (take 2 (drop 8 b)), hex_encode (take 6 (drop 10 b))]"

text \<open>\<open>infm\<close> is 1 for infinity and -1 for negative infinity.\<close>

definition formatCopyNumeric :: "bool \<Rightarrow> int \<Rightarrow> int option \<Rightarrow> int \<Rightarrow> string" where
  "formatCopyNumeric nan infm n ex =
     (if nan then ''NaN'' else if infm = 1 then ''Infinity'' else if infm = -1 then ''-Infinity''
      else case n of
             None \<Rightarrow> ''0''
           | Some k \<Rightarrow>
               let dig0 = itoa k; neg = has_prefix dig0 ''-''; dig = (if neg then tl dig0 else dig0);
                   p = nat (- ex);
                   out = (if ex \<ge> 0 then dig @ replicate (nat ex) (CHR ''0'')
                          else if p \<ge> length dig then ''0.'' @ replicate (p - length dig) (CHR ''0'') @ dig
                          else take (length dig - p) dig @ ''.'' @ drop (length dig - p) dig)
               in if neg then CHR ''-'' # out else out)"

definition bits_text :: "int \<Rightarrow> string \<Rightarrow> string" where
  "bits_text len bytes =
     map (\<lambda>i. let b = (if i div 8 < length bytes then of_char (bytes ! (i div 8)) else 0 :: nat)
              in if (b div 2 ^ (7 - i mod 8)) mod 2 = 1 then CHR ''1'' else CHR ''0'') [0..<nat len]"

definition encodeCopyVec2 :: "vec2 \<Rightarrow> string" where
  "encodeCopyVec2 p = ''('' @ fst p @ '','' @ snd p @ '')''"

definition encodeCopyVecList :: "vec2 list \<Rightarrow> string \<Rightarrow> string \<Rightarrow> string" where
  "encodeCopyVecList ps op cl = op @ join '','' (map encodeCopyVec2 ps) @ cl"

fun is_string :: "pg_value \<Rightarrow> bool" where
  "is_string (PString _) = True"
| "is_string _ = False"

definition needsArrayQuoting :: "string \<Rightarrow> pg_value \<Rightarrow> bool" where
  "needsArrayQuoting s ev \<longleftrightarrow>
     is_string ev \<or> s = [] \<or> s = ''NULL'' \<or> contains_any s (''{},'' @ [quot, bslash, CHR '' '', tab, nl, cr])"

definition array_elem :: "string \<Rightarrow> pg_value \<Rightarrow> string" where
  "array_elem s ev = (if needsArrayQuoting s ev then quoteArrayElement s else s)"

definition hex_bytea :: "string \<Rightarrow> string" where
  "hex_bytea b = [bslash, CHR ''x''] @ hex_encode b"

definition OIDBytea :: int where "OIDBytea = 17"
definition OIDJSON :: int where "OIDJSON = 114"
definition OIDUUID :: int where "OIDUUID = 2950"
definition OIDJSONB :: int where "OIDJSONB = 3802"
definition OIDJSONArray :: int where "OIDJSONArray = 199"
definition OIDJSONBArray :: int where "OIDJSONBArray = 3807"

lemmas pg_oids = OIDBytea_def OIDJSON_def OIDUUID_def OIDJSONB_def OIDJSONArray_def OIDJSONBArray_def

definition hstore_key :: "string \<Rightarrow> string" where
  "hstore_key k = [quot] @ replace_char quot [bslash, quot] k @ [quot]"

text \<open>
  The branches of \<open>encodeCopyValue\<close> for values that hold no others: the type switch before the
  reflection. \<open>POther\<close> is printed with the format \<open>%v\<close>, which the second result reports.
\<close>

definition nullable :: "bool \<Rightarrow> string \<Rightarrow> string \<times> bool" where
  "nullable valid s = (if valid then s else copy_null, False)"

lemma hstore_size: "kv \<in> set kvs \<Longrightarrow> size (snd kv) < size_list (size_prod (\<lambda>_. 0) size) kvs"
proof (induction kvs)
  case (Cons a kvs)
  then show ?case by (cases a) auto
qed simp

text \<open>A measure for the seven functions: the size of the value, and the order in which they call each other.\<close>

definition copy_measure where
  "copy_measure = case_sum
     (case_sum (\<lambda>(g :: go_text, v :: pg_value, oid :: int). 6 * size v + 2)
       (case_sum (\<lambda>(g :: go_text, v :: pg_value, oid :: int). 6 * size v + 1)
                 (\<lambda>(g :: go_text, j :: bool, vs :: pg_value list). 6 * size_list size vs + 5)))
     (case_sum
       (case_sum (\<lambda>(g :: go_text, j :: bool, v :: pg_value). 6 * size v + 4)
                 (\<lambda>(g :: go_text, j :: bool, v :: pg_value). 6 * size v + 3))
       (case_sum (\<lambda>(g :: go_text, kvs :: (string \<times> pg_value) list). 6 * size_list (size_prod (\<lambda>_. 0) size) kvs + 5)
                 (\<lambda>(g :: go_text, k :: string, v :: pg_value). 6 * size v + 4)))"

function encodeCopyValue :: "go_text \<Rightarrow> pg_value \<Rightarrow> int \<Rightarrow> string \<times> bool"
  and copy_switch :: "go_text \<Rightarrow> pg_value \<Rightarrow> int \<Rightarrow> string \<times> bool"
  and encodeCopyArrayRaw :: "go_text \<Rightarrow> bool \<Rightarrow> pg_value list \<Rightarrow> string"
  and array_item :: "go_text \<Rightarrow> bool \<Rightarrow> pg_value \<Rightarrow> string"
  and array_value :: "go_text \<Rightarrow> bool \<Rightarrow> pg_value \<Rightarrow> string"
  and encodeCopyHstoreRaw :: "go_text \<Rightarrow> (string \<times> pg_value) list \<Rightarrow> string"
  and hstore_pair :: "go_text \<Rightarrow> string \<Rightarrow> pg_value \<Rightarrow> string" where
  "encodeCopyValue g v oid =
     (if oid = OIDJSON \<or> oid = OIDJSONB then
        (case v of
           PNil \<Rightarrow> (copy_null, False)
         | PString s \<Rightarrow> (case json_Marshal g v of Some raw \<Rightarrow> raw | None \<Rightarrow> [], False)
         | PBytes b \<Rightarrow> (b, False)
         | _ \<Rightarrow> (case json_Marshal g v of Some raw \<Rightarrow> (raw, False) | None \<Rightarrow> (Sprintf_v g v, True)))
      else if oid = OIDJSONArray \<or> oid = OIDJSONBArray then
        (case v of
           PNil \<Rightarrow> (copy_null, False)
         | PArray vs \<Rightarrow> (encodeCopyArrayRaw g True vs, False)
         | PBytes b \<Rightarrow> (''{'' @ join '','' (map (\<lambda>c. itoa (of_char c)) b) @ ''}'', False)
         | PUuid b \<Rightarrow> (''{'' @ join '','' (map (\<lambda>c. itoa (of_char c)) b) @ ''}'', False)
         | _ \<Rightarrow> (case json_Marshal g v of Some raw \<Rightarrow> (raw, True) | None \<Rightarrow> (Sprintf_v g v, True)))
      else if oid = OIDUUID then
        (case v of
           PNil \<Rightarrow> (copy_null, False)
         | PString s \<Rightarrow> (s, False)
         | PBytes b \<Rightarrow> if length b = 16 then (encodeCopyUUID b, False) else copy_switch g v oid
         | PUuid b \<Rightarrow> (encodeCopyUUID b, False)
         | _ \<Rightarrow> copy_switch g v oid)
      else copy_switch g v oid)"
| "copy_switch g v oid =
     (case v of
        PNil \<Rightarrow> (copy_null, False)
      | PString s \<Rightarrow> (s, False)
      | PBytes b \<Rightarrow> (hex_bytea b, False)
      | PBool b \<Rightarrow> (if b then ''t'' else ''f'', False)
      | PInt n \<Rightarrow> (itoa n, False)
      | PFloat f \<Rightarrow> (f, False)
      | PTimestamp t \<Rightarrow> (t, False)
      | PInterval ok mo da us \<Rightarrow> nullable ok (encodeCopyInterval mo da us)
      | PNumeric ok nan infm n ex \<Rightarrow> nullable ok (formatCopyNumeric nan infm n ex)
      | PClock ok us \<Rightarrow> nullable ok (encodeCopyTime us)
      | PBits ok len b \<Rightarrow> nullable ok (bits_text len b)
      | PPoint ok p \<Rightarrow> nullable ok (encodeCopyVec2 p)
      | PLseg ok p q \<Rightarrow> nullable ok (''['' @ encodeCopyVec2 p @ '','' @ encodeCopyVec2 q @ '']'')
      | PBox ok p q \<Rightarrow> nullable ok (encodeCopyVec2 p @ '','' @ encodeCopyVec2 q)
      | PPolygon ok ps \<Rightarrow> nullable ok (encodeCopyVecList ps ''('' '')'')
      | PPath ok closed ps \<Rightarrow>
          nullable ok (if closed then encodeCopyVecList ps ''('' '')'' else encodeCopyVecList ps ''['' '']'')
      | PLine ok a b c \<Rightarrow> nullable ok (''{'' @ a @ '','' @ b @ '','' @ c @ ''}'')
      | PCircle ok p r \<Rightarrow> nullable ok (''<'' @ encodeCopyVec2 p @ '','' @ r @ ''>'')
      | PStringer s \<Rightarrow> (s, False)
      | PUuid b \<Rightarrow> (''{'' @ join '','' (map (\<lambda>c. itoa (of_char c)) b) @ ''}'', False)
      | PArray vs \<Rightarrow> (encodeCopyArrayRaw g False vs, False)
      | PMap kvs \<Rightarrow> (encodeCopyHstoreRaw g kvs, False)
      | PPtr None \<Rightarrow> (copy_null, False)
      | PPtr (Some w) \<Rightarrow> encodeCopyValue g w oid
      | POther s \<Rightarrow> (s, True))"
| "encodeCopyArrayRaw g jsonCtx vs = ''{'' @ join '','' (map (array_item g jsonCtx) vs) @ ''}''"
| "array_item g jsonCtx ev =
     (case ev of
        PNil \<Rightarrow> ''NULL''
      | PPtr None \<Rightarrow> ''NULL''
      | PPtr (Some w) \<Rightarrow> array_value g jsonCtx w
      | _ \<Rightarrow> array_value g jsonCtx ev)"
| "array_value g jsonCtx ev =
     (case ev of
        PUuid b \<Rightarrow> array_elem (encodeCopyUUID b) ev
      | PBytes b \<Rightarrow> array_elem (hex_bytea b) ev
      | PArray ws \<Rightarrow> quoteArrayElement (encodeCopyArrayRaw g jsonCtx ws)
      | PMap kvs \<Rightarrow>
          array_elem (if jsonCtx then (case json_Marshal g ev of Some raw \<Rightarrow> raw | None \<Rightarrow> Sprintf_v g ev)
                      else encodeCopyHstoreRaw g kvs) ev
      | _ \<Rightarrow> array_elem (fst (encodeCopyValue g ev 0)) ev)"
| "encodeCopyHstoreRaw g kvs = join '', '' (sort (map (\<lambda>kv. hstore_pair g (fst kv) (snd kv)) kvs))"
| "hstore_pair g k vv =
     (case vv of
        PNil \<Rightarrow> hstore_key k @ '' => NULL''
      | PPtr None \<Rightarrow> hstore_key k @ '' => NULL''
      | PPtr (Some w) \<Rightarrow>
          hstore_key k @ ''=>'' @ [quot] @ replace_char quot [bslash, quot] (fst (encodeCopyValue g w 0)) @ [quot]
      | _ \<Rightarrow>
          hstore_key k @ ''=>'' @ [quot] @ replace_char quot [bslash, quot] (fst (encodeCopyValue g vv 0)) @ [quot])"
  by pat_completeness auto

termination
proof (relation "measure copy_measure")
  have l: "v \<in> set vs \<Longrightarrow> size v < size_list size vs" for v and vs :: "pg_value list"
    by (induction vs) auto
  show "(Inr (Inl (Inl (g, j, v))), Inl (Inr (Inr (g, j, vs)))) \<in> measure copy_measure" if "v \<in> set vs" for g j v vs
    using l [OF that] by (simp add: copy_measure_def)
  show "(Inr (Inr (Inr (g, fst kv, snd kv))), Inr (Inr (Inl (g, kvs)))) \<in> measure copy_measure" if "kv \<in> set kvs" for g kv kvs
    using hstore_size [OF that] by (cases kv) (simp add: copy_measure_def)
qed (simp_all add: copy_measure_def)

declare encodeCopyValue.simps [simp del] copy_switch.simps [simp del] encodeCopyArrayRaw.simps [simp del]
  array_item.simps [simp del] array_value.simps [simp del] encodeCopyHstoreRaw.simps [simp del] hstore_pair.simps [simp del]

section \<open>The rows of a table\<close>

definition pgCopyTextCast :: "int \<Rightarrow> string \<Rightarrow> string \<Rightarrow> bool" where
  "pgCopyTextCast typid cat elemcat =
     (if typid \<in> {OIDBytea, OIDJSON, OIDJSONB, OIDJSONArray, OIDJSONBArray, OIDUUID} then False
      else if cat \<in> {''D'', ''T''} then True
      else if cat \<in> {''B'', ''N'', ''S'', ''V'', ''E'', ''R''} then False
      else if cat = ''A'' then
        (if elemcat \<in> {''D'', ''T''} then True
         else if elemcat \<in> {''B'', ''N'', ''S'', ''V'', ''E'', ''R''} then False else True)
      else True)"

record pg_field =
  pf_name :: string
  pf_oid :: int
  pf_text :: bool
  pf_range :: bool

text \<open>
  The two queries of \<open>copyData\<close>: the columns of a table (name, generated, type, category,
  category of the elements), and the rows, each with its raw texts and its Go values.
\<close>

record pg_source =
  ps_columns :: "string \<Rightarrow> string \<Rightarrow> (string \<times> bool \<times> int \<times> string \<times> string) rows"
  ps_select :: "string \<Rightarrow> string + pg_field list \<times> (string + string option list \<times> pg_value list) list \<times> string option"
  ps_text :: go_text

definition copy_column :: "string \<times> bool \<times> int \<times> string \<times> string \<Rightarrow> string option" where
  "copy_column c = (case c of (name, isgen, typid, cat, elemcat) \<Rightarrow>
     if isgen then None
     else Some (quotePGIdent name @ (if pgCopyTextCast typid cat elemcat then ''::text'' else [])))"

definition ordered_cols :: "(string \<times> bool \<times> int \<times> string \<times> string) rows \<Rightarrow> string list" where
  "ordered_cols q =
     (case q of
        Inl _ \<Rightarrow> []
      | Inr (rs, _) \<Rightarrow> (case scan_rows rs None of Inl _ \<Rightarrow> [] | Inr cs \<Rightarrow> List.map_filter copy_column cs))"

definition pg_table :: "string \<Rightarrow> string \<Rightarrow> string" where
  "pg_table schema table = quotePGIdent schema @ ''.'' @ quotePGIdent table"

definition copy_query :: "string list \<Rightarrow> string \<Rightarrow> string \<Rightarrow> string" where
  "copy_query cols schema table =
     ''SELECT '' @ (if cols = [] then ''*'' else join '', '' cols) @ '' FROM ONLY '' @ pg_table schema table"

definition raw_ok :: "pg_field \<Rightarrow> bool" where
  "raw_ok f \<longleftrightarrow> pf_oid f \<in> {OIDJSON, OIDJSONB, OIDJSONArray, OIDJSONBArray} \<or> pf_range f"

text \<open>The text of a column before it is escaped, \<open>None\<close> for null.\<close>

definition cell_text :: "go_text \<Rightarrow> pg_field list \<Rightarrow> string option list \<Rightarrow> nat \<Rightarrow> pg_value \<Rightarrow> string option" where
  "cell_text g fs raw i val =
     (if i < length raw \<and> raw ! i = None then None
      else if i < length raw \<and> i < length fs \<and> pf_text (fs ! i) \<and> raw_ok (fs ! i) then raw ! i
      else Some (fst (encodeCopyValue g val (if i < length fs then pf_oid (fs ! i) else 0))))"

definition copy_cell :: "string option \<Rightarrow> string" where
  "copy_cell c = (case c of None \<Rightarrow> copy_null | Some s \<Rightarrow> escapePgCopy s)"

definition copy_line :: "string option list \<Rightarrow> string" where
  "copy_line cells = join [tab] (map copy_cell cells)"

definition row_cells :: "go_text \<Rightarrow> pg_field list \<Rightarrow> string option list \<times> pg_value list \<Rightarrow> string option list" where
  "row_cells g fs row = map (\<lambda>(i, val). cell_text g fs (fst row) i val) (enumerate 0 (snd row))"

definition copy_header :: "string \<Rightarrow> string \<Rightarrow> string list \<Rightarrow> string" where
  "copy_header schema table names =
     ''COPY '' @ pg_table schema table @ '' ('' @ join '', '' (map quotePGIdent names) @ '') FROM stdin;''"

definition copy_end :: string where
  "copy_end = [bslash, CHR ''.'']"

fun copy_rows ::
  "go_text \<Rightarrow> pg_field list \<Rightarrow> (string + string option list \<times> pg_value list) list \<Rightarrow> string option \<Rightarrow> written" where
  "copy_rows g fs [] (Some e) = ([], Some e)"
| "copy_rows g fs [] None = (copy_end @ [nl, nl], None)"
| "copy_rows g fs (Inl e # rs) err = ([], Some e)"
| "copy_rows g fs (Inr row # rs) err =
     then_write (copy_line (row_cells g fs row) @ [nl], None) (\<lambda>_. copy_rows g fs rs err)"

definition copyData :: "pg_source \<Rightarrow> string \<Rightarrow> string \<Rightarrow> written" where
  "copyData r schema table =
     (case ps_select r (copy_query (ordered_cols (ps_columns r schema table)) schema table) of
        Inl e \<Rightarrow> ([], Some e)
      | Inr (fs, rs, err) \<Rightarrow>
          then_write (copy_header schema table (map pf_name fs) @ [nl], None)
            (\<lambda>_. copy_rows (ps_text r) fs rs err))"

section \<open>Lines of a COPY block\<close>

definition esc_copy :: "char \<Rightarrow> string" where
  "esc_copy c =
     (if c = bslash then [bslash, bslash] else if c = tab then [bslash, CHR ''t'']
      else if c = nl then [bslash, CHR ''n''] else if c = cr then [bslash, CHR ''r''] else [c])"

lemma escapePgCopy_each: "escapePgCopy s = each_char esc_copy s"
  unfolding escapePgCopy_def Let_def replace_char_each [of bslash] replace_char_after
  by (rule each_char_cong) (simp add: esc_copy_def char_names)

interpretation pg: line_escape esc_copy
  by unfold_locales (auto simp: esc_copy_def char_names prefix_def split: if_splits)

lemma escapePgCopy_inj: "escapePgCopy s = escapePgCopy t \<longleftrightarrow> s = t"
  unfolding escapePgCopy_each by (rule pg.escape_inj)

lemma escapePgCopy_chars: "c \<in> {tab, nl, cr} \<Longrightarrow> c \<notin> set (escapePgCopy s)"
  by (auto simp: escapePgCopy_each set_each_char esc_copy_def char_names split: if_splits)

text \<open>No text is escaped to the mark of null or of the end of the block.\<close>

lemma escapePgCopy_marks: "escapePgCopy s \<noteq> copy_null" "escapePgCopy s \<noteq> copy_end"
proof -
  have "escapePgCopy s \<noteq> [bslash, x]" if "x \<notin> {bslash, CHR ''t'', CHR ''n'', CHR ''r''}" for x
    using that by (cases s; cases "tl s") (auto simp: escapePgCopy_each esc_copy_def char_names split: if_splits)
  then show "escapePgCopy s \<noteq> copy_null" "escapePgCopy s \<noteq> copy_end"
    by (simp_all add: copy_null_def copy_end_def char_names)
qed

lemma copy_cell_inj: "copy_cell a = copy_cell b \<longleftrightarrow> a = b"
  using escapePgCopy_marks(1) escapePgCopy_inj by (cases a; cases b) (auto simp: copy_cell_def dest: sym)

lemma copy_cell_chars: "c \<in> {tab, nl, cr} \<Longrightarrow> c \<notin> set (copy_cell a)"
  using escapePgCopy_chars by (cases a) (auto simp: copy_cell_def copy_null_def char_names)

lemma copy_line_chars: "c \<in> {nl, cr} \<Longrightarrow> c \<notin> set (copy_line cells)"
  using set_join [of "[tab]" "map copy_cell cells"] copy_cell_chars [of c] unfolding copy_line_def
  by (auto simp: char_names)

lemma copy_line_cells: "cells \<noteq> [] \<Longrightarrow> split_char tab (copy_line cells) = map copy_cell cells"
  unfolding copy_line_def by (rule split_char_join) (auto simp: copy_cell_chars)

lemma copy_line_not_end: "copy_line cells \<noteq> copy_end"
proof
  assume e: "copy_line cells = copy_end"
  then have "cells \<noteq> []" by (auto simp: copy_line_def copy_end_def)
  then have "map copy_cell cells = [copy_end]" using copy_line_cells [of cells] e
    by (simp add: copy_end_def char_names)
  then show False using escapePgCopy_marks(2) by (auto simp: copy_cell_def copy_null_def copy_end_def split: option.splits)
qed

text \<open>Two rows of the same line are the same row, nulls included.\<close>

lemma copy_line_inj:
  assumes "cells \<noteq> []" and "cells' \<noteq> []" and "copy_line cells = copy_line cells'"
  shows "cells = cells'"
proof -
  have "map copy_cell cells = map copy_cell cells'" using copy_line_cells assms by metis
  moreover have "inj copy_cell" by (rule injI) (simp add: copy_cell_inj)
  ultimately show ?thesis by (simp add: inj_map_eq_map)
qed

lemma copy_rows_ok:
  "copy_rows g fs (map Inr rs) None = (unlines (map (copy_line \<circ> row_cells g fs) rs @ [copy_end, []]), None)"
  by (induction rs) (simp_all add: then_write_def)

lemma copyData_ok:
  assumes "ps_select r (copy_query (ordered_cols (ps_columns r schema table)) schema table) = Inr (fs, map Inr rs, None)"
  shows "copyData r schema table =
    (unlines ([copy_header schema table (map pf_name fs)] @ map (copy_line \<circ> row_cells (ps_text r) fs) rs @ [copy_end, []]), None)"
  using assms by (simp add: copyData_def copy_rows_ok then_write_def)

section \<open>Numbers keep their value\<close>

text \<open>The digits of a decimal text as a number, and how many of them are behind the point.\<close>

definition unsigned_value :: "string \<Rightarrow> int \<times> nat" where
  "unsigned_value s = (digits_val (filter (\<lambda>c. c \<noteq> CHR ''.'') s), length (tl (dropWhile (\<lambda>c. c \<noteq> CHR ''.'') s)))"

definition decimal_value :: "string \<Rightarrow> int \<times> nat" where
  "decimal_value s =
     (if has_prefix s ''-'' then (case unsigned_value (tl s) of (n, k) \<Rightarrow> (- n, k)) else unsigned_value s)"

lemma digits_val_append: "digits_val (s @ t) = digits_val s * 10 ^ length t + digits_val t"
proof (induction t rule: rev_induct)
  case (snoc c t)
  have "digits_val (s @ t @ [c]) = 10 * digits_val (s @ t) + digit_val c" using digits_val_append1 [of "s @ t" c] by simp
  with snoc show ?case by (simp add: digits_val_append1 algebra_simps)
qed (simp add: digits_val_def)

lemma digits_val_replicate: "digits_val (replicate k (CHR ''0'')) = 0"
  by (induction k) (auto simp: digits_val_append [of "[_]", simplified] digits_val_def digit_val_def)

lemma unsigned_plain: "list_all is_digit s \<Longrightarrow> unsigned_value s = (digits_val s, 0)"
proof -
  assume d: "list_all is_digit s"
  then have n: "\<forall>c \<in> set s. c \<noteq> CHR ''.''" by (auto simp: list_all_iff is_digit_def)
  have f: "filter (\<lambda>c. c \<noteq> CHR ''.'') s = s" using n by (simp only: filter_id_conv)
  have "dropWhile (\<lambda>c. c \<noteq> CHR ''.'') s = []" using n by (simp only: dropWhile_eq_Nil_conv)
  then show ?thesis by (simp only: unsigned_value_def f) simp
qed

lemma unsigned_point:
  assumes "list_all is_digit a" and "list_all is_digit b"
  shows "unsigned_value (a @ ''.'' @ b) = (digits_val (a @ b), length b)"
proof -
  have n: "\<forall>c \<in> set (a @ b). c \<noteq> CHR ''.''" using assms by (auto simp: list_all_iff is_digit_def)
  then have "filter (\<lambda>c. c \<noteq> CHR ''.'') (a @ b) = a @ b" by (simp only: filter_id_conv)
  moreover have "dropWhile (\<lambda>c. c \<noteq> CHR ''.'') (a @ CHR ''.'' # b) = CHR ''.'' # b" using n by (simp add: dropWhile_append2)
  ultimately show ?thesis by (simp add: unsigned_value_def)
qed

definition place_point :: "string \<Rightarrow> int \<Rightarrow> string" where
  "place_point dig ex =
     (if ex \<ge> 0 then dig @ replicate (nat ex) (CHR ''0'')
      else if nat (- ex) \<ge> length dig then ''0.'' @ replicate (nat (- ex) - length dig) (CHR ''0'') @ dig
      else take (length dig - nat (- ex)) dig @ ''.'' @ drop (length dig - nat (- ex)) dig)"

lemma place_point_value:
  assumes "list_all is_digit dig"
  shows "unsigned_value (place_point dig ex) = (if ex \<ge> 0 then (digits_val dig * 10 ^ nat ex, 0) else (digits_val dig, nat (- ex)))"
proof -
  have z: "list_all is_digit (replicate k (CHR ''0''))" for k by (induction k) (simp_all add: is_digit_def)
  consider "ex \<ge> 0" | "ex < 0" "nat (- ex) \<ge> length dig" | "ex < 0" "nat (- ex) < length dig" by linarith
  then show ?thesis
  proof cases
    case 1
    then show ?thesis using unsigned_plain [of "dig @ replicate (nat ex) (CHR ''0'')"] assms z
      by (simp add: place_point_def digits_val_append digits_val_replicate)
  next
    case 2
    let ?b = "replicate (nat (- ex) - length dig) (CHR ''0'') @ dig"
    have "list_all is_digit ''0''" "list_all is_digit ?b" using assms z by (simp_all add: is_digit_def)
    moreover have "digits_val (''0'' @ ?b) = digits_val dig"
      using digits_val_append [of "''0'' @ replicate (nat (- ex) - length dig) (CHR ''0'')" dig]
        digits_val_replicate [of "Suc (nat (- ex) - length dig)"] by simp
    ultimately show ?thesis using 2 unsigned_point [of "''0''" ?b] by (simp add: place_point_def)
  next
    case 3
    let ?k = "length dig - nat (- ex)"
    have "list_all is_digit (take ?k dig)" "list_all is_digit (drop ?k dig)"
      using assms by (auto simp: list_all_iff dest: in_set_takeD in_set_dropD)
    then show ?thesis using 3 unsigned_point [of "take ?k dig" "drop ?k dig"] by (simp add: place_point_def)
  qed
qed

lemma place_point_start: "list_all is_digit dig \<Longrightarrow> dig \<noteq> [] \<Longrightarrow> \<not> has_prefix (place_point dig ex) ''-''"
  by (cases dig; cases "length dig - nat (- ex)") (auto simp: place_point_def is_digit_def)

text \<open>
  (C24) The text of a numeric is exact: read as digits and a decimal point it is the integer
  of the value, scaled by the exponent of the value, with no digit added or lost.
\<close>

theorem formatCopyNumeric_exact:
  "decimal_value (formatCopyNumeric False 0 (Some n) ex) = (if ex \<ge> 0 then (n * 10 ^ nat ex, 0) else (n, nat (- ex)))"
proof (cases "n < 0")
  case True
  have d: "list_all is_digit (pos_itoa (- n))" using True by (intro pos_itoa_digits) simp
  have "formatCopyNumeric False 0 (Some n) ex = CHR ''-'' # place_point (pos_itoa (- n)) ex"
    using True by (simp add: formatCopyNumeric_def itoa_def place_point_def Let_def)
  then show ?thesis using place_point_value [OF d, of ex] True digits_val_pos_itoa [of "- n"]
    by (simp add: decimal_value_def)
next
  case False
  have d: "list_all is_digit (pos_itoa n)" using False by (intro pos_itoa_digits) simp
  then have p: "\<not> has_prefix (pos_itoa n) ''-''" by (cases "pos_itoa n") (auto simp: is_digit_def)
  have "formatCopyNumeric False 0 (Some n) ex = place_point (pos_itoa n) ex"
    using False p by (simp add: formatCopyNumeric_def itoa_def place_point_def Let_def)
  then show ?thesis using place_point_value [OF d, of ex] False digits_val_pos_itoa [of n] place_point_start [OF d, of ex]
    by (simp add: decimal_value_def)
qed

end
