(* ===== verification/PgRestore.thy ===== *)
theory PgRestore
  imports PgCopy
begin

text \<open>
  The restore of the PostgreSQL engine (\<open>internal/database/engine/postgres/ops.go\<close>): dollar
  quotes, the statements of a dump, and the \<open>COPY\<close> blocks sent to the server. The server is a
  pair of functions on its state, one for statements and one for \<open>COPY\<close>.

  The main lemma shows that a dump made of statements and \<open>COPY\<close> blocks is executed as these
  statements and blocks, in order.
\<close>

section \<open>Dollar quotes\<close>

fun dollarTagOpen :: "string \<Rightarrow> string" where
  "dollarTagOpen [] = []"
| "dollarTagOpen (c # s) =
     (if c \<noteq> CHR ''$'' then dollarTagOpen s
      else let w = takeWhile word_char s; r = dropWhile word_char s
           in if w \<noteq> [] \<and> r \<noteq> [] \<and> hd r = CHR ''$'' then CHR ''$'' # w @ ''$'' else dollarTagOpen s)"

lemma str_index_bound: "str_index s p = Some i \<Longrightarrow> i + length p \<le> length s"
  by (induction s p arbitrary: i rule: str_index.induct) (auto split: if_splits dest: prefix_length_le)

lemma str_index_split: "str_index s p = Some i \<Longrightarrow> s = take i s @ p @ drop (i + length p) s"
  by (induction s p arbitrary: i rule: str_index.induct) (auto split: if_splits simp: prefix_def)

text \<open>The text behind the first occurrence of \<open>p\<close>.\<close>

definition behind :: "string \<Rightarrow> string \<Rightarrow> string option" where
  "behind s p = map_option (\<lambda>i. drop (i + length p) s) (str_index s p)"

lemma behind_shorter: "behind s p = Some t \<Longrightarrow> p \<noteq> [] \<Longrightarrow> length t < length s"
  by (cases p) (auto simp: behind_def dest!: str_index_bound)

function updateDollarTag :: "string \<Rightarrow> string \<Rightarrow> string" where
  "updateDollarTag rest tag =
     (if tag = [] then
        (let op = dollarTagOpen rest
         in if op = [] then []
            else case behind rest op of
                   None \<Rightarrow> op
                 | Some tl1 \<Rightarrow> (case behind tl1 op of Some tl2 \<Rightarrow> updateDollarTag tl2 [] | None \<Rightarrow> op))
      else case behind rest tag of Some t \<Rightarrow> updateDollarTag t [] | None \<Rightarrow> tag)"
  by pat_completeness auto
termination
  by (relation "measure (length \<circ> fst)") (auto dest!: behind_shorter)

declare updateDollarTag.simps [simp del]

section \<open>Statements\<close>

definition ends_stmt :: "string \<Rightarrow> bool" where
  "ends_stmt l \<longleftrightarrow> has_suffix (trim_space l) '';''"

definition trimmed_stmt :: "string \<Rightarrow> string list" where
  "trimmed_stmt s = (if trim_space s = [] then [] else [trim_space s])"

fun split_loop :: "string list \<Rightarrow> string \<Rightarrow> string \<Rightarrow> string list" where
  "split_loop [] tag cur = trimmed_stmt cur"
| "split_loop (l # ls) tag cur =
     (let tag' = updateDollarTag l tag
      in if tag' = [] \<and> ends_stmt l then trimmed_stmt (cur @ l @ [nl]) @ split_loop ls tag' []
         else split_loop ls tag' (cur @ l @ [nl]))"

definition splitStatements :: "string \<Rightarrow> string list" where
  "splitStatements src = split_loop (split_char nl src) [] []"

definition is_comment :: "string \<Rightarrow> bool" where
  "is_comment l \<longleftrightarrow> has_prefix (trim_space l) ''--''"

definition strip_comments :: "string \<Rightarrow> string" where
  "strip_comments s = unlines (filter (\<lambda>l. \<not> is_comment l) (split_char nl s))"

record 's pg_server =
  pg_exec :: "string \<Rightarrow> 's \<Rightarrow> 's \<times> string option"
  pg_copyFrom :: "string \<Rightarrow> string \<Rightarrow> 's \<Rightarrow> 's \<times> string option"

fun exec_each :: "'s pg_server \<Rightarrow> string list \<Rightarrow> 's \<Rightarrow> 's \<times> string option" where
  "exec_each srv [] st = (st, None)"
| "exec_each srv (s # ss) st =
     (let clean = strip_comments s
      in if trim_space clean = [] then exec_each srv ss st
         else case pg_exec srv clean st of (st', Some e) \<Rightarrow> (st', Some e) | (st', None) \<Rightarrow> exec_each srv ss st')"

definition execStmtGroup :: "'s pg_server \<Rightarrow> string \<Rightarrow> 's \<Rightarrow> 's \<times> string option" where
  "execStmtGroup srv stmt st = (if stmt = [] then (st, None) else exec_each srv (splitStatements stmt) st)"

definition pgExecCopy :: "'s pg_server \<Rightarrow> string \<Rightarrow> string \<Rightarrow> 's \<Rightarrow> 's \<times> string option" where
  "pgExecCopy srv header data st =
     (if header = [] then (st, None)
      else pg_copyFrom srv header (if data \<noteq> [] \<and> \<not> has_suffix data [nl] then data @ [nl] else data) st)"

section \<open>The stream\<close>

record pg_stream =
  rs_stmt :: string
  rs_inCopy :: bool
  rs_header :: string
  rs_copy :: string
  rs_tag :: string

definition is_copy_line :: "string \<Rightarrow> bool" where
  "is_copy_line l \<longleftrightarrow> has_prefix l ''COPY '' \<and> contains l '' FROM stdin;''"

definition pg_line :: "'s pg_server \<Rightarrow> string \<Rightarrow> pg_stream \<Rightarrow> 's \<Rightarrow> pg_stream \<times> 's \<times> string option" where
  "pg_line srv l p st =
     (if rs_inCopy p then
        (if l = copy_end then
           (case pgExecCopy srv (rs_header p) (rs_copy p) st of
              (st', Some e) \<Rightarrow> (p\<lparr>rs_inCopy := False\<rparr>, st', Some e)
            | (st', None) \<Rightarrow> (p\<lparr>rs_inCopy := False, rs_copy := [], rs_header := [], rs_stmt := []\<rparr>, st', None))
         else (p\<lparr>rs_copy := rs_copy p @ (if rs_copy p = [] then [] else [nl]) @ l\<rparr>, st, None))
      else if rs_tag p = [] \<and> is_copy_line l then
        (case execStmtGroup srv (rs_stmt p) st of
           (st', Some e) \<Rightarrow> (p, st', Some e)
         | (st', None) \<Rightarrow> (p\<lparr>rs_stmt := [], rs_header := trim_suffix l '';'', rs_inCopy := True\<rparr>, st', None))
      else
        (let p' = p\<lparr>rs_tag := updateDollarTag l (rs_tag p), rs_stmt := rs_stmt p @ l @ [nl]\<rparr>
         in if rs_tag p' = [] \<and> ends_stmt l then
              (case execStmtGroup srv (rs_stmt p') st of
                 (st', Some e) \<Rightarrow> (p', st', Some e) | (st', None) \<Rightarrow> (p'\<lparr>rs_stmt := []\<rparr>, st', None))
            else (p', st, None)))"

fun pg_lines :: "'s pg_server \<Rightarrow> string list \<Rightarrow> pg_stream \<Rightarrow> 's \<Rightarrow> pg_stream \<times> 's \<times> string option" where
  "pg_lines srv [] p st = (p, st, None)"
| "pg_lines srv (l # ls) p st =
     (case pg_line srv (drop_cr l) p st of
        (p', st', Some e) \<Rightarrow> (p', st', Some e) | (p', st', None) \<Rightarrow> pg_lines srv ls p' st')"

definition pg_start :: pg_stream where
  "pg_start = \<lparr>rs_stmt = [], rs_inCopy = False, rs_header = [], rs_copy = [], rs_tag = []\<rparr>"

text \<open>\<open>read_err\<close> is the error with which the reader ends, if it is not the end of the dump.\<close>

definition pgRestoreStream :: "'s pg_server \<Rightarrow> string \<Rightarrow> string option \<Rightarrow> 's \<Rightarrow> 's \<times> string option" where
  "pgRestoreStream srv dump read_err st =
     (case pg_lines srv (go_lines dump) pg_start st of
        (p, st', Some e) \<Rightarrow> (st', Some e)
      | (p, st', None) \<Rightarrow> (case read_err of Some e \<Rightarrow> (st', Some e) | None \<Rightarrow> execStmtGroup srv (rs_stmt p) st'))"

text \<open>
  \<open>Restore\<close>: the connection to a database is a parameter; \<open>exists_db\<close> is the answer of the
  maintenance database, with which a missing target is created.
\<close>

definition pg_Restore ::
  "(string \<Rightarrow> string + 's pg_server) \<Rightarrow> bool \<Rightarrow> (string \<Rightarrow> 's \<Rightarrow> string + bool) \<Rightarrow>
    string \<Rightarrow> string \<Rightarrow> string \<Rightarrow> string option \<Rightarrow> 's \<Rightarrow> 's \<times> string option" where
  "pg_Restore connect createDB exists_db dbName authSource dump read_err st0 =
     (let firstDB = (if FirstDBName dbName = [] then ''postgres'' else FirstDBName dbName);
          maintDB = (if authSource = [] then ''postgres'' else authSource);
          guard_sql = ''SET statement_timeout = 0; SET lock_timeout = 0; SET idle_in_transaction_session_timeout = 0; SET TIME ZONE '' @ [squote] @ ''UTC'' @ [squote];
          boot = (if createDB \<and> firstDB \<noteq> maintDB \<and> firstDB \<noteq> ''template1'' \<and> firstDB \<noteq> ''template0'' then
             (case connect maintDB of
                Inl e \<Rightarrow> (st0, Some e)
              | Inr srv \<Rightarrow>
                  let st1 = fst (pg_exec srv guard_sql st0)
                  in case exists_db firstDB st1 of
                       Inl e \<Rightarrow> (st1, Some e)
                     | Inr True \<Rightarrow> (st1, None)
                     | Inr False \<Rightarrow> pg_exec srv (''CREATE DATABASE '' @ quotePGIdent firstDB) st1)
             else (st0, None))
      in case boot of
           (st, Some e) \<Rightarrow> (st, Some e)
         | (st, None) \<Rightarrow>
             (case connect firstDB of
                Inl e \<Rightarrow> (st, Some e)
              | Inr srv \<Rightarrow> pgRestoreStream srv dump read_err (fst (pg_exec srv guard_sql st))))"

section \<open>Text made of lines\<close>

lemma unlines_join: "L \<noteq> [] \<Longrightarrow> unlines L = join [nl] L @ [nl]"
  by (induction "[nl]" L rule: join.induct) simp_all

lemma split_unlines: "(\<And>l. l \<in> set L \<Longrightarrow> nl \<notin> set l) \<Longrightarrow> split_char nl (unlines L) = L @ [[]]"
  by (induction L) simp_all

lemma nl_space [simp]: "is_space nl"
  by (simp add: is_space_def nl_def)

lemma trim_space_nl_front: "trim_space (replicate k nl @ s) = trim_space s"
  by (induction k) (simp_all add: trim_space_def)

lemma trim_space_nl_back: "trim_space (s @ replicate k nl) = trim_space s"
proof (induction k)
  case (Suc k)
  have "s @ replicate (Suc k) nl = (s @ replicate k nl) @ [nl]" by (simp add: replicate_append_same)
  with Suc show ?case by (metis trim_space_last_nl)
qed simp

lemma unlines_empty: "unlines (replicate k []) = replicate k nl"
  by (induction k) simp_all

lemma unlines_append: "unlines (a @ b) = unlines a @ unlines b"
  by (induction a) simp_all

text \<open>Lines that start and end with a character that is no space, between empty lines.\<close>

definition solid :: "string list \<Rightarrow> bool" where
  "solid L \<longleftrightarrow> L \<noteq> [] \<and> hd L \<noteq> [] \<and> \<not> is_space (hd (hd L)) \<and> last L \<noteq> [] \<and> \<not> is_space (last (last L))"

lemma join_last: "L \<noteq> [] \<Longrightarrow> last L \<noteq> [] \<Longrightarrow> last (join [nl] L) = last (last L)"
proof (induction "[nl]" L rule: join.induct)
  case (3 x y ps)
  then have "join [nl] (y # ps) \<noteq> []" by (cases ps) auto
  with 3 show ?case by simp
qed auto

lemma join_hd_last:
  assumes "solid L"
  shows "join [nl] L \<noteq> []" "hd (join [nl] L) = hd (hd L)" "last (join [nl] L) = last (last L)"
proof -
  have "L \<noteq> [] \<Longrightarrow> hd L \<noteq> [] \<Longrightarrow> join [nl] L \<noteq> [] \<and> hd (join [nl] L) = hd (hd L)" for L
    by (cases L; cases "tl L") auto
  then show "join [nl] L \<noteq> []" "hd (join [nl] L) = hd (hd L)" "last (join [nl] L) = last (last L)"
    using assms join_last [of L] by (simp_all add: solid_def)
qed

lemma trim_solid:
  assumes "solid L"
  shows "trim_space (unlines (replicate k [] @ L @ replicate m [])) = join [nl] L"
proof -
  have "unlines (replicate k [] @ L @ replicate m []) = replicate k nl @ (join [nl] L @ replicate (Suc m) nl)"
    using assms by (simp add: unlines_append unlines_empty unlines_join solid_def)
  then have "trim_space (unlines (replicate k [] @ L @ replicate m [])) = trim_space (join [nl] L)"
    by (metis trim_space_nl_front trim_space_nl_back)
  also have "\<dots> = join [nl] L"
    using join_hd_last [OF assms] assms by (intro trim_space_id) (simp_all add: solid_def)
  finally show ?thesis .
qed

lemma empty_ends:
  fixes ls :: "string list"
  shows "\<exists>k L m. ls = replicate k [] @ L @ replicate m [] \<and> (L = [] \<or> hd L \<noteq> [] \<and> last L \<noteq> []) \<and> set L \<subseteq> set ls"
proof -
  let ?e = "\<lambda>l :: string. l = []"
  let ?r = "dropWhile ?e ls"
  let ?L = "rev (dropWhile ?e (rev ?r))"
  have rep: "takeWhile ?e xs = replicate (length (takeWhile ?e xs)) []" for xs
    by (rule replicate_length_same [symmetric]) (auto dest: set_takeWhileD)
  have "?r = ?L @ rev (takeWhile ?e (rev ?r))" by (metis rev_append rev_rev_ident takeWhile_dropWhile_id)
  moreover have "rev (takeWhile ?e (rev ?r)) = replicate (length (takeWhile ?e (rev ?r))) []" by (metis rep rev_replicate)
  ultimately have s: "ls = replicate (length (takeWhile ?e ls)) [] @ ?L @ replicate (length (takeWhile ?e (rev ?r))) []"
    using takeWhile_dropWhile_id [of ?e ls] rep [of ls] by simp
  have "hd ?L \<noteq> []" "last ?L \<noteq> []" if "?L \<noteq> []"
  proof -
    show "last ?L \<noteq> []" using that hd_dropWhile [of ?e "rev ?r"] by (simp add: last_rev)
    have "?r = ?L @ rev (takeWhile ?e (rev ?r))" by (metis rev_append rev_rev_ident takeWhile_dropWhile_id)
    then have "hd ?L = hd ?r" "?r \<noteq> []" using that by (metis hd_append, force)
    then show "hd ?L \<noteq> []" using hd_dropWhile [of ?e ls] by simp
  qed
  moreover have "set ?L \<subseteq> set ls" by (auto dest!: set_dropWhileD)
  ultimately show ?thesis using s by blast
qed

section \<open>A dump as statements and blocks\<close>

text \<open>
  What the dump writes: a statement, given by its lines, or a \<open>COPY\<close> block, each behind empty
  lines and comments.
\<close>

datatype pg_item = PgStmt "string list" "string list" | PgCopy "string list" string "string list"

definition plain_line :: "string \<Rightarrow> bool" where
  "plain_line l \<longleftrightarrow> nl \<notin> set l \<and> (l = [] \<or> last l \<noteq> cr)"

definition pre_line :: "string \<Rightarrow> bool" where
  "pre_line l \<longleftrightarrow> plain_line l \<and> (l = [] \<or> has_prefix l ''--'' \<and> \<not> is_space (last l)) \<and>
     updateDollarTag l [] = [] \<and> \<not> ends_stmt l"

fun stmt_lines :: "string list \<Rightarrow> string \<Rightarrow> bool" where
  "stmt_lines [] tag = False"
| "stmt_lines [l] tag = (updateDollarTag l tag = [] \<and> ends_stmt l \<and> \<not> (tag = [] \<and> is_copy_line l))"
| "stmt_lines (l # ls) tag =
     (\<not> (updateDollarTag l tag = [] \<and> ends_stmt l) \<and> \<not> (tag = [] \<and> is_copy_line l) \<and> stmt_lines ls (updateDollarTag l tag))"

definition stmt_ok :: "string list \<Rightarrow> bool" where
  "stmt_ok ls \<longleftrightarrow> list_all (\<lambda>l. plain_line l \<and> \<not> is_comment l) ls \<and> solid ls \<and> stmt_lines ls []"

fun item_ok :: "pg_item \<Rightarrow> bool" where
  "item_ok (PgStmt pre ls) = (list_all pre_line pre \<and> stmt_ok ls)"
| "item_ok (PgCopy pre h rows) =
     (list_all pre_line pre \<and> plain_line h \<and> is_copy_line h \<and> list_all (\<lambda>r. plain_line r \<and> r \<noteq> copy_end) rows)"

fun item_lines :: "pg_item \<Rightarrow> string list" where
  "item_lines (PgStmt pre ls) = pre @ ls"
| "item_lines (PgCopy pre h rows) = pre @ [h] @ rows @ [copy_end]"

definition stmt_text :: "string list \<Rightarrow> string list \<Rightarrow> string" where
  "stmt_text pre ls = unlines (filter (\<lambda>l. \<not> is_comment l) (dropWhile (\<lambda>l. l = []) pre) @ ls)"

text \<open>The data of a block: empty lines at its start are lost, and one at its end.\<close>

definition copy_payload :: "string list \<Rightarrow> string" where
  "copy_payload rows =
     (let b = join [nl] (dropWhile (\<lambda>r. r = []) rows) in if b \<noteq> [] \<and> \<not> has_suffix b [nl] then b @ [nl] else b)"

fun run_item :: "'s pg_server \<Rightarrow> pg_item \<Rightarrow> 's \<Rightarrow> 's \<times> string option" where
  "run_item srv (PgStmt pre ls) st = pg_exec srv (stmt_text pre ls) st"
| "run_item srv (PgCopy pre h rows) st = pg_copyFrom srv (trim_suffix h '';'') (copy_payload rows) st"

fun run_items :: "'s pg_server \<Rightarrow> pg_item list \<Rightarrow> 's \<Rightarrow> 's \<times> string option" where
  "run_items srv [] st = (st, None)"
| "run_items srv (i # is) st =
     (case run_item srv i st of (st', Some e) \<Rightarrow> (st', Some e) | (st', None) \<Rightarrow> run_items srv is st')"

subsection \<open>One group of lines\<close>

lemma tag_empty_line [simp]: "updateDollarTag [] tag = tag"
  by (subst updateDollarTag.simps) (simp add: behind_def)

lemma empty_line_end [simp]: "\<not> ends_stmt []"
  by (simp add: ends_stmt_def trim_space_def suffix_def)

lemma split_loop_pre:
  "list_all pre_line pre \<Longrightarrow> split_loop (pre @ ls) [] cur = split_loop ls [] (cur @ unlines pre)"
  by (induction pre arbitrary: cur) (auto simp: pre_line_def Let_def)

lemma split_loop_stmt:
  "stmt_lines ls tag \<Longrightarrow> split_loop (ls @ rest) tag cur = trimmed_stmt (cur @ unlines ls) @ split_loop rest [] []"
  by (induction ls tag arbitrary: cur rule: stmt_lines.induct) (auto simp: Let_def)

lemma comment_prefix: "has_prefix l ''--'' \<Longrightarrow> is_comment l"
proof -
  assume "has_prefix l ''--''"
  then obtain t where l: "l = ''--'' @ t" by (auto simp: prefix_def)
  obtain a b where p: "l = a @ trim_space l @ b" "list_all is_space a" "list_all is_space b" using trim_space_parts by blast
  have s: "\<not> is_space (CHR ''-'')" by (simp add: is_space_def)
  then have a: "a = []" using p l by (cases a) auto
  have "trim_space l \<noteq> []" using p l a s by (cases b) auto
  moreover have "trim_space l \<noteq> [x]" for x
  proof
    assume "trim_space l = [x]"
    then have "l = x # b" using p a by simp
    then have "b = CHR ''-'' # t" using l by auto
    then show False using p(3) s by simp
  qed
  ultimately show ?thesis using p(1) l a unfolding is_comment_def
    by (cases "trim_space l"; cases "tl (trim_space l)") auto
qed

lemma strip_join: "(\<And>l. l \<in> set L \<Longrightarrow> nl \<notin> set l) \<Longrightarrow> L \<noteq> [] \<Longrightarrow> strip_comments (join [nl] L) = unlines (filter (\<lambda>l. \<not> is_comment l) L)"
  unfolding strip_comments_def by (subst split_char_join) auto

lemma group_stmt:
  assumes "list_all pre_line pre" and "stmt_ok ls"
  shows "execStmtGroup srv (unlines (pre @ ls)) st = pg_exec srv (stmt_text pre ls) st"
proof -
  let ?pre = "dropWhile (\<lambda>l. l = []) pre"
  let ?k = "length (takeWhile (\<lambda>l. l = []) pre)"
  have ls: "ls \<noteq> []" "solid ls" "stmt_lines ls []" "\<forall>l \<in> set ls. plain_line l \<and> \<not> is_comment l"
    using assms(2) by (auto simp: stmt_ok_def solid_def list_all_iff)
  have pl: "nl \<notin> set l" if "l \<in> set (pre @ ls)" for l
    using that assms(1) ls(4) by (auto simp: list_all_iff pre_line_def plain_line_def)
  have "takeWhile (\<lambda>l. l = []) pre = replicate ?k []" by (rule replicate_length_same [symmetric]) (auto dest: set_takeWhileD)
  then have pre: "pre = replicate ?k [] @ ?pre" by (metis takeWhile_dropWhile_id)
  have "solid (?pre @ ls)"
  proof (cases "?pre = []")
    case False
    then have h: "hd ?pre \<noteq> []" "hd ?pre \<in> set pre" using hd_dropWhile [of "\<lambda>l. l = []" pre] hd_in_set [OF False] set_dropWhileD by fastforce+
    then have "has_prefix (hd ?pre) ''--''" using assms(1) by (auto simp: list_all_iff pre_line_def)
    then have "\<not> is_space (hd (hd ?pre))" by (auto simp: prefix_def is_space_def)
    then show ?thesis using ls(2) h False by (simp add: solid_def)
  next
    case True
    show ?thesis unfolding True using ls(2) by simp
  qed
  from trim_solid [OF this, of ?k 0] have t: "trim_space (unlines (pre @ ls)) = join [nl] (?pre @ ls)"
    using pre by (metis append_Nil2 append_assoc replicate_0)
  have ne: "unlines (pre @ ls) \<noteq> []" using ls(1) by (cases ls) (simp_all add: unlines_append)
  have su: "split_char nl (unlines (pre @ ls)) = (pre @ ls) @ [[]]" by (rule split_unlines) (rule pl)
  have "splitStatements (unlines (pre @ ls)) = trimmed_stmt (unlines (pre @ ls)) @ split_loop [[]] [] []"
    unfolding splitStatements_def su
    using split_loop_pre [OF assms(1), of "ls @ [[]]" "[]"] split_loop_stmt [OF ls(3), of "[[]]" "unlines pre"]
    by (simp add: unlines_append)
  also have "split_loop [[]] [] [] = []" by (simp add: trimmed_stmt_def trim_space_def)
  finally have sp: "splitStatements (unlines (pre @ ls)) = [join [nl] (?pre @ ls)]"
    using t join_hd_last(1) [OF \<open>solid (?pre @ ls)\<close>] by (simp add: trimmed_stmt_def)
  have "strip_comments (join [nl] (?pre @ ls)) = unlines (filter (\<lambda>l. \<not> is_comment l) (?pre @ ls))"
    using ls(1) pl by (intro strip_join) (auto dest: set_dropWhileD)
  also have "filter (\<lambda>l. \<not> is_comment l) (?pre @ ls) = filter (\<lambda>l. \<not> is_comment l) ?pre @ ls"
    using ls(4) by (simp add: filter_id_conv)
  finally have st: "strip_comments (join [nl] (?pre @ ls)) = stmt_text pre ls" by (simp add: stmt_text_def)
  have "trim_space (stmt_text pre ls) \<noteq> []"
  proof
    assume e: "trim_space (stmt_text pre ls) = []"
    then have "list_all is_space (stmt_text pre ls)" using trim_space_parts [of "stmt_text pre ls"] by auto
    then have "list_all is_space (last ls)" using ls(1)
      by (cases ls rule: rev_cases) (auto simp: stmt_text_def unlines_append)
    then show False using ls(2) by (auto simp: solid_def list_all_iff)
  qed
  then show ?thesis using ne sp st by (auto simp: execStmtGroup_def Let_def split: prod.splits option.splits)
qed

text \<open>Empty lines and comments alone execute nothing.\<close>

lemma group_comments:
  assumes "list_all pre_line pre"
  shows "execStmtGroup srv (unlines pre) st = (st, None)"
proof -
  obtain k L m where pre: "pre = replicate k [] @ L @ replicate m []" and L: "L = [] \<or> hd L \<noteq> [] \<and> last L \<noteq> []" "set L \<subseteq> set pre"
    using empty_ends [of pre] by blast
  have pl: "nl \<notin> set l" if "l \<in> set pre" for l using that assms by (auto simp: list_all_iff pre_line_def plain_line_def)
  have su: "split_char nl (unlines pre) = pre @ [[]]" by (rule split_unlines) (rule pl)
  have sp: "splitStatements (unlines pre) = trimmed_stmt (unlines pre @ [nl])"
    unfolding splitStatements_def su using split_loop_pre [OF assms, of "[[]]" "[]"] by simp
  show ?thesis
  proof (cases "L = []")
    case True
    have "unlines pre @ [nl] = replicate k nl @ ([] @ replicate (Suc m) nl)"
      unfolding pre True by (simp add: unlines_append unlines_empty replicate_append_same)
    then have "trim_space (unlines pre @ [nl]) = trim_space []" by (simp only: trim_space_nl_front trim_space_nl_back)
    also have "trim_space [] = []" by (simp add: trim_space_def)
    finally have "splitStatements (unlines pre) = []" unfolding sp trimmed_stmt_def by simp
    then show ?thesis by (simp add: execStmtGroup_def)
  next
    case False
    have c: "l = [] \<or> has_prefix l ''--'' \<and> \<not> is_space (last l)" if "l \<in> set L" for l
      using that L(2) assms by (auto simp: list_all_iff pre_line_def)
    have "solid L" using False L(1) c [of "hd L"] c [of "last L"] by (auto simp: solid_def prefix_def is_space_def)
    from trim_solid [OF this, of k m] have t: "trim_space (unlines pre @ [nl]) = join [nl] L"
      unfolding pre by (simp only: trim_space_last_nl)
    have "strip_comments (join [nl] L) = unlines (filter (\<lambda>l. \<not> is_comment l) L)"
      using False pl L(2) by (intro strip_join) auto
    also have "filter (\<lambda>l. \<not> is_comment l) L = replicate (length (filter (\<lambda>l. \<not> is_comment l) L)) []"
      using c comment_prefix by (intro replicate_length_same [symmetric]) auto
    finally have "strip_comments (join [nl] L) = replicate (length (filter (\<lambda>l. \<not> is_comment l) L)) nl @ []"
      by (metis append_Nil2 unlines_empty)
    then have "trim_space (strip_comments (join [nl] L)) = trim_space []" by (simp only: trim_space_nl_front)
    also have "trim_space [] = []" by (simp add: trim_space_def)
    finally have "trim_space (strip_comments (join [nl] L)) = []" .
    moreover have "splitStatements (unlines pre) = (if join [nl] L = [] then [] else [join [nl] L])"
      unfolding sp trimmed_stmt_def t ..
    ultimately show ?thesis by (simp add: execStmtGroup_def)
  qed
qed

subsection \<open>The stream\<close>

text \<open>Between two items the stream is in its first state.\<close>

abbreviation pg_between :: "string \<Rightarrow> string \<Rightarrow> pg_stream" where
  "pg_between b tag \<equiv> \<lparr>rs_stmt = b, rs_inCopy = False, rs_header = [], rs_copy = [], rs_tag = tag\<rparr>"

lemma plain_drop_cr: "plain_line l \<Longrightarrow> drop_cr l = l"
  by (auto simp: plain_line_def drop_cr_id)

lemma stream_pre:
  assumes "list_all pre_line pre"
  shows "pg_lines srv (pre @ ls) (pg_between b []) st = pg_lines srv ls (pg_between (b @ unlines pre) []) st"
  using assms
proof (induction pre arbitrary: b)
  case (Cons l pre)
  then have l: "plain_line l" "l = [] \<or> has_prefix l ''--''" "updateDollarTag l [] = []" "\<not> ends_stmt l"
    by (auto simp: pre_line_def)
  then have "\<not> is_copy_line l" by (auto simp: is_copy_line_def prefix_def)
  with l have "pg_line srv (drop_cr l) (pg_between b []) st = (pg_between (b @ l @ [nl]) [], st, None)"
    by (simp add: plain_drop_cr pg_line_def)
  with Cons show ?case by simp
qed simp

lemma stream_stmt:
  assumes "stmt_lines ls tag" and "list_all plain_line ls"
  shows "pg_lines srv (ls @ rest) (pg_between b tag) st =
    (case execStmtGroup srv (b @ unlines ls) st of
       (st', Some e) \<Rightarrow> (pg_between (b @ unlines ls) [], st', Some e)
     | (st', None) \<Rightarrow> pg_lines srv rest (pg_between [] []) st')"
  using assms
proof (induction ls tag arbitrary: b rule: stmt_lines.induct)
  case (2 l tag)
  then have n: "(tag = [] \<and> is_copy_line l) = False" "updateDollarTag l tag = []" "ends_stmt l" "plain_line l" by auto
  obtain st' e where "execStmtGroup srv (b @ l @ [nl]) st = (st', e)" by (cases "execStmtGroup srv (b @ l @ [nl]) st")
  then show ?case using n(2-4) by (cases e) (simp_all add: plain_drop_cr pg_line_def n(1))
next
  case (3 l l' ls tag)
  have n: "(tag = [] \<and> is_copy_line l) = False" "(updateDollarTag l tag = [] \<and> ends_stmt l) = False" "plain_line l"
    using "3.prems" by auto
  have "pg_line srv (drop_cr l) (pg_between b tag) st = (pg_between (b @ l @ [nl]) (updateDollarTag l tag), st, None)"
    by (simp add: plain_drop_cr [OF n(3)] pg_line_def n(1,2))
  moreover have u: "(b @ l @ [nl]) @ unlines (l' # ls) = b @ unlines (l # l' # ls)" by simp
  have "pg_lines srv ((l' # ls) @ rest) (pg_between (b @ l @ [nl]) (updateDollarTag l tag)) st =
    (case execStmtGroup srv ((b @ l @ [nl]) @ unlines (l' # ls)) st of
       (st', Some e) \<Rightarrow> (pg_between ((b @ l @ [nl]) @ unlines (l' # ls)) [], st', Some e)
     | (st', None) \<Rightarrow> pg_lines srv rest (pg_between [] []) st')"
    using 3 by (intro "3.IH") simp_all
  ultimately show ?case unfolding u by (simp only: append_Cons pg_lines.simps prod.case option.case)
qed simp

lemma stream_rows:
  assumes "list_all (\<lambda>r. plain_line r \<and> r \<noteq> copy_end) rows"
  shows "pg_lines srv (rows @ rest) \<lparr>rs_stmt = [], rs_inCopy = True, rs_header = h, rs_copy = b, rs_tag = []\<rparr> st =
    pg_lines srv rest \<lparr>rs_stmt = [], rs_inCopy = True, rs_header = h,
      rs_copy = (if b = [] then join [nl] (dropWhile (\<lambda>r. r = []) rows) else join [nl] (b # rows)), rs_tag = []\<rparr> st"
  using assms
proof (induction rows arbitrary: b)
  case (Cons r rows)
  have "pg_line srv (drop_cr r) \<lparr>rs_stmt = [], rs_inCopy = True, rs_header = h, rs_copy = b, rs_tag = []\<rparr> st =
      (\<lparr>rs_stmt = [], rs_inCopy = True, rs_header = h, rs_copy = b @ (if b = [] then [] else [nl]) @ r, rs_tag = []\<rparr>, st, None)"
    using Cons.prems by (simp add: plain_drop_cr pg_line_def)
  moreover have "join [nl] ((b @ nl # r) # rows) = b @ nl # join [nl] (r # rows)" by (cases rows) simp_all
  ultimately show ?case using Cons by (cases "b = []"; cases "r = []") simp_all
qed simp

lemma stream_copy:
  assumes "list_all pre_line pre" and "plain_line h" and "is_copy_line h" and "list_all (\<lambda>r. plain_line r \<and> r \<noteq> copy_end) rows"
  shows "\<exists>p. pg_lines srv (item_lines (PgCopy pre h rows) @ rest) (pg_between [] []) st =
    (case run_item srv (PgCopy pre h rows) st of
       (st', Some e) \<Rightarrow> (p, st', Some e) | (st', None) \<Rightarrow> pg_lines srv rest (pg_between [] []) st')"
proof -
  let ?h = "trim_suffix h '';''" and ?b = "join [nl] (dropWhile (\<lambda>r. r = []) rows)"
  have hne: "?h \<noteq> []"
  proof -
    obtain t where "h = ''COPY '' @ t" using assms(3) by (auto simp: is_copy_line_def prefix_def)
    then show ?thesis by (auto simp: trim_suffix_def suffix_def)
  qed
  have "pg_line srv (drop_cr h) (pg_between (unlines pre) []) st =
      (\<lparr>rs_stmt = [], rs_inCopy = True, rs_header = ?h, rs_copy = [], rs_tag = []\<rparr>, st, None)"
    using assms(2,3) by (simp add: plain_drop_cr pg_line_def group_comments [OF assms(1)])
  then have 1: "pg_lines srv (item_lines (PgCopy pre h rows) @ rest) (pg_between [] []) st =
      pg_lines srv (copy_end # rest) \<lparr>rs_stmt = [], rs_inCopy = True, rs_header = ?h, rs_copy = ?b, rs_tag = []\<rparr> st"
    using stream_pre [OF assms(1), of srv "h # rows @ copy_end # rest" "[]" st] stream_rows [OF assms(4), of srv "copy_end # rest" ?h "[]" st]
    by simp
  have "drop_cr copy_end = copy_end" by (rule drop_cr_id) (simp add: copy_end_def char_names)
  moreover have "pgExecCopy srv ?h ?b st = pg_copyFrom srv ?h (copy_payload rows) st"
    using hne by (simp add: pgExecCopy_def copy_payload_def)
  ultimately have "pg_lines srv (copy_end # rest) \<lparr>rs_stmt = [], rs_inCopy = True, rs_header = ?h, rs_copy = ?b, rs_tag = []\<rparr> st =
    (case pg_copyFrom srv ?h (copy_payload rows) st of
       (st', Some e) \<Rightarrow> (\<lparr>rs_stmt = [], rs_inCopy = False, rs_header = ?h, rs_copy = ?b, rs_tag = []\<rparr>, st', Some e)
     | (st', None) \<Rightarrow> pg_lines srv rest (pg_between [] []) st')"
    by (simp add: pg_line_def split: prod.splits option.splits)
  with 1 show ?thesis by auto
qed

lemma stream_items:
  assumes "list_all item_ok items"
  shows "\<exists>p. pg_lines srv (concat (map item_lines items) @ rest) (pg_between [] []) st =
    (case run_items srv items st of
       (st', Some e) \<Rightarrow> (p, st', Some e) | (st', None) \<Rightarrow> pg_lines srv rest (pg_between [] []) st')"
  using assms
proof (induction items arbitrary: st)
  case (Cons i items)
  let ?rest = "concat (map item_lines items) @ rest"
  have "\<exists>p. pg_lines srv (item_lines i @ ?rest) (pg_between [] []) st =
    (case run_item srv i st of (st', Some e) \<Rightarrow> (p, st', Some e) | (st', None) \<Rightarrow> pg_lines srv ?rest (pg_between [] []) st')"
  proof (cases i)
    case (PgStmt pre ls)
    then have ok: "list_all pre_line pre" "stmt_ok ls" "stmt_lines ls []" "list_all plain_line ls"
      using Cons.prems by (auto simp: stmt_ok_def list_all_iff)
    show ?thesis using group_stmt [OF ok(1,2), of srv st] stream_pre [OF ok(1), of srv "ls @ ?rest" "[]" st]
        stream_stmt [OF ok(3,4), of srv ?rest "unlines pre" st] PgStmt by (auto simp: unlines_append)
  next
    case (PgCopy pre h rows)
    then show ?thesis using Cons.prems stream_copy [of pre h rows srv ?rest st] by simp
  qed
  then obtain p where p: "pg_lines srv (item_lines i @ ?rest) (pg_between [] []) st =
    (case run_item srv i st of (st', Some e) \<Rightarrow> (p, st', Some e) | (st', None) \<Rightarrow> pg_lines srv ?rest (pg_between [] []) st')" ..
  obtain st1 e1 where r: "run_item srv i st = (st1, e1)" by (cases "run_item srv i st")
  show ?case
  proof (cases e1)
    case None
    then show ?thesis using Cons.IH [of st1] Cons.prems p r by simp
  qed (use p r in auto)
qed simp

section \<open>The dump is restored\<close>

lemma item_line_nl: "item_ok i \<Longrightarrow> l \<in> set (item_lines i) \<Longrightarrow> nl \<notin> set l"
proof (induction i)
  case (PgStmt pre ls)
  then show ?case by (auto simp: list_all_iff pre_line_def plain_line_def stmt_ok_def)
next
  case (PgCopy pre h rows)
  have "nl \<notin> set copy_end" by (simp add: copy_end_def char_names)
  with PgCopy show ?case by (auto simp: list_all_iff pre_line_def plain_line_def)
qed

lemma pg_items_restored:
  assumes "list_all item_ok items" and "list_all pre_line tail"
  shows "pgRestoreStream srv (unlines (concat (map item_lines items) @ tail)) None st = run_items srv items st"
proof -
  have "nl \<notin> set l" if "i \<in> set items" "l \<in> set (item_lines i)" for i l
    using that assms(1) item_line_nl by (auto simp: list_all_iff)
  then have "go_lines (unlines (concat (map item_lines items) @ tail)) = concat (map item_lines items) @ tail"
    using assms(2) by (intro go_lines_unlines) (auto simp: list_all_iff pre_line_def plain_line_def)
  moreover obtain p where "pg_lines srv (concat (map item_lines items) @ tail) (pg_between [] []) st =
    (case run_items srv items st of
       (st', Some e) \<Rightarrow> (p, st', Some e) | (st', None) \<Rightarrow> pg_lines srv tail (pg_between [] []) st')"
    using stream_items [OF assms(1), of srv tail st] by blast
  moreover have "pg_lines srv tail (pg_between [] []) st' = (pg_between (unlines tail) [], st', None)" for st'
    using stream_pre [OF assms(2), of srv "[]" "[]" st'] by simp
  ultimately show ?thesis using group_comments [OF assms(2), of srv]
    by (auto simp: pgRestoreStream_def pg_start_def split: prod.splits option.splits)
qed


definition log_server :: "(string \<times> string) list pg_server" where
  "log_server = \<lparr>pg_exec = (\<lambda>q st. (st @ [(q, [])], None)), pg_copyFrom = (\<lambda>h d st. (st @ [(h, d)], None))\<rparr>"


lemma copy_payload_all:
  assumes "rows = [] \<or> hd rows \<noteq> [] \<and> last rows \<noteq> []" and "\<And>r. r \<in> set rows \<Longrightarrow> nl \<notin> set r"
  shows "copy_payload rows = unlines rows"
proof (cases "rows = []")
  case False
  have d: "dropWhile (\<lambda>r. r = []) rows = rows" using assms(1) False by (cases rows) auto
  have "join [nl] rows \<noteq> []" using assms(1) False by (cases rows; cases "tl rows") auto
  moreover have "last (join [nl] rows) = last (last rows)" using assms(1) False by (intro join_last) auto
  moreover have "last (last rows) \<noteq> nl" using assms False by (metis last_in_set)
  ultimately have "\<not> has_suffix (join [nl] rows) [nl]" by (auto simp: suffix_def)
  then show ?thesis using False d \<open>join [nl] rows \<noteq> []\<close> by (simp add: copy_payload_def unlines_join)
qed (simp add: copy_payload_def)

lemma quoted_no_nl: "nl \<notin> set n \<Longrightarrow> nl \<notin> set (quotePGIdent n)"
  by (auto simp: quotePGIdent_def replace_char_each set_each_char char_names split: if_splits)

lemma contains_append: "contains (a @ p @ b) p"
proof (induction a)
  case Nil
  have "has_prefix (p @ b) p" by simp
  then show ?case by (cases "p @ b") auto
qed simp

lemma copy_header_ok:
  assumes "nl \<notin> set schema" and "nl \<notin> set table" and "\<And>n. n \<in> set names \<Longrightarrow> nl \<notin> set n"
  shows "plain_line (copy_header schema table names)" "is_copy_line (copy_header schema table names)"
proof -
  have "nl \<notin> set (join '', '' (map quotePGIdent names))"
    using set_join [of "'', ''" "map quotePGIdent names"] assms(3) quoted_no_nl by (fastforce simp: nl_def)
  then show "plain_line (copy_header schema table names)" using assms(1,2) quoted_no_nl
    by (simp add: plain_line_def copy_header_def pg_table_def char_names)
  have "copy_header schema table names =
      (''COPY '' @ pg_table schema table @ '' ('' @ join '', '' (map quotePGIdent names) @ '')'') @ '' FROM stdin;'' @ []"
    by (simp add: copy_header_def)
  then have "contains (copy_header schema table names) '' FROM stdin;''" by (metis contains_append)
  then show "is_copy_line (copy_header schema table names)" by (simp add: is_copy_line_def copy_header_def)
qed


definition demo_source :: pg_source where
  "demo_source = \<lparr>ps_columns = (\<lambda>_ _. Inr ([Inr (''id'', False, 23, ''N'', []), Inr (''note'', False, 25, ''S'', [])], None)),
     ps_select = (\<lambda>q. if q = ''SELECT '' @ quotePGIdent ''id'' @ '', '' @ quotePGIdent ''note'' @ '' FROM ONLY '' @ pg_table ''public'' ''t''
        then Inr ([\<lparr>pf_name = ''id'', pf_oid = 23, pf_text = True, pf_range = False\<rparr>, \<lparr>pf_name = ''note'', pf_oid = 25, pf_text = True, pf_range = False\<rparr>],
               map Inr [([Some ''7'', Some [tab]], [PInt 7, PString [tab]]), ([Some ''8'', None], [PInt 8, PNil])], None)
        else Inl ''unexpected query''),
     ps_text = \<lparr>json_Marshal = (\<lambda>_. None), Sprintf_v = (\<lambda>_. [])\<rparr>\<rparr>"


section \<open>Where the restore loses data\<close>

lemma empty_rows_payload:
  "copy_payload (replicate k [] @ [''x''] @ replicate m []) = unlines (''x'' # replicate (m - 1) [])"
proof -
  have d: "dropWhile (\<lambda>r. r = []) (replicate k [] @ ''x'' # replicate m []) = ''x'' # replicate m []"
    by (induction k) simp_all
  have e: "join [nl] ([] # replicate m []) = replicate m nl" for m
    by (induction m) simp_all
  have "join [nl] (''x'' # replicate m []) = CHR ''x'' # replicate m nl"
    using e [of "m - 1"] by (cases m) simp_all
  moreover have "has_suffix (CHR ''x'' # replicate m nl) [nl] \<longleftrightarrow> m > 0"
    by (cases m) (auto simp: suffix_def replicate_append_same [symmetric] nl_def)
  ultimately show ?thesis using d by (cases m) (simp_all add: copy_payload_def unlines_empty replicate_append_same)
qed

text \<open>
  A row whose only column is an empty text is an empty line. Of these the restore loses
  all that come before the first other row, and one at the end of the table: with such rows the
  server receives fewer rows than the dump holds, and no error is reported.
\<close>

theorem pg_empty_rows_lost:
  "pgRestoreStream srv (unlines (''COPY t (a) FROM stdin;'' # replicate k [] @ [''x''] @ replicate m [] @ [copy_end])) None st =
     pg_copyFrom srv ''COPY t (a) FROM stdin'' (unlines (''x'' # replicate (m - 1) [])) st"
proof -
  let ?i = "PgCopy [] ''COPY t (a) FROM stdin;'' (replicate k [] @ [''x''] @ replicate m [])"
  have "item_ok ?i" by (auto simp: list_all_iff plain_line_def is_copy_line_def copy_end_def char_names)
  then have "pgRestoreStream srv (unlines (item_lines ?i)) None st = run_items srv [?i] st"
    using pg_items_restored [of "[?i]" "[]" srv st] by simp
  moreover have "trim_suffix ''COPY t (a) FROM stdin;'' '';'' = ''COPY t (a) FROM stdin''"
    using trim_suffix_append [of "''COPY t (a) FROM stdin''" "'';''"] by simp
  ultimately show ?thesis using empty_rows_payload [of k m] by (auto split: prod.splits option.splits)
qed

text \<open>
  A dump that ends inside a \<open>COPY\<close> block, as a truncated backup does, is restored without an
  error, and the rows of the block that the dump still holds are not sent.
\<close>

theorem pg_truncated_copy_ignored:
  assumes "plain_line h" and "is_copy_line h" and "list_all (\<lambda>r. plain_line r \<and> r \<noteq> copy_end) rows"
  shows "pgRestoreStream srv (unlines (h # rows)) None st = (st, None)"
proof -
  have g: "go_lines (unlines (h # rows)) = h # rows" using assms by (intro go_lines_unlines) (auto simp: list_all_iff plain_line_def)
  have "pg_line srv (drop_cr h) pg_start st =
      (\<lparr>rs_stmt = [], rs_inCopy = True, rs_header = trim_suffix h '';'', rs_copy = [], rs_tag = []\<rparr>, st, None)"
    using assms(1,2) by (simp add: plain_drop_cr pg_line_def pg_start_def execStmtGroup_def)
  then show ?thesis using stream_rows [OF assms(3), of srv "[]" "trim_suffix h '';''" "[]" st]
    by (simp only: pgRestoreStream_def g) (simp add: execStmtGroup_def)
qed

theorem pg_truncated_copy_ignored_witness:
  "pgRestoreStream log_server (unlines [''COPY t (a) FROM stdin;'', ''1'', ''2'']) None [] = ([], None)"
  by (rule pg_truncated_copy_ignored) (simp_all add: plain_line_def is_copy_line_def copy_end_def char_names)

text \<open>
  A text between dollar signs inside a quoted literal is taken for a dollar quote: the
  statements behind it, and the rows of the tables behind it, are not sent as such but glued to
  one statement that the server cannot read.
\<close>

theorem pg_dollar_literal_swallows:
  "fst (pgRestoreStream log_server
     (unlines [''COMMENT ON TABLE t IS '' @ [squote] @ ''in $usd$'' @ [squote] @ '';'', ''COPY t (a) FROM stdin;'', ''1'', copy_end]) None []) =
   [(unlines [''COMMENT ON TABLE t IS '' @ [squote] @ ''in $usd$'' @ [squote] @ '';'', ''COPY t (a) FROM stdin;'', ''1'', copy_end], [])]"
  by code_simp

text \<open>
  A line of a multi-line literal or function body that starts with two dashes is dropped
  from the statement that is sent.
\<close>

theorem pg_comment_lines_dropped:
  "fst (pgRestoreStream log_server
     (unlines [''INSERT INTO t VALUES ('' @ [squote] @ ''a'', ''-- b'', ''c'' @ [squote] @ '');'']) None []) =
   [(unlines [''INSERT INTO t VALUES ('' @ [squote] @ ''a'', ''c'' @ [squote] @ '');''], [])]"
  by code_simp

end
