(* ===== verification/PgDump.thy ===== *)
theory PgDump
  imports PgRestore
begin

text \<open>
  The objects of a database in the PostgreSQL engine
  (\<open>internal/database/engine/postgres/postgres.go\<close>): which tables are dumped and in which
  order, tables with their partitions, schemas, sequences, triggers, grants, default
  privileges, publications, large objects, and the roles and tablespaces of the server. The
  queries are a record of functions; the sections that only print rows of the catalogue
  (types, functions, views and the like) are its field \<open>pc_section\<close>.

  The lemmas show that a table is dumped behind the tables it inherits from, that the
  partitions of a table are dumped with it, and that all privileges are granted again.
\<close>

section \<open>The catalogue\<close>

record pg_grant =
  pg_grantee :: string
  pg_priv :: string
  pg_grantable :: bool

record pg_default_priv =
  dp_role :: string
  dp_schema :: string
  dp_obj :: string
  dp_grantee :: int
  dp_priv :: string
  dp_grantable :: bool

record pg_publication =
  pb_name :: string
  pb_owner :: string
  pb_all :: bool
  pb_ins :: bool
  pb_upd :: bool
  pb_del :: bool
  pb_trunc :: bool
  pb_viaroot :: bool
  pb_gencols :: "string option"

record pg_role =
  ro_name :: string
  ro_super :: bool
  ro_inherit :: bool
  ro_createrole :: bool
  ro_createdb :: bool
  ro_canlogin :: bool
  ro_replication :: bool
  ro_connlimit :: int
  ro_validuntil :: "string option"

datatype pg_section =
    SecExtensions | SecCollations | SecLanguages | SecFunctions bool | SecAggregates | SecForeignServers
  | SecUserMappings | SecForeignTables | SecTextSearch | SecCasts | SecConversions | SecOpClasses
  | SecEventTriggers | SecViews | SecRowSecurity "string list" | SecRules "string list"
  | SecStatistics "string list" | SecComments

record pg_catalog =
  pc_source :: pg_source
  pc_section :: "pg_section \<Rightarrow> written"
  pc_types :: "written \<times> string list"
  pc_matviews :: "written \<times> string list"
  pc_databases :: "string rows"
  pc_tables :: "(string \<times> string) rows"
  pc_extMembers :: "(string \<times> string) rows"
  pc_inherits :: "(string \<times> string) rows"
  pc_userSequences :: "(string \<times> string \<times> string) rows"
  pc_standaloneSequences :: "(string \<times> string \<times> string) rows"
  pc_userTypes :: "(string \<times> string \<times> string) rows"
  pc_publicationNames :: "string rows"
  pc_schemas :: "(string \<times> string) rows"
  pc_schemaGrants :: "string \<Rightarrow> pg_grant rows"
  pc_createTable :: "string \<Rightarrow> string \<Rightarrow> string + string"
  pc_ownerOf :: "string \<Rightarrow> string \<Rightarrow> string + string"
  pc_foreignKeys :: "string \<Rightarrow> string \<Rightarrow> string + string"
  pc_exclusions :: "string \<Rightarrow> string \<Rightarrow> string + string"
  pc_isPartitioned :: "string \<Rightarrow> string \<Rightarrow> bool"
  pc_partitions :: "string \<Rightarrow> string \<Rightarrow> (string \<times> string \<times> string) rows"
  pc_triggers :: "string \<Rightarrow> string \<Rightarrow> (string \<times> string) rows"
  pc_sequenceDef :: "string \<Rightarrow> string \<Rightarrow> string + string \<times> string"
  pc_sequenceOwner :: "string \<Rightarrow> string \<Rightarrow> string + string \<times> string"
  pc_sequenceValue :: "string \<Rightarrow> string + int \<times> bool"
  pc_relationGrants :: "string \<Rightarrow> string \<Rightarrow> pg_grant rows"
  pc_views :: "(string \<times> string) rows"
  pc_functions :: "(string \<times> string \<times> string \<times> string \<times> string option \<times> string) rows"
  pc_funcGrants :: "string \<Rightarrow> string \<Rightarrow> string \<Rightarrow> pg_grant rows"
  pc_loColumns :: "string \<Rightarrow> string \<Rightarrow> string rows"
  pc_loOids :: "string \<Rightarrow> string \<Rightarrow> string \<Rightarrow> int rows"
  pc_loAll :: "int rows"
  pc_loReadable :: bool
  pc_loPages :: "int list \<Rightarrow> (int \<times> int \<times> string) rows"
  pc_defaultPrivs :: "pg_default_priv rows"
  pc_roleName :: "int \<Rightarrow> string + string"
  pc_publications :: "pg_publication rows"
  pc_publicationTables :: "string \<Rightarrow> (string \<times> string \<times> string option) rows"
  pc_columnName :: "string \<Rightarrow> string \<Rightarrow> string \<Rightarrow> string + string"
  pc_roles :: "pg_role rows"
  pc_members :: "(string \<times> string) rows"
  pc_tablespaces :: "(string \<times> string \<times> string \<times> string option \<times> string option) rows"

record pg_options =
  po_Tables :: "table_filter option"
  po_SchemaOnly :: bool

text \<open>Rows up to the first that does not scan, as in the loops that only \<open>break\<close> or \<open>continue\<close>.\<close>

definition rows_before_error :: "'r rows \<Rightarrow> 'r list" where
  "rows_before_error q =
     (case q of Inl _ \<Rightarrow> [] | Inr (rs, _) \<Rightarrow> map projr (takeWhile (\<lambda>r. \<not> isl r) rs))"

definition rows_scanned :: "'r rows \<Rightarrow> 'r list" where
  "rows_scanned q = (case q of Inl _ \<Rightarrow> [] | Inr (rs, _) \<Rightarrow> map projr (filter (\<lambda>r. \<not> isl r) rs))"

definition table_parts :: "string \<Rightarrow> string list" where
  "table_parts t = splitn2 (CHR ''.'') t"

definition say :: "string \<Rightarrow> written" where
  "say s = (s, None)"

definition nothing :: written where
  "nothing = ([], None)"

section \<open>Which tables, in which order\<close>

definition isPgSystemDB :: "string \<Rightarrow> bool" where
  "isPgSystemDB name \<longleftrightarrow> name \<in> {''template0'', ''template1'', ''postgres''}"

definition extensionMembers :: "pg_catalog \<Rightarrow> string list" where
  "extensionMembers c = map (\<lambda>(s, n). s @ ''.'' @ n) (rows_before_error (pc_extMembers c))"

definition pg_listTables :: "pg_catalog \<Rightarrow> string + string list" where
  "pg_listTables c =
     (case all_rows (pc_tables c) of
        Inl e \<Rightarrow> Inl e
      | Inr refs \<Rightarrow> Inr (filter (\<lambda>t. t \<notin> set (extensionMembers c)) (map (\<lambda>(s, n). s @ ''.'' @ n) refs)))"

definition bare_name :: "string \<Rightarrow> string option" where
  "bare_name t = (case table_parts t of [_, b] \<Rightarrow> Some b | _ \<Rightarrow> None)"

definition table_included :: "pg_options \<Rightarrow> string \<Rightarrow> bool" where
  "table_included o0 t \<longleftrightarrow>
     po_Tables o0 = None \<or> fst (TableFilter_Apply (po_Tables o0) t) \<or>
     (case bare_name t of Some b \<Rightarrow> fst (TableFilter_Apply (po_Tables o0) b) | None \<Rightarrow> False)"

type_synonym depths = "(string \<times> nat) list"

definition parents_of :: "(string \<times> string) list \<Rightarrow> string \<Rightarrow> string list" where
  "parents_of rels t = map snd (filter (\<lambda>r. fst r = t) rels)"

function inh_depth :: "(string \<times> string) list \<Rightarrow> string \<Rightarrow> string list \<Rightarrow> depths \<Rightarrow> nat \<times> depths"
  and inh_max :: "(string \<times> string) list \<Rightarrow> string list \<Rightarrow> string list \<Rightarrow> nat \<Rightarrow> depths \<Rightarrow> nat \<times> depths" where
  "inh_depth rels t seen depth =
     (case map_of depth t of
        Some d \<Rightarrow> (d, depth)
      | None \<Rightarrow>
          if t \<in> set seen then (0, depth)
          else case inh_max rels (parents_of rels t) (t # seen) 0 depth of (m, depth') \<Rightarrow> (m, (t, m) # depth'))"
| "inh_max rels [] seen m depth = (m, depth)"
| "inh_max rels (p # ps) seen m depth =
     (case inh_depth rels p seen depth of (d, depth') \<Rightarrow> inh_max rels ps seen (max m (d + 1)) depth')"
  by pat_completeness auto
termination
proof (relation "inv_image (less_than <*lex*> less_than) (case_sum
      (\<lambda>(rels, t, seen, depth). (card (set (map fst rels) - set seen), 1))
      (\<lambda>(rels, ps, seen, m, depth). (card (set (map fst rels) - set seen), 2 * length ps)))")
  show "(Inr (rels, parents_of rels t, t # seen, 0, depth), Inl (rels, t, seen, depth)) \<in>
      inv_image (less_than <*lex*> less_than) (case_sum
      (\<lambda>(rels, t, seen, depth). (card (set (map fst rels) - set seen), 1))
      (\<lambda>(rels, ps, seen, m, depth). (card (set (map fst rels) - set seen), 2 * length ps)))"
    if "t \<notin> set seen" for rels t seen depth
  proof (cases "t \<in> set (map fst rels)")
    case True
    then have "card (set (map fst rels) - set (t # seen)) < card (set (map fst rels) - set seen)"
      using that by (intro psubset_card_mono) auto
    then show ?thesis by simp
  next
    case False
    then have "parents_of rels t = []" "set (map fst rels) - set (t # seen) = set (map fst rels) - set seen"
      by (auto simp: parents_of_def filter_empty_conv)
    then show ?thesis by simp
  qed
qed auto

declare inh_depth.simps [simp del]

definition orderTablesByInheritance :: "(string \<times> string) rows \<Rightarrow> string list \<Rightarrow> string list" where
  "orderTablesByInheritance q tables =
     (case q of
        Inl _ \<Rightarrow> tables
      | Inr (rs, Some _) \<Rightarrow> tables
      | Inr (rs, None) \<Rightarrow>
          let rels = rows_before_error q;
              depth = fold (\<lambda>t d. snd (inh_depth rels t [] d)) tables []
          in sort_key (\<lambda>t. case map_of depth t of Some d \<Rightarrow> d | None \<Rightarrow> 0) tables)"

section \<open>Parents come first\<close>

text \<open>Depths that are recorded with those of the parents, each smaller.\<close>

definition closed_depths :: "(string \<times> string) list \<Rightarrow> depths \<Rightarrow> bool" where
  "closed_depths rels depth \<longleftrightarrow>
     (\<forall>t d p. map_of depth t = Some d \<longrightarrow> (t, p) \<in> set rels \<longrightarrow> (\<exists>e. map_of depth p = Some e \<and> e < d))"

definition ranked :: "(string \<Rightarrow> nat) \<Rightarrow> (string \<times> string) list \<Rightarrow> bool" where
  "ranked rank rels \<longleftrightarrow> (\<forall>(c, p) \<in> set rels. rank p < rank c)"

lemma inh_depths_closed:
  "ranked rank rels \<Longrightarrow> closed_depths rels depth \<Longrightarrow> \<forall>s \<in> set seen. rank t < rank s \<Longrightarrow>
     inh_depth rels t seen depth = (d, depth') \<Longrightarrow>
     closed_depths rels depth' \<and> map_of depth \<subseteq>\<^sub>m map_of depth' \<and> map_of depth' t = Some d \<and>
     (\<forall>s. rank t < rank s \<longrightarrow> map_of depth' s = map_of depth s)"
  "ranked rank rels \<Longrightarrow> closed_depths rels depth \<Longrightarrow> \<forall>s \<in> set seen. \<forall>p \<in> set ps. rank p < rank s \<Longrightarrow>
     inh_max rels ps seen m depth = (k, depth') \<Longrightarrow>
     closed_depths rels depth' \<and> map_of depth \<subseteq>\<^sub>m map_of depth' \<and> m \<le> k \<and>
     (\<forall>p \<in> set ps. \<exists>e. map_of depth' p = Some e \<and> e < k) \<and>
     (\<forall>s. (\<forall>p \<in> set ps. rank p < rank s) \<longrightarrow> map_of depth' s = map_of depth s)"
proof (induction rels t seen depth and rels ps seen m depth arbitrary: d depth' and k depth' rule: inh_depth_inh_max.induct)
  case (1 rels t seen depth)
  show ?case
  proof (cases "map_of depth t")
    case None
    have t: "t \<notin> set seen" using 1(4) by auto
    obtain m d1 where m: "inh_max rels (parents_of rels t) (t # seen) 0 depth = (m, d1)"
      by (cases "inh_max rels (parents_of rels t) (t # seen) 0 depth")
    have r: "depth' = (t, d) # d1" "d = m" using 1(5) None t m by (auto simp: inh_depth.simps)
    have p: "rank p < rank t" if "p \<in> set (parents_of rels t)" for p
      using that 1(2) by (auto simp: ranked_def parents_of_def)
    have "\<forall>s \<in> set (t # seen). \<forall>p \<in> set (parents_of rels t). rank p < rank s" using p 1(4) by fastforce
    from 1(1) [OF None t 1(2,3) this m] have ih: "closed_depths rels d1" "map_of depth \<subseteq>\<^sub>m map_of d1"
      "\<forall>p \<in> set (parents_of rels t). \<exists>e. map_of d1 p = Some e \<and> e < m"
      "\<forall>s. (\<forall>p \<in> set (parents_of rels t). rank p < rank s) \<longrightarrow> map_of d1 s = map_of depth s" by blast+
    have n: "map_of d1 t = None" using ih(4) p None by simp
    have c: "closed_depths rels depth'" unfolding closed_depths_def
    proof (intro allI impI)
      fix s e q
      assume s: "map_of depth' s = Some e" "(s, q) \<in> set rels"
      have q: "q \<noteq> t" if "s = t" using 1(2) s(2) that by (auto simp: ranked_def)
      show "\<exists>f. map_of depth' q = Some f \<and> f < e"
      proof (cases "s = t")
        case True
        then have "q \<in> set (parents_of rels t)" using s(2) by (force simp: parents_of_def)
        then show ?thesis using ih(3) s(1) True q r by auto
      next
        case False
        then have "map_of d1 s = Some e" using s(1) r by simp
        then obtain f where "map_of d1 q = Some f" "f < e" using ih(1) s(2) unfolding closed_depths_def by blast
        then show ?thesis using n r by auto
      qed
    qed
    have "map_of depth \<subseteq>\<^sub>m map_of depth'" using ih(2) n r None by (auto simp: map_le_def)
    moreover have "\<forall>s. rank t < rank s \<longrightarrow> map_of depth' s = map_of depth s"
      using ih(4) p r by (auto intro: order.strict_trans)
    moreover have "map_of depth' t = Some d" using r by simp
    ultimately show ?thesis using c by blast
  next
    case (Some d0)
    then show ?thesis using 1(3,5) by (simp add: inh_depth.simps)
  qed
next
  case (2 rels seen m depth)
  then show ?case by simp
next
  case (3 rels p ps seen m depth)
  obtain d1 depth1 where d1: "inh_depth rels p seen depth = (d1, depth1)" by (cases "inh_depth rels p seen depth")
  have k: "inh_max rels ps seen (max m (d1 + 1)) depth1 = (k, depth')" using 3(6) d1 by simp
  have a: "closed_depths rels depth1" "map_of depth \<subseteq>\<^sub>m map_of depth1" "map_of depth1 p = Some d1"
    "\<forall>s. rank p < rank s \<longrightarrow> map_of depth1 s = map_of depth s"
    using 3(1) [OF 3(3,4) _ d1] 3(5) by auto
  have b: "closed_depths rels depth'" "map_of depth1 \<subseteq>\<^sub>m map_of depth'" "max m (d1 + 1) \<le> k"
    "\<forall>p \<in> set ps. \<exists>e. map_of depth' p = Some e \<and> e < k"
    "\<forall>s. (\<forall>p \<in> set ps. rank p < rank s) \<longrightarrow> map_of depth' s = map_of depth1 s"
    using 3(2) [OF d1 [symmetric] 3(3) a(1) _ k] 3(5) by auto
  have "map_of depth' p = Some d1" using a(3) b(2) by (force simp: map_le_def)
  then show ?case using a b map_le_trans [OF a(2) b(2)] by auto
qed

lemma inh_fold_closed:
  assumes "ranked rank rels"
  shows "closed_depths rels depth \<Longrightarrow>
    closed_depths rels (fold (\<lambda>t d. snd (inh_depth rels t [] d)) ts depth) \<and>
    map_of depth \<subseteq>\<^sub>m map_of (fold (\<lambda>t d. snd (inh_depth rels t [] d)) ts depth) \<and>
    (\<forall>t \<in> set ts. map_of (fold (\<lambda>t d. snd (inh_depth rels t [] d)) ts depth) t \<noteq> None)"
proof (induction ts arbitrary: depth)
  case (Cons t ts)
  obtain d depth1 where d: "inh_depth rels t [] depth = (d, depth1)" by (cases "inh_depth rels t [] depth")
  have a: "closed_depths rels depth1" "map_of depth \<subseteq>\<^sub>m map_of depth1" "map_of depth1 t = Some d"
    using inh_depths_closed(1) [OF assms Cons.prems _ d] by auto
  note ih = Cons.IH [OF a(1)]
  from ih a(3) have "map_of (fold (\<lambda>t d. snd (inh_depth rels t [] d)) ts depth1) t \<noteq> None" by (force simp: map_le_def)
  then show ?case using ih d map_le_trans [OF a(2)] by auto
qed simp

lemma sort_key_before:
  assumes "sort_key f xs = ys @ t # zs" and "p \<in> set xs" and "f p < f t"
  shows "p \<in> set ys"
proof -
  have "sorted (map f (ys @ t # zs))" using assms(1) by (metis sorted_sort_key)
  then have "\<forall>z \<in> set zs. f t \<le> f z" by (auto simp: sorted_append)
  moreover have "p \<in> set (ys @ t # zs)" using assms(1,2) by (metis set_sort)
  ultimately show ?thesis using assms(3) by (auto simp: leD)
qed

text \<open>
  (C19) Tables are dumped behind the tables they inherit from: in the order of the dump the
  parents of a table come before it, as far as they are dumped at all, and no table is lost or
  dumped twice. Inheritance has no cycles, which the rank of a table expresses.
\<close>

theorem parents_dumped_first:
  assumes "ranked rank rels" and "orderTablesByInheritance (Inr (map Inr rels, None)) tables = earlier @ t # later"
    and "(t, p) \<in> set rels" and "p \<in> set tables"
  shows "p \<in> set earlier \<and> mset (earlier @ t # later) = mset tables"
proof -
  have rows: "rows_before_error (Inr (map Inr rels, None)) = rels"
    unfolding rows_before_error_def by (simp add: takeWhile_map comp_def)
  define depth where "depth = fold (\<lambda>t d. snd (inh_depth rels t [] d)) tables []"
  let ?f = "\<lambda>t. case map_of depth t of Some d \<Rightarrow> d | None \<Rightarrow> 0"
  have o1: "sort_key ?f tables = earlier @ t # later" using assms(2) by (simp add: orderTablesByInheritance_def rows depth_def)
  have "closed_depths rels []" by (simp add: closed_depths_def)
  from inh_fold_closed [OF assms(1) this, of tables] have c: "closed_depths rels depth" "\<forall>t \<in> set tables. map_of depth t \<noteq> None"
    by (auto simp: depth_def)
  have "t \<in> set tables" using o1 by (metis in_set_conv_decomp set_sort)
  then obtain d where d: "map_of depth t = Some d" using c(2) by auto
  then obtain e where "map_of depth p = Some e" "e < d" using c(1) assms(3) unfolding closed_depths_def by blast
  then have "?f p < ?f t" using d by simp
  with o1 assms(4) have "p \<in> set earlier" by (rule sort_key_before)
  moreover have "mset (earlier @ t # later) = mset tables" using o1 by (metis mset_sort)
  ultimately show ?thesis ..
qed

theorem parents_dumped_first_witness:
  "''s.base'' \<in> set [''s.base''] \<and> mset ([''s.base''] @ ''s.child'' # []) = mset [''s.child'', ''s.base'']"
proof (rule parents_dumped_first [of "\<lambda>t. if t = ''s.child'' then 1 else 0" "[(''s.child'', ''s.base'')]" "[''s.child'', ''s.base'']"])
  show "orderTablesByInheritance (Inr (map Inr [(''s.child'', ''s.base'')], None)) [''s.child'', ''s.base''] = [''s.base''] @ ''s.child'' # []"
    by code_simp
qed (simp_all add: ranked_def)

section \<open>Tables and their partitions\<close>

definition owner_line :: "pg_catalog \<Rightarrow> string \<Rightarrow> string \<Rightarrow> string" where
  "owner_line c schema name =
     (case pc_ownerOf c schema name of
        Inr owner \<Rightarrow> if owner = [] then [] else ''ALTER TABLE '' @ pg_table schema name @ '' OWNER TO '' @ quotePGRole owner @ '';'' @ [nl, nl]
      | Inl _ \<Rightarrow> [])"

definition or_empty :: "string + string \<Rightarrow> string" where
  "or_empty r = (case r of Inr s \<Rightarrow> s | Inl _ \<Rightarrow> [])"

definition attach_line :: "string \<Rightarrow> string \<Rightarrow> string \<Rightarrow> string \<Rightarrow> string \<Rightarrow> string" where
  "attach_line schema table pschema pname bound =
     ''ALTER TABLE ONLY '' @ pg_table schema table @ '' ATTACH PARTITION '' @ pg_table pschema pname @ '' '' @ bound @ '';'' @ [nl]"

text \<open>
  What is dumped of the partitions of a table: the text written, the names of the partitions,
  the statements that attach them and their constraints. An error ends the dump; the names
  and statements are then not used any more.
\<close>

record part_dump =
  pd_text :: string
  pd_names :: "string list"
  pd_attach :: string
  pd_constraints :: string
  pd_error :: "string option"

definition empty_parts :: part_dump where
  "empty_parts = \<lparr>pd_text = [], pd_names = [], pd_attach = [], pd_constraints = [], pd_error = None\<rparr>"

definition parts_error :: "string \<Rightarrow> string \<Rightarrow> part_dump" where
  "parts_error out e = empty_parts\<lparr>pd_text := out, pd_error := Some e\<rparr>"

definition parts_then :: "part_dump \<Rightarrow> part_dump \<Rightarrow> part_dump" where
  "parts_then a b =
     (if pd_error a \<noteq> None then a
      else \<lparr>pd_text = pd_text a @ pd_text b, pd_names = pd_names a @ pd_names b, pd_attach = pd_attach a @ pd_attach b,
            pd_constraints = pd_constraints a @ pd_constraints b, pd_error = pd_error b\<rparr>)"

definition one_partition ::
  "pg_catalog \<Rightarrow> bool \<Rightarrow> string \<Rightarrow> string \<Rightarrow> (string \<Rightarrow> string \<Rightarrow> part_dump) \<Rightarrow> string \<times> string \<times> string \<Rightarrow> part_dump" where
  "one_partition c schemaOnly schema table nested p =
     (case p of (pschema, pname, bound) \<Rightarrow>
        let name = pschema @ ''.'' @ pname
        in case pc_createTable c pschema pname of
             Inl e \<Rightarrow> parts_error [] e
           | Inr createSQL \<Rightarrow>
               let intro = [nl] @ ''-- Partition: '' @ name @ '' (of '' @ schema @ ''.'' @ table @ '')'' @ [nl] @ createSQL @ [nl, nl] @ owner_line c pschema pname;
                   (data, err) = (if schemaOnly then ([], None) else copyData (pc_source c) pschema pname)
               in case err of
                    Some e \<Rightarrow> parts_error (intro @ data) e
                  | None \<Rightarrow>
                      parts_then (empty_parts\<lparr>pd_text := intro @ data, pd_names := [name]\<rparr>)
                        (parts_then (if pc_isPartitioned c pschema pname then nested pschema pname else empty_parts)
                          (empty_parts\<lparr>pd_attach := attach_line schema table pschema pname bound,
                             pd_constraints := or_empty (pc_foreignKeys c pschema pname) @ or_empty (pc_exclusions c pschema pname)\<rparr>)))"

text \<open>The nesting is limited: \<open>levels\<close> counts down from 9, where the code counts \<open>depth\<close> up to 8.\<close>

fun dumpPartitions :: "nat \<Rightarrow> pg_catalog \<Rightarrow> bool \<Rightarrow> string \<Rightarrow> string \<Rightarrow> part_dump" where
  "dumpPartitions 0 c schemaOnly schema table =
     parts_error [] (''partition nesting too deep at '' @ schema @ ''.'' @ table)"
| "dumpPartitions (Suc levels) c schemaOnly schema table =
     (case all_rows (pc_partitions c schema table) of
        Inl e \<Rightarrow> parts_error [] e
      | Inr ps \<Rightarrow>
          foldr (\<lambda>p rest. parts_then (one_partition c schemaOnly schema table (dumpPartitions levels c schemaOnly) p) rest) ps empty_parts)"

definition table_schema_only :: "pg_options \<Rightarrow> string \<Rightarrow> bool" where
  "table_schema_only o0 t \<longleftrightarrow>
     po_SchemaOnly o0 \<or> (po_Tables o0 \<noteq> None \<and>
       (snd (TableFilter_Apply (po_Tables o0) t) \<or>
        (case bare_name t of Some b \<Rightarrow> snd (TableFilter_Apply (po_Tables o0) b) | None \<Rightarrow> False)))"

definition pg_dumpTable :: "pg_catalog \<Rightarrow> pg_options \<Rightarrow> string \<Rightarrow> part_dump" where
  "pg_dumpTable c o0 t =
     (let schema = hd (table_parts t); name = hd (tl (table_parts t))
      in case pc_createTable c schema name of
           Inl e \<Rightarrow> parts_error [] e
         | Inr createSQL \<Rightarrow>
             let intro = [nl] @ ''-- Table: '' @ schema @ ''.'' @ name @ [nl] @ createSQL @ [nl, nl] @ owner_line c schema name;
                 schemaOnly = table_schema_only o0 t;
                 fk = or_empty (pc_foreignKeys c schema name) @ or_empty (pc_exclusions c schema name)
             in parts_then (empty_parts\<lparr>pd_text := intro, pd_constraints := fk\<rparr>)
                  (if pc_isPartitioned c schema name then dumpPartitions 9 c schemaOnly schema name
                   else if schemaOnly then empty_parts
                   else case copyData (pc_source c) schema name of
                          (data, None) \<Rightarrow> empty_parts\<lparr>pd_text := data\<rparr> | (data, Some e) \<Rightarrow> parts_error data e))"

text \<open>The partitions of a table, level by level.\<close>

fun partition_names :: "nat \<Rightarrow> pg_catalog \<Rightarrow> string \<Rightarrow> string \<Rightarrow> string list" where
  "partition_names 0 c schema table = []"
| "partition_names (Suc n) c schema table =
     (case all_rows (pc_partitions c schema table) of
        Inl _ \<Rightarrow> []
      | Inr ps \<Rightarrow> concat (map (\<lambda>(s, p, b). (s @ ''.'' @ p) # (if pc_isPartitioned c s p then partition_names n c s p else [])) ps))"

lemma parts_then_simps [simp]:
  "parts_then a empty_parts = a" "pd_error a = None \<Longrightarrow> pd_error (parts_then a b) = pd_error b"
  "pd_error a \<noteq> None \<Longrightarrow> parts_then a b = a"
  "pd_error a = None \<Longrightarrow> pd_names (parts_then a b) = pd_names a @ pd_names b"
  by (auto simp: parts_then_def empty_parts_def)

lemma empty_parts_simps [simp]: "pd_error empty_parts = None" "pd_names empty_parts = []" "pd_error (parts_error out e) = Some e"
  by (simp_all add: empty_parts_def parts_error_def)

lemma one_partition_names:
  assumes "pd_error (one_partition c so schema table nested (s, p, b)) = None"
  shows "pd_names (one_partition c so schema table nested (s, p, b)) =
      (s @ ''.'' @ p) # (if pc_isPartitioned c s p then pd_names (nested s p) else [])"
    and "pc_isPartitioned c s p \<Longrightarrow> pd_error (nested s p) = None"
  using assms by (auto simp: one_partition_def Let_def parts_then_def split: sum.splits prod.splits option.splits if_splits)

definition demo_catalog :: pg_catalog where
  "demo_catalog = \<lparr>pc_source = demo_source,
     pc_section = (\<lambda>_. nothing),
     pc_types = (nothing, []),
     pc_matviews = (nothing, []),
     pc_databases = Inr ([], None),
     pc_tables = Inr ([], None),
     pc_extMembers = Inr ([], None),
     pc_inherits = Inr ([], None),
     pc_userSequences = Inr ([], None),
     pc_standaloneSequences = Inr ([], None),
     pc_userTypes = Inr ([], None),
     pc_publicationNames = Inr ([], None),
     pc_schemas = Inr ([], None),
     pc_schemaGrants = (\<lambda>_. Inr ([], None)),
     pc_createTable = (\<lambda>s t. Inr (''CREATE TABLE '' @ pg_table s t @ '' ();'')),
     pc_ownerOf = (\<lambda>_ _. Inr []),
     pc_foreignKeys = (\<lambda>_ _. Inr []),
     pc_exclusions = (\<lambda>_ _. Inr []),
     pc_isPartitioned = (\<lambda>_ t. t = ''p''),
     pc_partitions = (\<lambda>_ t. if t = ''t'' then Inr ([Inr (''s'', ''p'', ''DEFAULT'')], None) else if t = ''p'' then Inr ([Inr (''s'', ''q'', ''DEFAULT'')], None) else Inr ([], None)),
     pc_triggers = (\<lambda>_ _. Inr ([], None)),
     pc_sequenceDef = (\<lambda>_ _. Inl []),
     pc_sequenceOwner = (\<lambda>_ _. Inl []),
     pc_sequenceValue = (\<lambda>_. Inl []),
     pc_relationGrants = (\<lambda>_ _. Inr ([], None)),
     pc_views = Inr ([], None),
     pc_functions = Inr ([], None),
     pc_funcGrants = (\<lambda>_ _ _. Inr ([], None)),
     pc_loColumns = (\<lambda>_ t. if t = ''t'' then Inr ([Inr ''doc''], None) else Inr ([], None)),
     pc_loOids = (\<lambda>_ _ _. Inr ([Inr 5], None)),
     pc_loAll = Inr ([Inr 5, Inr 6], None),
     pc_loReadable = True,
     pc_loPages = (\<lambda>_. Inr ([], None)),
     pc_defaultPrivs = Inr ([], None),
     pc_roleName = (\<lambda>_. Inl []),
     pc_publications = Inr ([], None),
     pc_publicationTables = (\<lambda>_. Inr ([], None)),
     pc_columnName = (\<lambda>_ _ _. Inl []),
     pc_roles = Inr ([], None),
     pc_members = Inr ([], None),
     pc_tablespaces = Inr ([], None)\<rparr>"



section \<open>Privileges\<close>

fun group_add :: "'k \<Rightarrow> 'v \<Rightarrow> ('k \<times> 'v list) list \<Rightarrow> ('k \<times> 'v list) list" where
  "group_add k v [] = [(k, [v])]"
| "group_add k v ((k', vs) # gs) = (if k' = k then (k', vs @ [v]) # gs else (k', vs) # group_add k v gs)"

text \<open>Groups in the order of the first occurrence of their key, as \<open>order\<close> and the map of the code.\<close>

definition group_by :: "('a \<Rightarrow> 'k) \<Rightarrow> ('a \<Rightarrow> 'v) \<Rightarrow> 'a list \<Rightarrow> ('k \<times> 'v list) list" where
  "group_by key val xs = fold (\<lambda>x. group_add (key x) (val x)) xs []"

definition grant_target :: "string \<Rightarrow> string" where
  "grant_target grantee = (if grantee = ''PUBLIC'' then grantee else quotePGRole grantee)"

definition grant_line :: "string \<Rightarrow> (string \<times> bool) \<times> string list \<Rightarrow> string" where
  "grant_line target g = (case g of ((grantee, grantable), privs) \<Rightarrow>
     ''GRANT '' @ join '', '' privs @ '' ON '' @ target @ '' TO '' @ grant_target grantee @
     (if grantable then '' WITH GRANT OPTION'' else []) @ '';'' @ [nl])"

definition grant_groups :: "pg_grant list \<Rightarrow> ((string \<times> bool) \<times> string list) list" where
  "grant_groups grants = group_by (\<lambda>g. (pg_grantee g, pg_grantable g)) pg_priv grants"

definition formatGrants :: "string \<Rightarrow> pg_grant list \<Rightarrow> string" where
  "formatGrants target grants =
     (let groups = grant_groups grants
      in (if groups = [] then [] else ''REVOKE ALL ON '' @ target @ '' FROM PUBLIC;'' @ [nl]) @ concat (map (grant_line target) groups))"

lemma group_add_spec:
  "distinct (map fst gs) \<Longrightarrow> distinct (map fst (group_add k v gs)) \<and>
     set (map fst (group_add k v gs)) = insert k (set (map fst gs)) \<and>
     map_of (group_add k v gs) = (map_of gs)(k \<mapsto> (case map_of gs k of Some vs \<Rightarrow> vs | None \<Rightarrow> []) @ [v])"
  by (induction k v gs rule: group_add.induct) (auto simp: fun_eq_iff split: option.splits)

lemma group_by_spec:
  "distinct (map fst (group_by key val xs)) \<and> set (map fst (group_by key val xs)) = key ` set xs \<and>
   map_of (group_by key val xs) = (\<lambda>k. if k \<in> key ` set xs then Some (map val (filter (\<lambda>x. key x = k) xs)) else None)"
proof (induction xs rule: rev_induct)
  case (snoc x xs)
  let ?g = "group_by key val xs"
  have s: "group_by key val (xs @ [x]) = group_add (key x) (val x) ?g" by (simp add: group_by_def)
  have m: "map_of ?g = (\<lambda>k. if k \<in> key ` set xs then Some (map val (filter (\<lambda>x. key x = k) xs)) else None)"
    and d: "distinct (map fst ?g)" and k: "set (map fst ?g) = key ` set xs" using snoc by blast+
  have n: "filter (\<lambda>y. key y = key x) xs = []" if "key x \<notin> key ` set xs"
  proof -
    have "\<forall>y \<in> set xs. key y \<noteq> key x" using that by (metis image_eqI)
    then show ?thesis by simp
  qed
  have "map_of (group_add (key x) (val x) ?g) =
      (\<lambda>k. if k \<in> key ` set (xs @ [x]) then Some (map val (filter (\<lambda>x. key x = k) (xs @ [x]))) else None)"
    using group_add_spec [OF d, of "key x" "val x"] n by (auto simp: m fun_eq_iff)
  then show ?case unfolding s using group_add_spec [OF d, of "key x" "val x"] k by auto
qed (simp add: group_by_def)

lemma map_of_entries: "distinct (map fst al) \<Longrightarrow> set al = (\<lambda>k. (k, the (map_of al k))) ` set (map fst al)"
  by (force simp: image_iff)

lemma grant_groups_spec:
  "distinct (map fst (grant_groups grants)) \<and>
   set (grant_groups grants) =
     (\<lambda>k. (k, map pg_priv (filter (\<lambda>g. (pg_grantee g, pg_grantable g) = k) grants))) ` (\<lambda>g. (pg_grantee g, pg_grantable g)) ` set grants"
proof -
  let ?key = "\<lambda>g. (pg_grantee g, pg_grantable g)"
  note g = group_by_spec [of ?key pg_priv grants, folded grant_groups_def]
  have "set (grant_groups grants) = (\<lambda>k. (k, the (map_of (grant_groups grants) k))) ` set (map fst (grant_groups grants))"
    by (rule map_of_entries) (use g in blast)
  also have "\<dots> = (\<lambda>k. (k, map pg_priv (filter (\<lambda>g. ?key g = k) grants))) ` ?key ` set grants"
    using g by (intro image_cong) auto
  finally show ?thesis using g by blast
qed

text \<open>
  (C23) All privileges of an object are granted again: for each grantee, with and without the
  grant option, there is exactly one statement, and it names exactly the privileges that the
  grantee has, in their order.
\<close>

theorem grants_complete:
  "\<exists>gs. formatGrants target grants =
       (if grants = [] then [] else ''REVOKE ALL ON '' @ target @ '' FROM PUBLIC;'' @ [nl]) @ concat (map (grant_line target) gs) \<and>
     distinct (map fst gs) \<and>
     set gs = (\<lambda>k. (k, map pg_priv (filter (\<lambda>g. (pg_grantee g, pg_grantable g) = k) grants))) ` (\<lambda>g. (pg_grantee g, pg_grantable g)) ` set grants"
proof (intro exI conjI)
  have "grant_groups grants = [] \<longleftrightarrow> grants = []" using grant_groups_spec [of grants] by (metis (no_types, lifting) empty_set image_is_empty set_empty)
  then show "formatGrants target grants =
      (if grants = [] then [] else ''REVOKE ALL ON '' @ target @ '' FROM PUBLIC;'' @ [nl]) @ concat (map (grant_line target) (grant_groups grants))"
    by (simp add: formatGrants_def Let_def)
qed (use grant_groups_spec [of grants] in simp_all)

definition relation_acl :: "pg_catalog \<Rightarrow> string \<Rightarrow> string \<Rightarrow> string \<Rightarrow> string" where
  "relation_acl c kind schema name =
     (case all_rows (pc_relationGrants c schema name) of
        Inl _ \<Rightarrow> []
      | Inr grants \<Rightarrow>
          if grants = [] then []
          else [nl] @ ''-- ACL: '' @ kind @ '' '' @ schema @ ''.'' @ name @ [nl] @ formatGrants (''TABLE '' @ pg_table schema name) grants)"

definition function_acl :: "pg_catalog \<Rightarrow> string \<times> string \<times> string \<times> string \<times> string option \<times> string \<Rightarrow> string" where
  "function_acl c f = (case f of (schema, name, args, owner, acl, kind) \<Rightarrow>
     let objType = (if kind = ''p'' then ''PROCEDURE'' else ''FUNCTION'');
         ident = pg_table schema name @ ''('' @ args @ '')'';
         intro = [nl] @ ''-- ACL: '' @ objType @ '' '' @ schema @ ''.'' @ name @ ''('' @ args @ '')'' @ [nl];
         own = (if owner = [] then [] else intro @ ''ALTER '' @ objType @ '' '' @ ident @ '' OWNER TO '' @ quotePGRole owner @ '';'' @ [nl]);
         aclText = (case acl of Some a \<Rightarrow> a | None \<Rightarrow> [])
     in own @
        (if aclText = [] \<or> aclText = ''{}'' then []
         else case all_rows (pc_funcGrants c schema name args) of
                Inl _ \<Rightarrow> []
              | Inr grants \<Rightarrow>
                  if grants = [] then [] else (if owner = [] then intro else []) @ formatGrants (objType @ '' '' @ ident) grants))"

text \<open>The heading is written before the first entry only.\<close>

definition with_heading :: "string \<Rightarrow> string list \<Rightarrow> string" where
  "with_heading h entries = (if concat entries = [] then [] else h @ concat entries)"

definition acl_heading :: string where
  "acl_heading = [nl] @ ''-- Post-data ACLs (permissions)'' @ [nl]"

definition dumpACLs :: "pg_catalog \<Rightarrow> string list \<Rightarrow> written" where
  "dumpACLs c tables =
     (let tableAcls = List.map_filter (\<lambda>t. case table_parts t of [s, n] \<Rightarrow> Some (relation_acl c ''TABLE'' s n) | _ \<Rightarrow> None) tables;
          viewAcls = map (\<lambda>(s, n). relation_acl c ''VIEW'' s n)
             (filter (\<lambda>(s, n). s @ ''.'' @ n \<notin> set (extensionMembers c)) (rows_before_error (pc_views c)))
      in case pc_functions c of
           Inl _ \<Rightarrow> say (with_heading acl_heading (tableAcls @ viewAcls))
         | Inr (rs, Some e) \<Rightarrow> (with_heading acl_heading (tableAcls @ viewAcls), Some e)
         | Inr (rs, None) \<Rightarrow>
             say (with_heading acl_heading (tableAcls @ viewAcls @ map (function_acl c) (rows_scanned (pc_functions c)))))"

definition default_priv_object :: "string \<Rightarrow> string option" where
  "default_priv_object obj =
     (if obj = ''r'' then Some ''TABLES'' else if obj = ''S'' then Some ''SEQUENCES''
      else if obj = ''f'' then Some ''FUNCTIONS'' else if obj = ''T'' then Some ''TYPES'' else None)"

definition default_priv_entry :: "pg_catalog \<Rightarrow> pg_default_priv \<Rightarrow> ((string \<times> string \<times> string \<times> string \<times> bool) \<times> string) option" where
  "default_priv_entry c r =
     (case default_priv_object (dp_obj r) of
        None \<Rightarrow> None
      | Some word \<Rightarrow>
          let key = (dp_role r, dp_schema r, word, dp_priv r, dp_grantable r)
          in if dp_grantee r = 0 then Some (key, ''PUBLIC'')
             else case pc_roleName c (dp_grantee r) of
                    Inl _ \<Rightarrow> None | Inr rn \<Rightarrow> if rn = [] then None else Some (key, quotePGRole rn))"

definition default_priv_line :: "(string \<times> string \<times> string \<times> string \<times> bool) \<times> string list \<Rightarrow> string" where
  "default_priv_line g = (case g of ((role, schema, obj, priv, grantable), tos) \<Rightarrow>
     [nl] @ ''-- Default privileges'' @ [nl] @ ''ALTER DEFAULT PRIVILEGES'' @
     (if role = [] then [] else '' FOR ROLE '' @ quotePGRole role) @ (if schema = [] then [] else '' IN SCHEMA '' @ quotePGIdent schema) @
     '' GRANT '' @ priv @ '' ON '' @ obj @ '' TO '' @ join '', '' tos @ (if grantable then '' WITH GRANT OPTION'' else []) @ '';'' @ [nl])"

definition dumpDefaultPrivileges :: "pg_catalog \<Rightarrow> written" where
  "dumpDefaultPrivileges c =
     (case all_rows (pc_defaultPrivs c) of
        Inl e \<Rightarrow> ([], Some e)
      | Inr raw \<Rightarrow> say (concat (map default_priv_line (group_by fst snd (List.map_filter (default_priv_entry c) raw)))))"

section \<open>Schemas, sequences, triggers and publications\<close>

definition dumpDrops :: "pg_catalog \<Rightarrow> string list \<Rightarrow> written" where
  "dumpDrops c included =
     say ([nl] @ ''-- Drops (re-restore safety)'' @ [nl] @
       concat (map (\<lambda>t. case table_parts t of
           [s, n] \<Rightarrow> ''DROP TABLE IF EXISTS '' @ pg_table s n @ '' CASCADE;'' @ [nl] | _ \<Rightarrow> []) included) @
       (case all_rows (pc_userSequences c) of
          Inr seqs \<Rightarrow> concat (map (\<lambda>(s, n, _). ''DROP SEQUENCE IF EXISTS '' @ pg_table s n @ '' CASCADE;'' @ [nl]) seqs) | Inl _ \<Rightarrow> []) @
       (case all_rows (pc_userTypes c) of
          Inr types \<Rightarrow> concat (map (\<lambda>(s, n, k). ''DROP '' @ (if k = ''d'' then ''DOMAIN'' else ''TYPE'') @ '' IF EXISTS '' @ pg_table s n @ '' CASCADE;'' @ [nl]) types)
        | Inl _ \<Rightarrow> []) @
       (case all_rows (pc_publicationNames c) of
          Inr pubs \<Rightarrow> concat (map (\<lambda>p. ''DROP PUBLICATION IF EXISTS '' @ quotePGIdent p @ '';'' @ [nl]) pubs) | Inl _ \<Rightarrow> []))"

definition dumpSchemas :: "pg_catalog \<Rightarrow> pg_options \<Rightarrow> string list \<Rightarrow> written" where
  "dumpSchemas c o0 included =
     (case all_rows (pc_schemas c) of
        Inl e \<Rightarrow> ([], Some e)
      | Inr schemas \<Rightarrow>
          let needed = (\<lambda>n. po_Tables o0 = None \<or> list_ex (\<lambda>t. length (table_parts t) = 2 \<and> hd (table_parts t) = n) included)
          in say (concat (map (\<lambda>(n, owner).
               if needed n
               then [nl] @ ''-- Schema: '' @ n @ [nl] @ ''CREATE SCHEMA IF NOT EXISTS '' @ quotePGIdent n @ '';'' @ [nl] @
                    (if owner = [] then [] else ''ALTER SCHEMA '' @ quotePGIdent n @ '' OWNER TO '' @ quotePGRole owner @ '';'' @ [nl]) @
                    (case all_rows (pc_schemaGrants c n) of
                       Inr grants \<Rightarrow> if grants = [] then [] else formatGrants (''SCHEMA '' @ quotePGIdent n) grants | Inl _ \<Rightarrow> [])
               else []) schemas)))"

definition dumpSequences :: "pg_catalog \<Rightarrow> written" where
  "dumpSequences c =
     (case all_rows (pc_standaloneSequences c) of
        Inl e \<Rightarrow> ([], Some e)
      | Inr seqs \<Rightarrow>
          say (concat (map (\<lambda>(s, n, owner).
            case pc_sequenceDef c s n of
              Inl _ \<Rightarrow> []
            | Inr (seqType, opts) \<Rightarrow>
                [nl] @ ''-- Sequence: '' @ s @ ''.'' @ n @ [nl] @
                ''CREATE SEQUENCE IF NOT EXISTS '' @ pg_table s n @ '' AS '' @ seqType @ '' '' @ opts @ '';'' @ [nl] @
                (if owner = [] then [] else ''ALTER SEQUENCE '' @ pg_table s n @ '' OWNER TO '' @ quotePGRole owner @ '';'' @ [nl])) seqs)))"

definition setval_line :: "string \<Rightarrow> string \<Rightarrow> int \<Rightarrow> bool \<Rightarrow> string" where
  "setval_line s n lastVal isCalled =
     ''SELECT pg_catalog.setval('' @ [squote] @ escapePGLiteral (s @ ''.'' @ quotePGIdent n) @ [squote] @ '', '' @ itoa lastVal @ '', '' @
     (if isCalled then ''true'' else ''false'') @ '');'' @ [nl]"

definition sequence_lines :: "pg_catalog \<Rightarrow> string \<times> string \<times> string \<Rightarrow> string" where
  "sequence_lines c q = (case q of (s, n, _) \<Rightarrow>
     (case pc_sequenceOwner c s n of
        Inr (ownTable, ownCol) \<Rightarrow>
          if ownTable = [] then []
          else ''ALTER SEQUENCE '' @ pg_table s n @ '' OWNED BY '' @
               pg_table (hd (table_parts ownTable)) (hd (tl (table_parts ownTable))) @ ''.'' @ quotePGIdent ownCol @ '';'' @ [nl]
      | Inl _ \<Rightarrow> []) @
     (case pc_sequenceValue c (pg_table s n) of Inr (v, called) \<Rightarrow> setval_line s n v called | Inl _ \<Rightarrow> []))"

definition dumpSequenceValues :: "pg_catalog \<Rightarrow> pg_options \<Rightarrow> written" where
  "dumpSequenceValues c o0 =
     (if po_SchemaOnly o0 then nothing
      else case all_rows (pc_userSequences c) of
             Inl e \<Rightarrow> ([], Some e)
           | Inr seqs \<Rightarrow>
               say (with_heading ([nl] @ ''-- Sequence ownership and values'' @ [nl]) (map (sequence_lines c) seqs)))"

definition dumpTriggers :: "pg_catalog \<Rightarrow> string list \<Rightarrow> written" where
  "dumpTriggers c tables =
     say (concat (map (\<lambda>t.
       case table_parts t of
         [s, n] \<Rightarrow>
           concat (map (\<lambda>(name, def).
             if def = [] then []
             else [nl] @ ''-- Trigger: '' @ name @ '' (on '' @ s @ ''.'' @ n @ '')'' @ [nl] @
                  ''DROP TRIGGER IF EXISTS '' @ quotePGIdent name @ '' ON '' @ pg_table s n @ '';'' @ [nl] @
                  trim_suffix (trim_space def) '';'' @ '';'' @ [nl]) (rows_before_error (pc_triggers c s n)))
       | _ \<Rightarrow> []) tables))"

fun column_names :: "pg_catalog \<Rightarrow> string \<Rightarrow> string \<Rightarrow> string list \<Rightarrow> string list option" where
  "column_names c s t [] = Some []"
| "column_names c s t (a # as) =
     (case pc_columnName c s t a of
        Inl _ \<Rightarrow> None
      | Inr col \<Rightarrow> if col = [] then None else map_option (\<lambda>cs. quotePGIdent col # cs) (column_names c s t as))"

definition pubColumnNames :: "pg_catalog \<Rightarrow> string \<Rightarrow> string \<Rightarrow> string \<Rightarrow> string" where
  "pubColumnNames c s t attrs =
     (let a = trim_space attrs
      in if a = [] \<or> a = ''{}'' then []
         else case column_names c s t (str_fields a) of None \<Rightarrow> [] | Some cols \<Rightarrow> join '', '' cols)"

definition publication_tables :: "pg_catalog \<Rightarrow> pg_publication \<Rightarrow> string + string list" where
  "publication_tables c p =
     (if pb_all p then Inr []
      else case all_rows (pc_publicationTables c (pb_name p)) of
             Inl e \<Rightarrow> Inl e
           | Inr ts \<Rightarrow>
               Inr (map (\<lambda>(s, t, attrs). pg_table s t @
                 (let cols = pubColumnNames c s t (case attrs of Some a \<Rightarrow> a | None \<Rightarrow> [])
                  in if cols = [] then [] else '' ('' @ cols @ '')'')) ts))"

definition publication_text :: "pg_publication \<Rightarrow> string list \<Rightarrow> string" where
  "publication_text p tables =
     (let ops = (if pb_ins p then [''insert''] else []) @ (if pb_upd p then [''update''] else []) @
                (if pb_del p then [''delete''] else []) @ (if pb_trunc p then [''truncate''] else []);
          opts = (if length ops \<noteq> 4 then [''publish = '' @ [squote] @ join '', '' ops @ [squote]] else []) @
                 (if pb_viaroot p then [''publish_via_partition_root = true''] else []) @
                 (if pb_gencols p = Some ''n'' then [''publish_generated_columns = none''] else [])
      in [nl] @ ''-- Publication: '' @ pb_name p @ [nl] @ ''CREATE PUBLICATION '' @ quotePGIdent (pb_name p) @
         (if pb_all p then '' FOR ALL TABLES'' else if tables = [] then [] else '' FOR TABLE '' @ join '', '' tables) @
         (if opts = [] then [] else '' WITH ('' @ join '', '' opts @ '')'') @ '';'' @ [nl] @
         (if pb_owner p = [] then []
          else ''ALTER PUBLICATION '' @ quotePGIdent (pb_name p) @ '' OWNER TO '' @ quotePGRole (pb_owner p) @ '';'' @ [nl]))"

definition dumpPublications :: "pg_catalog \<Rightarrow> written" where
  "dumpPublications c =
     (case all_rows (pc_publications c) of
        Inl e \<Rightarrow> ([], Some e)
      | Inr pubs \<Rightarrow>
          write_all (\<lambda>p. case publication_tables c p of Inl e \<Rightarrow> ([], Some e) | Inr ts \<Rightarrow> say (publication_text p ts)) pubs)"

section \<open>Large objects\<close>

definition blob_lines :: "int \<Rightarrow> string" where
  "blob_lines oid =
     ''DO $$BEGIN IF NOT EXISTS (SELECT 1 FROM pg_catalog.pg_largeobject_metadata WHERE oid = '' @ itoa oid @
     '') THEN PERFORM pg_catalog.lo_create('' @ itoa oid @ ''); END IF; END$$;'' @ [nl] @
     ''DELETE FROM pg_catalog.pg_largeobject WHERE loid = '' @ itoa oid @ '';'' @ [nl]"

definition blob_page :: "int \<times> int \<times> string \<Rightarrow> string" where
  "blob_page p = (case p of (loid, pageno, data) \<Rightarrow>
     itoa loid @ [tab] @ itoa pageno @ [tab, bslash, bslash] @ ''x'' @ hex_encode data @ [nl])"

fun blob_pages :: "(string + int \<times> int \<times> string) list \<Rightarrow> string option \<Rightarrow> written" where
  "blob_pages [] (Some e) = ([], Some e)"
| "blob_pages [] None = (copy_end @ [nl, nl], None)"
| "blob_pages (Inl e # rs) err = ([], Some e)"
| "blob_pages (Inr p # rs) err = then_write (blob_page p, None) (\<lambda>_. blob_pages rs err)"

definition writeBlobs :: "pg_catalog \<Rightarrow> int list \<Rightarrow> written" where
  "writeBlobs c ordered =
     (if \<not> pc_loReadable c then nothing
      else then_write (say (concat (map blob_lines ordered) @ ''COPY pg_catalog.pg_largeobject (loid, pageno, data) FROM stdin;'' @ [nl])) (\<lambda>_.
        case pc_loPages c ordered of Inl e \<Rightarrow> ([], Some e) | Inr (rs, err) \<Rightarrow> blob_pages rs err))"

definition dumpOrphanBlobs :: "pg_catalog \<Rightarrow> written" where
  "dumpOrphanBlobs c =
     (case all_rows (pc_loAll c) of
        Inl e \<Rightarrow> ([], Some e) | Inr oids \<Rightarrow> if remdups oids = [] then nothing else writeBlobs c (rev (remdups (rev oids))))"

text \<open>The columns that refer to large objects, of the tables that have some.\<close>

definition lo_columns :: "pg_catalog \<Rightarrow> string list \<Rightarrow> (string \<times> string \<times> string) list" where
  "lo_columns c tables =
     concat (map (\<lambda>t. case table_parts t of
         [s, n] \<Rightarrow> (case all_rows (pc_loColumns c s n) of Inl _ \<Rightarrow> [] | Inr cols \<Rightarrow> map (\<lambda>col. (s, n, col)) cols)
       | _ \<Rightarrow> []) tables)"

definition dumpBlobs :: "pg_catalog \<Rightarrow> pg_options \<Rightarrow> string list \<Rightarrow> written" where
  "dumpBlobs c o0 tables =
     (if po_SchemaOnly o0 then nothing
      else let cols = lo_columns c tables;
               oids = sort (remdups (concat (map (\<lambda>(s, n, col). rows_scanned (pc_loOids c s n col)) cols)))
           in if cols = [] then dumpOrphanBlobs c else if oids = [] then nothing else writeBlobs c oids)"

text \<open>
  Once some dumped table has a column for large objects, only the large objects that such
  columns refer to are dumped: the others of the database are left out without an error, though
  all of them are dumped when no table has such a column.
\<close>

theorem orphan_blobs_left_out:
  assumes "lo_columns c tables = [(s, n, col)]" and "pc_loOids c s n col = Inr ([Inr 5], None)" and "pc_loAll c = Inr ([Inr 5, Inr 6], None)"
    and "\<not> po_SchemaOnly o0"
  shows "dumpBlobs c o0 tables = writeBlobs c [5] \<and> dumpBlobs (c\<lparr>pc_loColumns := \<lambda>_ _. Inr ([], None)\<rparr>) o0 tables =
    writeBlobs (c\<lparr>pc_loColumns := \<lambda>_ _. Inr ([], None)\<rparr>) [5, 6]"
proof
  show "dumpBlobs c o0 tables = writeBlobs c [5]"
    using assms by (simp add: dumpBlobs_def rows_scanned_def)
  have "lo_columns (c\<lparr>pc_loColumns := \<lambda>_ _. Inr ([], None)\<rparr>) tables = []"
    by (auto simp: lo_columns_def all_rows_def split: list.splits)
  then show "dumpBlobs (c\<lparr>pc_loColumns := \<lambda>_ _. Inr ([], None)\<rparr>) o0 tables =
    writeBlobs (c\<lparr>pc_loColumns := \<lambda>_ _. Inr ([], None)\<rparr>) [5, 6]"
    using assms(3,4) by (simp add: dumpBlobs_def dumpOrphanBlobs_def all_rows_def)
qed

theorem orphan_blobs_left_out_witness:
  "dumpBlobs demo_catalog \<lparr>po_Tables = None, po_SchemaOnly = False\<rparr> [''s.t''] = writeBlobs demo_catalog [5] \<and>
   dumpBlobs (demo_catalog\<lparr>pc_loColumns := \<lambda>_ _. Inr ([], None)\<rparr>) \<lparr>po_Tables = None, po_SchemaOnly = False\<rparr> [''s.t''] =
     writeBlobs (demo_catalog\<lparr>pc_loColumns := \<lambda>_ _. Inr ([], None)\<rparr>) [5, 6]"
proof (rule orphan_blobs_left_out)
  show "lo_columns demo_catalog [''s.t''] = [(''s'', ''t'', ''doc'')]" by code_simp
qed (simp_all add: demo_catalog_def)

section \<open>Globals\<close>

definition role_options :: "pg_role \<Rightarrow> string" where
  "role_options r =
     (if ro_super r then '' SUPERUSER'' else '' NOSUPERUSER'') @ (if ro_inherit r then '' INHERIT'' else '' NOINHERIT'') @
     (if ro_createrole r then '' CREATEROLE'' else '' NOCREATEROLE'') @ (if ro_createdb r then '' CREATEDB'' else '' NOCREATEDB'') @
     (if ro_canlogin r then '' LOGIN'' else '' NOLOGIN'') @ (if ro_replication r then '' REPLICATION'' else '' NOREPLICATION'') @
     (if ro_connlimit r > 0 then '' CONNECTION LIMIT '' @ itoa (ro_connlimit r) else [])"

definition role_line :: "pg_role \<Rightarrow> string" where
  "role_line r = ''CREATE ROLE '' @ quotePGIdent (ro_name r) @ '' WITH'' @ role_options r @ '';'' @ [nl]"

definition buildTablespace :: "string \<Rightarrow> string \<Rightarrow> string \<Rightarrow> (string \<times> string) list \<Rightarrow> string" where
  "buildTablespace name owner location opts =
     ''DROP TABLESPACE IF EXISTS '' @ quotePGIdent name @ '';'' @ [nl] @ ''CREATE TABLESPACE '' @ quotePGIdent name @
     '' OWNER '' @ quotePGIdent owner @ '' LOCATION '' @ [squote] @ escapePGLiteral location @ [squote] @
     (if opts = [] then []
      else '' WITH ('' @ join '', '' (map (\<lambda>(n, v). quotePGIdent n @ '' = '' @ [squote] @ escapePGLiteral v @ [squote]) opts) @ '')'') @ '';''"

text \<open>A row for each option of a tablespace; the owner and the location are those of its first row.\<close>

definition dumpTablespaces :: "pg_catalog \<Rightarrow> written" where
  "dumpTablespaces c =
     (case all_rows (pc_tablespaces c) of
        Inl e \<Rightarrow> ([], Some e)
      | Inr rs \<Rightarrow>
          let spaces = group_by fst snd (filter (\<lambda>(_, _, location, _). location \<noteq> []) rs)
          in if spaces = [] then nothing
             else say ([nl] @ ''-- Tablespaces (locations are cluster-specific and may need editing)'' @ [nl] @
               concat (map (\<lambda>(name, vs).
                 buildTablespace name (fst (hd vs)) (fst (snd (hd vs)))
                   (List.map_filter (\<lambda>(_, _, n, v). map_option (\<lambda>k. (k, case v of Some x \<Rightarrow> x | None \<Rightarrow> [])) n) vs) @ [nl]) spaces)))"

fun write_rows :: "('r \<Rightarrow> string) \<Rightarrow> (string + 'r) list \<Rightarrow> string option \<Rightarrow> written" where
  "write_rows f [] err = ([], err)"
| "write_rows f (Inl e # rs) err = ([], Some e)"
| "write_rows f (Inr r # rs) err = then_write (f r, None) (\<lambda>_. write_rows f rs err)"

definition DumpGlobals :: "pg_catalog \<Rightarrow> string \<Rightarrow> written" where
  "DumpGlobals c banner =
     then_write (say (banner @ ''--'' @ [nl, nl])) (\<lambda>_.
       then_write (case pc_roles c of Inl e \<Rightarrow> ([], Some e) | Inr (rs, err) \<Rightarrow> write_rows role_line rs err) (\<lambda>_.
         then_write (case pc_members c of
             Inl _ \<Rightarrow> nothing
           | Inr (rs, err) \<Rightarrow> write_rows (\<lambda>(member, role). ''GRANT '' @ quotePGIdent role @ '' TO '' @ quotePGIdent member @ '';'' @ [nl]) rs err) (\<lambda>_.
           then_write (dumpTablespaces c) (\<lambda>_. say ([nl] @ ''-- Globals dump completed'' @ [nl])))))"

section \<open>Objects built from rows of the catalogue\<close>

definition pg_options_clause :: "(string \<times> string) list \<Rightarrow> string" where
  "pg_options_clause opts =
     (if opts = [] then []
      else '' OPTIONS ('' @ join '', '' (map (\<lambda>(n, v). quotePGIdent n @ '' '' @ [squote] @ escapePGLiteral v @ [squote]) opts) @ '')'')"

definition pgTagList :: "string \<Rightarrow> string list" where
  "pgTagList raw0 =
     (let raw = trim_space raw0
      in if raw = [] \<or> raw = ''{}'' then []
         else filter (\<lambda>t. t \<noteq> []) (map (\<lambda>t. let s = trim_space t in rev (dropWhile (\<lambda>c. c = quot) (rev (dropWhile (\<lambda>c. c = quot) s))))
                (split_char (CHR '','') (trim_prefix (trim_suffix raw ''}'') ''{''))))"

definition buildEventTrigger :: "string \<Rightarrow> string \<Rightarrow> string list \<Rightarrow> string \<Rightarrow> string \<Rightarrow> string" where
  "buildEventTrigger name event tags function enabled =
     ''DROP EVENT TRIGGER IF EXISTS '' @ quotePGIdent name @ '';'' @ [nl] @ ''CREATE EVENT TRIGGER '' @ quotePGIdent name @ '' ON '' @ quotePGIdent event @
     (if tags = [] then [] else '' WHEN TAG IN ('' @ join '', '' (map (\<lambda>t. [squote] @ escapePGLiteral t @ [squote]) tags) @ '')'') @
     '' EXECUTE FUNCTION '' @ function @ '';'' @
     (if enabled = ''D'' then [nl] @ ''ALTER EVENT TRIGGER '' @ quotePGIdent name @ '' DISABLE;''
      else if enabled = ''R'' then [nl] @ ''ALTER EVENT TRIGGER '' @ quotePGIdent name @ '' ENABLE REPLICA;''
      else if enabled = ''A'' then [nl] @ ''ALTER EVENT TRIGGER '' @ quotePGIdent name @ '' ENABLE ALWAYS;'' else [])"

definition buildForeignServer :: "string \<Rightarrow> string \<Rightarrow> string \<Rightarrow> (string \<times> string) list \<Rightarrow> string" where
  "buildForeignServer name fdw owner opts =
     ''DROP SERVER IF EXISTS '' @ quotePGIdent name @ '' CASCADE;'' @ [nl] @ ''CREATE SERVER '' @ quotePGIdent name @ '' FOREIGN DATA WRAPPER '' @
     quotePGIdent fdw @ pg_options_clause opts @ '';'' @ [nl] @ ''ALTER SERVER '' @ quotePGIdent name @ '' OWNER TO '' @ quotePGRole owner @ '';''"

definition buildUserMapping :: "string \<Rightarrow> string \<Rightarrow> (string \<times> string) list \<Rightarrow> string" where
  "buildUserMapping user server opts =
     (let forUser = (if user = [] then ''PUBLIC'' else quotePGIdent user)
      in ''DROP USER MAPPING IF EXISTS FOR '' @ forUser @ '' SERVER '' @ quotePGIdent server @ '';'' @ [nl] @
         ''CREATE USER MAPPING FOR '' @ forUser @ '' SERVER '' @ quotePGIdent server @ pg_options_clause opts @ '';'')"

definition buildForeignTable :: "string \<Rightarrow> string \<Rightarrow> string \<Rightarrow> (string \<times> string \<times> bool \<times> (string \<times> string) list) list \<Rightarrow> (string \<times> string) list \<Rightarrow> string" where
  "buildForeignTable schema name server cols opts =
     ''DROP FOREIGN TABLE IF EXISTS '' @ pg_table schema name @ '' CASCADE;'' @ [nl] @ ''CREATE FOREIGN TABLE '' @ pg_table schema name @ '' ('' @ [nl] @
     join ('','' @ [nl]) (map (\<lambda>(n, typ, notNull, o1). ''    '' @ quotePGIdent n @ '' '' @ typ @ (if notNull then '' NOT NULL'' else []) @ pg_options_clause o1) cols) @
     [nl] @ '') SERVER '' @ quotePGIdent server @ pg_options_clause opts @ '';''"

definition buildLanguage :: "string \<Rightarrow> bool \<Rightarrow> string \<Rightarrow> string \<Rightarrow> string \<Rightarrow> string" where
  "buildLanguage name trusted handler inl validator =
     ''DROP LANGUAGE IF EXISTS '' @ quotePGIdent name @ '';'' @ [nl] @ (if trusted then ''CREATE TRUSTED'' else ''CREATE'') @
     '' PROCEDURAL LANGUAGE '' @ quotePGIdent name @ (if handler = [] then [] else '' HANDLER '' @ handler) @
     (if inl = [] then [] else '' INLINE '' @ inl) @ (if validator = [] then [] else '' VALIDATOR '' @ validator) @ '';''"

definition buildCast :: "string \<Rightarrow> string \<Rightarrow> string \<Rightarrow> string \<Rightarrow> string" where
  "buildCast source target function ctx =
     ''DROP CAST IF EXISTS ('' @ source @ '' AS '' @ target @ '');'' @ [nl] @ ''CREATE CAST ('' @ source @ '' AS '' @ target @ '')'' @
     (if function = [] then [] else '' WITH FUNCTION '' @ function) @
     (if ctx = ''a'' then '' AS ASSIGNMENT'' else if ctx = ''i'' then '' AS IMPLICIT'' else []) @ '';''"

text \<open>
  A cast without a function is created without saying how it converts, where the statement has
  to say \<open>WITHOUT FUNCTION\<close> or \<open>WITH INOUT\<close>: it ends right behind the types.
\<close>

lemma binary_cast_incomplete:
  "buildCast source target [] [] =
     ''DROP CAST IF EXISTS ('' @ source @ '' AS '' @ target @ '');'' @ [nl] @ ''CREATE CAST ('' @ source @ '' AS '' @ target @ '');''"
  by (simp add: buildCast_def)

definition buildConversion :: "string \<Rightarrow> string \<Rightarrow> string \<Rightarrow> string \<Rightarrow> string \<Rightarrow> string" where
  "buildConversion name source target function def =
     ''DROP CONVERSION IF EXISTS '' @ quotePGIdent name @ '';'' @ [nl] @ (if def = ''t'' then ''CREATE DEFAULT'' else ''CREATE'') @
     '' CONVERSION '' @ quotePGIdent name @ '' FOR '' @ [squote] @ source @ [squote] @ '' TO '' @ [squote] @ target @ [squote] @ '' FROM '' @ function @ '';''"

definition buildOpFamily :: "string \<Rightarrow> string \<Rightarrow> string" where
  "buildOpFamily name meth =
     ''DROP OPERATOR FAMILY IF EXISTS '' @ quotePGIdent name @ '' USING '' @ quotePGIdent meth @ '';'' @ [nl] @
     ''CREATE OPERATOR FAMILY '' @ quotePGIdent name @ '' USING '' @ quotePGIdent meth @ '';''"

definition buildOpClassDef :: "string \<Rightarrow> string \<Rightarrow> string \<Rightarrow> string \<Rightarrow> string \<Rightarrow> string \<Rightarrow> string" where
  "buildOpClassDef name family meth datatype0 isDefault members =
     ''DROP OPERATOR CLASS IF EXISTS '' @ quotePGIdent name @ '' USING '' @ quotePGIdent meth @ '';'' @ [nl] @
     ''CREATE OPERATOR CLASS '' @ quotePGIdent name @ (if isDefault = ''t'' then '' DEFAULT'' else []) @ '' FOR TYPE '' @ datatype0 @
     '' USING '' @ quotePGIdent meth @ '' FAMILY '' @ quotePGIdent family @ '' AS '' @ members @ '';''"

definition buildTextSearchParser :: "string \<Rightarrow> string \<Rightarrow> string \<Rightarrow> string \<Rightarrow> string \<Rightarrow> string \<Rightarrow> string \<Rightarrow> string" where
  "buildTextSearchParser schema name start token end0 headline lextype =
     ''DROP TEXT SEARCH PARSER IF EXISTS '' @ pg_table schema name @ '';'' @ [nl] @ ''CREATE TEXT SEARCH PARSER '' @ pg_table schema name @ '' ('' @ [nl] @
     ''    START = '' @ start @ '','' @ [nl] @ ''    GETTOKEN = '' @ token @ '','' @ [nl] @ ''    END = '' @ end0 @ '','' @ [nl] @
     ''    HEADLINE = '' @ headline @ '','' @ [nl] @ ''    LEXTYPES = '' @ lextype @ '');''"

definition buildTextSearchTemplate :: "string \<Rightarrow> string \<Rightarrow> string \<Rightarrow> string" where
  "buildTextSearchTemplate schema name lexize =
     ''DROP TEXT SEARCH TEMPLATE IF EXISTS '' @ pg_table schema name @ '';'' @ [nl] @
     ''CREATE TEXT SEARCH TEMPLATE '' @ pg_table schema name @ '' (LEXIZE = '' @ lexize @ '');''"

definition buildTextSearchDictionary :: "string \<Rightarrow> string \<Rightarrow> string \<Rightarrow> string \<Rightarrow> string" where
  "buildTextSearchDictionary schema name template initoption =
     ''DROP TEXT SEARCH DICTIONARY IF EXISTS '' @ pg_table schema name @ '';'' @ [nl] @
     ''CREATE TEXT SEARCH DICTIONARY '' @ pg_table schema name @ '' (TEMPLATE = '' @ template @
     (if trim_space initoption = [] then [] else '', '' @ trim_space initoption) @ '');''"

definition buildTextSearchConfiguration :: "string \<Rightarrow> string \<Rightarrow> string \<Rightarrow> string list \<Rightarrow> string" where
  "buildTextSearchConfiguration schema name parser mappings =
     ''DROP TEXT SEARCH CONFIGURATION IF EXISTS '' @ pg_table schema name @ '';'' @ [nl] @
     ''CREATE TEXT SEARCH CONFIGURATION '' @ pg_table schema name @ '' (PARSER = '' @ parser @ '');'' @
     concat (map (\<lambda>m. [nl] @ m @ '';'') mappings)"

section \<open>A database\<close>

text \<open>The tables one after another: text, names of the partitions, statements for later, error.\<close>

definition dump_tables :: "pg_catalog \<Rightarrow> pg_options \<Rightarrow> string list \<Rightarrow> string \<times> string list \<times> string list \<times> string list \<times> string option" where
  "dump_tables c o0 ts =
     fold (\<lambda>t (out, names, att, fks, err).
       if err \<noteq> None then (out, names, att, fks, err)
       else let d = pg_dumpTable c o0 t
            in if pd_error d \<noteq> None then (out @ pd_text d, names, att, fks, pd_error d)
               else (out @ pd_text d, names @ pd_names d, att @ (if pd_attach d = [] then [] else [pd_attach d]),
                     fks @ (if pd_constraints d = [] then [] else [pd_constraints d]), None)) ts ([], [], [], [], None)"

definition titled :: "string \<Rightarrow> string list \<Rightarrow> written" where
  "titled h parts = say (if parts = [] then [] else [nl] @ h @ [nl] @ concat parts)"

definition pg_dumpDatabase :: "pg_catalog \<Rightarrow> pg_options \<Rightarrow> string \<Rightarrow> written" where
  "pg_dumpDatabase c o0 dbName =
     then_write (say ([nl] @ ''-- Database: '' @ dbName @ [nl])) (\<lambda>_.
       case pg_listTables c of
         Inl e \<Rightarrow> ([], Some e)
       | Inr tables \<Rightarrow>
           let included = orderTablesByInheritance (pc_inherits c) (filter (table_included o0) tables);
               (types, domainChecks) = pc_types c;
               (matviews, refreshes) = pc_matviews c;
               (tableText, partitions, attachDefs, fkDefs, tableErr) = dump_tables c o0 included;
               postTables = included @ partitions
           in write_all (\<lambda>part. part)
                [dumpDrops c included, dumpSchemas c o0 included, pc_section c SecExtensions, pc_section c SecCollations, types,
                 pc_section c SecLanguages, pc_section c (SecFunctions False), pc_section c SecAggregates,
                 titled ''-- Domain checks'' domainChecks,
                 pc_section c SecForeignServers, pc_section c SecUserMappings, pc_section c SecForeignTables, pc_section c SecTextSearch,
                 pc_section c SecCasts, pc_section c SecConversions, pc_section c SecOpClasses, pc_section c SecEventTriggers, dumpSequences c,
                 (tableText, tableErr), titled ''-- Attach partitions'' attachDefs,
                 titled ''-- Foreign keys and exclusion constraints'' fkDefs,
                 pc_section c SecViews, matviews, pc_section c (SecFunctions True),
                 dumpTriggers c postTables, pc_section c (SecRowSecurity postTables), pc_section c (SecRules postTables),
                 pc_section c (SecStatistics postTables), pc_section c SecComments,
                 dumpBlobs c o0 postTables, dumpSequenceValues c o0, dumpACLs c postTables,
                 dumpDefaultPrivileges c, dumpPublications c, titled ''-- Materialized view data'' refreshes])"

text \<open>
  \<open>Dump\<close> for the databases of a job. \<open>conn\<close> opens a connection to a database, \<open>own\<close> is the
  database of the own connection.
\<close>

definition pg_dumpAll :: "pg_catalog \<Rightarrow> (string \<Rightarrow> string + pg_catalog) \<Rightarrow> pg_options \<Rightarrow> written" where
  "pg_dumpAll c conn o0 =
     (case all_rows (pc_databases c) of
        Inl e \<Rightarrow> ([], Some e)
      | Inr dbs \<Rightarrow> write_all (\<lambda>db. case conn db of Inl e \<Rightarrow> ([], Some e) | Inr c' \<Rightarrow> pg_dumpDatabase c' o0 db) (filter (\<lambda>d. \<not> isPgSystemDB d) dbs))"

definition pg_Dump :: "pg_catalog \<Rightarrow> string \<Rightarrow> (string \<Rightarrow> string + pg_catalog) \<Rightarrow> pg_options \<Rightarrow> string \<Rightarrow> string list \<Rightarrow> written" where
  "pg_Dump c own conn o0 header dbNames =
     then_write (say header) (\<lambda>_.
       then_write (write_all (\<lambda>db.
         if to_lower db = ''all'' then pg_dumpAll c conn o0
         else if own \<noteq> db \<and> own \<noteq> [] \<and> db \<noteq> [] then
           (case conn db of Inl e \<Rightarrow> ([], Some e) | Inr c' \<Rightarrow> pg_dumpDatabase c' o0 db)
         else pg_dumpDatabase c o0 db) dbNames) (\<lambda>_. say (''-- Dump completed'' @ [nl])))"

text \<open>
  A table is named by its schema and its name with a dot between them, and read again at the
  first dot: a schema whose name has a dot is dumped under the wrong names.
\<close>

lemma dotted_schema_misread:
  "table_parts (''a.b'' @ ''.'' @ ''c'') = [''a'', ''b.c'']"
  "CHR ''.'' \<notin> set s \<Longrightarrow> table_parts (s @ ''.'' @ n) = [s, n]"
  by (simp add: table_parts_def splitn2_def) (simp add: table_parts_def splitn2_sep)

end
