(* ===== verification/License.thy ===== *)
theory License
  imports TextCodec Filename
begin

text \<open>
  The licence (\<open>internal/license\<close>, \<open>supported/license/revocation.go\<close>): reading it from its
  places, checking it, and asking it for a feature. Signatures, message authentication, the
  decoding of JSON and decompression are functions of the environment, as are the files,
  the variables and the clock.

  The lemmas show that a feature is allowed only by a licence that was signed with an embedded
  key, names the feature, is in its time window and is not revoked.
\<close>

unbundle bit_operations_syntax

section \<open>Data\<close>

record customer =
  cu_Name :: string
  cu_Email :: string
  cu_OrgID :: string

record license =
  li_Customer :: customer
  li_ExpiresAt :: string
  li_Features :: "string list"
  li_Format :: int
  li_IssuedAt :: string
  li_KeyID :: string
  li_LicenseID :: string
  li_MaxInstances :: "int option"
  li_NotBefore :: string
  li_Revoked :: bool
  li_Tier :: string
  li_Tool :: string
  li_sig :: string
  li_tokens :: "(string \<times> string) list"

datatype license_error =
    Malformed | BadJson string | BadFormat int | NoKeyID | UnknownKey string | BadKeyLength | BadSignature
  | NotYetValid string | NoExpiry | BadExpiry string | Expired string | RevokedInPlace | OtherTool string
  | EmptyValue | Unrecognized | NotArtifact | Inflate string | TooDeep | FileMissing | FileError string
  | NoLicense | Invalid license_error | RevokedByServer | NoFeature string

record license_env =
  le_now :: gotime
  le_local :: location
  le_verify :: "string \<Rightarrow> string \<Rightarrow> string \<Rightarrow> bool"
  le_hmac :: "string \<Rightarrow> string \<Rightarrow> string"
  le_unmarshal :: "string \<Rightarrow> string + license"
  le_gunzip :: "string \<Rightarrow> string + string"
  le_unzstd :: "string \<Rightarrow> string + string"
  le_read :: "string \<Rightarrow> license_error + string"
  le_isfile :: "string \<Rightarrow> bool"
  le_getenv :: "string \<Rightarrow> string"
  le_cwd :: "string option"
  le_goos :: string
  le_isRevoked :: "(string \<Rightarrow> bool) option"

section \<open>The embedded key and the salts\<close>

definition bytes :: "nat list \<Rightarrow> string" where
  "bytes ns = map char_of ns"

definition keySeedA :: "nat list" where
  "keySeedA = [0x97, 0x44, 0xa0, 0xf7, 0x74, 0xdc, 0x29, 0x6d, 0xe0, 0x7e, 0x3d, 0x8f, 0xfd, 0x94, 0x0d, 0x40]"

definition keySeedB :: "nat list" where
  "keySeedB = [0x14, 0xca, 0x5e, 0x8d, 0xd3, 0x10, 0x8d, 0xf1, 0xac, 0xe4, 0xf7, 0x48, 0xef, 0x37, 0x95, 0xa8]"

definition maskSeed :: "nat list" where
  "maskSeed = [0xa1, 0xa2, 0xa3, 0xa4, 0xa5, 0xa6, 0xa7, 0xa8, 0xa9, 0xaa, 0xab, 0xac, 0xad, 0xae, 0xaf, 0xb0]"

definition assembleKey :: string where
  "assembleKey = bytes (map2 (XOR) keySeedA maskSeed @ map2 (XOR) keySeedB maskSeed)"

definition publicKeys :: "(string \<times> string) list" where
  "publicKeys = [(''nfrastack-2026-01'', assembleKey)]"

definition hexVal :: "char \<Rightarrow> nat" where
  "hexVal c =
     (let n = of_char c :: nat
      in if is_digit c then n - 48 else if 97 \<le> n \<and> n \<le> 102 then n - 87 else if 65 \<le> n \<and> n \<le> 70 then n - 55 else 0)"

fun mustHex :: "string \<Rightarrow> string" where
  "mustHex (a # b # s) = char_of (hexVal a * 16 + hexVal b) # mustHex s"
| "mustHex _ = []"

definition featureSalts :: "(string \<times> string) list" where
  "featureSalts =
     [(''encryption'', mustHex ''12839fb6a7572d0163f30cd8''), (''incremental'', mustHex ''38d2598918f9c1032df540b0''),
      (''storage'', mustHex ''8951c810626a''), (''archive'', mustHex ''73bc88002a98''), (''retention'', mustHex ''9168b0706b86''),
      (''maintenance'', mustHex ''6ef5d652a1a9''), (''schedule'', mustHex ''a1b2c304d5e6f7081920a3b4''),
      (''restore'', mustHex ''c4d5e6f7081920a3b4c5d6e7''), (''notifications'', mustHex ''f0e1d2c3b4a5968778695a4b'')]"

definition featureSalt :: "string \<Rightarrow> string" where
  "featureSalt feature = (case map_of featureSalts feature of Some s \<Rightarrow> s | None \<Rightarrow> feature)"

definition keySalt :: string where
  "keySalt = ''db-backup/features/v1''"

definition deriveToken :: "license_env \<Rightarrow> string \<Rightarrow> string \<Rightarrow> string" where
  "deriveToken env sig salt = le_hmac env sig (keySalt @ salt)"

section \<open>Parsing\<close>

definition decodeB64 :: "string \<Rightarrow> string option" where
  "decodeB64 s =
     (case b64_decode url_alphabet False s of Some b \<Rightarrow> Some b | None \<Rightarrow> b64_decode std_alphabet True s)"

text \<open>The text before and behind the last dot, both not empty.\<close>

definition artifact :: "string \<Rightarrow> license_error + string \<times> string" where
  "artifact raw =
     (let sigText = rev (takeWhile (\<lambda>c. c \<noteq> CHR ''.'') (rev raw)); rest = rev (tl (dropWhile (\<lambda>c. c \<noteq> CHR ''.'') (rev raw)))
      in if CHR ''.'' \<notin> set raw \<or> rest = [] \<or> sigText = [] then Inl Malformed
         else case (decodeB64 rest, decodeB64 sigText) of (Some payload, Some sig) \<Rightarrow> Inr (payload, sig) | _ \<Rightarrow> Inl Malformed)"

definition checkWindow :: "license_env \<Rightarrow> license \<Rightarrow> license_error option" where
  "checkWindow env lic =
     (let early = (case parse_rfc3339 (le_local env) (li_NotBefore lic) of Some t \<Rightarrow> before (le_now env) t | None \<Rightarrow> False)
      in if li_NotBefore lic \<noteq> [] \<and> early then Some (NotYetValid (li_NotBefore lic))
         else if li_ExpiresAt lic = [] then Some NoExpiry
         else case parse_rfc3339 (le_local env) (li_ExpiresAt lic) of
                None \<Rightarrow> Some (BadExpiry (li_ExpiresAt lic))
              | Some exp \<Rightarrow> if after (le_now env) exp then Some (Expired (li_ExpiresAt lic)) else None)"

definition license_parse :: "license_env \<Rightarrow> (string \<times> string) list \<Rightarrow> string \<Rightarrow> license_error + license" where
  "license_parse env keys raw =
     (case artifact raw of
        Inl e \<Rightarrow> Inl e
      | Inr (payload, sig) \<Rightarrow>
          (case le_unmarshal env payload of
             Inl e \<Rightarrow> Inl (BadJson e)
           | Inr lic \<Rightarrow>
               if li_Format lic \<noteq> 1 then Inl (BadFormat (li_Format lic))
               else if li_KeyID lic = [] then Inl NoKeyID
               else case map_of keys (li_KeyID lic) of
                      None \<Rightarrow> Inl (UnknownKey (li_KeyID lic))
                    | Some pub \<Rightarrow>
                        if length pub \<noteq> 32 then Inl BadKeyLength
                        else if \<not> le_verify env pub payload sig then Inl BadSignature
                        else case checkWindow env lic of
                               Some e \<Rightarrow> Inl e
                             | None \<Rightarrow>
                                 if li_Revoked lic then Inl RevokedInPlace
                                 else if li_Tool lic \<noteq> ''db-backup'' then Inl (OtherTool (li_Tool lic))
                                 else Inr (lic\<lparr>li_sig := sig,
                                        li_tokens := map (\<lambda>f. (f, deriveToken env sig (featureSalt f))) (li_Features lic)\<rparr>)))"

definition license_permits :: "license_env \<Rightarrow> license \<Rightarrow> string \<Rightarrow> bool" where
  "license_permits env lic feature \<longleftrightarrow>
     li_sig lic \<noteq> [] \<and> map_of (li_tokens lic) feature = Some (deriveToken env (li_sig lic) (featureSalt feature))"

definition hasFeature :: "license_env \<Rightarrow> license \<Rightarrow> string \<Rightarrow> string \<Rightarrow> bool" where
  "hasFeature env lic feature salt \<longleftrightarrow> map_of (li_tokens lic) feature = Some (deriveToken env (li_sig lic) salt)"

section \<open>Finding the licence\<close>

definition looksLikeArtifact :: "string \<Rightarrow> bool" where
  "looksLikeArtifact v =
     (if v = [] \<or> contains_any v [CHR ''/'', bslash] then False
      else case split_char (CHR ''.'') v of [a, b] \<Rightarrow> a \<noteq> [] \<and> decodeB64 a \<noteq> None | _ \<Rightarrow> False)"

definition no_spaces :: "string \<Rightarrow> string" where
  "no_spaces s = concat (str_fields s)"

text \<open>The first of the four encodings that decodes to something.\<close>

definition decodeAnyBase64 :: "string \<Rightarrow> string option" where
  "decodeAnyBase64 s0 =
     (let s = no_spaces s0;
          tries = [b64_decode url_alphabet False s, b64_decode url_alphabet True s, b64_decode std_alphabet False s, b64_decode std_alphabet True s]
      in case filter (\<lambda>r. r \<noteq> None \<and> r \<noteq> Some []) tries of r # _ \<Rightarrow> r | [] \<Rightarrow> None)"

definition magicGzip :: string where "magicGzip = bytes [0x1f, 0x8b]"
definition magicZstd :: string where "magicZstd = bytes [0x28, 0xb5, 0x2f, 0xfd]"

definition hasCompressedMagic :: "string \<Rightarrow> bool" where
  "hasCompressedMagic b \<longleftrightarrow> has_prefix b magicGzip \<or> has_prefix b magicZstd"

definition looksLikeCompressedLicense :: "string \<Rightarrow> bool" where
  "looksLikeCompressedLicense v \<longleftrightarrow>
     length v \<ge> 20 \<and> no_spaces v \<noteq> [] \<and> (case decodeAnyBase64 (no_spaces v) of Some b \<Rightarrow> hasCompressedMagic b | None \<Rightarrow> False)"

definition inflated :: "string + string \<Rightarrow> license_error + string" where
  "inflated r =
     (case r of Inl e \<Rightarrow> Inl (Inflate e) | Inr out \<Rightarrow> let s = trim_space out in if looksLikeArtifact s then Inr s else Inl NotArtifact)"

definition NormalizeArtifact :: "license_env \<Rightarrow> string \<Rightarrow> license_error + string" where
  "NormalizeArtifact env value0 =
     (let value = no_spaces value0
      in if value = [] then Inl EmptyValue
         else if looksLikeArtifact value \<and> \<not> isl (artifact value) then Inr value
         else case decodeAnyBase64 value of
                None \<Rightarrow> Inl Unrecognized
              | Some d \<Rightarrow>
                  if has_prefix d magicGzip then inflated (map_sum id (take 1048576) (le_gunzip env d))
                  else if has_prefix d magicZstd then inflated (le_unzstd env d)
                  else Inl Unrecognized)"

text \<open>\<open>levels\<close> counts down from 6, where the code counts \<open>depth\<close> up to 5.\<close>

fun resolveLicenseValue :: "license_env \<Rightarrow> nat \<Rightarrow> string \<Rightarrow> license_error + string" where
  "resolveLicenseValue env 0 value0 = Inl TooDeep"
| "resolveLicenseValue env (Suc levels) value0 =
     (let value = trim_space value0
      in if value = [] then Inr []
         else if has_prefix value ''data:'' then Inr (trim_space (drop 5 value))
         else if has_prefix value ''file://'' then map_sum id trim_space (le_read env (drop 7 value))
         else if has_prefix value ''env://'' then resolveLicenseValue env levels (le_getenv env (drop 6 value))
         else if le_isfile env value then map_sum id trim_space (le_read env value)
         else if looksLikeArtifact value \<or> looksLikeCompressedLicense value then Inr value
         else Inr [])"

text \<open>\<open>filepath.Join\<close> of parts that are clean.\<close>

definition file_join :: "string list \<Rightarrow> string" where
  "file_join ps = join ''/'' (filter (\<lambda>p. p \<noteq> []) ps)"

definition systemLicensePaths :: "license_env \<Rightarrow> string list" where
  "systemLicensePaths env =
     (if le_goos env = ''darwin'' then [''/usr/local/etc/db-backup.lic'']
      else if le_goos env = ''windows'' then
        (let appdata = (if le_getenv env ''APPDATA'' \<noteq> [] then le_getenv env ''APPDATA''
                        else file_join [le_getenv env ''USERPROFILE'', ''AppData'', ''Roaming''])
         in [file_join [appdata, ''dbb'', ''db-backup.lic'']])
      else [''/etc/db-backup.lic''])"

definition CandidatePaths :: "license_env \<Rightarrow> string \<Rightarrow> string \<Rightarrow> string list" where
  "CandidatePaths env forced stateDir =
     (if forced = [] then [] else [forced]) @
     (if le_getenv env ''DBBACKUP_LICENSE'' = [] then [] else [le_getenv env ''DBBACKUP_LICENSE'']) @
     (case le_cwd env of Some cwd \<Rightarrow> [file_join [cwd, ''db-backup.lic'']] | None \<Rightarrow> []) @
     (if stateDir = [] then [] else [file_join [stateDir, ''db-backup.lic'']]) @
     [file_join [le_getenv env ''HOME'', ''.local'', ''state'', ''dbb'', ''db-backup.lic'']] @ systemLicensePaths env"

fun load_paths :: "license_env \<Rightarrow> string list \<Rightarrow> license_error + license option" where
  "load_paths env [] = Inr None"
| "load_paths env (p # ps) =
     (case resolveLicenseValue env 6 p of
        Inl e \<Rightarrow> if e = FileMissing then load_paths env ps else Inl e
      | Inr raw \<Rightarrow>
          if raw = [] then load_paths env ps
          else case NormalizeArtifact env raw of
                 Inl e \<Rightarrow> Inl e
               | Inr a \<Rightarrow> (case license_parse env publicKeys a of Inl e \<Rightarrow> Inl e | Inr lic \<Rightarrow> Inr (Some lic)))"

definition license_Load :: "license_env \<Rightarrow> string \<Rightarrow> string \<Rightarrow> license_error + license option" where
  "license_Load env forced stateDir = load_paths env (CandidatePaths env forced stateDir)"

section \<open>The loaded licence and its features\<close>

record license_cache =
  lc_forced :: string
  lc_stateDir :: string
  lc_gen :: nat
  lc_loadedGen :: nat
  lc_valid :: bool
  lc_loaded :: "license_error + license option"

definition SetLicenseFile :: "string \<Rightarrow> license_cache \<Rightarrow> license_cache" where
  "SetLicenseFile p c = c\<lparr>lc_forced := trim_space p\<rparr>"

definition SetStateDir :: "string \<Rightarrow> license_cache \<Rightarrow> license_cache" where
  "SetStateDir p c = c\<lparr>lc_stateDir := trim_space p\<rparr>"

definition license_Reload :: "license_cache \<Rightarrow> license_cache" where
  "license_Reload c = c\<lparr>lc_gen := Suc (lc_gen c)\<rparr>"

definition Installed :: "license_env \<Rightarrow> license_cache \<Rightarrow> license_cache \<times> (license_error + license option)" where
  "Installed env c =
     (let c' = (if \<not> lc_valid c \<or> lc_loadedGen c \<noteq> lc_gen c
                then c\<lparr>lc_loaded := license_Load env (lc_forced c) (lc_stateDir c), lc_loadedGen := lc_gen c, lc_valid := True\<rparr> else c)
      in (c', lc_loaded c'))"

definition license_revoked :: "license_env \<Rightarrow> license \<Rightarrow> bool" where
  "license_revoked env lic \<longleftrightarrow>
     li_LicenseID lic \<noteq> [] \<and> (case le_isRevoked env of Some f \<Rightarrow> f (li_LicenseID lic) | None \<Rightarrow> False)"

definition installedLicense :: "license_env \<Rightarrow> license_cache \<Rightarrow> license_cache \<times> (license_error + license)" where
  "installedLicense env c =
     (case Installed env c of
        (c', Inl e) \<Rightarrow> (c', Inl (Invalid e))
      | (c', Inr None) \<Rightarrow> (c', Inl NoLicense)
      | (c', Inr (Some lic)) \<Rightarrow>
          (c', if license_revoked env lic then Inl RevokedByServer
               else case checkWindow env lic of Some e \<Rightarrow> Inl e | None \<Rightarrow> Inr lic))"

text \<open>The nine functions \<open>Allow...\<close> differ in the feature only.\<close>

definition Allow :: "license_env \<Rightarrow> string \<Rightarrow> license_cache \<Rightarrow> license_cache \<times> license_error option" where
  "Allow env feature c =
     (case installedLicense env c of
        (c', Inl e) \<Rightarrow> (c', Some e)
      | (c', Inr lic) \<Rightarrow> (c', if hasFeature env lic feature (featureSalt feature) then None else Some (NoFeature feature)))"

definition license_Enabled :: "license_env \<Rightarrow> string \<Rightarrow> license_cache \<Rightarrow> license_cache \<times> bool" where
  "license_Enabled env feature c = map_prod id (\<lambda>e. e = None) (Allow env feature c)"

definition IsExpired :: "license_env \<Rightarrow> license option \<Rightarrow> bool" where
  "IsExpired env lic = (case lic of None \<Rightarrow> False | Some l \<Rightarrow> checkWindow env l \<noteq> None)"

definition Community :: "license_env \<Rightarrow> license_cache \<Rightarrow> license_cache \<times> bool" where
  "Community env c =
     (case Installed env c of
        (c', Inr (Some lic)) \<Rightarrow> (c', IsExpired env (Some lic) \<or> license_revoked env lic)
      | (c', _) \<Rightarrow> (c', True))"

definition Edition :: "license_env \<Rightarrow> license_cache \<Rightarrow> string" where
  "Edition env c = (if snd (Community env c) then ''community'' else ''supported'')"

section \<open>What a loaded licence guarantees\<close>

text \<open>
  A licence is genuine when some embedded key verifies the signature of the text it was read
  from, and that text says so: format 1, not revoked, for this program. Its tokens are those
  of the features it names.
\<close>

definition genuine :: "license_env \<Rightarrow> license \<Rightarrow> bool" where
  "genuine env l \<longleftrightarrow>
     (\<exists>payload sig lic pub.
        le_unmarshal env payload = Inr lic \<and> map_of publicKeys (li_KeyID lic) = Some pub \<and> length pub = 32 \<and>
        le_verify env pub payload sig \<and> li_Format lic = 1 \<and> \<not> li_Revoked lic \<and> li_Tool lic = ''db-backup'' \<and>
        l = lic\<lparr>li_sig := sig, li_tokens := map (\<lambda>f. (f, deriveToken env sig (featureSalt f))) (li_Features lic)\<rparr>)"

lemma parse_genuine:
  "license_parse env publicKeys raw = Inr l \<Longrightarrow> genuine env l \<and> checkWindow env l = None"
  unfolding genuine_def license_parse_def
  by (auto split: sum.splits prod.splits option.splits if_splits simp: checkWindow_def Let_def)

lemma load_genuine: "load_paths env ps = Inr (Some l) \<Longrightarrow> genuine env l"
  by (induction env ps rule: load_paths.induct)
    (auto split: sum.splits if_splits dest: parse_genuine)

text \<open>Environments that differ in the clock, the files and the variables only.\<close>

definition same_crypto :: "license_env \<Rightarrow> license_env \<Rightarrow> bool" where
  "same_crypto a b \<longleftrightarrow> le_verify a = le_verify b \<and> le_hmac a = le_hmac b \<and> le_unmarshal a = le_unmarshal b"

lemma genuine_crypto: "same_crypto a b \<Longrightarrow> genuine a l = genuine b l"
  by (simp add: same_crypto_def genuine_def deriveToken_def)

inductive license_run :: "license_env \<Rightarrow> license_cache \<Rightarrow> bool" for env where
  start: "\<not> lc_valid c \<Longrightarrow> license_run env c"
| ask: "license_run env c \<Longrightarrow> same_crypto env env' \<Longrightarrow> license_run env (fst (Installed env' c))"
| reload: "license_run env c \<Longrightarrow> license_run env (license_Reload c)"
| file_set: "license_run env c \<Longrightarrow> license_run env (SetLicenseFile p c)"
| dir_set: "license_run env c \<Longrightarrow> license_run env (SetStateDir p c)"

lemma run_genuine: "license_run env c \<Longrightarrow> lc_valid c \<Longrightarrow> lc_loaded c = Inr (Some l) \<Longrightarrow> genuine env l"
proof (induction arbitrary: l rule: license_run.induct)
  case (ask c env')
  then show ?case
    by (auto simp: Installed_def Let_def license_Load_def genuine_crypto [OF ask.hyps(2)] dest!: load_genuine split: if_splits)
qed (auto simp: license_Reload_def SetLicenseFile_def SetStateDir_def)

lemma installed_genuine:
  assumes "license_run env0 c" and "same_crypto env0 env" and "snd (Installed env c) = Inr (Some l)"
  shows "genuine env l"
proof -
  have "lc_valid (fst (Installed env c))" by (simp add: Installed_def Let_def)
  then have "genuine env0 l" using run_genuine [OF license_run.ask [OF assms(1,2)], of l] assms(3) by (simp add: Installed_def Let_def)
  then show ?thesis by (simp add: genuine_crypto [OF assms(2)])
qed

lemma map_of_tokens: "map_of (map (\<lambda>f. (f, h f)) fs) k = (if k \<in> set fs then Some (h k) else None)"
  by (induction fs) auto

text \<open>Of a genuine licence exactly the named features are granted.\<close>

lemma genuine_feature: "genuine env l \<Longrightarrow> hasFeature env l f (featureSalt f) \<longleftrightarrow> f \<in> set (li_Features l)"
  by (auto simp: genuine_def hasFeature_def map_of_tokens split: if_splits)

text \<open>
  (C21) A feature is allowed only by a genuine licence: signed with an embedded key, naming the
  feature, inside its time window now, and not known as revoked, whatever loads, reloads and
  changes of the licence file came before.
\<close>

theorem feature_needs_license:
  assumes "license_run env0 c" and "same_crypto env0 env" and "snd (Allow env feature c) = None"
  shows "\<exists>l. snd (Installed env c) = Inr (Some l) \<and> genuine env l \<and> feature \<in> set (li_Features l) \<and>
    checkWindow env l = None \<and> \<not> license_revoked env l"
proof -
  obtain l where l: "snd (Installed env c) = Inr (Some l)" "\<not> license_revoked env l" "checkWindow env l = None"
      "hasFeature env l feature (featureSalt feature)"
    using assms(3) by (auto simp: Allow_def installedLicense_def split: prod.splits sum.splits option.splits if_splits)
  have "genuine env l" using installed_genuine [OF assms(1,2) l(1)] .
  then show ?thesis using l genuine_feature by blast
qed

text \<open>Conversely such a licence is enough; the program then runs as the supported edition.\<close>

lemma license_enough:
  assumes "snd (Installed env c) = Inr (Some l)" and "genuine env l" and "feature \<in> set (li_Features l)"
    and "checkWindow env l = None" and "\<not> license_revoked env l"
  shows "snd (Allow env feature c) = None" "Edition env c = ''supported''"
proof -
  obtain c' where i: "Installed env c = (c', Inr (Some l))" using assms(1) by (cases "Installed env c") auto
  show "snd (Allow env feature c) = None"
    using assms genuine_feature [OF assms(2)] by (simp add: Allow_def installedLicense_def i)
  show "Edition env c = ''supported''" using assms by (simp add: Edition_def Community_def IsExpired_def i)
qed

text \<open>Without a licence that counts the edition is the community one and no feature is allowed.\<close>

lemma community_no_feature:
  "snd (Community env c) \<Longrightarrow> snd (Allow env feature c) \<noteq> None"
  by (auto simp: Community_def Allow_def installedLicense_def IsExpired_def split: prod.splits sum.splits option.splits if_splits)

section \<open>Values and files\<close>

lemma inflated_artifact: "inflated r = Inr a \<Longrightarrow> looksLikeArtifact a"
  by (auto simp: inflated_def Let_def split: sum.splits if_splits)

text \<open>What is handed to the parser has the form of a licence, whatever encoding it came in.\<close>

lemma normalized_artifact: "NormalizeArtifact env v = Inr a \<Longrightarrow> looksLikeArtifact a"
  by (auto simp: NormalizeArtifact_def Let_def dest: inflated_artifact split: if_splits option.splits)

text \<open>
  A variable that names itself, directly or over others, does not hang the search for the
  licence: the search ends with an error.
\<close>

theorem env_cycle_detected:
  assumes "\<And>v. v \<in> vars \<Longrightarrow> \<exists>w \<in> vars. le_getenv env v = ''env://'' @ w" and "v \<in> vars"
    and "\<And>w. w \<in> vars \<Longrightarrow> trim_space (''env://'' @ w) = ''env://'' @ w"
  shows "resolveLicenseValue env n (''env://'' @ v) = Inl TooDeep"
  using assms(2)
proof (induction n arbitrary: v)
  case (Suc n)
  obtain w where w: "w \<in> vars" "le_getenv env v = ''env://'' @ w" using assms(1) Suc.prems by blast
  have "resolveLicenseValue env (Suc n) (''env://'' @ v) = resolveLicenseValue env n (''env://'' @ w)"
    using assms(3) [OF Suc.prems] w(2) by (simp add: Let_def)
  also have "\<dots> = Inl TooDeep" using w(1) by (rule Suc.IH)
  finally show ?case .
qed simp

theorem env_cycle_detected_witness:
  "resolveLicenseValue \<lparr>le_now = zero_time, le_local = utc, le_verify = (\<lambda>_ _ _. False), le_hmac = (\<lambda>_ _. []),
       le_unmarshal = (\<lambda>_. Inl []), le_gunzip = (\<lambda>_. Inl []), le_unzstd = (\<lambda>_. Inl []), le_read = (\<lambda>_. Inl FileMissing),
       le_isfile = (\<lambda>_. False), le_getenv = (\<lambda>v. if v = ''A'' then ''env://B'' else ''env://A''), le_cwd = None, le_goos = ''linux'',
       le_isRevoked = None\<rparr> 6 (''env://'' @ ''A'') = Inl TooDeep"
  by (rule env_cycle_detected [of "{''A'', ''B''}"]) (auto simp: trim_space_def is_space_def)

text \<open>A licence on disk, for the examples: the payload is the byte \<open>A\<close>, signed by itself.\<close>

definition demo_license :: license where
  "demo_license = \<lparr>li_Customer = \<lparr>cu_Name = ''ACME'', cu_Email = [], cu_OrgID = []\<rparr>, li_ExpiresAt = ''2030-01-01T00:00:00Z'',
     li_Features = [''storage''], li_Format = 1, li_IssuedAt = [], li_KeyID = ''nfrastack-2026-01'', li_LicenseID = ''L1'',
     li_MaxInstances = None, li_NotBefore = [], li_Revoked = False, li_Tier = ''pro'', li_Tool = ''db-backup'', li_sig = [], li_tokens = []\<rparr>"

definition demo_license_env :: license_env where
  "demo_license_env = \<lparr>le_now = date 2026 11 16 12 0 0 0 utc, le_local = utc, le_verify = (\<lambda>_ p s. p = s), le_hmac = (\<lambda>k m. k @ m),
     le_unmarshal = (\<lambda>_. Inr demo_license), le_gunzip = (\<lambda>_. Inl []), le_unzstd = (\<lambda>_. Inl []),
     le_read = (\<lambda>p. if p = ''/etc/db-backup.lic'' then Inr ''QQ.QQ'' else Inl FileMissing),
     le_isfile = (\<lambda>p. p = ''/etc/db-backup.lic''), le_getenv = (\<lambda>_. []), le_cwd = None, le_goos = ''linux'',
     le_isRevoked = Some (\<lambda>i. i = ''L0'')\<rparr>"

definition demo_cache :: license_cache where
  "demo_cache = \<lparr>lc_forced = ''/etc/db-backup.lic'', lc_stateDir = [], lc_gen = 0, lc_loadedGen = 0, lc_valid = False, lc_loaded = Inr None\<rparr>"

lemma assembleKey_length: "length assembleKey = 32"
  by (simp add: assembleKey_def bytes_def keySeedA_def keySeedB_def maskSeed_def)

definition demo_signed :: license where
  "demo_signed = demo_license\<lparr>li_sig := ''A'', li_tokens := [(''storage'', deriveToken demo_license_env ''A'' (featureSalt ''storage''))]\<rparr>"

lemma demo_window: "checkWindow demo_license_env demo_license = None" "checkWindow demo_license_env demo_signed = None"
proof -
  show w: "checkWindow demo_license_env demo_license = None" by code_simp
  have "li_NotBefore demo_signed = li_NotBefore demo_license" "li_ExpiresAt demo_signed = li_ExpiresAt demo_license"
    by (simp_all add: demo_signed_def)
  with w show "checkWindow demo_license_env demo_signed = None" by (simp only: checkWindow_def)
qed

lemma demo_load: "license_Load demo_license_env ''/etc/db-backup.lic'' [] = Inr (Some demo_signed)"
proof -
  have "char_of (65 :: nat) = CHR ''A''" by code_simp
  then have d: "decodeB64 ''QQ'' = Some ''A''" by (simp add: decodeB64_def b64_decode_def char_names url_alphabet_def octets_def)
  then have a: "artifact ''QQ.QQ'' = Inr (''A'', ''A'')" by (simp add: artifact_def Let_def)
  have "no_spaces ''QQ.QQ'' = ''QQ.QQ''" by code_simp
  moreover have l: "looksLikeArtifact ''QQ.QQ''" using d by (simp add: looksLikeArtifact_def contains_any_def bslash_def)
  ultimately have "NormalizeArtifact demo_license_env ''QQ.QQ'' = Inr ''QQ.QQ''"
    using a by (simp add: NormalizeArtifact_def Let_def)
  moreover have "license_parse demo_license_env publicKeys ''QQ.QQ'' = Inr demo_signed"
    using demo_window(1)
    by (simp add: license_parse_def a demo_signed_def publicKeys_def assembleKey_length) (simp add: demo_license_env_def demo_license_def assembleKey_length)
  moreover have "\<exists>ps. CandidatePaths demo_license_env ''/etc/db-backup.lic'' [] = ''/etc/db-backup.lic'' # ps" by (simp add: CandidatePaths_def)
  moreover have "resolveLicenseValue demo_license_env 6 ''/etc/db-backup.lic'' = Inr ''QQ.QQ''" by code_simp
  ultimately show ?thesis by (auto simp: license_Load_def)
qed

theorem feature_needs_license_witness:
  "snd (Allow demo_license_env ''storage'' demo_cache) = None \<and>
   (\<exists>l. snd (Installed demo_license_env demo_cache) = Inr (Some l) \<and> genuine demo_license_env l \<and> ''storage'' \<in> set (li_Features l) \<and>
     checkWindow demo_license_env l = None \<and> \<not> license_revoked demo_license_env l)"
proof -
  have a: "snd (Allow demo_license_env ''storage'' demo_cache) = None"
  proof -
    have "\<not> license_revoked demo_license_env demo_signed"
      by (simp add: license_revoked_def demo_signed_def demo_license_def demo_license_env_def)
    moreover have "hasFeature demo_license_env demo_signed ''storage'' (featureSalt ''storage'')"
      by (simp add: hasFeature_def demo_signed_def)
    ultimately show ?thesis
      by (simp add: Allow_def installedLicense_def Installed_def demo_cache_def demo_load demo_window)
  qed
  have r: "license_run demo_license_env demo_cache" by (rule license_run.start) (simp add: demo_cache_def)
  have "same_crypto demo_license_env demo_license_env" by (simp add: same_crypto_def)
  from feature_needs_license [OF r this a] a show ?thesis by blast
qed

section \<open>The recorded revocation\<close>

record revocation_state =
  rv_LicenseID :: string
  rv_Revoked :: bool
  rv_SeenAt :: string

definition revocationPath :: "string \<Rightarrow> string" where
  "revocationPath stateDir = (if stateDir = [] then [] else file_join [stateDir, ''revocation.json''])"

text \<open>
  \<open>enc\<close> and \<open>dec\<close> are the encoding of the state as JSON; \<open>files\<close> are the contents of the files.
  \<open>write_err\<close> and \<open>rename_err\<close> are the errors of the file system.
\<close>

definition MarkRevoked ::
  "(revocation_state \<Rightarrow> string) \<Rightarrow> string option \<Rightarrow> string option \<Rightarrow> string \<Rightarrow> string \<Rightarrow> string \<Rightarrow> bool \<Rightarrow>
    (string \<rightharpoonup> string) \<Rightarrow> (string \<rightharpoonup> string) \<times> string option" where
  "MarkRevoked enc write_err rename_err stateDir now licenseID rev0 fs =
     (let p = revocationPath stateDir; tmp = p @ ''.tmp''
      in if p = [] \<or> licenseID = [] then (fs, None)
         else if write_err \<noteq> None then (fs, write_err)
         else let fs1 = fs(tmp \<mapsto> enc \<lparr>rv_LicenseID = licenseID, rv_Revoked = rev0, rv_SeenAt = now\<rparr>)
              in if rename_err \<noteq> None then (fs1, rename_err) else (fs1(p := fs1 tmp, tmp := None), None))"

definition IsRevokedCached :: "(string \<Rightarrow> revocation_state option) \<Rightarrow> string \<Rightarrow> (string \<rightharpoonup> string) \<Rightarrow> string \<Rightarrow> bool" where
  "IsRevokedCached dec stateDir fs licenseID =
     (let p = revocationPath stateDir
      in if p = [] \<or> licenseID = [] then False
         else case fs p of
                None \<Rightarrow> False
              | Some b \<Rightarrow> (case dec b of None \<Rightarrow> False | Some st \<Rightarrow> rv_Revoked st \<and> rv_LicenseID st = licenseID))"

text \<open>
  (C25) What the server last said about a licence is remembered: after it was recorded, the
  licence counts as revoked exactly if the server said so, also in the next run of the
  program, and a record that could not be written leaves the answer as it was.
\<close>

theorem revocation_recorded:
  assumes "\<And>st. dec (enc st) = Some st" and "stateDir \<noteq> []" and "licenseID \<noteq> []"
    and "MarkRevoked enc write_err rename_err stateDir now licenseID rev0 fs = (fs', err)"
  shows "IsRevokedCached dec stateDir fs' licenseID = (if err = None then rev0 else IsRevokedCached dec stateDir fs licenseID)"
proof -
  have p: "revocationPath stateDir \<noteq> []" using assms(2) by (simp add: revocationPath_def file_join_def)
  have t: "revocationPath stateDir \<noteq> revocationPath stateDir @ ''.tmp''" by simp
  show ?thesis using assms p by (auto simp: MarkRevoked_def IsRevokedCached_def Let_def split: if_splits)
qed

text \<open>An encoding of the state, for the example.\<close>

definition demo_enc :: "revocation_state \<Rightarrow> string" where
  "demo_enc st = (if rv_Revoked st then CHR ''r'' else CHR ''n'') # b64_encode std_alphabet (rv_LicenseID st) @ ''.'' @ b64_encode std_alphabet (rv_SeenAt st)"

definition demo_dec :: "string \<Rightarrow> revocation_state option" where
  "demo_dec b =
     (case splitn2 (CHR ''.'') (tl b) of
        [i, t] \<Rightarrow>
          (case (b64_decode std_alphabet True i, b64_decode std_alphabet True t) of
             (Some i', Some t') \<Rightarrow> Some \<lparr>rv_LicenseID = i', rv_Revoked = (hd b = CHR ''r''), rv_SeenAt = t'\<rparr> | _ \<Rightarrow> None)
      | _ \<Rightarrow> None)"

lemma demo_enc_dec: "demo_dec (demo_enc st) = Some st"
proof -
  have "CHR ''.'' \<notin> set (b64_encode std_alphabet s)" for s
    using b64_encode_set [OF std_alphabet_ok(1), of s] by (auto simp: std_alphabet_def)
  then show ?thesis by (simp add: demo_dec_def demo_enc_def splitn2_sep std_b64_roundtrip)
qed

theorem revocation_recorded_witness:
  "IsRevokedCached demo_dec ''/var'' (fst (MarkRevoked demo_enc None None ''/var'' ''now'' ''L1'' True Map.empty)) ''L1''"
proof -
  obtain fs err where m: "MarkRevoked demo_enc None None ''/var'' ''now'' ''L1'' True Map.empty = (fs, err)"
    by (cases "MarkRevoked demo_enc None None ''/var'' ''now'' ''L1'' True Map.empty")
  then have "err = None" by (simp add: MarkRevoked_def Let_def revocationPath_def file_join_def split: if_splits)
  then show ?thesis using revocation_recorded [OF demo_enc_dec _ _ m] m by simp
qed

end
