(* ===== verification/Spec2Isabelle.thy ===== *)
theory Spec2Isabelle
  imports NaturalLanguage PostBackup Scheduler Commands Redis MsSql Sqlite MySqlRestore PgDump License
begin

text \<open>
  db-backup takes backups of databases on a schedule, keeps them in a storage, prunes and
  archives them, and restores them. This development models the core of the program, the Go
  code under \<open>src/src/internal\<close>, the code of the Supported edition under \<open>src/src/supported\<close> and
  the commands of \<open>src/src/cmd/dbb\<close>, from the configuration of a job to the files in the
  storage and back to a database. The theories follow the parts of the program.

  \<^bold>\<open>Parts and theories.\<close>

  \<^item> \<open>Prelude\<close>: 64-bit integers with Go's truncating division, the functions of \<open>strings\<close> and
    \<open>strconv\<close> on byte strings, and sorting: the locale \<open>slice_sort\<close> states what \<open>sort.Slice\<close>
    promises and is interpreted on an insertion sort.
  \<^item> \<open>GoTime\<close>: \<open>time.Time\<close> as nanoseconds with a location, a location being the offset in force
    at each second; \<open>time.Date\<close>, \<open>Truncate\<close> and the calendar fields.
  \<^item> \<open>Retention\<close>: \<open>retention/retention.go\<close>, \<open>gfs.go\<close> and the tiers of the Supported edition.
    \<open>ApplyRetentionAt\<close> is the whole decision, with the chain walk \<open>follow_chain\<close>, the keep rules
    and the tiers as the code orders them.
  \<^item> \<open>Schedule\<close>, \<open>ScheduleParse\<close>, \<open>NaturalLanguage\<close>: \<open>config/schedule.go\<close> and the days, limits and
    phrases of \<open>supported/config\<close>. Cron fields have a denotation against which validation and
    both matchers are proved.
  \<^item> \<open>Cron\<close>: \<open>scheduler/cron.go\<close>, the waits of a job and the report of missed runs.
  \<^item> \<open>Regex\<close>, \<open>Glob\<close>: the parts of \<open>regexp\<close> and \<open>path.Match\<close> the code uses, as leftmost
    backtracking matchers.
  \<^item> \<open>Storage\<close>: \<open>storage/storage.go\<close>. The state is a tree of directories and files; the locale
    \<open>storage\<close> is the interface that the clients rely on, and the filesystem satisfies it.
  \<^item> \<open>Config\<close>, \<open>ResolveJob\<close>: the data of \<open>config\<close>, table filters, secrets and \<open>resolveJob\<close>, which
    fills a job from profiles and defaults in the order of the code.
  \<^item> \<open>Filename\<close>: the names of backups in \<open>database/common/filename.go\<close>, \<open>retention/sidecar.go\<close> and
    \<open>runner/filename.go\<close>.
  \<^item> \<open>Catalog\<close>: sidecars, listing, deletion, archive and chains. The locale \<open>catalog\<close> extends
    \<open>storage\<close> by what companion files need; its lemmas hold for every such storage.
  \<^item> \<open>Compress\<close>, \<open>Encryption\<close>: the tables, the parallel segmented writer, and the OpenSSL format
    over any block cipher and any key derivation.
  \<^item> \<open>Runner\<close>: \<open>Run\<close> of \<open>runner/runner.go\<close>. \<open>Run\<close> splits a job and runs its parts one after the
    other; \<open>plan_run\<close> makes all decisions without changing anything, \<open>execute\<close> carries them out.
    The locale \<open>run_storage\<close> extends \<open>catalog\<close>.
  \<^item> \<open>PostBackup\<close>: prune and archive after a backup, maintenance, \<open>runOnceJob\<close> and \<open>RunOnce\<close>.
  \<^item> \<open>Scheduler\<close>: the goroutines of the scheduler as a step relation over phases, slots, the
    clock and the signal.
  \<^item> \<open>TextCodec\<close>: lines, query results, output with its error, hexadecimal and base64 text. The
    locale \<open>line_escape\<close> is what the dump formats rely on of the way they escape characters; it
    is interpreted on the escapes of Redis, MySQL, \<open>COPY\<close> and on hexadecimal text.
  \<^item> \<open>EngineCommon\<close>: \<open>database/common\<close> and the \<open>server.go\<close> of the engines: database names,
    server versions, the protocol map, the retry loop of the connectivity check.
  \<^item> \<open>Redis\<close>: \<open>engine/redis\<close>, the dump of every type of key and the restore of its lines.
  \<^item> \<open>MySql\<close>, \<open>MySqlRestore\<close>: \<open>engine/mysql\<close>. \<open>streamRows\<close> writes the rows in batches;
    \<open>stmt_splitter\<close> finds the statements again, and \<open>rewriteStatement\<close> moves them to the target.
  \<^item> \<open>MsSql\<close>: \<open>engine/mssql\<close>. \<open>ms_dumpDatabase\<close> writes the sections of a dump, \<open>row_loop\<close> the rows in
    batches, \<open>view_loop\<close> orders the views, and \<open>ms_lines\<close> finds the batches again.
  \<^item> \<open>Sqlite\<close>: \<open>engine/sqlite\<close>. \<open>sq_Dump\<close> writes tables, statistics, counters and objects, and
    \<open>sq_lines\<close> finds the statements again; a dump is described by the relation \<open>dumps_as\<close>.
  \<^item> \<open>PgCopy\<close>, \<open>PgRestore\<close>, \<open>PgDump\<close>: \<open>engine/postgres\<close>, the text of values and \<open>COPY\<close> blocks,
    the restore of a stream, and the dump of a database in the order of \<open>dumpDatabase\<close>.
  \<^item> \<open>License\<close>: \<open>internal/license\<close> and the record of revocations of \<open>supported/license\<close>; the
    cache of the loaded licence is a record, its use the relation \<open>license_run\<close>.
  \<^item> \<open>RestoreCmd\<close>: \<open>retention/unpack.go\<close>, the restore section of the configuration and
    \<open>cmdRestore\<close>. \<open>plan_restore\<close> and \<open>from_backup\<close> collect the settings, \<open>restore_order\<close> resolves
    the chain, \<open>run_restore\<close> opens its files and hands them to the engine.
  \<^item> \<open>Commands\<close>: the commands \<open>verify\<close>, \<open>prune\<close>, \<open>archive\<close>, \<open>list\<close>, \<open>dump\<close> and \<open>maintain\<close> of
    \<open>cmd/dbb\<close>, from their flags and the configuration to the operations of the other theories.

  \<^bold>\<open>How the parts meet.\<close> A schedule gives the waits of \<open>Cron\<close> to the phases of \<open>Scheduler\<close>; a job
  that is let through calls \<open>runOnceJob\<close>, which calls \<open>Run\<close> and then \<open>postBackup\<close>; both open a
  storage by the registry of \<open>Storage\<close> and use it through \<open>Catalog\<close>; \<open>postBackup\<close> asks
  \<open>Retention\<close> what to delete. \<open>RestoreCmd\<close> reads the sidecars of \<open>Catalog\<close>, undoes what
  \<open>Compress\<close> and \<open>Encryption\<close> did, and gives streams to an engine; the theories of the engines
  say what a dump of theirs is and what a restore makes of it. Every operation takes the state of the storages and returns it.
  Errors are values of the sum and option types of the operations, and following a nil
  pointer is the error \<open>Panic\<close>.

  \<^bold>\<open>What the theorems show.\<close> Data is not lost: a prune keeps every ancestor of an incremental
  backup, a run replaces nothing, a failed run changes nothing and is followed by nothing, a
  dry run of the runner changes nothing, archiving conserves every file, an upload is all or
  nothing. Decisions are exact: what a policy deletes, what an archive run moves, which minute
  a cron expression fires at, what a blackout covers. Formats are read back: sidecars, time
  stamps and encrypted streams. Dumps are restored: the rows and keys that the engines for
  PostgreSQL, MySQL, SQL Server, SQLite and Redis dump arrive at the restoring server unchanged, tables
  come after their parents and views behind the views they use, partitions and privileges are complete, and an incremental backup is restored
  with its whole chain, oldest first. A backup is verified by the sum of what was dumped, and the
  dry runs of \<open>prune\<close> and \<open>archive\<close> name exactly what the commands delete or move. A feature of the Supported edition needs a genuine
  licence. The scheduler keeps its slots, lets only admitted jobs run,
  and can be ended by a signal. Further theorems show where the code departs from its
  intent: the dry run that prunes, the expression without a wait that keeps the program from
  ending, the exit code that is always 0, the start inside a blackout, the archive whose
  retention misses it, the unknown job whose prune goes elsewhere, the filter that a split job loses, the empty rows and truncated blocks
  that a restore loses, the encrypted file that is passed on as it is, the views whose order is
  never found, and others that stand
  beside the definitions they are about.

  \<^bold>\<open>Bounds and fuel.\<close> \<open>cron_loop\<close> counts the 525600 minutes of the code. \<open>ResolveSecret\<close> follows
  references without a limit, as the code does, and is a partial function. Reading the
  encrypted stream has the length of the source as fuel, and the round trip shows that this
  is enough. The loops over the pages of a Redis server and the retry loop of the connectivity
  check end when the server lets them, and are partial functions; so is the loop that orders the
  views of SQL Server, which is shown to end exactly when the names of the views differ. The chain of a restore has
  the 64 steps of the code, nested partitions its 8 levels, references of a licence its depth.
  All other loops are total functions.

  \<^bold>\<open>Parameters.\<close> Database servers and their answers, compressors, ciphers, signatures, the
  operating system's clock and environment are arguments or fields of records such as
  \<open>run_env\<close>, \<open>sched_env\<close>, \<open>restore_env\<close>, \<open>cmd_env\<close>, \<open>license_env\<close>, \<open>pg_catalog\<close>, \<open>mssql_reader\<close>, \<open>sqlite_reader\<close> and \<open>redis_reader\<close>. Sorting
  functions are parameters with the contract of \<open>slice_sort\<close>.

  \<^bold>\<open>Not modelled.\<close> The engines for MongoDB, CouchDB and InfluxDB, sessions and
  transactions of the others, and the sections of a PostgreSQL dump that only print what the
  catalogue returns (fields of \<open>pg_catalog\<close>); the dialogues and the output of the commands; the
  remote storages (requests to services, which enter as the interface \<open>storage\<close>); YAML documents
  and their inclusion (a third-party parser); age and OpenPGP (third party); logging, progress,
  statistics and requests to the licence server. Strings are byte strings, case folding is that
  of ASCII, and file ownership and mode bits are not part of the state.
\<close>

end
